(* ===== verification/Prelude.thy ===== *)
theory Prelude
  imports Main "HOL-Library.Word" "HOL-Library.List_Lexorder" "HOL-Library.Char_ord"
begin

text \<open>
  Shared vocabulary of the development: names for the machine integers of the C++ code, the
  decimal printing that \<open>std::to_string\<close> and \<open>operator<<\<close> perform, \<open>std::map\<close> as an
  association list ordered by its keys, and the generic lemmas on lists and fixed-size arrays
  that the component theories use.
\<close>

section \<open>Machine integers\<close>

type_synonym u32 = "32 word"
type_synonym u64 = "64 word"

text \<open>
  Signed 64-bit values are kept as \<open>int\<close> with the range as a predicate, because leaving the
  range is undefined behaviour in C++ and not wrap-around.
\<close>

definition int64_max :: int where
  "int64_max = 9223372036854775807"

definition in_int64 :: "int \<Rightarrow> bool" where
  "in_int64 x \<longleftrightarrow> - int64_max - 1 \<le> x \<and> x \<le> int64_max"

named_theorems state_frame \<open>fields of a state record that an operation leaves alone\<close>
named_theorems invariant_rules \<open>operations keep the invariant of their component\<close>

section \<open>Decimal numbers as text\<close>

text \<open>\<open>nul\<close> is the terminating byte of a C string.\<close>

abbreviation nul :: char where
  "nul \<equiv> CHR 0x00"

definition digit_char :: "nat \<Rightarrow> char" where
  "digit_char d = char_of (48 + d)"

definition digit_value :: "char \<Rightarrow> nat" where
  "digit_value c = of_char c - 48"

definition is_digit :: "char \<Rightarrow> bool" where
  "is_digit c \<longleftrightarrow> 48 \<le> (of_char c :: nat) \<and> (of_char c :: nat) \<le> 57"

fun to_dec :: "nat \<Rightarrow> string" where
  "to_dec n = (if n < 10 then [digit_char n] else to_dec (n div 10) @ [digit_char (n mod 10)])"

declare to_dec.simps [simp del]

definition dec_value :: "string \<Rightarrow> nat" where
  "dec_value s = foldl (\<lambda>acc c. 10 * acc + digit_value c) 0 s"

definition show_u32 :: "u32 \<Rightarrow> string" where
  "show_u32 w = to_dec (unat w)"

definition show_u64 :: "u64 \<Rightarrow> string" where
  "show_u64 w = to_dec (unat w)"

definition show_int :: "int \<Rightarrow> string" where
  "show_int i = (if i < 0 then CHR ''-'' # to_dec (nat (- i)) else to_dec (nat i))"

lemma digit_value_digit_char [simp]: "d < 10 \<Longrightarrow> digit_value (digit_char d) = d"
  by (simp add: digit_value_def digit_char_def)

lemma is_digit_digit_char [simp]: "d < 10 \<Longrightarrow> is_digit (digit_char d)"
  by (simp add: is_digit_def digit_char_def)

lemma dec_value_snoc [simp]: "dec_value (s @ [c]) = 10 * dec_value s + digit_value c"
  by (simp add: dec_value_def)

lemma dec_value_to_dec [simp]: "dec_value (to_dec n) = n"
proof (induction n rule: to_dec.induct)
  case (1 n)
  show ?case
  proof (cases "n < 10")
    case True
    then show ?thesis by (simp add: to_dec.simps [of n] dec_value_def)
  next
    case False
    with "1" show ?thesis by (simp add: to_dec.simps [of n])
  qed
qed

lemma to_dec_digits: "c \<in> set (to_dec n) \<Longrightarrow> is_digit c"
proof (induction n rule: to_dec.induct)
  case (1 n)
  then show ?case by (cases "n < 10") (auto simp: to_dec.simps [of n])
qed

lemma to_dec_nonempty [simp]: "to_dec n \<noteq> []"
  by (subst to_dec.simps) simp

lemma to_dec_inj [simp]: "to_dec m = to_dec n \<longleftrightarrow> m = n"
  by (metis dec_value_to_dec)

lemma show_u32_inj [simp]: "show_u32 a = show_u32 b \<longleftrightarrow> a = b"
  by (simp add: show_u32_def word_unat_eq_iff)

lemma show_u64_inj [simp]: "show_u64 a = show_u64 b \<longleftrightarrow> a = b"
  by (simp add: show_u64_def word_unat_eq_iff)

section \<open>Ordered maps\<close>

text \<open>
  \<open>std::map\<close> iterates in the order of its keys, so it is an association list with strictly
  increasing keys; \<open>find\<close> is \<open>map_of\<close>, \<open>m[k] = v\<close> is \<open>omap_set\<close>, \<open>erase\<close> is
  \<open>omap_erase\<close>.  The order on \<open>string\<close> is the lexicographic one on bytes, as
  \<open>std::less<std::string>\<close> has it.
\<close>

type_synonym ('k, 'v) omap = "('k \<times> 'v) list"

fun omap_set :: "'k::linorder \<Rightarrow> 'v \<Rightarrow> ('k, 'v) omap \<Rightarrow> ('k, 'v) omap" where
  "omap_set k v [] = [(k, v)]"
| "omap_set k v (p # m) =
     (if fst p < k then p # omap_set k v m
      else if fst p = k then (k, v) # m
      else (k, v) # p # m)"

definition omap_erase :: "'k \<Rightarrow> ('k, 'v) omap \<Rightarrow> ('k, 'v) omap" where
  "omap_erase k m = filter (\<lambda>p. fst p \<noteq> k) m"

definition omap_ok :: "('k::linorder, 'v) omap \<Rightarrow> bool" where
  "omap_ok m \<longleftrightarrow> sorted_wrt (<) (map fst m)"

lemma omap_ok_Nil [simp, intro]: "omap_ok []"
  by (simp add: omap_ok_def)

lemma omap_find_set [simp]: "map_of (omap_set k v m) = (map_of m)(k \<mapsto> v)"
  by (induction m) (auto simp: fun_eq_iff)

lemma omap_find_erase [simp]: "map_of (omap_erase k m) = (map_of m)(k := None)"
  by (induction m) (auto simp: omap_erase_def fun_eq_iff)

lemma omap_keys_set [simp]: "fst ` set (omap_set k v m) = insert k (fst ` set m)"
  by (induction m) auto

lemma omap_ok_set [intro]: "omap_ok m \<Longrightarrow> omap_ok (omap_set k v m)"
proof (induction m)
  case Nil
  then show ?case by (simp add: omap_ok_def)
next
  case (Cons p m)
  have "x \<in> fst ` set (omap_set k v m) \<Longrightarrow> fst p < k \<Longrightarrow> fst p < x" for x
    using Cons.prems by (auto simp: omap_ok_def)
  with Cons show ?case
    by (fastforce simp: omap_ok_def)
qed

lemma omap_ok_erase [intro]: "omap_ok m \<Longrightarrow> omap_ok (omap_erase k m)"
  by (induction m) (auto simp: omap_ok_def omap_erase_def)

lemma omap_ok_distinct: "omap_ok m \<Longrightarrow> distinct (map fst m)"
  by (simp add: omap_ok_def strict_sorted_iff)

lemma omap_find_iff: "omap_ok m \<Longrightarrow> map_of m k = Some v \<longleftrightarrow> (k, v) \<in> set m"
  by (simp add: omap_ok_distinct)

section \<open>Lists and arrays\<close>

lemma omap_erase_set: "map_of m k = None \<Longrightarrow> omap_erase k (omap_set k v m) = m"
proof -
  assume "map_of m k = None"
  then have k: "k \<notin> fst ` set m" by (simp add: map_of_eq_None_iff)
  then have "filter (\<lambda>p. fst p \<noteq> k) m = m" by (auto simp: filter_id_conv)
  with k show ?thesis by (induction m) (auto simp: omap_erase_def)
qed

lemma take_list_update_eq: "n \<le> i \<Longrightarrow> take n (xs[i := x]) = take n xs"
  by simp

lemma take_Suc_update [simp]:
  "n < length xs \<Longrightarrow> take (Suc n) (xs[n := x]) = take n xs @ [x]"
  by (simp add: take_Suc_conv_app_nth)

lemma map_update_same:
  "i < length xs \<Longrightarrow> f x = f (xs ! i) \<Longrightarrow> map f (xs[i := x]) = map f xs"
  by (simp add: map_update list_update_same_conv)

end
