(* ===== verification/Interfaces.thy ===== *)
theory Interfaces
  imports Prelude
begin

text \<open>
  The contracts between components, as locales.  \<open>freshness\<close> is a strict weak order "is newer
  than"; \<open>newest_register\<close> is a store that keeps, per key, the newest value offered so far
  (the message history, the source roots of a sample and the normalised roots of a record are
  such stores); \<open>best_choice\<close> is a scan that keeps the best of the candidates it has seen;
  \<open>lossy_fifo\<close> is a bounded queue that gives up its oldest element when it is full.
\<close>

section \<open>Freshness\<close>

locale freshness =
  fixes newer :: "'v \<Rightarrow> 'v \<Rightarrow> bool"
  assumes newer_irrefl: "\<not> newer a a"
    and newer_trans: "newer a b \<Longrightarrow> newer b c \<Longrightarrow> newer a c"
    and not_newer_trans: "\<not> newer a b \<Longrightarrow> \<not> newer b c \<Longrightarrow> \<not> newer a c"
begin

lemma newer_asym: "newer a b \<Longrightarrow> \<not> newer b a"
  using newer_irrefl newer_trans by blast

end

section \<open>Registers that keep the newest value per key\<close>

locale newest_register = freshness newer
  for newer :: "'v \<Rightarrow> 'v \<Rightarrow> bool" +
  fixes key :: "'v \<Rightarrow> 'k"
    and lookup :: "'m \<Rightarrow> 'k \<Rightarrow> 'v option"
    and offer :: "'v \<Rightarrow> 'm \<Rightarrow> 'm"
  assumes lookup_offer_same:
      "lookup (offer v m) (key v) =
         Some (case lookup m (key v) of None \<Rightarrow> v | Some w \<Rightarrow> if newer v w then v else w)"
    and lookup_offer_other: "k \<noteq> key v \<Longrightarrow> lookup (offer v m) k = lookup m k"
begin

lemma offers_domain:
  "lookup (fold offer vs m) k \<noteq> None \<longleftrightarrow> lookup m k \<noteq> None \<or> k \<in> key ` set vs"
proof (induction vs arbitrary: m)
  case Nil
  then show ?case by simp
next
  case (Cons v vs)
  have "lookup (offer v m) k \<noteq> None \<longleftrightarrow> lookup m k \<noteq> None \<or> k = key v"
    by (cases "k = key v") (simp_all add: lookup_offer_same lookup_offer_other)
  with Cons show ?case by auto
qed

lemma offers_sound:
  assumes "lookup (fold offer vs m) k = Some w"
  shows "lookup m k = Some w \<or> w \<in> set vs \<and> key w = k"
  using assms
proof (induction vs arbitrary: m)
  case Nil
  then show ?case by simp
next
  case (Cons v vs)
  from Cons.prems have "lookup (offer v m) k = Some w \<or> w \<in> set vs \<and> key w = k"
    by (intro Cons.IH) simp
  then show ?case
    by (cases "k = key v")
      (auto simp: lookup_offer_same lookup_offer_other split: option.splits if_splits)
qed

lemma offers_newest:
  assumes "lookup (fold offer vs m) k = Some w"
    and "v \<in> set vs \<and> key v = k \<or> lookup m k = Some v"
  shows "\<not> newer v w"
  using assms
proof (induction vs arbitrary: m v)
  case Nil
  then show ?case by (auto simp: newer_irrefl)
next
  case (Cons u vs)
  from Cons.prems have rest: "lookup (fold offer vs (offer u m)) k = Some w"
    by simp
  show ?case
  proof (cases "k = key u")
    case False
    with Cons.prems have "v \<in> set vs \<and> key v = k \<or> lookup (offer u m) k = Some v"
      by (auto simp: lookup_offer_other)
    with rest show ?thesis by (rule Cons.IH)
  next
    case True
    then obtain x where x: "lookup (offer u m) k = Some x"
      by (simp add: lookup_offer_same)
    then have "\<not> newer x w" by (intro Cons.IH [OF rest]) simp
    moreover have "v \<in> set vs \<and> key v = k \<or> \<not> newer v x"
      using Cons.prems(2) x True
      by (auto simp: lookup_offer_same newer_irrefl dest: newer_asym split: option.splits if_splits)
    ultimately show ?thesis
      using Cons.IH [OF rest, of v] not_newer_trans by blast
  qed
qed

end

section \<open>Scans that keep the best candidate\<close>

locale best_choice =
  fixes better :: "'a \<Rightarrow> 'a \<Rightarrow> bool"
    and pick :: "'a \<Rightarrow> 'a \<Rightarrow> 'a"
  assumes better_irrefl: "\<not> better a a"
    and not_better_trans: "\<not> better a b \<Longrightarrow> \<not> better b c \<Longrightarrow> \<not> better a c"
    and pick_cases: "pick a b = a \<or> pick a b = b"
    and pick_best: "\<not> better a (pick a b)" "\<not> better b (pick a b)"
begin

lemma scan_member: "foldl pick a xs \<in> insert a (set xs)"
proof (induction xs arbitrary: a)
  case Nil
  then show ?case by simp
next
  case (Cons x xs)
  then show ?case using pick_cases [of a x] by (metis foldl_Cons insert_iff list.set(2))
qed

lemma scan_best: "b \<in> insert a (set xs) \<Longrightarrow> \<not> better b (foldl pick a xs)"
proof (induction xs arbitrary: a b)
  case Nil
  then show ?case by (simp add: better_irrefl)
next
  case (Cons x xs)
  show ?case
  proof (cases "b \<in> set xs")
    case True
    then show ?thesis using Cons.IH by simp
  next
    case False
    with Cons.prems have "\<not> better b (pick a x)" using pick_best by auto
    then show ?thesis using Cons.IH not_better_trans by (metis foldl_Cons insertI1)
  qed
qed

end

section \<open>Bounded queues that drop the oldest element\<close>

text \<open>
  A history of a queue is a list of \<open>Put\<close> and \<open>Get\<close> operations; \<open>run_fifo\<close> returns what the
  \<open>Get\<close>s deliver.  \<open>list_put\<close> and \<open>list_get\<close> are the operations of the specification, a list
  with the oldest element first.
\<close>

datatype 'e fifo_op = Put 'e | Get

fun run_fifo ::
    "('e \<Rightarrow> 's \<Rightarrow> 's) \<Rightarrow> ('s \<Rightarrow> 'e \<times> 's) \<Rightarrow> 'e fifo_op list \<Rightarrow> 's \<Rightarrow> 'e list \<times> 's" where
  "run_fifo put get [] s = ([], s)"
| "run_fifo put get (Put e # ops) s = run_fifo put get ops (put e s)"
| "run_fifo put get (Get # ops) s =
     (let (e, s1) = get s; (es, s2) = run_fifo put get ops s1 in (e # es, s2))"

definition list_put :: "nat \<Rightarrow> 'e \<Rightarrow> 'e list \<Rightarrow> 'e list" where
  "list_put n e q = (if length q = n then tl q else q) @ [e]"

definition list_get :: "'e \<Rightarrow> 'e list \<Rightarrow> 'e \<times> 'e list" where
  "list_get null q = (case q of [] \<Rightarrow> (null, []) | e # q' \<Rightarrow> (e, q'))"

locale lossy_fifo =
  fixes put :: "'e \<Rightarrow> 's \<Rightarrow> 's"
    and get :: "'s \<Rightarrow> 'e \<times> 's"
    and null :: 'e
    and valid :: "'s \<Rightarrow> bool"
    and contents :: "'s \<Rightarrow> 'e list"
    and bound :: "'s \<Rightarrow> nat"
  assumes bound_pos: "valid s \<Longrightarrow> 0 < bound s"
    and contents_bounded: "valid s \<Longrightarrow> length (contents s) \<le> bound s"
    and valid_put: "valid s \<Longrightarrow> valid (put e s)"
    and bound_put: "bound (put e s) = bound s"
    and contents_put: "valid s \<Longrightarrow> contents (put e s) = list_put (bound s) e (contents s)"
    and valid_get: "valid s \<Longrightarrow> valid (snd (get s))"
    and bound_get: "bound (snd (get s)) = bound s"
    and get_refines:
      "valid s \<Longrightarrow> (fst (get s), contents (snd (get s))) = list_get null (contents s)"
begin

lemma run_refines:
  "valid s \<Longrightarrow>
     fst (run_fifo put get ops s) =
       fst (run_fifo (list_put (bound s)) (list_get null) ops (contents s)) \<and>
     contents (snd (run_fifo put get ops s)) =
       snd (run_fifo (list_put (bound s)) (list_get null) ops (contents s)) \<and>
     valid (snd (run_fifo put get ops s))"
proof (induction ops arbitrary: s)
  case Nil
  then show ?case by simp
next
  case (Cons op ops)
  show ?case
  proof (cases op)
    case (Put e)
    with Cons show ?thesis by (simp add: valid_put bound_put contents_put)
  next
    case Get
    obtain e s1 where g: "get s = (e, s1)" by force
    have "valid s1" "bound s1 = bound s" "list_get null (contents s) = (e, contents s1)"
      using valid_get [OF Cons.prems] bound_get [of s] get_refines [OF Cons.prems] by (simp_all add: g)
    with Get g Cons.IH [of s1] show ?thesis by (auto simp: case_prod_beta)
  qed
qed

lemma puts_keep_latest:
  "valid s \<Longrightarrow>
     contents (fold put es s) =
       drop (length (contents s) + length es - bound s) (contents s @ es)"
proof (induction es arbitrary: s)
  case Nil
  then show ?case using contents_bounded by simp
next
  case (Cons e es)
  note IH = Cons.IH [OF valid_put [OF Cons.prems], of e]
  show ?case
  proof (cases "length (contents s) = bound s")
    case False
    with IH Cons.prems show ?thesis by (simp add: bound_put contents_put list_put_def)
  next
    case True
    with bound_pos [OF Cons.prems] obtain c cs where "contents s = c # cs" "Suc (length cs) = bound s"
      by (cases "contents s") auto
    with IH Cons.prems show ?thesis by (simp add: bound_put contents_put list_put_def)
  qed
qed

end

end
