(* ===== verification/Messages.thy ===== *)
theory Messages
  imports Interfaces
begin

text \<open>
  The sample that travels through the system (\<open>reference_interfaces/msg\<close>) and the operations
  of \<open>sample_management.hpp\<close> that read and write its transmission history: \<open>set_sample\<close>,
  \<open>merge_history_into_sample\<close> and the sequence number bookkeeping.  The process-wide
  switches and counters of that file are the record \<open>globals\<close>.
\<close>

section \<open>Data\<close>

text \<open>
  \<open>TransmissionStats.node_name\<close> is a \<open>char[48]\<close>; \<open>Message4kb.stats\<close> is an array of 63
  entries of which the first \<open>size\<close> are in use.  A loop \<open>for (i = 0; i < size; ++i)\<close> that only
  reads is a traversal of \<open>entries\<close>.
\<close>

record transmission_stats =
  timestamp :: u64
  sequence_number :: u32
  dropped_samples :: u32
  node_name :: string

record message =
  msg_size :: nat
  stats :: "transmission_stats list"
  msg_data :: "u64 list"
  provenance_node :: string
  provenance_sequence :: u32
  provenance_channel :: u32
  source_kind :: u32
  source_sequence :: u32
  source_timestamp_ns :: u64

definition STATS_CAPACITY :: nat where
  "STATS_CAPACITY = 63"

definition NODE_NAME_LENGTH :: nat where
  "NODE_NAME_LENGTH = 48"

record globals =
  benchmark_mode :: bool
  structured_output :: bool
  legacy_verbose_output :: bool
  structured_record_error_count :: u64
  metadata_overflow_count :: u64

definition initial_globals :: globals where
  "initial_globals = \<lparr>benchmark_mode = False, structured_output = True,
     legacy_verbose_output = False, structured_record_error_count = 0,
     metadata_overflow_count = 0\<rparr>"

definition set_benchmark_mode :: "bool \<Rightarrow> bool \<Rightarrow> globals \<Rightarrow> bool \<times> globals" where
  "set_benchmark_mode has_benchmark_mode set_value g =
     (let g' = (if set_value then g\<lparr>benchmark_mode := has_benchmark_mode\<rparr> else g)
      in (benchmark_mode g', g'))"

definition is_in_benchmark_mode :: "globals \<Rightarrow> bool" where
  "is_in_benchmark_mode g = fst (set_benchmark_mode False False g)"

definition set_structured_output_enabled :: "bool \<Rightarrow> bool \<Rightarrow> globals \<Rightarrow> bool \<times> globals" where
  "set_structured_output_enabled enabled set_value g =
     (let g' = (if set_value then g\<lparr>structured_output := enabled\<rparr> else g)
      in (structured_output g', g'))"

definition is_structured_output_enabled :: "globals \<Rightarrow> bool" where
  "is_structured_output_enabled g = fst (set_structured_output_enabled False False g)"

definition set_legacy_verbose_output_enabled :: "bool \<Rightarrow> bool \<Rightarrow> globals \<Rightarrow> bool \<times> globals" where
  "set_legacy_verbose_output_enabled enabled set_value g =
     (let g' = (if set_value then g\<lparr>legacy_verbose_output := enabled\<rparr> else g)
      in (legacy_verbose_output g', g'))"

definition is_legacy_verbose_output_enabled :: "globals \<Rightarrow> bool" where
  "is_legacy_verbose_output_enabled g = fst (set_legacy_verbose_output_enabled False False g)"

text \<open>\<open>elapsed_ns\<close> writes its result through a reference only on success.\<close>

definition elapsed_ns :: "u64 \<Rightarrow> u64 \<Rightarrow> u64 \<Rightarrow> globals \<Rightarrow> bool \<times> u64 \<times> globals" where
  "elapsed_ns start stop elapsed g =
     (if stop < start
      then (False, elapsed,
            g\<lparr>structured_record_error_count := structured_record_error_count g + 1\<rparr>)
      else (True, stop - start, g))"

definition deadline_status :: "u64 \<Rightarrow> u64 \<Rightarrow> string" where
  "deadline_status latency_ns deadline_ns =
     (if latency_ns > deadline_ns then ''violated'' else ''completed'')"

section \<open>Reading the history\<close>

text \<open>The characters of a fixed-size array up to the first NUL.\<close>

definition c_string :: "string \<Rightarrow> string" where
  "c_string cs = takeWhile (\<lambda>c. c \<noteq> nul) cs"

definition stat_name :: "transmission_stats \<Rightarrow> string" where
  "stat_name e = c_string (node_name e)"

definition node_name_at :: "message \<Rightarrow> nat \<Rightarrow> string" where
  "node_name_at sample idx = stat_name (stats sample ! idx)"

definition entries :: "message \<Rightarrow> transmission_stats list" where
  "entries sample = take (msg_size sample) (stats sample)"

text \<open>The first index at which a condition holds, the length of the list when there is none.\<close>

fun first_index :: "('a \<Rightarrow> bool) \<Rightarrow> 'a list \<Rightarrow> nat" where
  "first_index P [] = 0"
| "first_index P (x # xs) = (if P x then 0 else Suc (first_index P xs))"

definition is_newer_node_snapshot ::
    "u32 \<Rightarrow> u64 \<Rightarrow> u32 \<Rightarrow> transmission_stats \<Rightarrow> bool" where
  "is_newer_node_snapshot seq ts dropped current \<longleftrightarrow>
     seq > sequence_number current \<or>
     (seq = sequence_number current \<and>
       (ts > timestamp current \<or>
         (ts = timestamp current \<and> dropped > dropped_samples current)))"

definition newer_stat :: "transmission_stats \<Rightarrow> transmission_stats \<Rightarrow> bool" where
  "newer_stat e current =
     is_newer_node_snapshot (sequence_number e) (timestamp e) (dropped_samples e) current"

section \<open>Writing the history\<close>

text \<open>\<open>std::fill\<close> with NUL followed by \<open>memcpy\<close> of at most 47 characters.\<close>

definition name_field :: "string \<Rightarrow> string" where
  "name_field nm =
     (let n = min (length nm) (NODE_NAME_LENGTH - 1)
      in take n nm @ replicate (NODE_NAME_LENGTH - n) nul)"

definition set_sample ::
    "string \<Rightarrow> u32 \<Rightarrow> u32 \<Rightarrow> u64 \<Rightarrow> message \<Rightarrow> globals \<Rightarrow> message \<times> globals" where
  "set_sample nm seq dropped ts sample g =
     (if is_in_benchmark_mode g then (sample, g)
      else
        let i = first_index (\<lambda>e. stat_name e = nm) (entries sample)
        in if i < msg_size sample then
             (if \<not> is_newer_node_snapshot seq ts dropped (stats sample ! i) then (sample, g)
              else (sample\<lparr>stats := (stats sample)[i := (stats sample ! i)
                       \<lparr>timestamp := ts, sequence_number := seq, dropped_samples := dropped\<rparr>]\<rparr>, g))
           else if msg_size sample \<ge> STATS_CAPACITY then
             (sample, g\<lparr>metadata_overflow_count := metadata_overflow_count g + 1\<rparr>)
           else
             (sample\<lparr>msg_size := msg_size sample + 1,
                stats := (stats sample)[msg_size sample :=
                  \<lparr>timestamp = ts, sequence_number = seq, dropped_samples = dropped,
                   node_name = name_field nm\<rparr>]\<rparr>, g))"

definition get_sample_timestamp :: "message \<Rightarrow> globals \<Rightarrow> u64" where
  "get_sample_timestamp sample g =
     (if is_in_benchmark_mode g \<or> msg_size sample = 0 then 0
      else timestamp (stats sample ! (msg_size sample - 1)))"

definition get_sample_sequence_number :: "message \<Rightarrow> globals \<Rightarrow> u32" where
  "get_sample_sequence_number sample g =
     (if is_in_benchmark_mode g \<or> msg_size sample = 0 then 0
      else sequence_number (stats sample ! (msg_size sample - 1)))"

text \<open>Returns the number of missed samples and the new value of the caller's counter.\<close>

definition get_missed_samples_and_update_seq_nr ::
    "message \<Rightarrow> u32 \<Rightarrow> globals \<Rightarrow> u32 \<times> u32" where
  "get_missed_samples_and_update_seq_nr sample seq g =
     (let updated = get_sample_sequence_number sample g
      in (if updated > seq then updated - seq - 1 else 0, updated))"

text \<open>
  \<open>merge_history_into_sample\<close> first compacts the target in place: \<open>unique_size\<close> entries are
  kept so far, entry \<open>i\<close> is moved to the end of them, overwrites an older entry of the same
  node, or is dropped.
\<close>

definition compact_step ::
    "nat \<times> transmission_stats list \<Rightarrow> nat \<Rightarrow> nat \<times> transmission_stats list" where
  "compact_step = (\<lambda>(unique_size, st) i.
     let nm = stat_name (st ! i);
         existing = first_index (\<lambda>e. stat_name e = nm) (take unique_size st)
     in if existing = unique_size then
          (unique_size + 1, if unique_size \<noteq> i then st[unique_size := st ! i] else st)
        else if newer_stat (st ! i) (st ! existing) then
          (unique_size, st[existing := st ! i])
        else (unique_size, st))"

definition compact_history :: "message \<Rightarrow> message" where
  "compact_history sample =
     (let (unique_size, st) = foldl compact_step (0, stats sample) [0..<msg_size sample]
      in sample\<lparr>msg_size := unique_size, stats := st\<rparr>)"

fun merge_entries ::
    "transmission_stats list \<Rightarrow> message \<Rightarrow> globals \<Rightarrow> message \<times> globals" where
  "merge_entries [] sample g = (sample, g)"
| "merge_entries (e # es) sample g =
     (let existing = first_index (\<lambda>x. stat_name x = stat_name e) (entries sample)
      in if existing = msg_size sample then
           (if msg_size sample \<ge> STATS_CAPACITY then
              (sample, g\<lparr>metadata_overflow_count := metadata_overflow_count g + 1\<rparr>)
            else merge_entries es
              (sample\<lparr>stats := (stats sample)[msg_size sample := e],
                      msg_size := msg_size sample + 1\<rparr>) g)
         else if newer_stat e (stats sample ! existing) then
           merge_entries es (sample\<lparr>stats := (stats sample)[existing := e]\<rparr>) g
         else merge_entries es sample g)"

definition merge_history_into_sample ::
    "message \<Rightarrow> message \<Rightarrow> globals \<Rightarrow> message \<times> globals" where
  "merge_history_into_sample sample source g =
     (if is_in_benchmark_mode g then (sample, g)
      else merge_entries (entries source) (compact_history sample) g)"

section \<open>Reference definitions\<close>

text \<open>
  The abstract history: a list of entries searched by node name, into which an entry is
  inserted unless a newer one of the same node is present.  Neither array positions nor the
  capacity appear here.
\<close>

definition find_stat :: "transmission_stats list \<Rightarrow> string \<Rightarrow> transmission_stats option" where
  "find_stat es nm = find (\<lambda>e. stat_name e = nm) es"

fun upsert :: "transmission_stats \<Rightarrow> transmission_stats list \<Rightarrow> transmission_stats list" where
  "upsert e [] = [e]"
| "upsert e (x # xs) =
     (if stat_name x = stat_name e then (if newer_stat e x then e # xs else x # xs)
      else x # upsert e xs)"

definition history :: "message \<Rightarrow> string \<Rightarrow> transmission_stats option" where
  "history sample = find_stat (entries sample)"

definition node_names :: "message \<Rightarrow> string set" where
  "node_names sample = stat_name ` set (entries sample)"

definition one_entry_per_node :: "message \<Rightarrow> bool" where
  "one_entry_per_node sample \<longleftrightarrow> distinct (map stat_name (entries sample))"

definition wf_message :: "message \<Rightarrow> bool" where
  "wf_message sample \<longleftrightarrow>
     length (stats sample) = STATS_CAPACITY \<and> msg_size sample \<le> STATS_CAPACITY \<and>
     (\<forall>e \<in> set (stats sample). length (node_name e) = NODE_NAME_LENGTH)"

text \<open>A node name that fits the array: at most 47 characters, none of them NUL.\<close>

definition fitting_name :: "string \<Rightarrow> bool" where
  "fitting_name nm \<longleftrightarrow> length nm < NODE_NAME_LENGTH \<and> nul \<notin> set nm"

section \<open>Searching\<close>

lemma first_index_le [simp]: "first_index P xs \<le> length xs"
  by (induction xs) auto

lemma first_index_eq_length: "first_index P xs = length xs \<longleftrightarrow> (\<forall>x \<in> set xs. \<not> P x)"
  by (induction xs) auto

lemma first_index_less: "first_index P xs < length xs \<longleftrightarrow> (\<exists>x \<in> set xs. P x)"
  by (induction xs) auto

lemma first_index_nth: "first_index P xs < length xs \<Longrightarrow> P (xs ! first_index P xs)"
  by (induction xs) auto

lemma upsert_first_index:
  "upsert e xs =
     (let i = first_index (\<lambda>x. stat_name x = stat_name e) xs
      in if i = length xs then xs @ [e]
         else if newer_stat e (xs ! i) then xs[i := e] else xs)"
  by (induction xs) (auto simp: Let_def)

lemma upsert_names [simp]: "stat_name ` set (upsert e xs) = insert (stat_name e) (stat_name ` set xs)"
  by (induction xs) auto

lemma upsert_distinct: "distinct (map stat_name xs) \<Longrightarrow> distinct (map stat_name (upsert e xs))"
proof (induction xs)
  case Nil
  then show ?case by simp
next
  case (Cons x xs)
  have "stat_name x \<in> set (map stat_name (upsert e xs)) \<longleftrightarrow>
      stat_name x = stat_name e \<or> stat_name x \<in> set (map stat_name xs)"
    using upsert_names [of e xs] by (simp add: set_map [symmetric] del: set_map)
  with Cons show ?case by auto
qed

lemma upsert_length: "length xs \<le> length (upsert e xs)"
  by (induction xs) auto

lemma fold_upsert_length: "length xs \<le> length (fold upsert es xs)"
  by (induction es arbitrary: xs) (auto intro: le_trans [OF upsert_length])

lemma fold_upsert_distinct:
  "distinct (map stat_name xs) \<Longrightarrow> distinct (map stat_name (fold upsert es xs))"
  by (induction es arbitrary: xs) (auto intro: upsert_distinct)

lemma fold_upsert_names:
  "stat_name ` set (fold upsert es xs) = stat_name ` set es \<union> stat_name ` set xs"
  by (induction es arbitrary: xs) auto

lemma fold_upsert_set: "set (fold upsert es xs) \<subseteq> set es \<union> set xs"
proof (induction es arbitrary: xs)
  case Nil
  then show ?case by simp
next
  case (Cons e es)
  have "set (upsert e xs) \<subseteq> insert e (set xs)"
    by (induction xs) auto
  with Cons.IH [of "upsert e xs"] show ?case by auto
qed

lemma upsert_fresh: "stat_name e \<notin> stat_name ` set xs \<Longrightarrow> upsert e xs = xs @ [e]"
  by (induction xs) auto

lemma fold_upsert_fresh:
  "distinct (map stat_name (xs @ es)) \<Longrightarrow> fold upsert es xs = xs @ es"
  by (induction es arbitrary: xs) (auto simp: upsert_fresh image_iff)

lemma fold_upsert_unique [simp]: "distinct (map stat_name es) \<Longrightarrow> fold upsert es [] = es"
  by (simp add: fold_upsert_fresh)

lemma distinct_names_card:
  "distinct (map stat_name xs) \<Longrightarrow> length xs = card (stat_name ` set xs)"
  by (metis distinct_card length_map set_map)

section \<open>The history is a register of newest snapshots\<close>

lemma newer_stat_alt:
  "newer_stat e x \<longleftrightarrow>
     sequence_number x < sequence_number e \<or>
     sequence_number x = sequence_number e \<and>
       (timestamp x < timestamp e \<or>
        timestamp x = timestamp e \<and> dropped_samples x < dropped_samples e)"
  by (auto simp: newer_stat_def is_newer_node_snapshot_def)

interpretation stat_fresh: freshness newer_stat
  by unfold_locales (auto simp: newer_stat_alt)

lemma newer_stat_total:
  "\<not> newer_stat a b \<Longrightarrow> \<not> newer_stat b a \<Longrightarrow>
     sequence_number a = sequence_number b \<and> timestamp a = timestamp b \<and>
     dropped_samples a = dropped_samples b"
  by (auto simp: newer_stat_alt)

lemma find_stat_upsert_same:
  "find_stat (upsert e xs) (stat_name e) =
     Some (case find_stat xs (stat_name e) of None \<Rightarrow> e
           | Some w \<Rightarrow> if newer_stat e w then e else w)"
  by (induction xs) (auto simp: find_stat_def)

lemma find_stat_upsert_other:
  "k \<noteq> stat_name e \<Longrightarrow> find_stat (upsert e xs) k = find_stat xs k"
  by (induction xs) (auto simp: find_stat_def)

interpretation hist: newest_register newer_stat stat_name find_stat upsert
  by unfold_locales (simp_all add: find_stat_upsert_same find_stat_upsert_other)

lemma find_stat_None: "find_stat xs k = None \<longleftrightarrow> k \<notin> stat_name ` set xs"
  by (auto simp: find_stat_def find_None_iff)

lemma find_stat_distinct:
  "distinct (map stat_name xs) \<Longrightarrow> find_stat xs k = Some e \<longleftrightarrow> e \<in> set xs \<and> stat_name e = k"
  by (induction xs) (auto simp: find_stat_def)

section \<open>Refinement of the array operations\<close>

lemma entries_length: "wf_message m \<Longrightarrow> length (entries m) = msg_size m"
  by (simp add: wf_message_def entries_def)

lemma entries_nth: "wf_message m \<Longrightarrow> i < msg_size m \<Longrightarrow> entries m ! i = stats m ! i"
  by (simp add: entries_def)

lemma size_stats_commute [simp]:
  "m\<lparr>msg_size := n, stats := st\<rparr> = m\<lparr>stats := st, msg_size := n\<rparr>"
  by simp

lemma entries_append:
  "wf_message m \<Longrightarrow> msg_size m < STATS_CAPACITY \<Longrightarrow>
   entries (m\<lparr>stats := (stats m)[msg_size m := e], msg_size := Suc (msg_size m)\<rparr>) =
     entries m @ [e]"
  by (simp add: wf_message_def entries_def)

lemma entries_update:
  "i < msg_size m \<Longrightarrow>
   entries (m\<lparr>stats := (stats m)[i := e]\<rparr>) = (entries m)[i := e]"
  by (simp add: entries_def take_update_swap)

lemma wf_append [invariant_rules]:
  "wf_message m \<Longrightarrow> msg_size m < STATS_CAPACITY \<Longrightarrow> length (node_name e) = NODE_NAME_LENGTH \<Longrightarrow>
   wf_message (m\<lparr>stats := (stats m)[msg_size m := e], msg_size := Suc (msg_size m)\<rparr>)"
  by (auto simp: wf_message_def dest!: set_update_subset_insert [THEN subsetD])

lemma wf_update [invariant_rules]:
  "wf_message m \<Longrightarrow> length (node_name e) = NODE_NAME_LENGTH \<Longrightarrow>
   wf_message (m\<lparr>stats := (stats m)[i := e]\<rparr>)"
  by (auto simp: wf_message_def dest!: set_update_subset_insert [THEN subsetD])

text \<open>The compaction loop after \<open>n\<close> rounds.\<close>

definition compacted :: "transmission_stats list \<Rightarrow> nat \<Rightarrow> nat \<times> transmission_stats list \<Rightarrow> bool" where
  "compacted orig n = (\<lambda>(u, st).
     u \<le> n \<and> length st = length orig \<and> set st \<subseteq> set orig \<and>
     take u st = fold upsert (take n orig) [] \<and> drop n st = drop n orig)"

lemma compact_step_compacted:
  assumes inv: "compacted orig n (u, st)" and n: "n < length orig"
  shows "compacted orig (Suc n) (compact_step (u, st) n)"
proof -
  let ?i = "first_index (\<lambda>x. stat_name x = stat_name (st ! n)) (take u st)"
  have len: "length st = length orig" and u: "u \<le> n" and sub: "set st \<subseteq> set orig"
    and tk: "take u st = fold upsert (take n orig) []" and dr: "drop n st = drop n orig"
    using inv by (auto simp: compacted_def)
  have cur: "st ! n = orig ! n"
    using dr n len by (metis hd_drop_conv_nth)
  have dr': "drop (Suc n) st = drop (Suc n) orig"
    using dr by (metis drop_Suc tl_drop)
  have lu: "length (take u st) = u" using u n len by simp
  have mem: "st ! n \<in> set orig" using n by (simp add: cur)
  have "fold upsert (take (Suc n) orig) [] = upsert (st ! n) (take u st)"
    using n by (simp add: take_Suc_conv_app_nth tk cur)
  also have "\<dots> = (if ?i = u then take u st @ [st ! n]
      else if newer_stat (st ! n) (take u st ! ?i) then (take u st)[?i := st ! n] else take u st)"
    using upsert_first_index [of "st ! n" "take u st"] lu by (simp add: Let_def)
  finally have goal: "fold upsert (take (Suc n) orig) [] = \<dots>" .
  have upd: "set (st[j := st ! n]) \<subseteq> set orig" for j
    using set_update_subset_insert [of st j "st ! n"] sub mem by auto
  have self: "u = n \<Longrightarrow> st = st[u := st ! n]" by simp
  show ?thesis
  proof (cases "?i = u")
    case True
    then have "compact_step (u, st) n = (Suc u, st[u := st ! n])"
      using self by (simp add: compact_step_def Let_def)
    moreover have "take (Suc u) (st[u := st ! n]) = take u st @ [st ! n]"
      using u n len by simp
    ultimately show ?thesis
      using True goal upd u dr' len by (simp add: compacted_def)
  next
    case False
    then have i: "?i < u" using first_index_le [of "\<lambda>x. stat_name x = stat_name (st ! n)" "take u st"] lu
      by linarith
    then show ?thesis
      using False goal upd u dr' len sub
      by (simp add: compacted_def compact_step_def Let_def take_update_swap)
  qed
qed

lemma compact_loop:
  "n \<le> length orig \<Longrightarrow> compacted orig n (foldl compact_step (0, orig) [0..<n])"
proof (induction n)
  case 0
  then show ?case by (simp add: compacted_def)
next
  case (Suc n)
  then show ?case
    using compact_step_compacted [of orig n] by (cases "foldl compact_step (0, orig) [0..<n]") simp
qed

lemma compact_history_refines:
  assumes "wf_message m"
  shows "entries (compact_history m) = fold upsert (entries m) []"
    and "wf_message (compact_history m)"
proof -
  obtain u st where us: "foldl compact_step (0, stats m) [0..<msg_size m] = (u, st)"
    by (cases "foldl compact_step (0, stats m) [0..<msg_size m]")
  have "compacted (stats m) (msg_size m) (u, st)"
    using compact_loop [of "msg_size m" "stats m"] assms us by (simp add: wf_message_def)
  then show "entries (compact_history m) = fold upsert (entries m) []"
    and "wf_message (compact_history m)"
    using assms by (auto simp: compact_history_def us compacted_def entries_def wf_message_def)
qed

lemma merge_step_refines:
  fixes e :: transmission_stats
  assumes wf: "wf_message m"
  defines "i \<equiv> first_index (\<lambda>x. stat_name x = stat_name e) (entries m)"
  shows "upsert e (entries m) =
    (if i = msg_size m then entries m @ [e]
     else if newer_stat e (stats m ! i) then (entries m)[i := e] else entries m)"
    and "i \<noteq> msg_size m \<Longrightarrow> i < msg_size m"
proof -
  have "i \<le> msg_size m"
    using first_index_le [of _ "entries m"] entries_length [OF wf] by (simp add: i_def)
  then show "i \<noteq> msg_size m \<Longrightarrow> i < msg_size m" by simp
  then show "upsert e (entries m) =
    (if i = msg_size m then entries m @ [e]
     else if newer_stat e (stats m ! i) then (entries m)[i := e] else entries m)"
    using upsert_first_index [of e "entries m"] entries_length [OF wf] entries_nth [OF wf]
    by (auto simp: Let_def i_def)
qed

lemma merge_entries_refines:
  assumes "wf_message m" and "\<forall>e \<in> set es. length (node_name e) = NODE_NAME_LENGTH"
    and "length (fold upsert es (entries m)) \<le> STATS_CAPACITY"
  shows "entries (fst (merge_entries es m g)) = fold upsert es (entries m) \<and>
    snd (merge_entries es m g) = g \<and> wf_message (fst (merge_entries es m g))"
  using assms
proof (induction es arbitrary: m)
  case Nil
  then show ?case by simp
next
  case (Cons e es)
  note wf = Cons.prems(1)
  let ?i = "first_index (\<lambda>x. stat_name x = stat_name e) (entries m)"
  note step = merge_step_refines [OF wf, of e]
  have e: "length (node_name e) = NODE_NAME_LENGTH" using Cons.prems by simp
  have room: "length (upsert e (entries m)) \<le> STATS_CAPACITY"
    using Cons.prems(3) fold_upsert_length [of "upsert e (entries m)" es] by simp
  have rest: "length (fold upsert es (upsert e (entries m))) \<le> STATS_CAPACITY"
    using Cons.prems(3) by simp
  show ?case
  proof (cases "?i = msg_size m")
    case True
    with room step(1) have "msg_size m < STATS_CAPACITY"
      by (simp add: entries_length [OF wf])
    then show ?thesis
      using True step(1) rest Cons.prems(2) entries_append [OF wf, of e]
        Cons.IH [OF wf_append [OF wf _ e]] by (simp add: Let_def)
  next
    case False
    then have i: "?i < msg_size m" by (rule step(2))
    show ?thesis
    proof (cases "newer_stat e (stats m ! ?i)")
      case True
      with False i step(1) rest Cons.prems(2) show ?thesis
        using Cons.IH [OF wf_update [OF wf e, of ?i]] entries_update [of ?i m e]
        by (simp add: Let_def)
    next
      case newer: False
      with False step(1) rest Cons.prems(2) show ?thesis
        using Cons.IH [OF wf] by (simp add: Let_def)
    qed
  qed
qed

lemma merge_entries_wf:
  "wf_message m \<Longrightarrow> \<forall>e \<in> set es. length (node_name e) = NODE_NAME_LENGTH \<Longrightarrow>
   wf_message (fst (merge_entries es m g)) \<and>
   metadata_overflow_count (snd (merge_entries es m g)) - metadata_overflow_count g \<le> 1"
proof (induction es m g rule: merge_entries.induct)
  case (1 m g)
  then show ?case by simp
next
  case (2 e es m g)
  let ?i = "first_index (\<lambda>x. stat_name x = stat_name e) (entries m)"
  have e: "length (node_name e) = NODE_NAME_LENGTH" using "2.prems" by simp
  show ?case
    using "2.prems" "2.IH"(1) [OF refl] "2.IH"(2) [OF refl] "2.IH"(3) [OF refl]
      wf_append [OF _ _ e] wf_update [OF _ e]
    by (auto simp: Let_def)
qed

section \<open>Names\<close>

lemma name_field_length [simp]: "length (name_field nm) = NODE_NAME_LENGTH"
  by (simp add: name_field_def Let_def NODE_NAME_LENGTH_def)

lemma takeWhile_not_nul: "nul \<notin> set nm \<Longrightarrow> takeWhile (\<lambda>c. c \<noteq> nul) (nm @ nul # xs) = nm"
  by (induction nm) auto

lemma c_string_name_field: "nul \<notin> set nm \<Longrightarrow> c_string (name_field nm) = take 47 nm"
proof -
  assume "nul \<notin> set nm"
  then have "nul \<notin> set (take 47 nm)" by (meson in_set_takeD)
  moreover have "name_field nm = take 47 nm @ nul # replicate (47 - min (length nm) 47) nul"
    by (auto simp: name_field_def NODE_NAME_LENGTH_def Let_def min_def
        simp flip: replicate_Suc intro: arg_cong [where f = "\<lambda>n. replicate n nul"])
  ultimately show ?thesis by (simp add: c_string_def takeWhile_not_nul)
qed

lemma stat_name_fitting [simp]:
  "fitting_name nm \<Longrightarrow> node_name e = name_field nm \<Longrightarrow> stat_name e = nm"
  by (simp add: stat_name_def fitting_name_def c_string_name_field NODE_NAME_LENGTH_def)

section \<open>Benchmark mode\<close>

lemma is_in_benchmark_mode_iff [simp]: "is_in_benchmark_mode g = benchmark_mode g"
  by (simp add: is_in_benchmark_mode_def set_benchmark_mode_def)

lemma is_structured_output_enabled_iff [simp]: "is_structured_output_enabled g = structured_output g"
  by (simp add: is_structured_output_enabled_def set_structured_output_enabled_def)

lemma is_legacy_verbose_output_enabled_iff [simp]:
  "is_legacy_verbose_output_enabled g = legacy_verbose_output g"
  by (simp add: is_legacy_verbose_output_enabled_def set_legacy_verbose_output_enabled_def)

end
