(* ===== verification/Sample_History.thy ===== *)
theory Sample_History
  imports Messages
begin

text \<open>
  What the history operations of \<open>sample_management.hpp\<close> guarantee: every node has one entry,
  the entry is the newest snapshot seen, the array is never overrun, and the result of a merge
  does not depend on the order in which histories are merged.
\<close>

section \<open>Merging\<close>

lemma merge_result:
  assumes wf: "wf_message sample" "wf_message source" and mode: "\<not> benchmark_mode g"
    and fits: "card (node_names sample \<union> node_names source) \<le> STATS_CAPACITY"
  defines "r \<equiv> merge_history_into_sample sample source g"
  shows "entries (fst r) = fold upsert (entries source) (fold upsert (entries sample) [])"
    and "snd r = g" and "wf_message (fst r)"
proof -
  let ?base = "fold upsert (entries sample) []"
  let ?all = "fold upsert (entries source) ?base"
  have "distinct (map stat_name ?all)"
    by (intro fold_upsert_distinct) simp
  then have "length ?all = card (node_names sample \<union> node_names source)"
    by (simp add: distinct_names_card fold_upsert_names node_names_def Un_commute)
  with fits have room: "length (fold upsert (entries source) (entries (compact_history sample)))
      \<le> STATS_CAPACITY"
    by (simp add: compact_history_refines [OF wf(1)])
  have names: "\<forall>e \<in> set (entries source). length (node_name e) = NODE_NAME_LENGTH"
    using wf(2) by (auto simp: wf_message_def entries_def dest: in_set_takeD)
  note res = merge_entries_refines [OF compact_history_refines(2) [OF wf(1)] names room, of g]
  show "entries (fst r) = ?all" and "snd r = g" and "wf_message (fst r)"
    using res mode
    by (simp_all add: r_def merge_history_into_sample_def compact_history_refines [OF wf(1)])
qed

lemma merge_result_history:
  assumes "wf_message sample" "wf_message source" "\<not> benchmark_mode g"
    and "card (node_names sample \<union> node_names source) \<le> STATS_CAPACITY"
  shows "history (fst (merge_history_into_sample sample source g)) =
    find_stat (fold upsert (entries sample @ entries source) [])"
  by (simp add: history_def merge_result(1) [OF assms])

text \<open>
  Claim C1.  Merging two well-formed histories whose nodes fit the capacity leaves the counters
  alone, keeps the array well formed, has exactly one entry for each node of either history,
  and that entry is one of the entries merged and no merged entry of the node is newer.
\<close>

theorem merge_keeps_newest:
  assumes "wf_message sample" and "wf_message source" and "\<not> benchmark_mode g"
    and "card (node_names sample \<union> node_names source) \<le> STATS_CAPACITY"
    and "merge_history_into_sample sample source g = (m, g')"
  shows "g' = g \<and> wf_message m \<and> one_entry_per_node m \<and>
    node_names m = node_names sample \<union> node_names source \<and>
    (\<forall>w \<in> set (entries m).
       w \<in> set (entries sample) \<union> set (entries source) \<and>
       (\<forall>v \<in> set (entries sample) \<union> set (entries source).
          stat_name v = stat_name w \<longrightarrow> \<not> newer_stat v w))"
proof -
  let ?es = "entries sample @ entries source"
  have m: "m = fst (merge_history_into_sample sample source g)" using assms(5) by simp
  have ent: "entries m = fold upsert ?es []"
    using merge_result(1) [OF assms(1-4)] m by simp
  have dist: "distinct (map stat_name (entries m))"
    unfolding ent by (intro fold_upsert_distinct) simp
  have "w \<in> set ?es \<and> (\<forall>v \<in> set ?es. stat_name v = stat_name w \<longrightarrow> \<not> newer_stat v w)"
    if "w \<in> set (entries m)" for w
  proof -
    have "find_stat (entries m) (stat_name w) = Some w"
      using that dist by (simp add: find_stat_distinct)
    then have "find_stat (fold upsert ?es []) (stat_name w) = Some w"
      by (simp only: ent)
    then show ?thesis
      using hist.offers_newest [of ?es "[]" "stat_name w" w] hist.offers_sound [of ?es "[]" "stat_name w" w]
      by (auto simp: find_stat_def)
  qed
  then show ?thesis
    using merge_result [OF assms(1-4)] assms(5) dist
    by (auto simp: ent one_entry_per_node_def node_names_def fold_upsert_names)
qed

definition sample_of :: "(string \<times> u32 \<times> u64 \<times> u32) list \<Rightarrow> message" where
  "sample_of rows =
     \<lparr>msg_size = length rows,
      stats = map (\<lambda>(nm, seq, ts, dropped). \<lparr>timestamp = ts, sequence_number = seq,
                     dropped_samples = dropped, node_name = name_field nm\<rparr>) rows @
              replicate (STATS_CAPACITY - length rows)
                \<lparr>timestamp = 0, sequence_number = 0, dropped_samples = 0, node_name = name_field []\<rparr>,
      msg_data = replicate 7 0, provenance_node = [], provenance_sequence = 0,
      provenance_channel = 0, source_kind = 0, source_sequence = 0, source_timestamp_ns = 0\<rparr>"

lemma sample_of_wf: "length rows \<le> STATS_CAPACITY \<Longrightarrow> wf_message (sample_of rows)"
  by (auto simp: wf_message_def sample_of_def)

lemma sample_of_entries:
  "entries (sample_of rows) = map (\<lambda>(nm, seq, ts, dropped). \<lparr>timestamp = ts,
     sequence_number = seq, dropped_samples = dropped, node_name = name_field nm\<rparr>) rows"
  by (simp add: entries_def sample_of_def)

theorem merge_keeps_newest_witness:
  "\<exists>m. merge_history_into_sample (sample_of [(''A'', 3, 30, 0)])
         (sample_of [(''A'', 5, 50, 1), (''B'', 1, 10, 0)]) initial_globals = (m, initial_globals) \<and>
       node_names m = {''A'', ''B''}"
proof -
  let ?a = "sample_of [(''A'', 3, 30, 0)]"
  let ?b = "sample_of [(''A'', 5, 50, 1), (''B'', 1, 10, 0)]"
  obtain m g' where r: "merge_history_into_sample ?a ?b initial_globals = (m, g')"
    by (cases "merge_history_into_sample ?a ?b initial_globals")
  have names: "node_names ?a \<union> node_names ?b = {''A'', ''B''}"
    by (auto simp: node_names_def sample_of_entries stat_name_def c_string_name_field)
  have wf: "wf_message ?a" "wf_message ?b"
    by (simp_all add: sample_of_wf STATS_CAPACITY_def)
  have "g' = initial_globals \<and> node_names m = {''A'', ''B''}"
    using merge_keeps_newest [OF wf _ _ r]
    by (simp add: names STATS_CAPACITY_def) (simp add: initial_globals_def)
  with r show ?thesis by blast
qed

lemma find_stat_snapshot:
  assumes "stat_name ` set es = stat_name ` set fs" and "set es = set fs"
  shows "map_option (\<lambda>e. (sequence_number e, timestamp e, dropped_samples e))
      (find_stat (fold upsert es []) n) =
    map_option (\<lambda>e. (sequence_number e, timestamp e, dropped_samples e))
      (find_stat (fold upsert fs []) n)"
proof (cases "n \<in> stat_name ` set es")
  case False
  then have "find_stat (fold upsert es []) n = None" "find_stat (fold upsert fs []) n = None"
    using assms by (simp_all add: find_stat_None fold_upsert_names)
  then show ?thesis by simp
next
  case True
  then obtain a b where ab: "find_stat (fold upsert es []) n = Some a"
      "find_stat (fold upsert fs []) n = Some b"
    using assms hist.offers_domain [of es "[]" n] hist.offers_domain [of fs "[]" n] by auto
  have "a \<in> set es \<and> stat_name a = n" "b \<in> set fs \<and> stat_name b = n"
    using hist.offers_sound [OF ab(1)] hist.offers_sound [OF ab(2)] by (auto simp: find_stat_def)
  then have "\<not> newer_stat b a" "\<not> newer_stat a b"
    using assms(2) hist.offers_newest [OF ab(1)] hist.offers_newest [OF ab(2)] by auto
  then show ?thesis using ab newer_stat_total [of a b] by simp
qed



text \<open>
  Whatever the histories hold, merging never overruns the array: the result is well
  formed, and running out of space is counted at most once per merge.
\<close>

theorem merge_never_overruns:
  assumes "wf_message sample" and "wf_message source"
    and "merge_history_into_sample sample source g = (m, g')"
  shows "wf_message m \<and> metadata_overflow_count g' - metadata_overflow_count g \<le> 1"
proof -
  have "\<forall>e \<in> set (entries source). length (node_name e) = NODE_NAME_LENGTH"
    using assms(2) by (auto simp: wf_message_def entries_def dest: in_set_takeD)
  then show ?thesis
    using merge_entries_wf [OF compact_history_refines(2) [OF assms(1)], of "entries source" g] assms
    by (auto simp: merge_history_into_sample_def split: if_splits)
qed

theorem merge_never_overruns_witness:
  "wf_message (fst (merge_history_into_sample (sample_of [(''A'', 3, 30, 0)])
     (sample_of [(''B'', 1, 10, 0)]) initial_globals))"
  using merge_never_overruns [OF sample_of_wf sample_of_wf surjective_pairing]
  by (simp add: STATS_CAPACITY_def)

section \<open>Recording a node\<close>

lemma set_sample_refines:
  assumes "wf_message sample" and "fitting_name nm" and "\<not> benchmark_mode g"
    and "nm \<in> node_names sample \<or> msg_size sample < STATS_CAPACITY"
  obtains e where "stat_name e = nm" "timestamp e = ts" "sequence_number e = seq"
    "dropped_samples e = dropped" "length (node_name e) = NODE_NAME_LENGTH"
    "entries (fst (set_sample nm seq dropped ts sample g)) = upsert e (entries sample)"
    "snd (set_sample nm seq dropped ts sample g) = g"
    "wf_message (fst (set_sample nm seq dropped ts sample g))"
proof -
  let ?i = "first_index (\<lambda>e. stat_name e = nm) (entries sample)"
  have len: "length (entries sample) = msg_size sample" by (rule entries_length) fact
  show ?thesis
  proof (cases "?i < msg_size sample")
    case True
    let ?e = "(stats sample ! ?i)\<lparr>timestamp := ts, sequence_number := seq, dropped_samples := dropped\<rparr>"
    have nm: "stat_name (stats sample ! ?i) = nm"
      using first_index_nth [of "\<lambda>e. stat_name e = nm" "entries sample"] True len
        entries_nth [OF assms(1) True] by simp
    then have ne: "stat_name ?e = nm" by (simp add: stat_name_def)
    have lf: "length (node_name ?e) = NODE_NAME_LENGTH"
      using assms(1) True by (simp add: wf_message_def)
    have "entries (fst (set_sample nm seq dropped ts sample g)) = upsert ?e (entries sample)"
      using merge_step_refines(1) [OF assms(1), of ?e] True assms(3)
      by (simp add: ne set_sample_def Let_def newer_stat_def entries_update)
    moreover have "wf_message (fst (set_sample nm seq dropped ts sample g))"
      using True assms(1,3) wf_update [OF assms(1) lf, of ?i] by (simp add: set_sample_def Let_def)
    ultimately show ?thesis
      using True assms(3) by (intro that [OF ne _ _ _ lf]) (simp_all add: set_sample_def Let_def)
  next
    case False
    let ?e = "\<lparr>timestamp = ts, sequence_number = seq, dropped_samples = dropped, node_name = name_field nm\<rparr>"
    have ne: "stat_name ?e = nm" using assms(2) by simp
    have i: "?i = msg_size sample"
      using False first_index_le [of "\<lambda>e. stat_name e = nm" "entries sample"] len by linarith
    then have "nm \<notin> node_names sample"
      using first_index_eq_length [of "\<lambda>e. stat_name e = nm" "entries sample"] len
      by (auto simp: node_names_def)
    then have room: "msg_size sample < STATS_CAPACITY" using assms(4) by simp
    have "wf_message (fst (set_sample nm seq dropped ts sample g))"
      using i room assms(3) wf_append [OF assms(1) room, of ?e]
      by (simp add: set_sample_def Let_def)
    moreover have "entries (fst (set_sample nm seq dropped ts sample g)) = upsert ?e (entries sample)"
      using merge_step_refines(1) [OF assms(1), of ?e] entries_append [OF assms(1) room, of ?e]
        i room assms(3) by (simp only: ne) (simp add: set_sample_def Let_def)
    ultimately show ?thesis
      using i room assms(3) by (intro that [OF ne]) (simp_all add: set_sample_def Let_def)
  qed
qed

text \<open>
  Recording a node whose name fits the array, when the node is known or there is
  room, gives exactly one entry for it that carries the new values unless the recorded ones
  are at least as new, and leaves every other node's entry and the counters as they were.
\<close>

theorem set_sample_records:
  assumes "wf_message sample" and "one_entry_per_node sample" and "fitting_name nm"
    and "\<not> benchmark_mode g" and "nm \<in> node_names sample \<or> msg_size sample < STATS_CAPACITY"
    and "set_sample nm seq dropped ts sample g = (m, g')"
  shows "g' = g \<and> wf_message m \<and> one_entry_per_node m \<and>
    (\<forall>k. k \<noteq> nm \<longrightarrow> history m k = history sample k) \<and>
    (\<exists>e. history m nm = Some e \<and>
       (case history sample nm of
          Some old \<Rightarrow> if is_newer_node_snapshot seq ts dropped old
            then (sequence_number e, timestamp e, dropped_samples e) = (seq, ts, dropped)
            else e = old
        | None \<Rightarrow> (sequence_number e, timestamp e, dropped_samples e) = (seq, ts, dropped)))"
proof -
  obtain e where e: "stat_name e = nm" "timestamp e = ts" "sequence_number e = seq"
    "dropped_samples e = dropped" and ent: "entries m = upsert e (entries sample)"
    and g: "g' = g" and wf: "wf_message m"
    using set_sample_refines [OF assms(1,3,4,5), of ts seq dropped] assms(6) by (metis fst_conv snd_conv)
  have "one_entry_per_node m"
    using assms(2) by (simp add: one_entry_per_node_def ent upsert_distinct)
  moreover have "history m k = history sample k" if "k \<noteq> nm" for k
    using that by (simp add: history_def ent e find_stat_upsert_other)
  moreover have "history m nm = Some (case history sample nm of None \<Rightarrow> e
      | Some w \<Rightarrow> if newer_stat e w then e else w)"
    using find_stat_upsert_same [of e "entries sample"] by (simp add: history_def ent e)
  ultimately show ?thesis
    using g wf e by (auto simp: newer_stat_def split: option.splits)
qed

theorem set_sample_records_witness:
  "\<exists>e. history (fst (set_sample ''LanePlanner'' 7 1 99 (sample_of [(''A'', 3, 30, 0)]) initial_globals))
     ''LanePlanner'' = Some e \<and> sequence_number e = 7"
proof -
  let ?s = "sample_of [(''A'', 3, 30, 0)]"
  have "wf_message ?s" "one_entry_per_node ?s" "fitting_name ''LanePlanner''"
    "msg_size ?s < STATS_CAPACITY" "history ?s ''LanePlanner'' = None"
    by (simp_all add: sample_of_wf STATS_CAPACITY_def one_entry_per_node_def sample_of_entries
        fitting_name_def NODE_NAME_LENGTH_def history_def find_stat_def stat_name_def
        c_string_name_field) (simp add: sample_of_def)
  then show ?thesis
    using set_sample_records [OF _ _ _ _ _ surjective_pairing, of ?s "''LanePlanner''" initial_globals 7 1 99]
    by (auto simp: initial_globals_def)
qed

text \<open>
  With all 63 entries in use a node that is not recorded yet cannot be recorded:
  the sample stays as it is and the overflow is counted.
\<close>

theorem set_sample_overflow:
  assumes "wf_message sample" and "\<not> benchmark_mode g"
    and "msg_size sample = STATS_CAPACITY" and "nm \<notin> node_names sample"
  shows "set_sample nm seq dropped ts sample g =
    (sample, g\<lparr>metadata_overflow_count := metadata_overflow_count g + 1\<rparr>)"
proof -
  have "first_index (\<lambda>e. stat_name e = nm) (entries sample) = msg_size sample"
    using assms(4) first_index_eq_length [of "\<lambda>e. stat_name e = nm" "entries sample"]
      entries_length [OF assms(1)] by (auto simp: node_names_def)
  with assms(2,3) show ?thesis by (simp add: set_sample_def Let_def)
qed

theorem set_sample_overflow_witness:
  "metadata_overflow_count (snd (set_sample ''B'' 7 1 99
     (sample_of (replicate 63 (''A'', 3, 30, 0))) initial_globals)) = 1"
proof -
  let ?s = "sample_of (replicate 63 (''A'', 3, 30, 0))"
  have "wf_message ?s" "msg_size ?s = STATS_CAPACITY" "''B'' \<notin> node_names ?s"
    by (simp_all add: sample_of_wf STATS_CAPACITY_def node_names_def sample_of_entries
        stat_name_def c_string_name_field) (simp add: sample_of_def)
  then show ?thesis
    using set_sample_overflow [of ?s initial_globals] by (simp add: initial_globals_def)
qed

text \<open>
  The name comparison uses the whole name while the array keeps 47 characters of it:
  recording a longer name twice leaves two entries with the same stored name.
\<close>

theorem set_sample_long_name_repeats:
  assumes "wf_message sample" and "\<not> benchmark_mode g" and "length nm > 48" and "nul \<notin> set nm"
    and "msg_size sample + 2 \<le> STATS_CAPACITY"
    and "set_sample nm seq dropped ts sample g = (m1, g1)"
    and "set_sample nm seq2 dropped2 ts2 m1 g1 = (m2, g2)"
  shows "msg_size m2 = msg_size sample + 2 \<and> \<not> one_entry_per_node m2"
proof -
  let ?e = "\<lambda>ts seq dropped. \<lparr>timestamp = ts, sequence_number = seq, dropped_samples = dropped,
    node_name = name_field nm\<rparr>"
  have append: "fst (set_sample nm seq dropped ts m g) =
      m\<lparr>stats := (stats m)[msg_size m := ?e ts seq dropped], msg_size := Suc (msg_size m)\<rparr>"
    "snd (set_sample nm seq dropped ts m g) = g"
    if "wf_message m" "msg_size m < STATS_CAPACITY" for m seq dropped ts
  proof -
    have "stat_name e \<noteq> nm" if "e \<in> set (entries m)" for e
    proof -
      have "length (node_name e) = 48"
        using that \<open>wf_message m\<close> by (auto simp: wf_message_def entries_def NODE_NAME_LENGTH_def dest: in_set_takeD)
      then have "length (stat_name e) \<le> 48"
        using length_takeWhile_le [of _ "node_name e"] by (simp add: stat_name_def c_string_def)
      with assms(3) show ?thesis by auto
    qed
    then have "first_index (\<lambda>e. stat_name e = nm) (entries m) = msg_size m"
      using first_index_eq_length [of "\<lambda>e. stat_name e = nm" "entries m"] entries_length [OF that(1)]
      by simp
    then show "fst (set_sample nm seq dropped ts m g) =
        m\<lparr>stats := (stats m)[msg_size m := ?e ts seq dropped], msg_size := Suc (msg_size m)\<rparr>"
      "snd (set_sample nm seq dropped ts m g) = g"
      using that(2) assms(2) by (simp_all add: set_sample_def Let_def)
  qed
  have m1: "m1 = sample\<lparr>stats := (stats sample)[msg_size sample := ?e ts seq dropped],
      msg_size := Suc (msg_size sample)\<rparr>" and g1: "g1 = g"
    using append [OF assms(1)] assms(5,6) by (metis add_2_eq_Suc' fst_conv less_eq_Suc_le Suc_leD snd_conv)+
  have wf1: "wf_message m1"
    unfolding m1 using assms(1,5) by (intro wf_append) simp_all
  have size1: "msg_size m1 = Suc (msg_size sample)" by (simp add: m1)
  then have m2: "m2 = m1\<lparr>stats := (stats m1)[msg_size m1 := ?e ts2 seq2 dropped2],
      msg_size := Suc (msg_size m1)\<rparr>"
    using append(1) [OF wf1, of seq2 dropped2 ts2] assms(5,7) g1 by simp
  have "entries m2 = entries sample @ [?e ts seq dropped] @ [?e ts2 seq2 dropped2]"
    using entries_append [OF wf1, of "?e ts2 seq2 dropped2"] entries_append [OF assms(1), of "?e ts seq dropped"]
      assms(5) size1 m1 by (simp add: m2)
  then show ?thesis by (simp add: one_entry_per_node_def m2 size1 stat_name_def)
qed

theorem set_sample_long_name_repeats_witness:
  "\<not> one_entry_per_node (fst (set_sample (replicate 60 CHR ''x'') 2 0 20
     (fst (set_sample (replicate 60 CHR ''x'') 1 0 10 (sample_of []) initial_globals))
     (snd (set_sample (replicate 60 CHR ''x'') 1 0 10 (sample_of []) initial_globals))))"
  using set_sample_long_name_repeats [OF sample_of_wf _ _ _ _ surjective_pairing surjective_pairing,
      of "[]" initial_globals "replicate 60 CHR ''x''"]
  by (simp add: STATS_CAPACITY_def initial_globals_def sample_of_def)

section \<open>Counting missed samples\<close>

text \<open>A subscription that receives samples one after the other, adding up what it missed.\<close>

fun receive_all :: "message list \<Rightarrow> u32 \<Rightarrow> globals \<Rightarrow> nat \<times> u32" where
  "receive_all [] seq g = (0, seq)"
| "receive_all (s # ss) seq g =
     (let (missed, seq') = get_missed_samples_and_update_seq_nr s seq g;
          (total, last_seq) = receive_all ss seq' g
      in (unat missed + total, last_seq))"

lemma missed_no_wrap:
  "seq < get_sample_sequence_number s g \<Longrightarrow>
   unat (fst (get_missed_samples_and_update_seq_nr s seq g)) + 1 =
     unat (get_sample_sequence_number s g) - unat seq"
  by (simp add: get_missed_samples_and_update_seq_nr_def Let_def) unat_arith

text \<open>
  While sequence numbers grow, the missed samples and the received ones add up to
  the distance travelled, with no wrap-around in the 32-bit subtraction.
\<close>

theorem missed_samples_account:
  assumes "sorted_wrt (<) (seq # map (\<lambda>s. get_sample_sequence_number s g) ss)"
    and "receive_all ss seq g = (missed, last_seq)"
  shows "missed + length ss = unat last_seq - unat seq \<and> seq \<le> last_seq"
  using assms
proof (induction ss arbitrary: seq missed)
  case Nil
  then show ?case by simp
next
  case (Cons s ss)
  let ?s = "get_sample_sequence_number s g"
  have lt: "seq < ?s" using Cons.prems(1) by simp
  have upd: "snd (get_missed_samples_and_update_seq_nr s seq g) = ?s"
    by (simp add: get_missed_samples_and_update_seq_nr_def Let_def)
  obtain total where rest: "receive_all ss ?s g = (total, last_seq)"
    and missed: "missed = unat (fst (get_missed_samples_and_update_seq_nr s seq g)) + total"
    using Cons.prems(2) upd by (cases "receive_all ss ?s g") (auto simp: split_beta Let_def)
  have "total + length ss = unat last_seq - unat ?s \<and> ?s \<le> last_seq"
    using Cons.prems(1) rest by (intro Cons.IH) simp_all
  then show ?case
    using missed_no_wrap [OF lt] lt missed by (auto simp: word_less_nat_alt word_le_nat_alt)
qed

theorem missed_samples_account_witness:
  "fst (receive_all [sample_of [(''A'', 2, 0, 0)], sample_of [(''A'', 5, 0, 0)]] 0 initial_globals) + 2 = 5"
  using missed_samples_account [OF _ surjective_pairing,
      of 0 initial_globals "[sample_of [(''A'', 2, 0, 0)], sample_of [(''A'', 5, 0, 0)]]"]
  by (simp add: get_missed_samples_and_update_seq_nr_def get_sample_sequence_number_def
      sample_of_def initial_globals_def)

end
