(* ===== verification/Lineage.thy ===== *)
theory Lineage
  imports Sample_History
begin

text \<open>
  The part of \<open>sample_management.hpp\<close> that reads a finished history: which nodes a sample
  passed through (\<open>build_node_map\<close>, \<open>extract_lineage\<close>), whether they form one of the expected
  chains (the \<open>validate\<close> functions), and which source samples it stems from
  (\<open>extract_source_roots\<close>, \<open>select_source_reference\<close>, \<open>normalized_source_roots\<close>).
\<close>

section \<open>Data and operations\<close>

record node_map_t =
  nm_timestamp :: u64
  nm_sequence_number :: u32
  nm_dropped_samples :: u32

type_synonym node_map = "(string, node_map_t) omap"

definition add_node :: "node_map \<Rightarrow> transmission_stats \<Rightarrow> node_map" where
  "add_node nodes e =
     (if map_of nodes (stat_name e) = None
      then omap_set (stat_name e)
        \<lparr>nm_timestamp = timestamp e, nm_sequence_number = sequence_number e,
         nm_dropped_samples = dropped_samples e\<rparr> nodes
      else nodes)"

definition build_node_map :: "message \<Rightarrow> node_map" where
  "build_node_map sample = foldl add_node [] (entries sample)"

definition has_node :: "node_map \<Rightarrow> string \<Rightarrow> bool" where
  "has_node nodes nm \<longleftrightarrow> map_of nodes nm \<noteq> None"

definition has_exact_nodes :: "node_map \<Rightarrow> string list \<Rightarrow> bool" where
  "has_exact_nodes nodes expected \<longleftrightarrow>
     length nodes = length expected \<and> list_all (has_node nodes) expected"

definition ts_before :: "node_map \<Rightarrow> string \<Rightarrow> string \<Rightarrow> bool" where
  "ts_before nodes a b =
     (case (map_of nodes a, map_of nodes b) of
        (Some ia, Some ib) \<Rightarrow> nm_timestamp ia < nm_timestamp ib
      | _ \<Rightarrow> False)"

definition sum_drops :: "message \<Rightarrow> node_map \<Rightarrow> u32" where
  "sum_drops sample lineage =
     foldl (\<lambda>total e. if has_node lineage (stat_name e) then total + dropped_samples e else total)
       0 (entries sample)"

record source_identity =
  si_node_name :: string
  si_sequence_number :: u32
  si_timestamp :: u64

definition is_newer_source_identity :: "source_identity \<Rightarrow> source_identity \<Rightarrow> bool" where
  "is_newer_source_identity candidate current \<longleftrightarrow>
     si_sequence_number candidate > si_sequence_number current \<or>
     (si_sequence_number candidate = si_sequence_number current \<and>
      si_timestamp candidate > si_timestamp current)"

definition source_reference_before :: "source_identity \<Rightarrow> source_identity \<Rightarrow> bool" where
  "source_reference_before a b =
     (if si_timestamp a \<noteq> si_timestamp b then si_timestamp a < si_timestamp b
      else if si_node_name a \<noteq> si_node_name b then si_node_name a < si_node_name b
      else si_sequence_number a < si_sequence_number b)"

text \<open>The update both loops over roots perform: keep the newest identity of a node.\<close>

definition keep_newest_root ::
    "source_identity \<Rightarrow> (string, source_identity) omap \<Rightarrow> (string, source_identity) omap" where
  "keep_newest_root candidate roots =
     (case map_of roots (si_node_name candidate) of
        None \<Rightarrow> omap_set (si_node_name candidate) candidate roots
      | Some existing \<Rightarrow>
          if is_newer_source_identity candidate existing
          then omap_set (si_node_name candidate) candidate roots else roots)"

definition identity_of :: "transmission_stats \<Rightarrow> source_identity" where
  "identity_of e = \<lparr>si_node_name = stat_name e, si_sequence_number = sequence_number e,
     si_timestamp = timestamp e\<rparr>"

definition extract_source_roots :: "message \<Rightarrow> string list \<Rightarrow> source_identity list" where
  "extract_source_roots sample source_nodes =
     map snd (foldl (\<lambda>roots e.
         if stat_name e \<notin> set source_nodes then roots
         else keep_newest_root (identity_of e) roots) [] (entries sample))"

text \<open>\<open>std::min_element\<close> and \<open>std::max_element\<close> with the comparator above.\<close>

definition min_pick :: "source_identity \<Rightarrow> source_identity \<Rightarrow> source_identity" where
  "min_pick smallest x = (if source_reference_before x smallest then x else smallest)"

definition max_pick :: "source_identity \<Rightarrow> source_identity \<Rightarrow> source_identity" where
  "max_pick largest x = (if source_reference_before largest x then x else largest)"

definition select_source_reference :: "source_identity list \<Rightarrow> bool \<Rightarrow> source_identity" where
  "select_source_reference roots use_minimum =
     (case roots of
        [] \<Rightarrow> \<lparr>si_node_name = [], si_sequence_number = 0, si_timestamp = 0\<rparr>
      | r # rs \<Rightarrow> if use_minimum then foldl min_pick r rs else foldl max_pick r rs)"

definition validate_hot_path_lineage :: "node_map \<Rightarrow> bool" where
  "validate_hot_path_lineage nodes =
     (let has_front = has_node nodes ''FrontLidarDriver'';
          has_rear = has_node nodes ''RearLidarDriver''
      in if \<not> has_front \<and> \<not> has_rear then False
         else
           let expected =
             [''PointCloudFusion'', ''RayGroundFilter'', ''EuclideanClusterDetector'',
              ''ObjectCollisionEstimator'']
             @ (if has_front then [''FrontLidarDriver'', ''PointsTransformerFront''] else [])
             @ (if has_rear then [''RearLidarDriver'', ''PointsTransformerRear''] else [])
           in if \<not> has_exact_nodes nodes expected then False
              else if \<not> ts_before nodes ''RayGroundFilter'' ''EuclideanClusterDetector'' then False
              else if \<not> ts_before nodes ''EuclideanClusterDetector'' ''ObjectCollisionEstimator''
              then False
              else True)"

definition dbw_nodes :: "string list" where
  "dbw_nodes =
     [''FrontLidarDriver'', ''RearLidarDriver'', ''PointsTransformerFront'',
      ''PointsTransformerRear'', ''PointCloudFusion'',
      ''VoxelGridDownsampler'', ''RayGroundFilter'', ''EuclideanClusterDetector'',
      ''ObjectCollisionEstimator'', ''PointCloudMap'', ''PointCloudMapLoader'',
      ''NDTLocalizer'', ''Visualizer'', ''Lanelet2GlobalPlanner'', ''Lanelet2Map'',
      ''Lanelet2MapLoader'', ''ParkingPlanner'', ''LanePlanner'',
      ''BehaviorPlanner'', ''MPCController'', ''VehicleInterface'']"

definition validate_dbw_lineage :: "node_map \<Rightarrow> bool" where
  "validate_dbw_lineage nodes =
     (if \<not> has_exact_nodes nodes dbw_nodes then False
      else if \<not> ts_before nodes ''PointCloudFusion'' ''VoxelGridDownsampler'' then False
      else if \<not> ts_before nodes ''BehaviorPlanner'' ''MPCController'' then False
      else if \<not> ts_before nodes ''MPCController'' ''VehicleInterface'' then False
      else True)"

definition validate_intersection_lineage :: "node_map \<Rightarrow> bool" where
  "validate_intersection_lineage nodes =
     has_exact_nodes nodes [''EuclideanClusterSettings'', ''EuclideanClusterDetector'']"

text \<open>The de-duplication \<open>extract_lineage\<close> and \<open>make_structured_chain_record\<close> share.\<close>

definition push_unique :: "string list \<Rightarrow> string \<Rightarrow> string list" where
  "push_unique acc nm = (if nm \<in> set acc then acc else acc @ [nm])"

definition extract_lineage :: "message \<Rightarrow> string list" where
  "extract_lineage sample = foldl push_unique [] (map stat_name (entries sample))"

definition normalized_source_roots ::
    "source_identity list \<Rightarrow> source_identity \<Rightarrow> source_identity list" where
  "normalized_source_roots roots reference =
     (let unique_roots = foldl (\<lambda>m root. if si_node_name root = [] then m
                                         else keep_newest_root root m) [] roots;
          unique_roots' = (if si_node_name reference \<noteq> []
                           then omap_set (si_node_name reference) reference unique_roots
                           else unique_roots)
      in map snd unique_roots')"

section \<open>Node maps\<close>

lemma add_node_ok: "omap_ok nodes \<Longrightarrow> omap_ok (add_node nodes e)"
  by (auto simp: add_node_def)

lemma fold_add_node_ok: "omap_ok nodes \<Longrightarrow> omap_ok (foldl add_node nodes es)"
  by (induction es arbitrary: nodes) (auto intro: add_node_ok)

lemma build_node_map_ok: "omap_ok (build_node_map sample)"
  by (simp add: build_node_map_def fold_add_node_ok)

lemma has_node_iff: "has_node nodes nm \<longleftrightarrow> nm \<in> fst ` set nodes"
  by (simp add: has_node_def map_of_eq_None_iff)

lemma fold_add_node_keys:
  "fst ` set (foldl add_node nodes es) = fst ` set nodes \<union> stat_name ` set es"
  by (induction es arbitrary: nodes) (auto simp: add_node_def map_of_eq_None_iff image_iff)

lemma build_node_map_keys: "fst ` set (build_node_map sample) = node_names sample"
  by (simp add: build_node_map_def fold_add_node_keys node_names_def)

lemma has_exact_nodes_iff:
  assumes "omap_ok nodes" and "distinct expected"
  shows "has_exact_nodes nodes expected \<longleftrightarrow> fst ` set nodes = set expected"
proof -
  have len: "length nodes = card (fst ` set nodes)"
    using omap_ok_distinct [OF assms(1)] by (metis distinct_card length_map set_map)
  have len': "length expected = card (set expected)"
    using assms(2) by (simp add: distinct_card)
  show ?thesis
  proof
    assume "has_exact_nodes nodes expected"
    then have "set expected \<subseteq> fst ` set nodes" "card (set expected) = card (fst ` set nodes)"
      by (auto simp: has_exact_nodes_def has_node_iff list_all_iff len len')
    then show "fst ` set nodes = set expected" by (metis List.finite_set card_subset_eq finite_imageI)
  next
    assume "fst ` set nodes = set expected"
    then show "has_exact_nodes nodes expected"
      by (simp add: has_exact_nodes_def has_node_iff list_all_iff len len')
  qed
qed

lemma ts_before_asym: "ts_before nodes a b \<Longrightarrow> \<not> ts_before nodes b a"
  by (auto simp: ts_before_def split: option.splits)

lemma ts_before_trans: "ts_before nodes a b \<Longrightarrow> ts_before nodes b c \<Longrightarrow> ts_before nodes a c"
  by (auto simp: ts_before_def split: option.splits)

section \<open>Source roots\<close>

interpretation source_fresh: freshness is_newer_source_identity
  by unfold_locales (auto simp: is_newer_source_identity_def)

interpretation roots: newest_register is_newer_source_identity si_node_name map_of keep_newest_root
  by unfold_locales (auto simp: keep_newest_root_def split: option.splits)

lemma si_node_name_identity_of [simp]: "si_node_name (identity_of e) = stat_name e"
  by (simp add: identity_of_def)

lemma keep_newest_root_ok: "omap_ok m \<Longrightarrow> omap_ok (keep_newest_root r m)"
  by (auto simp: keep_newest_root_def split: option.splits)

lemma fold_keep_newest_ok: "omap_ok m \<Longrightarrow> omap_ok (fold keep_newest_root rs m)"
  by (induction rs arbitrary: m) (auto intro: keep_newest_root_ok)

lemma roots_keyed:
  "\<forall>(k, r) \<in> set m. si_node_name r = k \<Longrightarrow> \<forall>(k, r) \<in> set (omap_set (si_node_name x) x m). si_node_name r = k"
  by (induction m) auto

lemma fold_keep_newest_keyed:
  "\<forall>(k, r) \<in> set m. si_node_name r = k \<Longrightarrow>
   \<forall>(k, r) \<in> set (fold keep_newest_root rs m). si_node_name r = k"
proof (induction rs arbitrary: m)
  case Nil
  then show ?case by simp
next
  case (Cons r rs)
  have "\<forall>(k, x) \<in> set (keep_newest_root r m). si_node_name x = k"
    using Cons.prems roots_keyed [OF Cons.prems, of r]
    by (simp add: keep_newest_root_def split: option.splits)
  with Cons.IH show ?case by simp
qed

lemma foldl_filter_map:
  "foldl (\<lambda>acc x. if P x then acc else f (h x) acc) m xs = fold f (map h (filter (\<lambda>x. \<not> P x) xs)) m"
  by (induction xs arbitrary: m) auto

lemma extract_source_roots_fold:
  "extract_source_roots sample source_nodes =
     map snd (fold keep_newest_root
       (map identity_of (filter (\<lambda>e. stat_name e \<in> set source_nodes) (entries sample))) [])"
  using foldl_filter_map [of "\<lambda>e. stat_name e \<notin> set source_nodes" keep_newest_root identity_of]
  by (simp add: extract_source_roots_def)

text \<open>
  The source roots of a sample are listed in the order of their node names without
  repetition, cover exactly the source nodes the sample has passed, and each is an entry of the
  sample such that no entry of the same source is newer.
\<close>

theorem extract_source_roots_newest:
  "sorted_wrt (<) (map si_node_name (extract_source_roots sample source_nodes)) \<and>
   si_node_name ` set (extract_source_roots sample source_nodes) =
     node_names sample \<inter> set source_nodes \<and>
   (\<forall>r \<in> set (extract_source_roots sample source_nodes).
      r \<in> identity_of ` set (entries sample) \<and>
      (\<forall>e \<in> set (entries sample). stat_name e = si_node_name r \<longrightarrow>
         \<not> is_newer_source_identity (identity_of e) r))"
proof -
  let ?es = "filter (\<lambda>e. stat_name e \<in> set source_nodes) (entries sample)"
  let ?m = "fold keep_newest_root (map identity_of ?es) []"
  have ok: "omap_ok ?m" by (simp add: fold_keep_newest_ok)
  have keyed: "\<forall>(k, r) \<in> set ?m. si_node_name r = k" by (rule fold_keep_newest_keyed) simp
  have names: "map si_node_name (map snd ?m) = map fst ?m"
    using keyed by (auto simp: split_beta)
  have dom: "fst ` set ?m = node_names sample \<inter> set source_nodes"
  proof -
    have "k \<in> fst ` set ?m \<longleftrightarrow> k \<in> si_node_name ` set (map identity_of ?es)" for k
      using roots.offers_domain [of "map identity_of ?es" "[]" k] by (simp add: map_of_eq_None_iff)
    then have "fst ` set ?m = si_node_name ` set (map identity_of ?es)" by blast
    also have "\<dots> = node_names sample \<inter> set source_nodes"
      by (auto simp: node_names_def identity_of_def image_iff)
    finally show ?thesis .
  qed
  have each: "r \<in> identity_of ` set (entries sample) \<and>
      (\<forall>e \<in> set (entries sample). stat_name e = si_node_name r \<longrightarrow>
         \<not> is_newer_source_identity (identity_of e) r)" if "r \<in> snd ` set ?m" for r
  proof -
    have r: "map_of ?m (si_node_name r) = Some r"
      using that keyed ok by (auto simp: omap_find_iff)
    then have "si_node_name r \<in> set source_nodes"
      using dom by (metis IntE domI dom_map_of_conv_image_fst)
    then have "\<not> is_newer_source_identity (identity_of e) r"
      if "e \<in> set (entries sample)" "stat_name e = si_node_name r" for e
      using roots.offers_newest [OF r, of "identity_of e"] that by simp
    then show ?thesis using roots.offers_sound [OF r] by auto
  qed
  show ?thesis
    using ok dom each names unfolding extract_source_roots_fold
    by (simp add: omap_ok_def) (metis (no_types, lifting) image_image image_set list.map_comp names)
qed

theorem extract_source_roots_newest_witness:
  "si_node_name ` set (extract_source_roots (sample_of [(''A'', 3, 30, 0), (''B'', 1, 10, 0)])
     [''B'', ''C'']) = {''B''}"
proof -
  have "node_names (sample_of [(''A'', 3, 30, 0), (''B'', 1, 10, 0)]) = {''A'', ''B''}"
    by (auto simp: node_names_def sample_of_entries stat_name_def c_string_name_field)
  then show ?thesis
    using extract_source_roots_newest
      [of "sample_of [(''A'', 3, 30, 0), (''B'', 1, 10, 0)]" "[''B'', ''C'']"]
    by simp
qed

section \<open>The reference source\<close>

lemma source_reference_before_irrefl: "\<not> source_reference_before a a"
  by (simp add: source_reference_before_def)

lemma source_reference_before_neg_trans:
  "\<not> source_reference_before a b \<Longrightarrow> \<not> source_reference_before b c \<Longrightarrow> \<not> source_reference_before a c"
  by (auto simp: source_reference_before_def split: if_splits)

lemma source_reference_before_asym: "source_reference_before a b \<Longrightarrow> \<not> source_reference_before b a"
  by (auto simp: source_reference_before_def split: if_splits)

interpretation earliest: best_choice source_reference_before min_pick
proof
  fix a b c :: source_identity
  let ?better = "source_reference_before"
  show "\<not> ?better a a" by (rule source_reference_before_irrefl)
  show "\<not> ?better a b \<Longrightarrow> \<not> ?better b c \<Longrightarrow> \<not> ?better a c"
    using source_reference_before_neg_trans by blast
  show "min_pick a b = a \<or> min_pick a b = b" by (simp add: min_pick_def)
  show "\<not> ?better a (min_pick a b)" "\<not> ?better b (min_pick a b)"
    using source_reference_before_asym by (auto simp: min_pick_def source_reference_before_irrefl)
qed

interpretation latest: best_choice "\<lambda>a b. source_reference_before b a" max_pick
proof
  fix a b c :: source_identity
  let ?better = "\<lambda>a b. source_reference_before b a"
  show "\<not> ?better a a" by (rule source_reference_before_irrefl)
  show "\<not> ?better a b \<Longrightarrow> \<not> ?better b c \<Longrightarrow> \<not> ?better a c"
    using source_reference_before_neg_trans by blast
  show "max_pick a b = a \<or> max_pick a b = b" by (simp add: max_pick_def)
  show "\<not> ?better a (max_pick a b)" "\<not> ?better b (max_pick a b)"
    using source_reference_before_asym by (auto simp: max_pick_def source_reference_before_irrefl)
qed

text \<open>
  The selected reference is one of the roots, and no root comes before it (when the
  minimum is asked for) or after it (when the maximum is) in the order by timestamp, name and
  sequence number.
\<close>

theorem select_source_reference_extreme:
  assumes "roots \<noteq> []"
  shows "select_source_reference roots use_minimum \<in> set roots \<and>
    (\<forall>r \<in> set roots. if use_minimum
       then \<not> source_reference_before r (select_source_reference roots use_minimum)
       else \<not> source_reference_before (select_source_reference roots use_minimum) r)"
proof -
  obtain r rs where "roots = r # rs" using assms by (cases roots) auto
  then show ?thesis
    using earliest.scan_member [of r rs] earliest.scan_best [of _ r rs]
      latest.scan_member [of r rs] latest.scan_best [of _ r rs]
    by (simp add: select_source_reference_def)
qed

theorem select_source_reference_extreme_witness:
  "select_source_reference
     [\<lparr>si_node_name = ''FrontLidarDriver'', si_sequence_number = 4, si_timestamp = 90\<rparr>,
      \<lparr>si_node_name = ''RearLidarDriver'', si_sequence_number = 5, si_timestamp = 80\<rparr>] True \<in>
   {\<lparr>si_node_name = ''FrontLidarDriver'', si_sequence_number = 4, si_timestamp = 90\<rparr>,
      \<lparr>si_node_name = ''RearLidarDriver'', si_sequence_number = 5, si_timestamp = 80\<rparr>}"
  using select_source_reference_extreme
    [of "[\<lparr>si_node_name = ''FrontLidarDriver'', si_sequence_number = 4, si_timestamp = 90\<rparr>,
      \<lparr>si_node_name = ''RearLidarDriver'', si_sequence_number = 5, si_timestamp = 80\<rparr>]" True]
  by simp

section \<open>Normalised roots\<close>

lemma normalized_source_roots_fold:
  "normalized_source_roots roots reference =
     (let m = fold keep_newest_root (filter (\<lambda>r. si_node_name r \<noteq> []) roots) []
      in map snd (if si_node_name reference \<noteq> [] then omap_set (si_node_name reference) reference m
                  else m))"
  using foldl_filter_map [of "\<lambda>r. si_node_name r = []" keep_newest_root id "[]" roots]
  by (simp add: normalized_source_roots_def Let_def cong: if_cong)

text \<open>
  A completion record lists every named root once, in name order; the reference
  source stands for its own node whatever the roots say about it, and every other listed root
  is the newest one given for its node.
\<close>

theorem normalized_source_roots_complete:
  assumes "si_node_name reference \<noteq> []"
  shows "sorted_wrt (<) (map si_node_name (normalized_source_roots roots reference)) \<and>
    reference \<in> set (normalized_source_roots roots reference) \<and>
    si_node_name ` set (normalized_source_roots roots reference) =
      insert (si_node_name reference) (si_node_name ` set roots - {[]}) \<and>
    (\<forall>r \<in> set (normalized_source_roots roots reference). r \<noteq> reference \<longrightarrow>
       r \<in> set roots \<and>
       (\<forall>x \<in> set roots. si_node_name x = si_node_name r \<longrightarrow> \<not> is_newer_source_identity x r))"
proof -
  let ?rs = "filter (\<lambda>r. si_node_name r \<noteq> []) roots"
  let ?m = "fold keep_newest_root ?rs []"
  let ?m' = "omap_set (si_node_name reference) reference ?m"
  have ok: "omap_ok ?m'" by (intro omap_ok_set fold_keep_newest_ok) simp
  have keyed0: "\<forall>(k, r) \<in> set ?m. si_node_name r = k" by (rule fold_keep_newest_keyed) simp
  have keyed: "\<forall>(k, r) \<in> set ?m'. si_node_name r = k" by (rule roots_keyed [OF keyed0])
  have names: "map si_node_name (map snd ?m') = map fst ?m'"
    using keyed by (auto simp: split_beta)
  have res: "normalized_source_roots roots reference = map snd ?m'"
    using assms by (simp add: normalized_source_roots_fold Let_def)
  have ref: "map_of ?m' (si_node_name reference) = Some reference" by simp
  then have "(si_node_name reference, reference) \<in> set ?m'" by (rule map_of_SomeD)
  then have ref_in: "reference \<in> snd ` set ?m'" by force
  have "k \<in> fst ` set ?m \<longleftrightarrow> k \<in> si_node_name ` set ?rs" for k
    using roots.offers_domain [of ?rs "[]" k] by (simp add: map_of_eq_None_iff)
  then have "fst ` set ?m = si_node_name ` set ?rs" by blast
  also have "\<dots> = si_node_name ` set roots - {[]}" by auto
  finally have dom: "fst ` set ?m = si_node_name ` set roots - {[]}" .
  have each: "r \<in> set roots \<and>
      (\<forall>x \<in> set roots. si_node_name x = si_node_name r \<longrightarrow> \<not> is_newer_source_identity x r)"
    if r: "r \<in> snd ` set ?m'" "r \<noteq> reference" for r
  proof -
    have "(si_node_name r, r) \<in> set ?m'" using r(1) keyed by force
    then have "map_of ?m' (si_node_name r) = Some r" by (simp only: omap_find_iff [OF ok])
    then have f: "map_of ?m (si_node_name r) = Some r"
      using r(2) by (auto split: if_splits)
    then have "si_node_name r \<noteq> []"
      using dom by (metis DiffE domI dom_map_of_conv_image_fst insertI1)
    then show ?thesis
      using roots.offers_sound [OF f] roots.offers_newest [OF f] by auto
  qed
  have keys: "si_node_name ` set (map snd ?m') = fst ` set ?m'"
    using names by (metis set_map)
  show ?thesis
    unfolding res
  proof (intro conjI)
    show "sorted_wrt (<) (map si_node_name (map snd ?m'))"
      using ok unfolding names omap_ok_def .
    show "reference \<in> set (map snd ?m')" using ref_in by simp
    show "si_node_name ` set (map snd ?m') =
        insert (si_node_name reference) (si_node_name ` set roots - {[]})"
      by (simp only: keys omap_keys_set dom)
    show "\<forall>r \<in> set (map snd ?m'). r \<noteq> reference \<longrightarrow> r \<in> set roots \<and>
        (\<forall>x \<in> set roots. si_node_name x = si_node_name r \<longrightarrow> \<not> is_newer_source_identity x r)"
      using each unfolding set_map by blast
  qed
qed

theorem normalized_source_roots_complete_witness:
  "\<lparr>si_node_name = ''A'', si_sequence_number = 1, si_timestamp = 1\<rparr> \<in>
     set (normalized_source_roots
       [\<lparr>si_node_name = ''A'', si_sequence_number = 9, si_timestamp = 9\<rparr>]
       \<lparr>si_node_name = ''A'', si_sequence_number = 1, si_timestamp = 1\<rparr>)"
  using normalized_source_roots_complete
    [of "\<lparr>si_node_name = ''A'', si_sequence_number = 1, si_timestamp = 1\<rparr>"
        "[\<lparr>si_node_name = ''A'', si_sequence_number = 9, si_timestamp = 9\<rparr>]"]
  by simp

section \<open>Chains\<close>

lemma dbw_nodes_distinct: "distinct dbw_nodes"
  by (simp add: dbw_nodes_def)

text \<open>
  The drive-by-wire chain is accepted exactly when the sample has passed the 21
  nodes of the chain and no other, with the fusion before the downsampler and the planner
  before the controller before the vehicle interface.
\<close>

theorem validate_dbw_lineage_iff:
  "validate_dbw_lineage (build_node_map sample) \<longleftrightarrow>
     node_names sample = set dbw_nodes \<and>
     ts_before (build_node_map sample) ''PointCloudFusion'' ''VoxelGridDownsampler'' \<and>
     ts_before (build_node_map sample) ''BehaviorPlanner'' ''MPCController'' \<and>
     ts_before (build_node_map sample) ''MPCController'' ''VehicleInterface''"
  using has_exact_nodes_iff [OF build_node_map_ok dbw_nodes_distinct]
  by (simp add: validate_dbw_lineage_def build_node_map_keys)

lemma nonempty_subset_pair: "X \<noteq> {} \<and> X \<subseteq> {a, b} \<longleftrightarrow> X = {a} \<or> X = {b} \<or> X = {a, b}"
  by auto

lemma regroup_pairs: "X \<union> {a, b} \<union> {c, d} = X \<union> ({a, c} \<union> {b, d})"
  by auto

lemma regroup_single: "X \<union> {a} \<union> {b} = X \<union> {a, b}"
  by auto

lemma two_flags:
  assumes "S = A \<Longrightarrow> f \<and> \<not> r" and "S = B \<Longrightarrow> \<not> f \<and> r" and "S = C \<Longrightarrow> f \<and> r"
  shows "(f \<or> r) \<and> S = (if f then if r then C else A else B) \<and> T \<longleftrightarrow>
    (S = A \<or> S = B \<or> S = C) \<and> T"
  using assms by (cases f; cases r) auto

text \<open>
  A hot-path sample is accepted exactly when it has passed the four nodes of the
  detection chain together with each lidar it stems from and that lidar's transformer, at
  least one lidar among them, and the last three stages are stamped in order.
\<close>

theorem validate_hot_path_lineage_iff:
  "validate_hot_path_lineage (build_node_map sample) \<longleftrightarrow>
     (\<exists>lidars. lidars \<noteq> {} \<and> lidars \<subseteq> {''Front'', ''Rear''} \<and>
        node_names sample =
          {''PointCloudFusion'', ''RayGroundFilter'', ''EuclideanClusterDetector'',
           ''ObjectCollisionEstimator''} \<union>
          (\<lambda>l. l @ ''LidarDriver'') ` lidars \<union> (\<lambda>l. ''PointsTransformer'' @ l) ` lidars) \<and>
     ts_before (build_node_map sample) ''RayGroundFilter'' ''EuclideanClusterDetector'' \<and>
     ts_before (build_node_map sample) ''EuclideanClusterDetector'' ''ObjectCollisionEstimator''"
proof -
  let ?n = "build_node_map sample" and ?S = "node_names sample"
  let ?before = "ts_before ?n ''RayGroundFilter'' ''EuclideanClusterDetector'' \<and>
    ts_before ?n ''EuclideanClusterDetector'' ''ObjectCollisionEstimator''"
  let ?cl = "[''PointCloudFusion'', ''RayGroundFilter'', ''EuclideanClusterDetector'',
    ''ObjectCollisionEstimator'']"
  let ?fl = "[''FrontLidarDriver'', ''PointsTransformerFront'']"
  let ?rl = "[''RearLidarDriver'', ''PointsTransformerRear'']"
  let ?path = "\<lambda>lidars. set ?cl \<union> (\<lambda>l. l @ ''LidarDriver'') ` lidars \<union>
    (\<lambda>l. ''PointsTransformer'' @ l) ` lidars"
  have has: "has_node ?n nm \<longleftrightarrow> nm \<in> ?S" for nm
    by (simp add: has_node_iff build_node_map_keys)
  have exact: "has_exact_nodes ?n xs \<longleftrightarrow> ?S = set xs" if "distinct xs" for xs
    using has_exact_nodes_iff [OF build_node_map_ok that] by (simp add: build_node_map_keys)
  have "?path {''Front'', ''Rear''} = set ?cl \<union> {''FrontLidarDriver'', ''RearLidarDriver''} \<union>
      {''PointsTransformerFront'', ''PointsTransformerRear''}"
    by (simp only: image_insert image_empty append.simps)
  also have "\<dots> = set ?cl \<union> (set ?fl \<union> set ?rl)"
    unfolding list.set by (rule regroup_pairs)
  finally have both: "?path {''Front'', ''Rear''} = set (?cl @ ?fl @ ?rl)"
    unfolding set_append .
  have one: "?path {l} = set ?cl \<union> {l @ ''LidarDriver'', ''PointsTransformer'' @ l}" for l
    by (simp only: image_insert image_empty regroup_single)
  have paths: "?path {''Front''} = set (?cl @ ?fl)" "?path {''Rear''} = set (?cl @ ?rl)"
    by (simp_all only: one set_append) (simp_all only: list.set append.simps)
  have lid: "(lidars \<noteq> {} \<and> lidars \<subseteq> {''Front'', ''Rear''}) \<longleftrightarrow>
      lidars = {''Front''} \<or> lidars = {''Rear''} \<or> lidars = {''Front'', ''Rear''}" for lidars
    by (rule nonempty_subset_pair)
  have spec: "(\<exists>lidars. lidars \<noteq> {} \<and> lidars \<subseteq> {''Front'', ''Rear''} \<and> ?S = ?path lidars) \<longleftrightarrow>
      ?S = set (?cl @ ?fl) \<or> ?S = set (?cl @ ?rl) \<or> ?S = set (?cl @ ?fl @ ?rl)"
    unfolding conj_assoc [symmetric] lid
    by (simp only: conj_disj_distribR ex_disj_distrib simp_thms paths both)
  have f: "?S = set (?cl @ ?fl) \<Longrightarrow> ''FrontLidarDriver'' \<in> ?S \<and> ''RearLidarDriver'' \<notin> ?S"
    and r: "?S = set (?cl @ ?rl) \<Longrightarrow> ''FrontLidarDriver'' \<notin> ?S \<and> ''RearLidarDriver'' \<in> ?S"
    and b: "?S = set (?cl @ ?fl @ ?rl) \<Longrightarrow> ''FrontLidarDriver'' \<in> ?S \<and> ''RearLidarDriver'' \<in> ?S"
    by simp_all
  have exact3: "has_exact_nodes ?n (?cl @ ?fl) \<longleftrightarrow> ?S = set (?cl @ ?fl)"
    "has_exact_nodes ?n (?cl @ ?rl) \<longleftrightarrow> ?S = set (?cl @ ?rl)"
    "has_exact_nodes ?n (?cl @ ?fl @ ?rl) \<longleftrightarrow> ?S = set (?cl @ ?fl @ ?rl)"
    by (rule exact, simp)+
  let ?f = "''FrontLidarDriver'' \<in> ?S" and ?r = "''RearLidarDriver'' \<in> ?S"
  have val: "validate_hot_path_lineage ?n \<longleftrightarrow>
      (?f \<or> ?r) \<and>
      ?S = (if ?f then if ?r then set (?cl @ ?fl @ ?rl) else set (?cl @ ?fl) else set (?cl @ ?rl)) \<and>
      ?before"
    unfolding validate_hot_path_lineage_def Let_def has
    by (cases ?f; cases ?r)
      (simp_all only: exact3 if_True if_False append_Nil append_Nil2 simp_thms if_bool_eq_disj)
  have "validate_hot_path_lineage ?n \<longleftrightarrow>
      (?S = set (?cl @ ?fl) \<or> ?S = set (?cl @ ?rl) \<or> ?S = set (?cl @ ?fl @ ?rl)) \<and> ?before"
    unfolding val by (rule two_flags [OF f r b])
  then show ?thesis unfolding spec [symmetric] by (simp only: list.set)
qed

end
