(* ===== verification/Records.thy ===== *)
theory Records
  imports Lineage
begin

text \<open>
  The structured output of \<open>sample_management.hpp\<close>: JSON escaping, the completion and source
  records, and their delivery to standard output in one atomic \<open>write\<close>.  What the process has
  printed so far is the list \<open>stdout_log\<close>; \<open>io_state\<close> pairs it with the process-wide globals.
\<close>

section \<open>Output\<close>

text \<open>
  \<open>print_execution_time\<close> is a template over the duration's type: most callers pass an integer
  number of microseconds, \<open>Cyclic::input_callback\<close> a \<open>double\<close> that holds one.
\<close>

datatype duration = IntegerDuration int | DoubleDuration int

datatype out_event =
    ExecutionTime string string duration
  | Line string
  | RawBytes string

record io_state =
  io_globals :: globals
  stdout_log :: "out_event list"

definition print_execution_time :: "string \<Rightarrow> string \<Rightarrow> duration \<Rightarrow> io_state \<Rightarrow> io_state" where
  "print_execution_time node_type nm dur s =
     s\<lparr>stdout_log := stdout_log s @ [ExecutionTime node_type nm dur]\<rparr>"

definition reference_system_write_stdout_line :: "string \<Rightarrow> io_state \<Rightarrow> io_state" where
  "reference_system_write_stdout_line line s = s\<lparr>stdout_log := stdout_log s @ [Line line]\<rparr>"

section \<open>JSON text\<close>

abbreviation backslash :: char where "backslash \<equiv> CHR 0x5C"
abbreviation dquote :: char where "dquote \<equiv> CHR 0x22"
abbreviation newline :: char where "newline \<equiv> CHR 0x0A"

definition hex_digit :: "nat \<Rightarrow> char" where
  "hex_digit n = ''0123456789abcdef'' ! n"

definition json_escape_char :: "char \<Rightarrow> string" where
  "json_escape_char c =
     (if c = backslash then [backslash, backslash]
      else if c = dquote then [backslash, dquote]
      else if c = CHR 0x08 then [backslash, CHR ''b'']
      else if c = CHR 0x0C then [backslash, CHR ''f'']
      else if c = CHR 0x0A then [backslash, CHR ''n'']
      else if c = CHR 0x0D then [backslash, CHR ''r'']
      else if c = CHR 0x09 then [backslash, CHR ''t'']
      else if (of_char c :: nat) < 0x20
      then backslash # ''u00'' @ [hex_digit (of_char c div 16), hex_digit (of_char c mod 16)]
      else [c])"

definition json_escape :: "string \<Rightarrow> string" where
  "json_escape s = concat (map json_escape_char s)"

text \<open>Elements with a comma before every one but the first.\<close>

fun comma_separated :: "string list \<Rightarrow> string" where
  "comma_separated [] = []"
| "comma_separated [x] = x"
| "comma_separated (x # y # xs) = x @ '','' @ comma_separated (y # xs)"

definition json_string :: "string \<Rightarrow> string" where
  "json_string s = dquote # json_escape s @ [dquote]"

definition root_json :: "source_identity \<Rightarrow> string" where
  \<open>root_json r =
     ''{"source_node":'' @ json_string (si_node_name r) @
     '',"source_sequence":'' @ show_u32 (si_sequence_number r) @
     '',"source_timestamp_ns":'' @ show_u64 (si_timestamp r) @ ''}''\<close>

definition make_structured_chain_record ::
    "string \<Rightarrow> string \<Rightarrow> u32 \<Rightarrow> u64 \<Rightarrow> string \<Rightarrow> u32 \<Rightarrow> u64 \<Rightarrow> u64 \<Rightarrow> string list \<Rightarrow>
     source_identity list \<Rightarrow> string \<Rightarrow> u32 \<Rightarrow> globals \<Rightarrow> string" where
  \<open>make_structured_chain_record chain_id source_node source_seq source_ts sink_node sink_seq
     sink_ts latency_ns lineage contributing status drop_count g =
     (let reference = \<lparr>si_node_name = source_node, si_sequence_number = source_seq,
                       si_timestamp = source_ts\<rparr>;
          roots = normalized_source_roots contributing reference;
          unique_lineage = foldl push_unique [] lineage
      in ''{"schema_version":2,"record_type":"completion"'' @
         '',"chain_id":'' @ json_string chain_id @
         '',"source_node":'' @ json_string source_node @
         '',"source_sequence":'' @ show_u32 source_seq @
         '',"source_timestamp_ns":'' @ show_u64 source_ts @
         '',"contributing_source_roots":['' @ comma_separated (map root_json roots) @ '']'' @
         '',"sink_node":'' @ json_string sink_node @
         '',"sink_sequence":'' @ show_u32 sink_seq @
         '',"sink_timestamp_ns":'' @ show_u64 sink_ts @
         '',"latency_ns":'' @ show_u64 latency_ns @
         '',"lineage":['' @ comma_separated (map json_string unique_lineage) @ '']'' @
         '',"status":'' @ json_string status @
         '',"drop_count":'' @ show_u32 drop_count @
         '',"instrumentation_error_count":'' @ show_u64 (structured_record_error_count g) @
         '',"metadata_overflow_count":'' @ show_u64 (metadata_overflow_count g) @
         ''}'' @ [newline])\<close>

definition make_structured_source_record :: "string \<Rightarrow> u32 \<Rightarrow> u64 \<Rightarrow> globals \<Rightarrow> string" where
  \<open>make_structured_source_record source_node source_seq source_ts g =
     ''{"schema_version":2,"record_type":"source"'' @
     '',"source_node":'' @ json_string source_node @
     '',"source_sequence":'' @ show_u32 source_seq @
     '',"source_timestamp_ns":'' @ show_u64 source_ts @
     '',"instrumentation_error_count":'' @ show_u64 (structured_record_error_count g) @
     '',"metadata_overflow_count":'' @ show_u64 (metadata_overflow_count g) @
     ''}'' @ [newline]\<close>

section \<open>Delivery\<close>

definition PIPE_BUF :: nat where
  "PIPE_BUF = 4096"

definition count_record_error :: "io_state \<Rightarrow> io_state" where
  "count_record_error s =
     s\<lparr>io_globals := (io_globals s)\<lparr>structured_record_error_count :=
         structured_record_error_count (io_globals s) + 1\<rparr>\<rparr>"

text \<open>
  \<open>sys_write\<close> is the operating system's answer to \<open>write(STDOUT_FILENO, ...)\<close>: the number of
  bytes it took, or a negative number.
\<close>

definition write_structured_record ::
    "(string \<Rightarrow> int) \<Rightarrow> string \<Rightarrow> io_state \<Rightarrow> bool \<times> io_state" where
  "write_structured_record sys_write rec s =
     (if length rec > PIPE_BUF then (False, count_record_error s)
      else
        let written = sys_write rec;
            s' = (if written > 0
                  then s\<lparr>stdout_log := stdout_log s @ [RawBytes (take (nat written) rec)]\<rparr> else s)
        in if written \<noteq> int (length rec) then (False, count_record_error s') else (True, s'))"

definition emit_structured_chain_record ::
    "(string \<Rightarrow> int) \<Rightarrow> string \<Rightarrow> string \<Rightarrow> u32 \<Rightarrow> u64 \<Rightarrow> string \<Rightarrow> u32 \<Rightarrow> u64 \<Rightarrow> u64 \<Rightarrow> string list \<Rightarrow>
     source_identity list \<Rightarrow> string \<Rightarrow> u32 \<Rightarrow> io_state \<Rightarrow> bool \<times> io_state" where
  "emit_structured_chain_record sys_write chain_id source_node source_seq source_ts sink_node
     sink_seq sink_ts latency_ns lineage contributing status drop_count s =
     write_structured_record sys_write
       (make_structured_chain_record chain_id source_node source_seq source_ts sink_node sink_seq
          sink_ts latency_ns lineage contributing status drop_count (io_globals s)) s"

definition emit_structured_source_record ::
    "(string \<Rightarrow> int) \<Rightarrow> string \<Rightarrow> u32 \<Rightarrow> u64 \<Rightarrow> io_state \<Rightarrow> bool \<times> io_state" where
  "emit_structured_source_record sys_write source_node source_seq source_ts s =
     write_structured_record sys_write
       (make_structured_source_record source_node source_seq source_ts (io_globals s)) s"

section \<open>Reading JSON strings back\<close>

text \<open>
  A reader of JSON string literals, positioned after the opening quote: the characters up to
  the closing quote, and the text after it.  Raw control characters are refused, as the JSON
  grammar demands.
\<close>

definition hex_value :: "char \<Rightarrow> nat option" where
  "hex_value c =
     (let i = first_index (\<lambda>d. d = c) ''0123456789abcdef'' in if i < 16 then Some i else None)"

definition short_escape :: "char \<Rightarrow> char option" where
  "short_escape e =
     (if e = backslash then Some backslash else if e = dquote then Some dquote
      else if e = CHR ''b'' then Some (CHR 0x08) else if e = CHR ''f'' then Some (CHR 0x0C)
      else if e = CHR ''n'' then Some (CHR 0x0A) else if e = CHR ''r'' then Some (CHR 0x0D)
      else if e = CHR ''t'' then Some (CHR 0x09) else None)"

definition push_char :: "char \<Rightarrow> (string \<times> string) option \<Rightarrow> (string \<times> string) option" where
  "push_char c = map_option (\<lambda>(s, rest). (c # s, rest))"

fun scan_string :: "string \<Rightarrow> (string \<times> string) option" where
  "scan_string [] = None"
| "scan_string (c # cs) =
     (if c = dquote then Some ([], cs)
      else if c = backslash then
        (case cs of
           [] \<Rightarrow> None
         | e # r \<Rightarrow>
             if e = CHR ''u'' then
               (case r of
                  a # b # h # l # r' \<Rightarrow>
                    if a = CHR ''0'' \<and> b = CHR ''0'' then
                      (case (hex_value h, hex_value l) of
                         (Some x, Some y) \<Rightarrow> push_char (char_of (16 * x + y)) (scan_string r')
                       | _ \<Rightarrow> None)
                    else None
                | _ \<Rightarrow> None)
             else (case short_escape e of None \<Rightarrow> None | Some d \<Rightarrow> push_char d (scan_string r)))
      else if (of_char c :: nat) < 0x20 then None
      else push_char c (scan_string cs))"

lemma push_char_Some [simp]: "push_char c (Some (s, r)) = Some (c # s, r)"
  by (simp add: push_char_def)

lemma hex_value_digit: "n < 16 \<Longrightarrow> hex_value (hex_digit n) = Some n"
proof -
  have "list_all (\<lambda>n. hex_value (hex_digit n) = Some n) [0..<16]" by code_simp
  then show "n < 16 \<Longrightarrow> ?thesis" by (simp add: list_all_iff)
qed

lemma scan_escaped_char:
  assumes "scan_string rest = Some (s, r)"
  shows "scan_string (json_escape_char c @ rest) = Some (c # s, r)"
proof (cases "(of_char c :: nat) < 0x20")
  case False
  then show ?thesis
    using assms by (auto simp: json_escape_char_def short_escape_def)
next
  case True
  have "hex_value (hex_digit (of_char c div 16)) = Some (of_char c div 16)"
    "hex_value (hex_digit (of_char c mod 16)) = Some (of_char c mod 16)"
    using True by (simp_all add: hex_value_digit)
  moreover have "char_of (16 * (of_char c div 16) + of_char c mod 16 :: nat) = c" by simp
  ultimately show ?thesis
    using True assms by (auto simp: json_escape_char_def short_escape_def)
qed

text \<open>
  Reading back a string that was written with \<open>json_escape\<close> between quotes gives the
  string itself and stops at the closing quote, whatever bytes the string holds.
\<close>

theorem json_escape_roundtrip:
  "scan_string (json_escape s @ dquote # rest) = Some (s, rest)"
proof (induction s)
  case Nil
  then show ?case by (simp add: json_escape_def)
next
  case (Cons c s)
  then show ?case
    using scan_escaped_char [of "json_escape s @ dquote # rest" s rest c]
    by (simp add: json_escape_def)
qed

section \<open>Records are single lines\<close>

lemma newline_json_escape_char: "newline \<notin> set (json_escape_char c)"
proof -
  have "newline \<noteq> hex_digit n" if "n < 16" for n
  proof -
    have "length ''0123456789abcdef'' = 16" by simp
    then have "hex_digit n \<in> set ''0123456789abcdef''"
      unfolding hex_digit_def using nth_mem [of n "''0123456789abcdef''"] that by presburger
    then show ?thesis by auto
  qed
  then show ?thesis by (auto simp: json_escape_char_def)
qed

lemma newline_json_string [simp]: "newline \<notin> set (json_string s)"
  using newline_json_escape_char by (auto simp: json_string_def json_escape_def)

lemma newline_to_dec [simp]: "newline \<notin> set (to_dec n)"
  using to_dec_digits [of newline n] by (auto simp: is_digit_def)

lemma newline_show [simp]: "newline \<notin> set (show_u32 a)" "newline \<notin> set (show_u64 b)"
  by (simp_all add: show_u32_def show_u64_def)

lemma newline_comma_separated [simp]:
  "newline \<notin> set (comma_separated xs) \<longleftrightarrow> (\<forall>x \<in> set xs. newline \<notin> set x)"
  by (induction xs rule: comma_separated.induct) auto

lemma newline_root_json [simp]: "newline \<notin> set (root_json r)"
  by (simp add: root_json_def)

text \<open>
  Every completion record and every source record is one line: it ends in a newline
  and has no other, whatever the node names, the chain and the status contain.
\<close>

theorem structured_records_single_line:
  "(\<exists>body. make_structured_chain_record chain_id source_node source_seq source_ts sink_node
       sink_seq sink_ts latency_ns lineage contributing status drop_count g = body @ [newline] \<and>
     newline \<notin> set body) \<and>
   (\<exists>body. make_structured_source_record source_node source_seq source_ts g = body @ [newline] \<and>
     newline \<notin> set body)"
proof -
  have "\<exists>body. x @ [newline] = body @ [newline] \<and> newline \<notin> set body" if "newline \<notin> set x" for x
    using that by blast
  note split = this [unfolded append_assoc [symmetric]]
  show ?thesis
    unfolding make_structured_chain_record_def make_structured_source_record_def Let_def
      append_assoc [symmetric]
    by (intro conjI split) (simp_all add: image_iff)
qed



end
