(* ===== verification/Text_Input.thy ===== *)
theory Text_Input
  imports Prelude
begin

text \<open>
  Text as the C++ code reads it: \<open>operator>>\<close> on an \<open>std::istream\<close> for strings, \<open>int64_t\<close> and
  \<open>size_t\<close>, and \<open>std::strtoul\<close>.  A stream is the text not yet read; an extraction that sets
  \<open>failbit\<close> is \<open>None\<close>, because every caller gives up at the first failure.
\<close>

section \<open>Extraction\<close>

definition is_space :: "char \<Rightarrow> bool" where
  "is_space c \<longleftrightarrow> c = CHR 0x20 \<or> 9 \<le> (of_char c :: nat) \<and> (of_char c :: nat) \<le> 13"

definition read_token :: "string \<Rightarrow> (string \<times> string) option" where
  "read_token s =
     (let s' = dropWhile is_space s
      in if s' = [] then None
         else Some (takeWhile (\<lambda>c. \<not> is_space c) s', dropWhile (\<lambda>c. \<not> is_space c) s'))"

text \<open>The optional sign of a number: whether it is negative, and what follows it.\<close>

definition read_sign :: "string \<Rightarrow> bool \<times> string" where
  "read_sign s =
     (case s of
        [] \<Rightarrow> (False, [])
      | c # cs \<Rightarrow> if c = CHR ''-'' then (True, cs) else if c = CHR ''+'' then (False, cs) else (False, s))"

text \<open>White space, a sign and at least one digit: sign, magnitude and the rest.\<close>

definition read_number :: "string \<Rightarrow> (bool \<times> nat \<times> string) option" where
  "read_number s =
     (let (neg, s') = read_sign (dropWhile is_space s);
          ds = takeWhile is_digit s'
      in if ds = [] then None else Some (neg, dec_value ds, dropWhile is_digit s'))"

definition read_int64 :: "string \<Rightarrow> (int \<times> string) option" where
  "read_int64 s =
     (case read_number s of
        None \<Rightarrow> None
      | Some (neg, n, rest) \<Rightarrow>
          let v = (if neg then - int n else int n) in if in_int64 v then Some (v, rest) else None)"

text \<open>An unsigned number may carry a minus sign too; it is negated modulo \<open>2\<^sup>6\<^sup>4\<close>.\<close>

definition read_u64 :: "string \<Rightarrow> (u64 \<times> string) option" where
  "read_u64 s =
     (case read_number s of
        None \<Rightarrow> None
      | Some (neg, n, rest) \<Rightarrow>
          if n < 2 ^ 64 then Some (if neg then - of_nat n else of_nat n, rest) else None)"

text \<open>
  \<open>strtoul(s, &end, 10)\<close>: the value, saturated, and the text \<open>end\<close> points to (all of \<open>s\<close> when
  there is no number).
\<close>

definition strtoul :: "string \<Rightarrow> u64 \<times> string" where
  "strtoul s =
     (case read_number s of
        None \<Rightarrow> (0, s)
      | Some (neg, n, rest) \<Rightarrow>
          (if 2 ^ 64 \<le> n then - 1 else if neg then - of_nat n else of_nat n, rest))"

text \<open>\<open>strtoll(s, &end, 10)\<close>: the value, saturated; the rest; whether \<open>errno\<close> is set to \<open>ERANGE\<close>.\<close>

definition strtoll :: "string \<Rightarrow> int \<times> string \<times> bool" where
  "strtoll s =
     (case read_number s of
        None \<Rightarrow> (0, s, False)
      | Some (neg, n, rest) \<Rightarrow>
          let v = (if neg then - int n else int n)
          in if in_int64 v then (v, rest, False)
             else (if neg then - int64_max - 1 else int64_max, rest, True))"

section \<open>Reading back what was printed\<close>

lemma digit_not_space: "is_digit c \<Longrightarrow> \<not> is_space c"
  by (auto simp: is_digit_def is_space_def)

lemma is_space_blank [simp]: "is_space CHR 0x20" "is_space CHR 0x0A"
  by (simp_all add: is_space_def)

lemma takeWhile_to_dec:
  assumes "rest = [] \<or> \<not> is_digit (hd rest)"
  shows "takeWhile is_digit (to_dec n @ rest) = to_dec n \<and> dropWhile is_digit (to_dec n @ rest) = rest"
proof -
  have "\<forall>c \<in> set (to_dec n). is_digit c" using to_dec_digits by blast
  moreover have "takeWhile is_digit rest = [] \<and> dropWhile is_digit rest = rest"
    using assms by (cases rest) auto
  ultimately show ?thesis by (simp add: takeWhile_append2 dropWhile_append2)
qed

lemma to_dec_Cons: "\<exists>c cs. to_dec n = c # cs \<and> is_digit c"
  using to_dec_digits [of _ n] by (cases "to_dec n") auto

lemma to_dec_hd:
  assumes "to_dec n @ rest = c # cs" shows "\<not> is_space c \<and> c \<noteq> CHR ''-'' \<and> c \<noteq> CHR ''+''"
proof -
  have "is_digit c" using to_dec_Cons [of n] assms by auto
  then show ?thesis by (auto simp: digit_not_space is_digit_def)
qed

lemma read_number_to_dec:
  assumes "rest = [] \<or> \<not> is_digit (hd rest)"
  shows "read_number (to_dec n @ rest) = Some (False, n, rest)"
proof -
  obtain c cs where c: "to_dec n @ rest = c # cs" using to_dec_Cons [of n] by auto
  have "dropWhile is_space (to_dec n @ rest) = to_dec n @ rest"
    "read_sign (to_dec n @ rest) = (False, to_dec n @ rest)"
    using to_dec_hd [OF c] unfolding c by (simp_all add: read_sign_def)
  then show ?thesis
    using takeWhile_to_dec [OF assms] by (simp add: read_number_def)
qed

lemma read_int64_to_dec:
  assumes "rest = [] \<or> \<not> is_digit (hd rest)" and "int n \<le> int64_max"
  shows "read_int64 (to_dec n @ rest) = Some (int n, rest)"
  using assms by (simp add: read_int64_def read_number_to_dec in_int64_def int64_max_def)

lemma read_u64_show:
  assumes "rest = [] \<or> \<not> is_digit (hd rest)"
  shows "read_u64 (show_u64 w @ rest) = Some (w, rest)"
proof -
  have "unat w < 2 ^ 64" using unsigned_less [of w] by simp
  then show ?thesis by (simp add: read_u64_def show_u64_def read_number_to_dec assms)
qed

lemma read_number_blank: "is_space b \<Longrightarrow> read_number (b # s) = read_number s"
  by (simp add: read_number_def)

lemma read_int64_blank: "is_space b \<Longrightarrow> read_int64 (b # s) = read_int64 s"
  by (simp add: read_int64_def read_number_blank)

lemma read_u64_blank: "is_space b \<Longrightarrow> read_u64 (b # s) = read_u64 s"
  by (simp add: read_u64_def read_number_blank)

lemma read_token_blank: "is_space b \<Longrightarrow> read_token (b # s) = read_token s"
  by (simp add: read_token_def)

lemma read_token_word:
  assumes "w \<noteq> []" and "\<forall>c \<in> set w. \<not> is_space c" and "rest = [] \<or> is_space (hd rest)"
  shows "read_token (w @ rest) = Some (w, rest)"
proof -
  obtain c cs where w: "w = c # cs" using assms(1) by (cases w) auto
  have "takeWhile (\<lambda>c. \<not> is_space c) rest = [] \<and> dropWhile (\<lambda>c. \<not> is_space c) rest = rest"
    using assms(3) by (cases rest) auto
  then show ?thesis
    using assms(2) unfolding w by (simp add: read_token_def takeWhile_append2 dropWhile_append2)
qed

lemma read_token_nonempty: "read_token s = Some (w, rest) \<Longrightarrow> w \<noteq> []"
proof -
  assume r: "read_token s = Some (w, rest)"
  then obtain c cs where c: "dropWhile is_space s = c # cs"
    by (cases "dropWhile is_space s") (auto simp: read_token_def)
  then have "\<not> is_space c" by (metis hd_dropWhile list.distinct(1) list.sel(1))
  with r c show ?thesis by (auto simp: read_token_def)
qed

lemma strtoll_range: "strtoll s = (v, rest, e) \<Longrightarrow> in_int64 v"
  by (auto simp: strtoll_def Let_def in_int64_def int64_max_def split: option.splits if_splits)

end
