(* ===== verification/Tracking.thy ===== *)
theory Tracking
  imports Records Text_Input
begin

text \<open>
  \<open>tracking.hpp\<close>: the tracking writer, which numbers the records of every producer and keeps
  the callbacks that are running, the callback guard, and the process-wide runtime with its
  reporter thread.  Each public operation of the writer holds \<open>mutex_\<close> from its first to its
  last access, so it is one function on the state; threads interleave between operations,
  which is the step relation of the last section.
\<close>

section \<open>Text of tracking records\<close>

definition json_quote :: "string \<Rightarrow> string" where
  "json_quote v =
     dquote # concat (map (\<lambda>c.
        (if c = backslash \<or> c = dquote then [backslash] else []) @
        (if c = CHR 0x0A then [backslash, CHR ''n'']
         else if c = CHR 0x0D then [backslash, CHR ''r'']
         else [c])) v) @ [dquote]"

fun find_sub :: "string \<Rightarrow> string \<Rightarrow> nat option" where
  "find_sub pat s =
     (if take (length pat) s = pat then Some 0
      else case s of [] \<Rightarrow> None | c # cs \<Rightarrow> map_option Suc (find_sub pat cs))"

declare find_sub.simps [simp del]

fun rfind_char :: "char \<Rightarrow> string \<Rightarrow> nat option" where
  "rfind_char c [] = None"
| "rfind_char c (d # s) =
     (case rfind_char c s of Some i \<Rightarrow> Some (Suc i) | None \<Rightarrow> if d = c then Some 0 else None)"

definition with_identity :: "string \<Rightarrow> string \<Rightarrow> string \<Rightarrow> string \<Rightarrow> u64 \<Rightarrow> string" where
  \<open>with_identity event producer instance_name boot sequence =
     (let schema = ''"schema":1'';
          result = (case find_sub schema event of
                      None \<Rightarrow> event
                    | Some i \<Rightarrow> take i event @ ''"schema":2'' @ drop (i + length schema) event)
      in case rfind_char (CHR ''}'') result of
           None \<Rightarrow> result
         | Some e \<Rightarrow> take e result @
             '',"producer":'' @ json_quote producer @
             '',"instance":'' @ json_quote instance_name @
             '',"boot_id":'' @ json_quote boot @
             '',"record_seq":'' @ show_u64 sequence @ drop e result)\<close>

section \<open>The writer\<close>

record producer_state =
  next_record :: u64
  next_callback :: u64
  active :: "(u64, u64) omap"

record tracking_writer =
  boot_id :: string
  instance_id :: string
  producers :: "(string, producer_state) omap"

record callback =
  cb_writer :: bool
  cb_producer :: string
  cb_token :: u64

definition new_producer_state :: producer_state where
  "new_producer_state = \<lparr>next_record = 0, next_callback = 0, active = []\<rparr>"

definition new_writer :: "string \<Rightarrow> string \<Rightarrow> tracking_writer" where
  "new_writer boot inst = \<lparr>boot_id = boot, instance_id = inst, producers = []\<rparr>"

definition null_callback :: callback where
  "null_callback = \<lparr>cb_writer = False, cb_producer = [], cb_token = 0\<rparr>"

text \<open>\<open>producers_[producer]\<close>: the entry, created when it is missing.\<close>

definition producer_entry :: "tracking_writer \<Rightarrow> string \<Rightarrow> producer_state" where
  "producer_entry w p = (case map_of (producers w) p of None \<Rightarrow> new_producer_state | Some st \<Rightarrow> st)"

definition put_producer :: "string \<Rightarrow> producer_state \<Rightarrow> tracking_writer \<Rightarrow> tracking_writer" where
  "put_producer p st w = w\<lparr>producers := omap_set p st (producers w)\<rparr>"

definition begin_callback_locked ::
    "string \<Rightarrow> u64 \<Rightarrow> tracking_writer \<Rightarrow> callback \<times> tracking_writer" where
  "begin_callback_locked p entry_ns w =
     (let st = producer_entry w p;
          token = next_callback st + 1;
          act = (if map_of (active st) token = None then omap_set token entry_ns (active st)
                 else active st)
      in (\<lparr>cb_writer = True, cb_producer = p, cb_token = token\<rparr>,
          put_producer p (st\<lparr>next_callback := token, active := act\<rparr>) w))"

definition writer_begin_callback ::
    "string \<Rightarrow> u64 \<Rightarrow> tracking_writer \<Rightarrow> callback \<times> tracking_writer" where
  "writer_begin_callback p clock_ns w = begin_callback_locked p clock_ns w"

definition writer_register_producer :: "string \<Rightarrow> tracking_writer \<Rightarrow> tracking_writer" where
  "writer_register_producer p w = put_producer p (producer_entry w p) w"

definition write_event :: "string \<Rightarrow> u64 \<Rightarrow> string \<Rightarrow> tracking_writer \<Rightarrow> string \<times> tracking_writer" where
  "write_event p timestamp_ns event w =
     (let st = producer_entry w p
      in (with_identity event p (instance_id w) (boot_id w) (next_record st),
          put_producer p (st\<lparr>next_record := next_record st + 1\<rparr>) w))"

definition delivery_step :: "u64 \<Rightarrow> u64 \<times> u64 \<Rightarrow> u64" where
  "delivery_step through cb = (if snd cb = 0 then 0 else min through (snd cb - 1))"

definition delivery_through :: "u64 \<Rightarrow> (u64, u64) omap \<Rightarrow> u64" where
  "delivery_through now_ns act = foldl delivery_step now_ns act"

definition report_delivery :: "string \<Rightarrow> u64 \<Rightarrow> tracking_writer \<Rightarrow> string \<times> tracking_writer" where
  \<open>report_delivery p now_ns w =
     (let st = producer_entry w p
      in (''{"schema":2,"event":"delivery","producer":'' @ json_quote p @
          '',"instance":'' @ json_quote (instance_id w) @ '',"boot_id":'' @ json_quote (boot_id w) @
          '',"record_seq":'' @ show_u64 (next_record st) @
          '',"through_ns":'' @ show_u64 (delivery_through now_ns (active st)) @ ''}'',
          put_producer p (st\<lparr>next_record := next_record st + 1\<rparr>) w))\<close>

definition end_callback :: "string \<Rightarrow> u64 \<Rightarrow> tracking_writer \<Rightarrow> tracking_writer" where
  "end_callback p token w =
     (case map_of (producers w) p of
        None \<Rightarrow> w
      | Some st \<Rightarrow> put_producer p (st\<lparr>active := omap_erase token (active st)\<rparr>) w)"

section \<open>The callback guard\<close>

definition callback_finish :: "callback \<Rightarrow> tracking_writer \<Rightarrow> callback \<times> tracking_writer" where
  "callback_finish cb w =
     (if cb_writer cb then (cb\<lparr>cb_writer := False\<rparr>, end_callback (cb_producer cb) (cb_token cb) w)
      else (cb, w))"

text \<open>Move construction and move assignment: the source no longer owns the registration.\<close>

definition callback_move :: "callback \<Rightarrow> callback \<times> callback" where
  "callback_move other = (other, other\<lparr>cb_writer := False, cb_producer := []\<rparr>)"

definition callback_move_assign ::
    "callback \<Rightarrow> callback \<Rightarrow> tracking_writer \<Rightarrow> callback \<times> callback \<times> tracking_writer" where
  "callback_move_assign this other w =
     (let (_, w') = callback_finish this w; (taken, left) = callback_move other
      in (taken, left, w'))"

section \<open>The runtime\<close>

text \<open>
  What the process finds around it: the environment, the first line of the kernel's boot-id
  file (empty when it cannot be read), the clock when the runtime is built, and the process id.
\<close>

record surroundings =
  env :: "string \<Rightarrow> string option"
  boot_id_file :: string
  start_ns :: u64
  pid :: u64

record runtime_state =
  rt_writer :: tracking_writer
  rt_producers :: "string list"
  reporter_running :: bool
  stopping :: bool

definition enabled :: "surroundings \<Rightarrow> bool" where
  "enabled sur =
     (case env sur ''REFERENCE_SYSTEM_TRACKING'' of
        None \<Rightarrow> False
      | Some v \<Rightarrow> v = ''1'' \<or> v = ''true'')"

definition env_override :: "surroundings \<Rightarrow> string \<Rightarrow> string \<Rightarrow> string" where
  "env_override sur nm fallback =
     (case env sur nm of
        None \<Rightarrow> fallback
      | Some v \<Rightarrow> if v \<noteq> [] then v else fallback)"

definition read_boot_id :: "surroundings \<Rightarrow> string" where
  "read_boot_id sur = env_override sur ''REFERENCE_SYSTEM_BOOT_ID'' (boot_id_file sur)"

fun to_hex :: "nat \<Rightarrow> string" where
  "to_hex n = (if n < 16 then [hex_digit n] else to_hex (n div 16) @ [hex_digit (n mod 16)])"

declare to_hex.simps [simp del]

definition process_instance_id :: "surroundings \<Rightarrow> string" where
  "process_instance_id sur =
     env_override sur ''REFERENCE_SYSTEM_INSTANCE_ID''
       (to_hex (unat (start_ns sur)) @ ''-'' @ to_hex (unat (pid sur)))"

definition new_runtime :: "surroundings \<Rightarrow> runtime_state" where
  "new_runtime sur =
     \<lparr>rt_writer = new_writer (read_boot_id sur) (process_instance_id sur), rt_producers = [],
      reporter_running = False, stopping = False\<rparr>"

definition runtime_register_producer :: "string \<Rightarrow> runtime_state \<Rightarrow> runtime_state" where
  "runtime_register_producer p rt =
     (let ps = rt_producers rt
      in rt\<lparr>rt_writer := writer_register_producer p (rt_writer rt),
            rt_producers := (if p \<in> set ps then ps else ps @ [p]),
            reporter_running := True\<rparr>)"

definition runtime_shutdown :: "runtime_state \<Rightarrow> runtime_state" where
  "runtime_shutdown rt = rt\<lparr>stopping := True, reporter_running := False\<rparr>"

definition report_interval_ms :: "surroundings \<Rightarrow> u64" where
  "report_interval_ms sur =
     (case env sur ''REFERENCE_SYSTEM_DELIVERY_INTERVAL_MS'' of
        None \<Rightarrow> 100
      | Some setting \<Rightarrow>
          let (parsed, rest) = strtoul setting
          in if rest \<noteq> setting \<and> rest = [] \<and> 0 < parsed \<and> parsed \<le> 60000 then parsed else 100)"

text \<open>
  One turn of the reporter's loop, without interference: a delivery record for every
  registered producer, each with its own reading of the clock.
\<close>

fun report_round :: "(string \<times> u64) list \<Rightarrow> tracking_writer \<Rightarrow> string list \<times> tracking_writer" where
  "report_round [] w = ([], w)"
| "report_round ((p, now_ns) # ps) w =
     (let (line, w') = report_delivery p now_ns w; (lines, w'') = report_round ps w'
      in (line # lines, w''))"

text \<open>
  \<open>runtime()\<close> builds its static instance at the first call; the process keeps it as an option.
  The free functions leave it alone when tracking is off.
\<close>

definition runtime :: "surroundings \<Rightarrow> runtime_state option \<Rightarrow> runtime_state" where
  "runtime sur inst = (case inst of Some rt \<Rightarrow> rt | None \<Rightarrow> new_runtime sur)"

definition register_producer ::
    "surroundings \<Rightarrow> string \<Rightarrow> runtime_state option \<Rightarrow> runtime_state option" where
  "register_producer sur p inst =
     (if \<not> enabled sur then inst
      else
        let rt = runtime sur inst;
            rt' = rt\<lparr>rt_writer := writer_register_producer p (rt_writer rt)\<rparr>
        in Some (runtime_register_producer p rt'))"

definition begin_callback ::
    "surroundings \<Rightarrow> string \<Rightarrow> u64 \<Rightarrow> runtime_state option \<Rightarrow> callback \<times> runtime_state option" where
  "begin_callback sur p clock_ns inst =
     (if \<not> enabled sur then (null_callback, inst)
      else
        let rt = runtime sur inst; (cb, w) = writer_begin_callback p clock_ns (rt_writer rt)
        in (cb, Some (rt\<lparr>rt_writer := w\<rparr>)))"

text \<open>Leaving the scope of a guard.\<close>

definition end_guard :: "callback \<Rightarrow> runtime_state option \<Rightarrow> runtime_state option" where
  "end_guard cb inst =
     (case inst of
        None \<Rightarrow> None
      | Some rt \<Rightarrow> Some (rt\<lparr>rt_writer := snd (callback_finish cb (rt_writer rt))\<rparr>))"

section \<open>Reading tracking records\<close>

definition quotable :: "char \<Rightarrow> bool" where
  "quotable c \<longleftrightarrow> 0x20 \<le> (of_char c :: nat) \<or> c = CHR 0x0A \<or> c = CHR 0x0D"

lemma json_quote_Cons:
  "tl (json_quote (c # v)) =
     (if c = backslash \<or> c = dquote then [backslash, c]
      else if c = CHR 0x0A then [backslash, CHR ''n'']
      else if c = CHR 0x0D then [backslash, CHR ''r''] else [c]) @ tl (json_quote v)"
  by (auto simp: json_quote_def)

text \<open>
  A quoted name reads back as itself exactly when it holds no control character other
  than a line feed or a carriage return; with one the quoted text is not a JSON string.
\<close>

theorem json_quote_readable:
  "scan_string (tl (json_quote v) @ rest) =
     (if \<forall>c \<in> set v. quotable c then Some (v, rest) else None)"
proof (induction v)
  case Nil
  then show ?case by (simp add: json_quote_def)
next
  case (Cons c v)
  have push_None: "push_char d None = None" for d by (simp add: push_char_def)
  consider "c = backslash" | "c = dquote" | "c = CHR 0x0A" | "c = CHR 0x0D"
    | "c \<notin> {backslash, dquote, CHR 0x0A, CHR 0x0D}" by blast
  then show ?case
  proof cases
    case 5
    then show ?thesis
      using Cons unfolding json_quote_Cons by (auto simp: quotable_def push_None)
  qed (use Cons in \<open>auto simp: json_quote_Cons quotable_def short_escape_def push_None\<close>)
qed

theorem json_quote_readable_witness:
  "scan_string (tl (json_quote ''Front Lidar'')) = Some (''Front Lidar'', []) \<and>
   scan_string (tl (json_quote [CHR 0x09])) = None"
  using json_quote_readable [of "''Front Lidar''" "[]"] json_quote_readable [of "[CHR 0x09]" "[]"]
  by (simp add: quotable_def)

lemma rfind_char_last: "c \<notin> set b \<Longrightarrow> rfind_char c (a @ c # b) = Some (length a)"
proof -
  assume c: "c \<notin> set b"
  have "rfind_char c b = None" using c by (induction b) auto
  then show ?thesis by (induction a) auto
qed

lemma find_sub_second:
  assumes "take (length pat) (c # pat @ rest) \<noteq> pat"
  shows "find_sub pat (c # pat @ rest) = Some 1"
proof -
  have "find_sub pat (pat @ rest) = Some 0" by (subst find_sub.simps) simp
  then show ?thesis using assms by (subst find_sub.simps) simp
qed

text \<open>
  On every event that begins with the schema-1 tag and ends with a closing brace, the
  writer raises the schema to 2 and appends producer, instance, boot id and record number as the
  last members; the body in between is untouched.
\<close>

theorem with_identity_stamps:
  \<open>with_identity (''{"schema":1'' @ body @ ''}'') p inst boot n =
     ''{"schema":2'' @ body @ '',"producer":'' @ json_quote p @ '',"instance":'' @ json_quote inst @
     '',"boot_id":'' @ json_quote boot @ '',"record_seq":'' @ show_u64 n @ ''}''\<close>
proof -
  have f: \<open>find_sub ''"schema":1'' (''{"schema":1'' @ body @ ''}'') = Some 1\<close>
    using find_sub_second [of \<open>''"schema":1''\<close> \<open>CHR ''{''\<close> \<open>body @ ''}''\<close>] by simp
  let ?pre = \<open>''{"schema":2'' @ body\<close>
  have r: \<open>rfind_char (CHR ''}'') (?pre @ ''}'') = Some (length ?pre)\<close>
    by (rule rfind_char_last) simp
  have raised: \<open>take 1 (''{"schema":1'' @ body @ ''}'') @ ''"schema":2'' @
      drop (1 + length ''"schema":1'') (''{"schema":1'' @ body @ ''}'') = ?pre @ ''}''\<close>
    by simp
  have halves: "take (length xs) (xs @ ys) = xs" "drop (length xs) (xs @ ys) = ys" for xs ys :: string
    by simp_all
  show ?thesis
    unfolding with_identity_def f Let_def option.case raised
    unfolding r option.case halves unfolding append_assoc by (rule refl)
qed

section \<open>Record numbers and watermarks\<close>

lemma producer_entry_put [simp]:
  "producer_entry (put_producer p st w) q = (if q = p then st else producer_entry w q)"
  by (simp add: producer_entry_def put_producer_def)

lemma producer_entry_new [simp]: "producer_entry (new_writer b i) p = new_producer_state"
  by (simp add: producer_entry_def new_writer_def)

lemma new_producer_state_simps [simp]:
  "next_record new_producer_state = 0" "next_callback new_producer_state = 0"
  "active new_producer_state = []"
  by (simp_all add: new_producer_state_def)

lemma producer_entry_begin [simp]:
  "producer_entry (snd (begin_callback_locked p e w)) q =
     (if q = p then (producer_entry w p)\<lparr>next_callback := next_callback (producer_entry w p) + 1,
        active := (let tok = next_callback (producer_entry w p) + 1; act = active (producer_entry w p)
                   in if map_of act tok = None then omap_set tok e act else act)\<rparr>
      else producer_entry w q)"
  by (simp add: begin_callback_locked_def Let_def)

lemma producer_entry_register [simp]:
  "producer_entry (writer_register_producer p w) q = producer_entry w q"
  by (simp add: writer_register_producer_def)

lemma producer_entry_written [simp]:
  "producer_entry (snd (write_event p ts ev w)) q =
     (if q = p then (producer_entry w p)\<lparr>next_record := next_record (producer_entry w p) + 1\<rparr>
      else producer_entry w q)"
  "producer_entry (snd (report_delivery p n w)) q =
     (if q = p then (producer_entry w p)\<lparr>next_record := next_record (producer_entry w p) + 1\<rparr>
      else producer_entry w q)"
  by (simp_all add: write_event_def report_delivery_def Let_def)

lemma producer_entry_end [simp]:
  "producer_entry (end_callback p tok w) q =
     (if q = p then (producer_entry w p)\<lparr>active := omap_erase tok (active (producer_entry w p))\<rparr>
      else producer_entry w q)"
  by (auto simp: end_callback_def producer_entry_def put_producer_def new_producer_state_def
      omap_erase_def split: option.splits)

lemma delivery_step_le: "delivery_step t cb \<le> t"
  by (simp add: delivery_step_def)

lemma foldl_delivery_le: "foldl delivery_step t act \<le> t"
proof (induction act arbitrary: t)
  case (Cons cb act)
  then show ?case using delivery_step_le [of t cb] by (metis foldl_Cons order_trans)
qed simp

lemma delivery_step_entry: "delivery_step t cb \<le> snd cb - (if snd cb = 0 then 0 else 1)"
  by (simp add: delivery_step_def)

lemma foldl_delivery_entry:
  "cb \<in> set act \<Longrightarrow> foldl delivery_step t act \<le> snd cb - (if snd cb = 0 then 0 else 1)"
proof (induction act arbitrary: t)
  case (Cons d act)
  show ?case
  proof (cases "cb = d")
    case True
    have "foldl delivery_step t (d # act) \<le> delivery_step t d"
      using foldl_delivery_le [of "delivery_step t d" act] by simp
    also note delivery_step_entry [of t d]
    finally show ?thesis unfolding True .
  next
    case False
    with Cons show ?thesis by simp
  qed
qed simp

lemma word_pred_le_self: "e - (if e = 0 then 0 else 1) \<le> (e::u64)"
  by (simp add: word_le_nat_alt unat_minus_one)

lemma word_le_pred: "e \<noteq> 0 \<Longrightarrow> t \<le> e - 1 \<longleftrightarrow> t < (e::u64)"
  using unat_gt_0 [of e] by (auto simp: word_less_nat_alt word_le_nat_alt unat_minus_one)

lemma delivery_tight:
  "delivery_through t act = t \<or> (\<exists>cb \<in> set act. delivery_through t act = snd cb - (if snd cb = 0 then 0 else 1))"
  unfolding delivery_through_def
proof (induction act arbitrary: t)
  case (Cons d act)
  have "delivery_step t d = t \<or> delivery_step t d = snd d - (if snd d = 0 then 0 else 1)"
    by (simp add: delivery_step_def min_def)
  then show ?case using Cons [of "delivery_step t d"] by (metis foldl_Cons list.set_intros)
qed simp

text \<open>
  The watermark of a delivery record is the largest time that is not after the
  reporter's clock reading and lies before the entry of every running callback: it never exceeds
  the reading, every running callback entered strictly later (an entry time of zero forces zero),
  and no larger value would do.
\<close>

theorem delivery_watermark:
  "delivery_through now_ns act \<le> now_ns \<and>
   (\<forall>(tok, entry_ns) \<in> set act. delivery_through now_ns act < entry_ns \<or>
      entry_ns = 0 \<and> delivery_through now_ns act = 0) \<and>
   (\<forall>t. t \<le> now_ns \<and> (\<forall>(tok, entry_ns) \<in> set act. t < entry_ns \<or> t = 0) \<longrightarrow>
      t \<le> delivery_through now_ns act)"
proof (intro conjI)
  show "delivery_through now_ns act \<le> now_ns"
    unfolding delivery_through_def by (rule foldl_delivery_le)
  have "delivery_through now_ns act < entry_ns \<or> entry_ns = 0 \<and> delivery_through now_ns act = 0"
    if "(tok, entry_ns) \<in> set act" for tok entry_ns
  proof -
    have "delivery_through now_ns act \<le> entry_ns - (if entry_ns = 0 then 0 else 1)"
      using foldl_delivery_entry [OF that, of now_ns] by (simp add: delivery_through_def)
    then show ?thesis by (cases "entry_ns = 0") (auto simp: word_le_pred)
  qed
  then show "\<forall>(tok, entry_ns) \<in> set act. delivery_through now_ns act < entry_ns \<or>
      entry_ns = 0 \<and> delivery_through now_ns act = 0" by blast
  have "t \<le> delivery_through now_ns act"
    if "t \<le> now_ns" "\<forall>(tok, entry_ns) \<in> set act. t < entry_ns \<or> t = 0" for t
  proof (cases "delivery_through now_ns act = now_ns")
    case False
    then obtain tok e where cb: "(tok, e) \<in> set act"
      "delivery_through now_ns act = e - (if e = 0 then 0 else 1)"
      using delivery_tight [of now_ns act] by force
    then have "t < e \<or> t = 0" using that by blast
    then show ?thesis
      using cb(2) by (auto simp: word_less_nat_alt word_le_nat_alt unat_minus_one split: if_splits)
  qed (use that in simp)
  then show "\<forall>t. t \<le> now_ns \<and> (\<forall>(tok, entry_ns) \<in> set act. t < entry_ns \<or> t = 0) \<longrightarrow>
      t \<le> delivery_through now_ns act" by blast
qed

theorem delivery_watermark_witness: "delivery_through 100 [(1, 40), (2, 70)] = 39"
  using delivery_watermark [of 100 "[(1, 40), (2, 70)]"] by (simp add: delivery_through_def delivery_step_def)

section \<open>Guards\<close>

text \<open>Tokens in use are at most the last one handed out; until the counter wraps they are fresh.\<close>

definition tokens_ok :: "producer_state \<Rightarrow> bool" where
  "tokens_ok st \<longleftrightarrow> omap_ok (active st) \<and> (\<forall>tok \<in> fst ` set (active st). tok \<le> next_callback st)"

lemma fresh_token:
  assumes "tokens_ok st" and "next_callback st \<noteq> - 1"
  shows "map_of (active st) (next_callback st + 1) = None"
proof -
  have "next_callback st < next_callback st + 1"
    using assms(2) unatSuc [of "next_callback st"]
    by (metis add.commute add_eq_0_iff lessI word_less_nat_alt)
  then show ?thesis using assms(1) by (auto simp: tokens_ok_def map_of_eq_None_iff)
qed

text \<open>
  A callback guard brackets its callback: while the token counter has not wrapped,
  beginning a callback adds exactly one running callback with the given entry time, and
  finishing the guard restores the running callbacks of every producer; a guard that is
  finished (or was moved from) does nothing when it is finished again.
\<close>

theorem callback_guard_brackets:
  assumes "tokens_ok (producer_entry w p)" and "next_callback (producer_entry w p) \<noteq> - 1"
    and "begin_callback_locked p entry_ns w = (cb, w1)"
    and "callback_finish cb w1 = (cb', w2)"
  shows "map_of (active (producer_entry w1 p)) =
           (map_of (active (producer_entry w p)))(cb_token cb \<mapsto> entry_ns) \<and>
         cb_token cb \<notin> fst ` set (active (producer_entry w p)) \<and>
         (\<forall>q. active (producer_entry w2 q) = active (producer_entry w q)) \<and>
         callback_finish cb' w2 = (cb', w2) \<and>
         callback_finish (snd (callback_move cb)) w1 = (snd (callback_move cb), w1)"
proof -
  let ?st = "producer_entry w p"
  have fresh: "map_of (active ?st) (next_callback ?st + 1) = None"
    by (rule fresh_token) (use assms in auto)
  have w1: "w1 = snd (begin_callback_locked p entry_ns w)" and
    cb: "cb = \<lparr>cb_writer = True, cb_producer = p, cb_token = next_callback ?st + 1\<rparr>"
    using assms(3) by (auto simp: begin_callback_locked_def Let_def)
  have w2: "w2 = end_callback p (cb_token cb) w1" and cb': "cb' = cb\<lparr>cb_writer := False\<rparr>"
    using assms(4) by (auto simp: callback_finish_def cb)
  show ?thesis
    unfolding w2 w1 cb' using fresh
    by (auto simp: cb callback_finish_def callback_move_def omap_erase_set map_of_eq_None_iff)
qed

theorem callback_guard_brackets_witness:
  "let (cb, w1) = begin_callback_locked ''Fusion'' 50 (new_writer ''b'' ''i'');
       (cb', w2) = callback_finish cb w1
   in active (producer_entry w1 ''Fusion'') = [(1, 50)] \<and> active (producer_entry w2 ''Fusion'') = []"
proof -
  let ?w = "new_writer ''b'' ''i''"
  obtain cb w1 where b: "begin_callback_locked ''Fusion'' 50 ?w = (cb, w1)" by (meson surj_pair)
  obtain cb' w2 where f: "callback_finish cb w1 = (cb', w2)" by (meson surj_pair)
  have w1: "w1 = snd (begin_callback_locked ''Fusion'' 50 ?w)" using b by simp
  have "active (producer_entry w1 ''Fusion'') = [(1, 50)]" unfolding w1 by simp
  moreover have "active (producer_entry w2 ''Fusion'') = []"
    using callback_guard_brackets [OF _ _ b f] by (simp add: tokens_ok_def)
  ultimately show ?thesis using b f by simp
qed

section \<open>Interleavings\<close>

text \<open>
  The threads of the process as a step relation.  The clock is \<open>CLOCK_MONOTONIC\<close>, which never
  goes back.  A callback thread enters (the clock is read under the writer's mutex), writes
  events, and leaves; the reporter first reads the clock and later delivers, so that any
  other step may come in between.  \<open>issued\<close> lists the records written so far as pairs of
  producer and record number, \<open>promised\<close> the watermarks announced so far.
\<close>

record tracking_system =
  clock :: u64
  wr :: tracking_writer
  open_guards :: "callback list"
  reading :: "(string \<times> u64) option"
  issued :: "(string \<times> u64) list"
  promised :: "(string \<times> u64) list"

definition initial_system :: "string \<Rightarrow> string \<Rightarrow> tracking_system" where
  "initial_system boot inst =
     \<lparr>clock = 0, wr = new_writer boot inst, open_guards = [], reading = None, issued = [],
      promised = []\<rparr>"

inductive tracking_step :: "tracking_system \<Rightarrow> tracking_system \<Rightarrow> bool" where
  tick: "clock s \<le> t \<Longrightarrow> tracking_step s (s\<lparr>clock := t\<rparr>)"
| register: "tracking_step s (s\<lparr>wr := writer_register_producer p (wr s)\<rparr>)"
| enter: "writer_begin_callback p (clock s) (wr s) = (cb, w) \<Longrightarrow>
    tracking_step s (s\<lparr>wr := w, open_guards := cb # open_guards s\<rparr>)"
| leave: "cb \<in> set (open_guards s) \<Longrightarrow> callback_finish cb (wr s) = (cb', w) \<Longrightarrow>
    tracking_step s (s\<lparr>wr := w, open_guards := remove1 cb (open_guards s)\<rparr>)"
| event: "write_event p ts ev (wr s) = (line, w) \<Longrightarrow>
    tracking_step s (s\<lparr>wr := w, issued := issued s @ [(p, next_record (producer_entry (wr s) p))]\<rparr>)"
| read_clock: "reading s = None \<Longrightarrow> tracking_step s (s\<lparr>reading := Some (p, clock s)\<rparr>)"
| deliver: "reading s = Some (p, n) \<Longrightarrow> report_delivery p n (wr s) = (line, w) \<Longrightarrow>
    tracking_step s (s\<lparr>wr := w, reading := None,
      issued := issued s @ [(p, next_record (producer_entry (wr s) p))],
      promised := promised s @ [(p, delivery_through n (active (producer_entry (wr s) p)))]\<rparr>)"

inductive_cases tracking_stepE: "tracking_step s s'"

definition reachable :: "string \<Rightarrow> string \<Rightarrow> tracking_system \<Rightarrow> bool" where
  "reachable boot inst s \<longleftrightarrow> tracking_step\<^sup>*\<^sup>* (initial_system boot inst) s"

text \<open>The invariant: watermarks are behind the clock and behind every running callback.\<close>

definition promises_kept :: "tracking_system \<Rightarrow> bool" where
  "promises_kept s \<longleftrightarrow>
     (\<forall>(p, t) \<in> set (promised s). t \<le> clock s \<and>
        (\<forall>e \<in> snd ` set (active (producer_entry (wr s) p)). t \<le> e)) \<and>
     (case reading s of None \<Rightarrow> True | Some (p, n) \<Rightarrow> n \<le> clock s)"

definition numbering_ok :: "tracking_system \<Rightarrow> bool" where
  "numbering_ok s \<longleftrightarrow>
     (\<forall>p. let ns = map snd (filter (\<lambda>r. fst r = p) (issued s))
          in ns = map of_nat [0..<length ns] \<and>
             next_record (producer_entry (wr s) p) = of_nat (length ns))"

lemma omap_set_values: "snd ` set (omap_set k v m) \<subseteq> insert v (snd ` set m)"
  by (induction m) auto

lemma begin_callback_values:
  "e \<in> snd ` set (active (producer_entry (snd (begin_callback_locked p t w)) q)) \<Longrightarrow>
   q = p \<and> e = t \<or> e \<in> snd ` set (active (producer_entry w q))"
  using omap_set_values [of "next_callback (producer_entry w p) + 1" t "active (producer_entry w p)"]
  by (auto simp: Let_def split: if_splits)

lemma finish_values:
  "e \<in> snd ` set (active (producer_entry (snd (callback_finish cb w)) q)) \<Longrightarrow>
   e \<in> snd ` set (active (producer_entry w q))"
  by (auto simp: callback_finish_def omap_erase_def split: if_splits)

lemma finish_next_record:
  "next_record (producer_entry (snd (callback_finish cb w)) q) = next_record (producer_entry w q)"
  by (simp add: callback_finish_def)

lemma delivery_through_bounds:
  "delivery_through n act \<le> n" "e \<in> snd ` set act \<Longrightarrow> delivery_through n act \<le> e"
proof -
  show "delivery_through n act \<le> n"
    unfolding delivery_through_def by (rule foldl_delivery_le)
  assume "e \<in> snd ` set act"
  then obtain cb where cb: "cb \<in> set act" "e = snd cb" by blast
  show "delivery_through n act \<le> e"
    unfolding delivery_through_def cb(2)
    by (rule order_trans [OF foldl_delivery_entry [OF cb(1)] word_pred_le_self])
qed

lemma promises_kept_step [invariant_rules]:
  "tracking_step s s' \<Longrightarrow> promises_kept s \<Longrightarrow> promises_kept s'"
proof (induction rule: tracking_step.induct)
  case (tick s t)
  then show ?case by (fastforce simp: promises_kept_def split: option.splits)
next
  case (register s p)
  then show ?case by (auto simp: promises_kept_def split: option.splits)
next
  case (enter p s cb w)
  then have w: "w = snd (begin_callback_locked p (clock s) (wr s))"
    by (simp add: writer_begin_callback_def)
  have "t \<le> e" if "(q, t) \<in> set (promised s)" "e \<in> snd ` set (active (producer_entry w q))" for q t e
    using begin_callback_values [OF that(2) [unfolded w]] that(1) enter.prems
    by (auto simp: promises_kept_def)
  then show ?case using enter.prems by (auto simp: promises_kept_def split: option.splits)
next
  case (leave cb s cb' w)
  then have w: "w = snd (callback_finish cb (wr s))" by simp
  have "t \<le> e" if "(q, t) \<in> set (promised s)" "e \<in> snd ` set (active (producer_entry w q))" for q t e
    using finish_values [OF that(2) [unfolded w]] that(1) leave.prems
    by (auto simp: promises_kept_def)
  then show ?case using leave.prems by (auto simp: promises_kept_def split: option.splits)
next
  case (event p ts ev s line w)
  then have w: "w = snd (write_event p ts ev (wr s))" by simp
  have "active (producer_entry w q) = active (producer_entry (wr s) q)" for q unfolding w by simp
  then show ?case using event.prems by (auto simp: promises_kept_def split: option.splits)
next
  case (read_clock s p)
  then show ?case by (simp add: promises_kept_def)
next
  case (deliver s p n line w)
  then have w: "w = snd (report_delivery p n (wr s))" by simp
  have act: "active (producer_entry w q) = active (producer_entry (wr s) q)" for q unfolding w by simp
  have "delivery_through n (active (producer_entry (wr s) p)) \<le> clock s"
    using delivery_through_bounds(1) deliver by (fastforce simp: promises_kept_def intro: order_trans)
  then show ?case
    using deliver.prems delivery_through_bounds(2) by (auto simp: promises_kept_def act)
qed

lemma reachable_invariant:
  assumes "reachable boot inst s" and "I (initial_system boot inst)"
    and "\<And>s s'. tracking_step s s' \<Longrightarrow> I s \<Longrightarrow> I s'"
  shows "I s"
  using assms(1) unfolding reachable_def
  by (induction rule: rtranclp_induct) (use assms in auto)


definition watermark_example :: tracking_system where
  "watermark_example =
     \<lparr>clock = 9, wr = snd (begin_callback_locked ''Fusion'' 9
        (snd (report_delivery ''Fusion'' 5 (new_writer ''b'' ''i'')))),
      open_guards = [\<lparr>cb_writer = True, cb_producer = ''Fusion'', cb_token = 1\<rparr>], reading = None,
      issued = [(''Fusion'', 0)], promised = [(''Fusion'', 5)]\<rparr>"

lemma watermark_example_reachable: "reachable ''b'' ''i'' watermark_example"
proof -
  let ?w = "new_writer ''b'' ''i''"
  let ?s0 = "initial_system ''b'' ''i''"
  let ?s1 = "?s0\<lparr>clock := 5\<rparr>"
  let ?s2 = "?s1\<lparr>reading := Some (''Fusion'', 5)\<rparr>"
  let ?s3 = "?s2\<lparr>wr := snd (report_delivery ''Fusion'' 5 ?w), reading := None,
      issued := [(''Fusion'', 0)], promised := [(''Fusion'', 5)]\<rparr>"
  let ?s4 = "?s3\<lparr>clock := 9\<rparr>"
  have s1: "tracking_step ?s0 ?s1" by (rule tick) (simp add: initial_system_def)
  have s2: "tracking_step ?s1 ?s2" using read_clock [of ?s1 "''Fusion''"] by (simp add: initial_system_def)
  have s3: "tracking_step ?s2 ?s3"
    using deliver [of ?s2 "''Fusion''" 5] by (simp add: initial_system_def delivery_through_def prod_eq_iff)
  have s4: "tracking_step ?s3 ?s4" by (rule tick) (simp add: initial_system_def)
  have s5: "tracking_step ?s4 watermark_example"
    using enter [of "''Fusion''" ?s4]
    by (simp add: initial_system_def watermark_example_def writer_begin_callback_def
        begin_callback_locked_def Let_def)
  show ?thesis
    unfolding reachable_def using s1 s2 s3 s4 s5 by (meson converse_rtranclp_into_rtranclp rtranclp.rtrancl_refl)
qed


lemma numbering_ok_step [invariant_rules]:
  "tracking_step s s' \<Longrightarrow> numbering_ok s \<Longrightarrow> numbering_ok s'"
proof (induction rule: tracking_step.induct)
  case (enter p s cb w)
  then have w: "w = snd (begin_callback_locked p (clock s) (wr s))"
    by (simp add: writer_begin_callback_def)
  show ?case using enter.prems by (simp add: numbering_ok_def w Let_def)
next
  case (leave cb s cb' w)
  then have w: "w = snd (callback_finish cb (wr s))" by simp
  show ?case using leave.prems by (simp add: numbering_ok_def w finish_next_record)
next
  case (event p ts ev s line w)
  then have w: "w = snd (write_event p ts ev (wr s))" by simp
  show ?case using event.prems by (auto simp: numbering_ok_def w Let_def)
next
  case (deliver s p n line w)
  then have w: "w = snd (report_delivery p n (wr s))" by simp
  show ?case using deliver.prems by (auto simp: numbering_ok_def w Let_def)
qed (simp_all add: numbering_ok_def)



text \<open>
  The reporter's interval is between 1 and 60000 milliseconds whatever the
  environment variable holds, and a plain decimal number in that range is taken as it is.
\<close>

theorem report_interval_bounded:
  "1 \<le> report_interval_ms sur \<and> report_interval_ms sur \<le> 60000 \<and>
   (env sur ''REFERENCE_SYSTEM_DELIVERY_INTERVAL_MS'' = Some (to_dec n) \<and> 1 \<le> n \<and> n \<le> 60000 \<longrightarrow>
      report_interval_ms sur = of_nat n)"
proof (intro conjI impI)
  have pos: "1 \<le> x \<longleftrightarrow> 0 < x" for x :: u64
    by (simp add: word_le_nat_alt word_less_nat_alt Suc_le_eq)
  show "1 \<le> report_interval_ms sur" "report_interval_ms sur \<le> 60000"
    by (auto simp: report_interval_ms_def pos split: option.splits prod.splits)
  assume n: "env sur ''REFERENCE_SYSTEM_DELIVERY_INTERVAL_MS'' = Some (to_dec n) \<and> 1 \<le> n \<and> n \<le> 60000"
  have "strtoul (to_dec n) = (of_nat n, [])"
    using read_number_to_dec [of "[]" n] n by (simp add: strtoul_def)
  moreover have "(0::u64) < of_nat n \<and> of_nat n \<le> (60000::u64)"
    using n by (simp add: word_le_nat_alt word_less_nat_alt unat_of_nat)
  ultimately show "report_interval_ms sur = of_nat n"
    using n to_dec_nonempty [of n, symmetric] by (simp add: report_interval_ms_def)
qed

theorem report_interval_bounded_witness:
  "report_interval_ms \<lparr>env = (\<lambda>_. Some ''250''), boot_id_file = [], start_ns = 0, pid = 1\<rparr> = 250"
proof -
  have "to_dec 250 = ''250''" by code_simp
  then show ?thesis
    using report_interval_bounded
      [of "\<lparr>env = (\<lambda>_. Some ''250''), boot_id_file = [], start_ns = 0, pid = 1\<rparr>" 250]
    by simp
qed

end
