(* ===== verification/Provenance.thy ===== *)
theory Provenance
  imports Tracking
begin

text \<open>
  \<open>provenance.hpp\<close>: the source a message stems from, the identity of the message itself, and
  the source, link and sink records.  A record is dropped unless structured output is on; it
  goes through the tracking writer when tracking is enabled and straight to standard output
  otherwise.
\<close>

section \<open>Data and operations\<close>

record provenance_source_t =
  kind :: u32
  sequence :: u32
  timestamp_ns :: u64

record provenance_message_t =
  pm_name :: string
  pm_sequence :: u32
  pm_channel :: u32

text \<open>The process: what it has printed and its globals, and the tracking runtime once built.\<close>

record process_state =
  pr_io :: io_state
  pr_runtime :: "runtime_state option"

definition source_valid :: "provenance_source_t \<Rightarrow> bool" where
  "source_valid s \<longleftrightarrow> kind s \<noteq> 0"

definition no_source :: provenance_source_t where
  "no_source = \<lparr>kind = 0, sequence = 0, timestamp_ns = 0\<rparr>"

definition provenance_source :: "message \<Rightarrow> provenance_source_t" where
  "provenance_source m =
     \<lparr>kind = source_kind m, sequence = source_sequence m, timestamp_ns = source_timestamp_ns m\<rparr>"

definition older_source :: "provenance_source_t \<Rightarrow> provenance_source_t \<Rightarrow> provenance_source_t" where
  "older_source oldest s =
     (if source_valid s \<and> (\<not> source_valid oldest \<or> timestamp_ns s < timestamp_ns oldest) then s
      else oldest)"

definition oldest_provenance_source :: "provenance_source_t list \<Rightarrow> provenance_source_t" where
  "oldest_provenance_source sources = foldl older_source no_source sources"

definition set_provenance ::
    "message \<Rightarrow> string \<Rightarrow> u32 \<Rightarrow> u32 \<Rightarrow> provenance_source_t \<Rightarrow> message" where
  "set_provenance m node seq channel src =
     m\<lparr>provenance_node := node, provenance_sequence := seq, provenance_channel := channel,
       source_kind := kind src, source_sequence := sequence src,
       source_timestamp_ns := timestamp_ns src\<rparr>"

definition provenance_identity :: "message \<Rightarrow> provenance_message_t" where
  "provenance_identity m =
     \<lparr>pm_name = provenance_node m, pm_sequence = provenance_sequence m,
      pm_channel = provenance_channel m\<rparr>"

definition on_io :: "(io_state \<Rightarrow> io_state) \<Rightarrow> process_state \<Rightarrow> process_state" where
  "on_io f pr = pr\<lparr>pr_io := f (pr_io pr)\<rparr>"

definition write_provenance_line :: "string \<Rightarrow> process_state \<Rightarrow> process_state" where
  "write_provenance_line rec pr =
     (if \<not> is_structured_output_enabled (io_globals (pr_io pr)) then pr
      else on_io (reference_system_write_stdout_line rec) pr)"

definition write_provenance_record ::
    "surroundings \<Rightarrow> string \<Rightarrow> string \<Rightarrow> u64 \<Rightarrow> process_state \<Rightarrow> process_state" where
  "write_provenance_record sur rec producer ts pr =
     (if \<not> is_structured_output_enabled (io_globals (pr_io pr)) then pr
      else if enabled sur then
        let rt = runtime sur (pr_runtime pr);
            (line, w) = write_event producer ts rec (rt_writer rt)
        in on_io (reference_system_write_stdout_line line) (pr\<lparr>pr_runtime := Some (rt\<lparr>rt_writer := w\<rparr>)\<rparr>)
      else write_provenance_line rec pr)"

definition register_provenance_producer ::
    "surroundings \<Rightarrow> string \<Rightarrow> process_state \<Rightarrow> process_state" where
  "register_provenance_producer sur producer pr =
     pr\<lparr>pr_runtime := register_producer sur producer (pr_runtime pr)\<rparr>"

definition provenance_callback_guard ::
    "surroundings \<Rightarrow> string \<Rightarrow> u64 \<Rightarrow> process_state \<Rightarrow> callback \<times> process_state" where
  "provenance_callback_guard sur producer clock_ns pr =
     (let (cb, inst) = begin_callback sur producer clock_ns (pr_runtime pr)
      in (cb, pr\<lparr>pr_runtime := inst\<rparr>))"

definition leave_guard :: "callback \<Rightarrow> process_state \<Rightarrow> process_state" where
  "leave_guard cb pr = pr\<lparr>pr_runtime := end_guard cb (pr_runtime pr)\<rparr>"

definition provenance_source_json :: "provenance_source_t \<Rightarrow> string" where
  \<open>provenance_source_json s =
     (if \<not> source_valid s then ''null''
      else ''{"kind":'' @ show_u32 (kind s) @ '',"seq":'' @ show_u32 (sequence s) @
           '',"t_ns":'' @ show_u64 (timestamp_ns s) @ ''}'')\<close>

definition message_json :: "string \<Rightarrow> u32 \<Rightarrow> string \<Rightarrow> string" where
  \<open>message_json nm seq channel =
     ''{"name":"'' @ nm @ ''","seq":'' @ show_u32 seq @ '',"channel":'' @ channel @ ''}''\<close>

text \<open>The members of a record between the schema tag and the closing brace.\<close>

definition event_record :: "string \<Rightarrow> string" where
  \<open>event_record members = ''{"schema":1'' @ members @ ''}''\<close>

definition source_members :: "string \<Rightarrow> u32 \<Rightarrow> u32 \<Rightarrow> u64 \<Rightarrow> string" where
  \<open>source_members node seq knd ts =
     '',"event":"source","t_ns":'' @ show_u64 ts @ '',"node":"'' @ node @
     ''","seq":'' @ show_u32 seq @ '',"kind":'' @ show_u32 knd\<close>

definition emit_provenance_source ::
    "surroundings \<Rightarrow> string \<Rightarrow> u32 \<Rightarrow> u32 \<Rightarrow> u64 \<Rightarrow> process_state \<Rightarrow> process_state" where
  "emit_provenance_source sur node seq knd ts =
     write_provenance_record sur (event_record (source_members node seq knd ts)) node ts"

definition link_members ::
    "string \<Rightarrow> u32 \<Rightarrow> u32 \<Rightarrow> u64 \<Rightarrow> (u32 \<times> provenance_message_t) list \<Rightarrow> provenance_source_t \<Rightarrow>
     bool \<Rightarrow> string" where
  \<open>link_members node seq channel ts inputs src timer =
     '',"event":"link","t_ns":'' @ show_u64 ts @ '',"node":"'' @ node @
     ''","msg":'' @ message_json node seq (show_u32 channel) @ '',"inputs":['' @
     comma_separated (map (\<lambda>(i, m). ''{"index":'' @ show_u32 i @ '',"msg":'' @
       message_json (pm_name m) (pm_sequence m) (show_u32 (pm_channel m)) @ ''}'') inputs) @
     ''],"source":'' @ provenance_source_json src @
     '',"timer":'' @ (if timer then ''true'' else ''false'')\<close>

definition emit_provenance_link ::
    "surroundings \<Rightarrow> string \<Rightarrow> u32 \<Rightarrow> u32 \<Rightarrow> u64 \<Rightarrow> (u32 \<times> provenance_message_t) list \<Rightarrow>
     provenance_source_t \<Rightarrow> bool \<Rightarrow> process_state \<Rightarrow> process_state" where
  "emit_provenance_link sur node seq channel ts inputs src timer =
     write_provenance_record sur
       (event_record (link_members node seq channel ts inputs src timer)) node ts"

definition sink_members ::
    "string \<Rightarrow> u32 \<Rightarrow> u64 \<Rightarrow> provenance_message_t \<Rightarrow> provenance_source_t \<Rightarrow> string" where
  \<open>sink_members node seq ts inp src =
     '',"event":"sink","t_ns":'' @ show_u64 ts @ '',"node":"'' @ node @
     ''","msg":'' @ message_json node seq ''0'' @ '',"input":'' @
     message_json (pm_name inp) (pm_sequence inp) (show_u32 (pm_channel inp)) @
     '',"source":'' @ provenance_source_json src @
     '',"sensor_started":'' @ (if source_valid src then ''true'' else ''false'')\<close>

definition emit_provenance_sink ::
    "surroundings \<Rightarrow> string \<Rightarrow> u32 \<Rightarrow> u64 \<Rightarrow> provenance_message_t \<Rightarrow> provenance_source_t \<Rightarrow>
     process_state \<Rightarrow> process_state" where
  "emit_provenance_sink sur node seq ts inp src =
     write_provenance_record sur (event_record (sink_members node seq ts inp src)) node ts"

section \<open>Source selection\<close>

definition older_valid :: "provenance_source_t \<Rightarrow> provenance_source_t \<Rightarrow> bool" where
  "older_valid a b \<longleftrightarrow> source_valid a \<and> (\<not> source_valid b \<or> timestamp_ns a < timestamp_ns b)"

interpretation oldest: best_choice older_valid older_source
proof
  fix a b c :: provenance_source_t
  show "\<not> older_valid a a" by (simp add: older_valid_def)
  show "\<not> older_valid a b \<Longrightarrow> \<not> older_valid b c \<Longrightarrow> \<not> older_valid a c"
    by (auto simp: older_valid_def)
  show "older_source a b = a \<or> older_source a b = b" by (simp add: older_source_def)
  show "\<not> older_valid a (older_source a b)" "\<not> older_valid b (older_source a b)"
    by (auto simp: older_valid_def older_source_def)
qed

lemma older_source_none:
  "\<forall>s \<in> set sources. \<not> source_valid s \<Longrightarrow> foldl older_source s0 sources = s0"
  by (induction sources) (simp_all add: older_source_def)

text \<open>
  The provenance source of an output is the oldest valid source among those of its
  inputs: it is one of them and none is older; when no input stems from a source the output
  carries the null source.
\<close>

theorem oldest_provenance_source_spec:
  "if \<exists>s \<in> set sources. source_valid s
   then source_valid (oldest_provenance_source sources) \<and>
        oldest_provenance_source sources \<in> set sources \<and>
        (\<forall>s \<in> set sources. source_valid s \<longrightarrow>
           timestamp_ns (oldest_provenance_source sources) \<le> timestamp_ns s)
   else oldest_provenance_source sources = no_source"
proof (cases "\<exists>s \<in> set sources. source_valid s")
  case False
  then show ?thesis by (auto simp: oldest_provenance_source_def older_source_none)
next
  case True
  let ?r = "oldest_provenance_source sources"
  have no: "\<not> source_valid no_source" by (simp add: source_valid_def no_source_def)
  have best: "source_valid ?r \<and> timestamp_ns ?r \<le> timestamp_ns s"
    if "s \<in> set sources" "source_valid s" for s
    using oldest.scan_best [of s no_source sources] that
    by (auto simp: older_valid_def oldest_provenance_source_def)
  moreover have "?r \<in> set sources"
  proof -
    have "source_valid ?r" using best True by blast
    then have "?r \<noteq> no_source" using no by metis
    then show ?thesis
      using oldest.scan_member [of no_source sources] by (simp add: oldest_provenance_source_def)
  qed
  ultimately show ?thesis using True by auto
qed

theorem oldest_provenance_source_spec_witness:
  "source_valid (oldest_provenance_source
     [no_source, \<lparr>kind = 1, sequence = 4, timestamp_ns = 70\<rparr>, \<lparr>kind = 2, sequence = 9, timestamp_ns = 30\<rparr>])"
  using oldest_provenance_source_spec [of "[no_source, \<lparr>kind = 1, sequence = 4, timestamp_ns = 70\<rparr>,
      \<lparr>kind = 2, sequence = 9, timestamp_ns = 30\<rparr>]"]
  by (simp add: source_valid_def)

lemma provenance_set [simp]:
  "provenance_source (set_provenance m node seq channel src) = src"
  "provenance_identity (set_provenance m node seq channel src) =
     \<lparr>pm_name = node, pm_sequence = seq, pm_channel = channel\<rparr>"
  by (simp_all add: provenance_source_def set_provenance_def provenance_identity_def)

section \<open>What a record prints\<close>

lemma written_record_tracked:
  assumes "structured_output (io_globals (pr_io pr))" and "enabled sur"
  shows \<open>let w = rt_writer (runtime sur (pr_runtime pr));
             n = next_record (producer_entry w node);
             pr' = write_provenance_record sur (event_record members) node ts pr
         in stdout_log (pr_io pr') = stdout_log (pr_io pr) @ [Line (''{"schema":2'' @ members @
              '',"producer":'' @ json_quote node @ '',"instance":'' @ json_quote (instance_id w) @
              '',"boot_id":'' @ json_quote (boot_id w) @ '',"record_seq":'' @ show_u64 n @ ''}'')] \<and>
            next_record (producer_entry (rt_writer (runtime sur (pr_runtime pr'))) node) = n + 1\<close>
  unfolding write_provenance_record_def write_event_def event_record_def with_identity_stamps Let_def
  using assms
  by (simp add: is_structured_output_enabled_def set_structured_output_enabled_def Let_def on_io_def
      reference_system_write_stdout_line_def runtime_def)

text \<open>
  With structured output and tracking on, a link record is printed as one line that
  carries its members, the producer's identity and the producer's next record number, and the
  number is used up.  With tracking off the plain record is printed; with structured output off
  nothing is printed and no number is used.
\<close>

theorem emit_provenance_link_prints:
  \<open>(let w = rt_writer (runtime sur (pr_runtime pr));
        n = next_record (producer_entry w node);
        members = link_members node seq channel ts inputs src timer;
        pr' = emit_provenance_link sur node seq channel ts inputs src timer pr
    in if \<not> structured_output (io_globals (pr_io pr)) then pr' = pr
       else if \<not> enabled sur then
         pr' = on_io (reference_system_write_stdout_line (event_record members)) pr
       else
         stdout_log (pr_io pr') = stdout_log (pr_io pr) @ [Line (''{"schema":2'' @ members @
            '',"producer":'' @ json_quote node @ '',"instance":'' @ json_quote (instance_id w) @
            '',"boot_id":'' @ json_quote (boot_id w) @ '',"record_seq":'' @ show_u64 n @ ''}'')] \<and>
         next_record (producer_entry (rt_writer (runtime sur (pr_runtime pr'))) node) = n + 1)\<close>
proof -
  have off: "write_provenance_record sur rec node ts pr = pr"
    if "\<not> structured_output (io_globals (pr_io pr))" for rec
    using that by (simp add: write_provenance_record_def is_structured_output_enabled_def
        set_structured_output_enabled_def)
  have plain: "write_provenance_record sur rec node ts pr = on_io (reference_system_write_stdout_line rec) pr"
    if "structured_output (io_globals (pr_io pr))" "\<not> enabled sur" for rec
    using that by (simp add: write_provenance_record_def write_provenance_line_def
        is_structured_output_enabled_def set_structured_output_enabled_def)
  show ?thesis
    unfolding emit_provenance_link_def Let_def
    using off plain written_record_tracked [of pr sur node _ ts] unfolding Let_def by presburger
qed

end
