(* ===== verification/Sample_Path.thy ===== *)
theory Sample_Path
  imports Lineage Complex_Main
begin

text \<open>
  The legacy statistics of \<open>sample_management.hpp\<close>: \<open>statistic_value_t\<close>, \<open>sample_statistic_t\<close>
  and \<open>print_sample_path\<close>.  The type of \<open>double\<close> is a parameter, with the operations the code
  uses as the record \<open>fp\<close>, so that no rounding behaviour is presumed; the exactness theorem
  takes real numbers for it.  The function-local static variables are the record
  \<open>sample_path_state\<close>, and a printed line is a value of \<open>report_line\<close>.
\<close>

section \<open>Statistics\<close>

record 'd fp =
  fp_of_u64 :: "u64 \<Rightarrow> 'd"
  fp_to_u64 :: "'d \<Rightarrow> u64"
  fp_add :: "'d \<Rightarrow> 'd \<Rightarrow> 'd"
  fp_sub :: "'d \<Rightarrow> 'd \<Rightarrow> 'd"
  fp_mul :: "'d \<Rightarrow> 'd \<Rightarrow> 'd"
  fp_div :: "'d \<Rightarrow> 'd \<Rightarrow> 'd"
  fp_sqrt :: "'d \<Rightarrow> 'd"

record 'd statistic_value =
  average :: 'd
  deviation :: 'd
  sv_min :: u64
  sv_max :: u64
  sv_current :: u64
  total_number :: u64
  suffix :: string
  adjustment :: 'd

definition new_statistic :: "'d fp \<Rightarrow> 'd statistic_value" where
  "new_statistic F =
     \<lparr>average = fp_of_u64 F 0, deviation = fp_of_u64 F 0, sv_min = - 1, sv_max = 0, sv_current = 0,
      total_number = 0, suffix = [], adjustment = fp_of_u64 F 0\<rparr>"

definition statistic_set :: "'d fp \<Rightarrow> u64 \<Rightarrow> 'd statistic_value \<Rightarrow> 'd statistic_value" where
  "statistic_set F x v =
     (let total = total_number v + 1;
          old_average = average v;
          n = fp_of_u64 F total;
          n1 = fp_of_u64 F (total - 1);
          avg = fp_div F (fp_add F (fp_mul F n1 old_average) (fp_of_u64 F x)) n;
          delta = fp_sub F (fp_of_u64 F x) old_average;
          delta2 = fp_sub F (fp_of_u64 F x) avg;
          dev = fp_sqrt F (fp_div F (fp_add F (fp_mul F (fp_mul F (deviation v) (deviation v)) n1)
                                              (fp_mul F delta delta2)) n)
      in v\<lparr>total_number := total, sv_current := x, average := avg, deviation := dev,
           sv_min := min (sv_min v) x, sv_max := max (sv_max v) x\<rparr>)"

record 'd sample_statistic =
  timepoint_of_first_received_sample :: u64
  previous_behavior_planner_sequence :: u32
  previous_behavior_planner_time_stamp :: u64
  latency :: "'d statistic_value"
  hot_path_latency :: "'d statistic_value"
  behavior_planner_period :: "'d statistic_value"

section \<open>The report\<close>

text \<open>
  One constructor per kind of line.  A row of the path has the order of its time stamp, the
  time stamp, the sequence number, the node and its drop statistic; a statistic is printed by
  \<open>operator<<\<close>, which divides by the adjustment unless that is zero.
\<close>

datatype 'd report_line =
    Plain string
  | PathRow u64 u64 u32 string "'d statistic_value"
  | EndpointRow u64 u64 string "'d statistic_value"
  | StatRow string "'d statistic_value"

record 'd sample_path_state =
  benchmark_counter :: int
  advanced_statistics :: "(string, 'd sample_statistic) omap"
  dropped_map :: "(string, (string, 'd statistic_value) omap) omap"
  report :: "'d report_line list"

definition initial_sample_path :: "'d sample_path_state" where
  "initial_sample_path =
     \<lparr>benchmark_counter = 0, advanced_statistics = [], dropped_map = [], report = []\<rparr>"

text \<open>\<open>m[k]\<close> on a \<open>std::map\<close> whose entries default to \<open>d\<close>.\<close>

definition omap_get :: "'v \<Rightarrow> ('k, 'v) omap \<Rightarrow> 'k \<Rightarrow> 'v" where
  "omap_get d m k = (case map_of m k of None \<Rightarrow> d | Some v \<Rightarrow> v)"

definition statistic_ms :: "'d fp \<Rightarrow> 'd statistic_value" where
  "statistic_ms F = (new_statistic F)\<lparr>suffix := ''ms'', adjustment := fp_of_u64 F 1000000\<rparr>"

definition first_statistics :: "'d fp \<Rightarrow> u64 \<Rightarrow> 'd sample_statistic" where
  "first_statistics F now =
     \<lparr>timepoint_of_first_received_sample = now, previous_behavior_planner_sequence = 0,
      previous_behavior_planner_time_stamp = 0, latency = statistic_ms F,
      hot_path_latency = statistic_ms F, behavior_planner_period = statistic_ms F\<rparr>"

definition start_statistics ::
    "'d fp \<Rightarrow> string \<Rightarrow> u64 \<Rightarrow> 'd sample_path_state \<Rightarrow> 'd sample_path_state" where
  "start_statistics F node now st =
     (case map_of (advanced_statistics st) node of
        Some _ \<Rightarrow> st
      | None \<Rightarrow> st\<lparr>advanced_statistics := omap_set node (first_statistics F now) (advanced_statistics st)\<rparr>)"

definition print_line :: "'d report_line \<Rightarrow> 'd sample_path_state \<Rightarrow> 'd sample_path_state" where
  "print_line l st = st\<lparr>report := report st @ [l]\<rparr>"

text \<open>\<open>timestamp2Order\<close>: the distinct time stamps in increasing order, numbered from zero.\<close>

definition timestamp_order :: "message \<Rightarrow> (u64, u64) omap" where
  "timestamp_order sample =
     (let m = foldl (\<lambda>m e. omap_set (timestamp e) (0::u64) m) [] (entries sample)
      in zip (map fst m) (map of_nat [0..<length m]))"

definition min_time_stamp :: "message \<Rightarrow> u64" where
  "min_time_stamp sample = foldl (\<lambda>t e. min t (timestamp e)) (- 1) (entries sample)"

definition set_dropped ::
    "'d fp \<Rightarrow> string \<Rightarrow> string \<Rightarrow> u64 \<Rightarrow> 'd sample_path_state \<Rightarrow> 'd statistic_value \<times> 'd sample_path_state" where
  "set_dropped F node nm x st =
     (let inner = omap_get [] (dropped_map st) node;
          v = statistic_set F x (omap_get (new_statistic F) inner nm)
      in (v, st\<lparr>dropped_map := omap_set node (omap_set nm v inner) (dropped_map st)\<rparr>))"

definition print_path_row ::
    "'d fp \<Rightarrow> string \<Rightarrow> (u64, u64) omap \<Rightarrow> 'd sample_path_state \<Rightarrow> transmission_stats \<Rightarrow>
     'd sample_path_state" where
  "print_path_row F node order st e =
     (let (v, st') = set_dropped F node (stat_name e) (ucast (dropped_samples e)) st
      in print_line (PathRow (omap_get 0 order (timestamp e)) (timestamp e) (sequence_number e)
                       (stat_name e) v) st')"

text \<open>The scan for the hot path, from the last entry to the first.\<close>

definition hot_path_step :: "u64 \<times> bool \<times> u64 \<Rightarrow> transmission_stats \<Rightarrow> u64 \<times> bool \<times> u64" where
  "hot_path_step = (\<lambda>(lat, found, lidar) e.
     if stat_name e = ''ObjectCollisionEstimator'' then (timestamp e, True, lidar)
     else if stat_name e = ''FrontLidarDriver'' then (lat, found, max lidar (timestamp e))
     else if stat_name e = ''RearLidarDriver'' then (lat, found, max lidar (timestamp e))
     else (lat, found, lidar))"

definition hot_path :: "message \<Rightarrow> u64 \<times> bool" where
  "hot_path sample =
     (let (lat, found, lidar) = foldl hot_path_step (0, False, 0) (rev (entries sample))
      in (lat - lidar, found))"

definition hot_path_nodes :: "string list" where
  "hot_path_nodes =
     [''ObjectCollisionEstimator'', ''FrontLidarDriver'', ''PointsTransformerFront'',
      ''PointCloudFusion'', ''RayGroundFilter'', ''EuclideanClusterDetector'']"

definition hot_path_drops :: "message \<Rightarrow> u64" where
  "hot_path_drops sample =
     foldl (\<lambda>d e. if stat_name e \<in> set hot_path_nodes then d + ucast (dropped_samples e) else d) 0
       (rev (entries sample))"

definition planner_period :: "'d fp \<Rightarrow> u64 \<Rightarrow> u64 \<Rightarrow> u32 \<Rightarrow> u32 \<Rightarrow> u64" where
  "planner_period F ts prev_ts seq prev_seq =
     fp_to_u64 F (fp_div F (fp_of_u64 F (ts - prev_ts)) (fp_of_u64 F (ucast (seq - prev_seq))))"

definition planner_step ::
    "'d fp \<Rightarrow> 'd sample_statistic \<Rightarrow> transmission_stats \<Rightarrow> 'd sample_statistic" where
  "planner_step F s e =
     (if stat_name e = ''BehaviorPlanner'' then
        let s' = (if previous_behavior_planner_time_stamp s \<noteq> 0
                  then s\<lparr>behavior_planner_period := statistic_set F
                         (planner_period F (timestamp e) (previous_behavior_planner_time_stamp s)
                            (sequence_number e) (previous_behavior_planner_sequence s))
                         (behavior_planner_period s)\<rparr>
                  else s)
        in s'\<lparr>previous_behavior_planner_sequence := sequence_number e,
              previous_behavior_planner_time_stamp := timestamp e\<rparr>
      else s)"

definition on_statistics ::
    "string \<Rightarrow> ('d sample_statistic \<Rightarrow> 'd sample_statistic) \<Rightarrow> 'd sample_path_state \<Rightarrow> 'd sample_path_state" where
  "on_statistics node f st =
     (case map_of (advanced_statistics st) node of
        None \<Rightarrow> st
      | Some s \<Rightarrow> st\<lparr>advanced_statistics := omap_set node (f s) (advanced_statistics st)\<rparr>)"

definition print_statistic ::
    "string \<Rightarrow> string \<Rightarrow> ('d sample_statistic \<Rightarrow> 'd statistic_value) \<Rightarrow> 'd sample_path_state \<Rightarrow>
     'd sample_path_state" where
  "print_statistic node label f st =
     (case map_of (advanced_statistics st) node of
        None \<Rightarrow> st
      | Some s \<Rightarrow> print_line (StatRow label (f s)) st)"

definition rule_line :: "'d report_line" where
  "rule_line = Plain ''----------------------------------------------------------''"

definition print_path ::
    "'d fp \<Rightarrow> u64 \<Rightarrow> string \<Rightarrow> u32 \<Rightarrow> message \<Rightarrow> 'd sample_path_state \<Rightarrow> 'd sample_path_state" where
  "print_path F now node lost sample st =
     (let order = timestamp_order sample;
          st1 = print_line rule_line st;
          st2 = print_line (Plain ''sample path: '') st1;
          st3 = print_line (Plain ''  order timepoint           sequence nr.                  node name     dropped samples'') st2;
          st4 = foldl (print_path_row F node order) st3 (entries sample);
          (v, st5) = set_dropped F node node (ucast lost) st4
      in print_line (EndpointRow (of_nat (length order)) now node v) st5)"

definition print_hot_path ::
    "'d fp \<Rightarrow> string \<Rightarrow> message \<Rightarrow> 'd sample_path_state \<Rightarrow> 'd sample_path_state" where
  "print_hot_path F node sample st =
     (if snd (hot_path sample) then
        let (v, st1) = set_dropped F node ''hotpath'' (hot_path_drops sample) st;
            st2 = on_statistics node (\<lambda>s. s\<lparr>hot_path_latency :=
                    statistic_set F (fst (hot_path sample)) (hot_path_latency s)\<rparr>) st1;
            st3 = print_line (Plain ''  hot path:                 FrontLidarDriver/RearLidarDriver (latest) -> ObjectCollisionEstimator'') st2;
            st4 = print_statistic node ''  hot path latency:         '' hot_path_latency st3
        in print_line (StatRow ''  hot path drops:           '' v) st4
      else st)"

definition print_summary ::
    "'d fp \<Rightarrow> u64 \<Rightarrow> string \<Rightarrow> message \<Rightarrow> 'd sample_path_state \<Rightarrow> 'd sample_path_state" where
  "print_summary F now node sample st =
     (let st1 = on_statistics node (\<lambda>s. foldl (planner_step F) s (entries sample)) st;
          st2 = on_statistics node (\<lambda>s. s\<lparr>latency :=
                  statistic_set F (now - min_time_stamp sample) (latency s)\<rparr>) st1;
          st3 = print_line (Plain ''Statistics:'') (print_line (Plain []) st2);
          st4 = print_statistic node ''  latency:                  '' latency st3;
          st5 = print_hot_path F node sample st4;
          st6 = (if ''BehaviorPlanner'' \<in> stat_name ` set (entries sample)
                 then print_statistic node ''  behavior planner period:  '' behavior_planner_period st5
                 else st5)
      in print_line (Plain []) (print_line rule_line st6))"

definition print_sample_path ::
    "'d fp \<Rightarrow> u64 \<Rightarrow> u64 \<Rightarrow> string \<Rightarrow> u32 \<Rightarrow> message \<Rightarrow> globals \<Rightarrow> 'd sample_path_state \<Rightarrow>
     'd sample_path_state" where
  "print_sample_path F first_now now node lost sample g st =
     (if is_in_benchmark_mode g \<or> msg_size sample = 0 then st
      else
        let st1 = st\<lparr>benchmark_counter := benchmark_counter st + 1\<rparr>
        in if benchmark_counter st1 < 10 then st1
           else print_summary F now node sample
                  (print_path F now node lost sample (start_statistics F node first_now st1)))"

section \<open>Exactness of the statistics\<close>

definition real_fp :: "real fp" where
  "real_fp =
     \<lparr>fp_of_u64 = (\<lambda>w. real (unat w)), fp_to_u64 = (\<lambda>x. of_int \<lfloor>x\<rfloor>), fp_add = (+), fp_sub = (-),
      fp_mul = (*), fp_div = (/), fp_sqrt = sqrt\<rparr>"

definition mean :: "u64 list \<Rightarrow> real" where
  "mean xs = (\<Sum>x\<leftarrow>xs. real (unat x)) / real (length xs)"

definition variance :: "u64 list \<Rightarrow> real" where
  "variance xs = (\<Sum>x\<leftarrow>xs. (real (unat x) - mean xs)\<^sup>2) / real (length xs)"

abbreviation rv :: "u64 \<Rightarrow> real" where
  "rv x \<equiv> real (unat x)"

lemma sum_squares_about:
  "(\<Sum>x\<leftarrow>xs. (f x - c)\<^sup>2) = (\<Sum>x\<leftarrow>xs. (f x)\<^sup>2) - 2 * c * (\<Sum>x\<leftarrow>xs. f x) + real (length xs) * c\<^sup>2"
  for f :: "'a \<Rightarrow> real"
  by (induction xs) (auto simp: power2_eq_square algebra_simps)

lemma variance_moments:
  "xs \<noteq> [] \<Longrightarrow> variance xs = (\<Sum>x\<leftarrow>xs. (rv x)\<^sup>2) / real (length xs) - (mean xs)\<^sup>2"
proof -
  assume "xs \<noteq> []"
  then have n: "0 < real (length xs)" by simp
  have generic: "(q - 2 * m * (n * m) + n * m\<^sup>2) / n = q / n - m\<^sup>2" if "0 < n" for q m n :: real
    using that by (simp add: field_simps power2_eq_square)
  have "(\<Sum>x\<leftarrow>xs. rv x) = real (length xs) * mean xs" using n by (simp add: mean_def)
  then show ?thesis
    unfolding variance_def sum_squares_about using generic [OF n] by metis
qed

lemma variance_nonneg: "0 \<le> variance xs"
  unfolding variance_def by (intro divide_nonneg_nonneg sum_list_nonneg) auto

lemma welford_step:
  fixes n s q x :: real
  assumes "0 < n"
  shows "((q / n - (s / n)\<^sup>2) * n + (x - s / n) * (x - (s + x) / (n + 1))) / (n + 1) =
         (q + x\<^sup>2) / (n + 1) - ((s + x) / (n + 1))\<^sup>2"
  using assms by (simp add: power2_eq_square divide_simps) algebra

lemma mean_snoc: "mean (xs @ [x]) = (real (length xs) * mean xs + rv x) / (real (length xs) + 1)"
  by (cases "xs = []") (simp_all add: mean_def add.commute)

lemma variance_snoc:
  "variance (xs @ [x]) =
     (variance xs * real (length xs) + (rv x - mean xs) * (rv x - mean (xs @ [x]))) / (real (length xs) + 1)"
proof (cases "xs = []")
  case True
  then show ?thesis by (simp add: variance_def mean_def)
next
  case False
  let ?n = "real (length xs)" and ?s = "\<Sum>x\<leftarrow>xs. rv x" and ?q = "\<Sum>x\<leftarrow>xs. (rv x)\<^sup>2"
  have "0 < ?n" using False by simp
  have "variance (xs @ [x]) = (?q + (rv x)\<^sup>2) / (?n + 1) - ((?s + rv x) / (?n + 1))\<^sup>2"
    using variance_moments [of "xs @ [x]"] by (simp add: mean_def add.commute)
  also have "\<dots> = ((?q / ?n - (?s / ?n)\<^sup>2) * ?n + (rv x - ?s / ?n) * (rv x - (?s + rv x) / (?n + 1))) / (?n + 1)"
    using welford_step [OF \<open>0 < ?n\<close>] by simp
  also have "?q / ?n - (?s / ?n)\<^sup>2 = variance xs"
    using variance_moments [OF False] by (simp add: mean_def)
  also have "?s / ?n = mean xs" by (simp add: mean_def)
  also have "(?s + rv x) / (?n + 1) = mean (xs @ [x])" by (simp add: mean_def add.commute)
  finally show ?thesis .
qed

lemma mean_Nil [simp]: "mean [] = 0" and variance_Nil [simp]: "variance [] = 0"
  by (simp_all add: mean_def variance_def)

lemma statistic_set_real:
  "average (statistic_set real_fp x v) =
     (rv (total_number v) * average v + rv x) / rv (total_number v + 1)"
  "deviation (statistic_set real_fp x v) =
     sqrt ((deviation v * deviation v * rv (total_number v) +
            (rv x - average v) * (rv x - average (statistic_set real_fp x v))) / rv (total_number v + 1))"
  "total_number (statistic_set real_fp x v) = total_number v + 1"
  "sv_current (statistic_set real_fp x v) = x"
  "sv_min (statistic_set real_fp x v) = min (sv_min v) x"
  "sv_max (statistic_set real_fp x v) = max (sv_max v) x"
  by (simp_all add: statistic_set_def Let_def real_fp_def)

text \<open>
  Over exact arithmetic the incremental update computes what it is meant to: after
  any sequence of fewer than \<open>2\<^sup>6\<^sup>4\<close> values the average is their mean, the deviation the square
  root of their variance, and count, last value, minimum and maximum are those of the sequence.
\<close>

theorem statistic_set_exact:
  assumes "length xs < 2 ^ 64"
  defines "v \<equiv> fold (statistic_set real_fp) xs (new_statistic real_fp)"
  shows "average v = mean xs \<and> deviation v = sqrt (variance xs) \<and>
         unat (total_number v) = length xs \<and>
         (xs \<noteq> [] \<longrightarrow> sv_current v = last xs \<and> sv_min v = Min (set xs) \<and> sv_max v = Max (set xs))"
  using assms(1) unfolding v_def
proof (induction xs rule: rev_induct)
  case Nil
  then show ?case by (simp add: new_statistic_def real_fp_def)
next
  case (snoc x xs)
  let ?v = "fold (statistic_set real_fp) xs (new_statistic real_fp)"
  have IH: "average ?v = mean xs" "deviation ?v = sqrt (variance xs)"
    "unat (total_number ?v) = length xs"
    "xs \<noteq> [] \<Longrightarrow> sv_min ?v = Min (set xs) \<and> sv_max ?v = Max (set xs)"
    using snoc by auto
  have n1: "unat (total_number ?v + 1) = length xs + 1"
    using IH(3) snoc.prems by (simp add: unat_word_ariths(1))
  have minmax: "min (sv_min ?v) x = Min (set (xs @ [x])) \<and> max (sv_max ?v) x = Max (set (xs @ [x]))"
  proof (cases "xs = []")
    case True
    then show ?thesis by (simp add: new_statistic_def min_def max_def word_order.extremum_unique)
  next
    case False
    then show ?thesis using IH(4) by (simp add: min.commute max.commute)
  qed
  have dev: "deviation ?v * deviation ?v = variance xs"
    using IH(2) variance_nonneg [of xs] by simp
  have avg: "average (statistic_set real_fp x ?v) = mean (xs @ [x])"
    unfolding statistic_set_real IH(1,3) n1 mean_snoc by simp
  have "deviation (statistic_set real_fp x ?v) = sqrt (variance (xs @ [x]))"
    unfolding statistic_set_real(2) avg IH(1,3) n1 dev variance_snoc by simp
  with avg n1 minmax show ?case by (simp add: statistic_set_real)
qed

theorem statistic_set_exact_witness:
  "average (fold (statistic_set real_fp) [2, 4] (new_statistic real_fp)) = 3"
  using statistic_set_exact [of "[2, 4]"] by (simp add: mean_def)

section \<open>The hot path\<close>

definition is_lidar :: "transmission_stats \<Rightarrow> bool" where
  "is_lidar e \<longleftrightarrow> stat_name e = ''FrontLidarDriver'' \<or> stat_name e = ''RearLidarDriver''"

definition is_estimator :: "transmission_stats \<Rightarrow> bool" where
  "is_estimator e \<longleftrightarrow> stat_name e = ''ObjectCollisionEstimator''"

lemma hot_path_step_eq:
  "hot_path_step (lat, found, lidar) e =
     (if is_estimator e then timestamp e else lat, found \<or> is_estimator e,
      if is_lidar e then max lidar (timestamp e) else lidar)"
  by (simp add: hot_path_step_def is_lidar_def is_estimator_def)

lemma Max_insert_max: "finite T \<Longrightarrow> Max (insert (max a b) T) = Max (insert a (insert b T))"
  for a :: "'a::linorder"
  by (cases "T = {}") (simp_all add: max.assoc)

lemma foldl_hot_path:
  "foldl hot_path_step (lat, found, lidar) es =
     (foldl (\<lambda>l e. if is_estimator e then timestamp e else l) lat es,
      found \<or> (\<exists>e \<in> set es. is_estimator e),
      Max (insert lidar (timestamp ` {e \<in> set es. is_lidar e})))"
proof (induction es arbitrary: lat found lidar)
  case (Cons e es)
  let ?T = "timestamp ` {x \<in> set es. is_lidar x}"
  have "Max (insert (if is_lidar e then max lidar (timestamp e) else lidar) ?T) =
      Max (insert lidar (timestamp ` {x \<in> set (e # es). is_lidar x}))"
  proof (cases "is_lidar e")
    case True
    have t: "timestamp ` {x \<in> set (e # es). is_lidar x} = insert (timestamp e) ?T" using True by auto
    have "finite ?T" by simp
    then show ?thesis unfolding t by (simp only: True if_True Max_insert_max)
  next
    case False
    then have "{x \<in> set (e # es). is_lidar x} = {x \<in> set es. is_lidar x}" by auto
    then show ?thesis using False by simp
  qed
  then show ?case unfolding foldl_Cons hot_path_step_eq Cons by auto
qed simp

lemma foldl_no_estimator:
  "\<forall>x \<in> set es. \<not> is_estimator x \<Longrightarrow>
   foldl (\<lambda>l e. if is_estimator e then timestamp e else l) lat es = lat"
  by (induction es arbitrary: lat) simp_all

lemma foldl_estimator:
  assumes "is_estimator e"
  shows "e \<in> set es \<Longrightarrow> \<forall>x \<in> set es. is_estimator x \<longrightarrow> x = e \<Longrightarrow>
    foldl (\<lambda>l e. if is_estimator e then timestamp e else l) lat es = timestamp e"
proof (induction es arbitrary: lat)
  case (Cons x es)
  show ?case
  proof (cases "e \<in> set es")
    case True
    have "\<forall>x \<in> set es. is_estimator x \<longrightarrow> x = e" using Cons.prems(2) by simp
    from Cons.IH [OF True this] show ?thesis by simp
  next
    case False
    then have x: "x = e" using Cons.prems(1) by simp
    have "\<forall>y \<in> set es. \<not> is_estimator y" using Cons.prems(2) False by auto
    from foldl_no_estimator [OF this] show ?thesis using assms by (simp add: x)
  qed
qed simp

text \<open>
  On a history with one entry per node, the hot path of the legacy report is found
  exactly when the object collision estimator is in the history, and its latency is the
  estimator's time stamp less the latest time stamp of the two lidar drivers.
\<close>

theorem hot_path_latest_lidar:
  assumes "one_entry_per_node sample"
  shows "(snd (hot_path sample) \<longleftrightarrow> ''ObjectCollisionEstimator'' \<in> node_names sample) \<and>
         (\<forall>e \<in> set (entries sample). stat_name e = ''ObjectCollisionEstimator'' \<longrightarrow>
            fst (hot_path sample) =
              timestamp e - Max (insert 0 (timestamp ` {l \<in> set (entries sample).
                 stat_name l = ''FrontLidarDriver'' \<or> stat_name l = ''RearLidarDriver''})))"
proof -
  have unique: "x = y" if "x \<in> set (entries sample)" "y \<in> set (entries sample)" "stat_name x = stat_name y" for x y
    using assms that by (auto simp: one_entry_per_node_def distinct_map inj_on_def)
  have "fst (hot_path sample) = timestamp e - Max (insert 0 (timestamp ` {l \<in> set (entries sample). is_lidar l}))"
    if "e \<in> set (entries sample)" "is_estimator e" for e
  proof -
    have all: "\<forall>x \<in> set (rev (entries sample)). is_estimator x \<longrightarrow> x = e"
      using unique that by (simp add: is_estimator_def)
    have "foldl (\<lambda>l e. if is_estimator e then timestamp e else l) 0 (rev (entries sample)) = timestamp e"
      by (rule foldl_estimator [OF that(2) _ all]) (simp add: that(1))
    then show ?thesis unfolding hot_path_def foldl_hot_path by simp
  qed
  moreover have "snd (hot_path sample) \<longleftrightarrow> (\<exists>e \<in> set (entries sample). is_estimator e)"
    by (simp add: hot_path_def foldl_hot_path)
  moreover have "(\<exists>e \<in> set (entries sample). is_estimator e) \<longleftrightarrow>
      ''ObjectCollisionEstimator'' \<in> node_names sample"
    unfolding is_estimator_def node_names_def image_iff by metis
  ultimately show ?thesis unfolding is_estimator_def is_lidar_def by blast
qed

theorem hot_path_latest_lidar_witness:
  "snd (hot_path (sample_of [(''FrontLidarDriver'', 1, 30, 0), (''ObjectCollisionEstimator'', 1, 90, 0)]))"
proof -
  let ?s = "sample_of [(''FrontLidarDriver'', 1, 30, 0), (''ObjectCollisionEstimator'', 1, 90, 0)]"
  have "one_entry_per_node ?s"
    by (simp add: one_entry_per_node_def sample_of_entries stat_name_def c_string_name_field)
  moreover have "''ObjectCollisionEstimator'' \<in> node_names ?s"
    by (simp add: node_names_def sample_of_entries stat_name_def c_string_name_field)
  ultimately show ?thesis using hot_path_latest_lidar [of ?s] by simp
qed

text \<open>
  The planner period of the legacy report divides zero by zero when a report meets a
  behaviour planner entry that an earlier report of the same node has already met: the value
  handed to the statistic is the conversion of \<open>0.0 / 0.0\<close> to an unsigned integer.
\<close>

theorem planner_period_repeats:
  assumes "stat_name e = ''BehaviorPlanner''" and "timestamp e \<noteq> 0"
  shows "behavior_planner_period (planner_step F (planner_step F s e) e) =
         statistic_set F (fp_to_u64 F (fp_div F (fp_of_u64 F 0) (fp_of_u64 F 0)))
           (behavior_planner_period (planner_step F s e))"
proof -
  have prev: "previous_behavior_planner_time_stamp (planner_step F s e) = timestamp e"
    "previous_behavior_planner_sequence (planner_step F s e) = sequence_number e"
    using assms by (simp_all add: planner_step_def Let_def)
  show ?thesis
    unfolding planner_step_def [of F "planner_step F s e"]
    using assms by (simp add: prev planner_period_def)
qed

theorem planner_period_repeats_witness:
  "let e = \<lparr>timestamp = 70, sequence_number = 3, dropped_samples = 0, node_name = ''BehaviorPlanner''\<rparr>;
       s = planner_step real_fp (first_statistics real_fp 1) e
   in total_number (behavior_planner_period (planner_step real_fp s e)) = 1"
  using planner_period_repeats [of "\<lparr>timestamp = 70, sequence_number = 3, dropped_samples = 0,
      node_name = ''BehaviorPlanner''\<rparr>" real_fp "first_statistics real_fp 1"]
  by (simp add: stat_name_def c_string_def Let_def planner_step_def first_statistics_def
      statistic_ms_def new_statistic_def statistic_set_def)

end
