(* ===== verification/Number_Cruncher.thy ===== *)
theory Number_Cruncher
  imports Prelude
begin

text \<open>
  \<open>number_cruncher.hpp\<close>: the synthetic workload of the nodes.  The numbers are natural
  numbers and \<open>static_cast<uint64_t>(std::sqrt(i))\<close> is the integer square root, which it is for
  arguments below \<open>2\<^sup>5\<^sup>2\<close>; the workloads the system configures are below \<open>2\<^sup>3\<^sup>2\<close>.
\<close>

section \<open>Operations\<close>

fun isqrt :: "nat \<Rightarrow> nat" where
  "isqrt 0 = 0"
| "isqrt (Suc n) = (let r = isqrt n in if (r + 1) * (r + 1) \<le> Suc n then r + 1 else r)"

text \<open>The inner loop: whether no \<open>n\<close> from the given one on, below \<open>root\<close>, divides \<open>i\<close>.\<close>

function no_divisor :: "nat \<Rightarrow> nat \<Rightarrow> nat \<Rightarrow> bool" where
  "no_divisor i n root = (if n < root then if i mod n = 0 then False else no_divisor i (n + 1) root else True)"
  by auto
termination by (relation "measure (\<lambda>(i, n, root). root - n)") auto

function count_from :: "nat \<Rightarrow> nat \<Rightarrow> nat \<Rightarrow> nat" where
  "count_from i maximum found =
     (if i < maximum
      then count_from (i + 1) maximum (if no_divisor i 2 (isqrt i) then found + 1 else found)
      else found)"
  by auto
termination by (relation "measure (\<lambda>(i, maximum, found). maximum - i)") auto

declare no_divisor.simps [simp del] count_from.simps [simp del]

definition number_cruncher :: "nat \<Rightarrow> nat" where
  "number_cruncher maximum_number = count_from 3 maximum_number 0"

section \<open>What is counted\<close>

lemma isqrt_bounds: "isqrt n * isqrt n \<le> n \<and> n < (isqrt n + 1) * (isqrt n + 1)"
  by (induction n) (auto simp: Let_def)

lemma no_divisor_iff: "no_divisor i n root \<longleftrightarrow> (\<forall>d. n \<le> d \<and> d < root \<longrightarrow> \<not> d dvd i)"
proof (induction i n root rule: no_divisor.induct)
  case (1 i n root)
  show ?case
  proof (cases "n < root \<and> \<not> n dvd i")
    case True
    then have "no_divisor i n root \<longleftrightarrow> no_divisor i (n + 1) root"
      by (subst no_divisor.simps) (simp add: dvd_eq_mod_eq_0)
    with 1 True show ?thesis by (metis Suc_eq_plus1 dvd_eq_mod_eq_0 not_less_eq_eq le_antisym Suc_leD)
  next
    case False
    then show ?thesis by (subst no_divisor.simps) (auto simp: dvd_eq_mod_eq_0)
  qed
qed

lemma count_from_eq:
  "count_from i maximum found =
     found + card {j. i \<le> j \<and> j < maximum \<and> no_divisor j 2 (isqrt j)}"
proof (induction i maximum found rule: count_from.induct)
  case (1 i maximum found)
  let ?C = "\<lambda>i. {j. i \<le> j \<and> j < maximum \<and> no_divisor j 2 (isqrt j)}"
  show ?case
  proof (cases "i < maximum")
    case False
    then have "?C i = {}" by auto
    with False show ?thesis by (subst count_from.simps) simp
  next
    case True
    have "?C i = (if no_divisor i 2 (isqrt i) then insert i (?C (i + 1)) else ?C (i + 1))"
      using True by (auto simp: Suc_le_eq order_le_less)
    then show ?thesis using "1" [OF True] True by (subst count_from.simps) simp
  qed
qed

lemma number_cruncher_card:
  "number_cruncher m = card {i. 3 \<le> i \<and> i < m \<and> (\<forall>d. 2 \<le> d \<and> d < isqrt i \<longrightarrow> \<not> d dvd i)}"
  by (simp add: number_cruncher_def count_from_eq no_divisor_iff)

text \<open>
  The workload counts the numbers from 3 up to, but not including, its argument that
  have no divisor from 2 up to, but not including, the integer square root.
\<close>

theorem number_cruncher_counts:
  "number_cruncher m = card {i. 3 \<le> i \<and> i < m \<and> (\<forall>d. 2 \<le> d \<and> d < isqrt i \<longrightarrow> \<not> d dvd i)}"
  by (rule number_cruncher_card)

theorem number_cruncher_counts_witness: "number_cruncher 5 = 2"
proof -
  have "{i. 3 \<le> i \<and> i < (5::nat) \<and> (\<forall>d. 2 \<le> d \<and> d < isqrt i \<longrightarrow> \<not> d dvd i)} = {3, 4}"
  proof (intro set_eqI iffI)
    fix i :: nat assume "i \<in> {3, 4}"
    then show "i \<in> {i. 3 \<le> i \<and> i < 5 \<and> (\<forall>d. 2 \<le> d \<and> d < isqrt i \<longrightarrow> \<not> d dvd i)}"
      by (auto simp: eval_nat_numeral)
  qed auto
  then show ?thesis using number_cruncher_counts [of 5] by simp
qed

definition prime_number :: "nat \<Rightarrow> bool" where
  "prime_number p \<longleftrightarrow> 2 \<le> p \<and> (\<forall>d. d dvd p \<longrightarrow> d = 1 \<or> d = p)"

text \<open>
  The result is not the number of primes that its local names announce: it counts
  every odd prime, but composites such as 4 as well, because the search for a divisor stops one
  short of the square root; so it exceeds the number of odd primes below any argument above 4.
\<close>

theorem number_cruncher_overcounts:
  assumes "4 < m"
  shows "card {i. 3 \<le> i \<and> i < m \<and> prime_number i} < number_cruncher m"
proof -
  let ?P = "{i. 3 \<le> i \<and> i < m \<and> prime_number i}"
  let ?C = "{i. 3 \<le> i \<and> i < m \<and> (\<forall>d. 2 \<le> d \<and> d < isqrt i \<longrightarrow> \<not> d dvd i)}"
  have below: "isqrt i < i" if "3 \<le> i" for i
  proof (rule ccontr)
    assume "\<not> isqrt i < i"
    then have "i * i \<le> i" using isqrt_bounds [of i] mult_le_mono [of i "isqrt i" i "isqrt i"] by linarith
    then show False using that by simp
  qed
  have "?P \<subseteq> ?C" using below by (fastforce simp: prime_number_def)
  moreover have "4 \<in> ?C" using assms by (auto simp: eval_nat_numeral)
  moreover have "4 \<notin> ?P" unfolding prime_number_def by (simp, intro impI exI [of _ 2]) simp
  moreover have "finite ?C" by (rule finite_subset [of _ "{..<m}"]) auto
  ultimately have "card ?P < card ?C" by (intro psubset_card_mono) auto
  then show ?thesis by (simp only: number_cruncher_card)
qed

theorem number_cruncher_overcounts_witness:
  "card {i. 3 \<le> i \<and> i < (10::nat) \<and> prime_number i} < number_cruncher 10"
  using number_cruncher_overcounts [of 10] by simp

end
