(* ===== verification/Nodes.thy ===== *)
theory Nodes
  imports Provenance Sample_Path Number_Cruncher
begin

text \<open>
  The node types of \<open>nodes/rclcpp\<close> other than the sensor: settings, state, constructor and
  callbacks.  A callback takes what it reads from outside as arguments (the readings of the
  clocks in the order the code takes them, and the loaned message with whatever it holds) and
  returns the new state of the node, the messages it publishes, and the new state of the
  process.  \<open>picas\<close> is the compile-time switch \<open>PICAS\<close>.
\<close>

section \<open>Settings\<close>

record command_settings =
  cmd_node_name :: string
  cmd_input_topic :: string
  cmd_priority :: int

record fusion_settings =
  fus_node_name :: string
  fus_input_0 :: string
  fus_input_1 :: string
  fus_output_topic :: string
  fus_limit :: u64
  fus_priority_1 :: int
  fus_priority_2 :: int

record transform_settings =
  tra_node_name :: string
  tra_input_topic :: string
  tra_output_topic :: string
  tra_limit :: u64
  tra_priority :: int

record connection_settings =
  con_input_topic :: string
  con_output_topic :: string
  con_limit :: u64
  con_priority :: int

record intersection_settings =
  int_node_name :: string
  int_connections :: "connection_settings list"

record cyclic_settings =
  cyc_node_name :: string
  cyc_inputs :: "string list"
  cyc_output_topic :: string
  cyc_limit :: u64
  cyc_cycle_time :: int
  cyc_priorities :: "int list"

record sensor_settings =
  sen_node_name :: string
  sen_topic_name :: string
  sen_cycle_time :: int
  sen_source_kind :: u32
  sen_schedule_file :: string
  sen_priority :: int

section \<open>Ports\<close>

text \<open>
  What a constructor creates: a subscription or publisher has a topic and a queue depth, a wall
  timer a period in nanoseconds; a priority is given only when \<open>PICAS\<close> is defined.
\<close>

datatype port =
    SubscribePort string nat "int option"
  | PublishPort string nat
  | TimerPort int "int option"

definition prio :: "bool \<Rightarrow> int \<Rightarrow> int option" where
  "prio picas p = (if picas then Some p else None)"

section \<open>What a callback reads and does\<close>

record timeval =
  tv_sec :: int
  tv_usec :: int

record readings =
  guard_ns :: u64
  stamp_ns :: u64
  link_ns :: u64
  tc1 :: timeval
  tc2 :: timeval
  tc3 :: timeval
  tc4 :: timeval

definition usec_between :: "timeval \<Rightarrow> timeval \<Rightarrow> int" where
  "usec_between a b = (tv_sec b - tv_sec a) * 1000000 + (tv_usec b - tv_usec a)"

definition with_globals :: "(globals \<Rightarrow> 'a \<times> globals) \<Rightarrow> process_state \<Rightarrow> 'a \<times> process_state" where
  "with_globals f pr =
     (let (x, g) = f (io_globals (pr_io pr)) in (x, pr\<lparr>pr_io := (pr_io pr)\<lparr>io_globals := g\<rparr>\<rparr>))"

abbreviation process_globals :: "process_state \<Rightarrow> globals" where
  "process_globals pr \<equiv> io_globals (pr_io pr)"

definition crunch :: "u64 \<Rightarrow> u64" where
  "crunch limit = of_nat (number_cruncher (unat limit))"

text \<open>
  The end of an output message: \<open>set_sample\<close>, \<open>data[0] = result\<close>, \<open>set_provenance\<close>.
\<close>

definition complete_output ::
    "string \<Rightarrow> u32 \<Rightarrow> u32 \<Rightarrow> u32 \<Rightarrow> u64 \<Rightarrow> u64 \<Rightarrow> provenance_source_t \<Rightarrow> message \<Rightarrow> process_state \<Rightarrow>
     message \<times> process_state" where
  "complete_output nm seq channel missed ts result src msg pr =
     (let (m, pr') = with_globals (set_sample nm seq missed ts msg) pr
      in (set_provenance (m\<lparr>msg_data := (msg_data m)[0 := result]\<rparr>) nm seq channel src, pr'))"

section \<open>Transform\<close>

record transform_node =
  tf_name :: string
  tf_output_topic :: string
  tf_limit :: u64
  tf_sequence :: u32
  tf_input_sequence :: u32

definition transform_ports :: "bool \<Rightarrow> transform_settings \<Rightarrow> port list" where
  "transform_ports picas s =
     [SubscribePort (tra_input_topic s) 1 (prio picas (tra_priority s)), PublishPort (tra_output_topic s) 1]"

definition Transform ::
    "surroundings \<Rightarrow> transform_settings \<Rightarrow> process_state \<Rightarrow> transform_node \<times> process_state" where
  "Transform sur s pr =
     (\<lparr>tf_name = tra_node_name s, tf_output_topic = tra_output_topic s, tf_limit = tra_limit s,
       tf_sequence = 0, tf_input_sequence = 0\<rparr>,
      register_provenance_producer sur (tra_node_name s) pr)"

definition transform_input_callback ::
    "surroundings \<Rightarrow> readings \<Rightarrow> message \<Rightarrow> message \<Rightarrow> transform_node \<Rightarrow> process_state \<Rightarrow>
     transform_node \<times> (string \<times> message) list \<times> process_state" where
  "transform_input_callback sur rd loaned input node pr =
     (let (cb, pr1) = provenance_callback_guard sur (tf_name node) (guard_ns rd) pr;
          result = crunch (tf_limit node);
          (m1, pr2) = with_globals (merge_history_into_sample (loaned\<lparr>msg_size := 0\<rparr>) input) pr1;
          (missed, in_seq) =
            get_missed_samples_and_update_seq_nr input (tf_input_sequence node) (process_globals pr2);
          seq = tf_sequence node;
          src = provenance_source input;
          (m2, pr3) = complete_output (tf_name node) seq 0 missed (stamp_ns rd) result src m1 pr2;
          pr4 = emit_provenance_link sur (tf_name node) seq 0 (link_ns rd)
                  [(0, provenance_identity input)] src False pr3;
          pr5 = on_io (print_execution_time ''Transform'' (tf_name node)
                  (IntegerDuration (usec_between (tc1 rd) (tc2 rd)))) pr4
      in (node\<lparr>tf_sequence := seq + 1, tf_input_sequence := in_seq\<rparr>,
          [(tf_output_topic node, m2)], leave_guard cb pr5))"

section \<open>Intersection\<close>

record connection =
  co_output_topic :: string
  co_limit :: u64
  co_sequence :: u32
  co_input_sequence :: u32

record intersection_node =
  is_name :: string
  is_connections :: "connection list"

definition intersection_ports :: "bool \<Rightarrow> intersection_settings \<Rightarrow> port list" where
  "intersection_ports picas s =
     concat (map (\<lambda>(i, c). [PublishPort (con_output_topic c) 1,
        SubscribePort (con_input_topic c) 1 (if i < 2 then prio picas (con_priority c) else None)])
       (enumerate 0 (int_connections s)))"

definition Intersection ::
    "surroundings \<Rightarrow> intersection_settings \<Rightarrow> process_state \<Rightarrow> intersection_node \<times> process_state" where
  "Intersection sur s pr =
     (\<lparr>is_name = int_node_name s,
       is_connections = map (\<lambda>c. \<lparr>co_output_topic = con_output_topic c, co_limit = con_limit c,
         co_sequence = 0, co_input_sequence = 0\<rparr>) (int_connections s)\<rparr>,
      register_provenance_producer sur (int_node_name s) pr)"

text \<open>The callback of connection \<open>i\<close>; the constructor only binds indices of connections.\<close>

definition intersection_input_callback ::
    "surroundings \<Rightarrow> readings \<Rightarrow> message \<Rightarrow> message \<Rightarrow> nat \<Rightarrow> intersection_node \<Rightarrow> process_state \<Rightarrow>
     intersection_node \<times> (string \<times> message) list \<times> process_state" where
  "intersection_input_callback sur rd loaned input i node pr =
     (let (cb, pr1) = provenance_callback_guard sur (is_name node) (guard_ns rd) pr;
          con = is_connections node ! i;
          result = crunch (co_limit con);
          (m1, pr2) = with_globals (merge_history_into_sample (loaned\<lparr>msg_size := 0\<rparr>) input) pr1;
          (missed, in_seq) =
            get_missed_samples_and_update_seq_nr input (co_input_sequence con) (process_globals pr2);
          seq = co_sequence con;
          src = provenance_source input;
          (m2, pr3) = complete_output (is_name node) seq (of_nat i) missed (stamp_ns rd) result src m1 pr2;
          pr4 = emit_provenance_link sur (is_name node) seq (of_nat i) (link_ns rd)
                  [(0, provenance_identity input)] src False pr3;
          pr5 = on_io (print_execution_time ''Intersection'' (is_name node)
                  (IntegerDuration (usec_between (tc1 rd) (tc2 rd)))) pr4
      in (node\<lparr>is_connections := (is_connections node)[i :=
            con\<lparr>co_sequence := seq + 1, co_input_sequence := in_seq\<rparr>]\<rparr>,
          [(co_output_topic con, m2)], leave_guard cb pr5))"

section \<open>Fusion\<close>

record cached_subscription =
  cs_sequence :: u32
  cs_cache :: "message option"

record fusion_node =
  fu_name :: string
  fu_output_topic :: string
  fu_limit :: u64
  fu_sequence :: u32
  fu_sub0 :: cached_subscription
  fu_sub1 :: cached_subscription

definition fusion_ports :: "bool \<Rightarrow> fusion_settings \<Rightarrow> port list" where
  "fusion_ports picas s =
     [SubscribePort (fus_input_0 s) 1 (prio picas (fus_priority_1 s)),
      SubscribePort (fus_input_1 s) 1 (prio picas (fus_priority_2 s)),
      PublishPort (fus_output_topic s) 1]"

definition new_subscription :: cached_subscription where
  "new_subscription = \<lparr>cs_sequence = 0, cs_cache = None\<rparr>"

definition Fusion ::
    "surroundings \<Rightarrow> fusion_settings \<Rightarrow> process_state \<Rightarrow> fusion_node \<times> process_state" where
  "Fusion sur s pr =
     (\<lparr>fu_name = fus_node_name s, fu_output_topic = fus_output_topic s, fu_limit = fus_limit s,
       fu_sequence = 0, fu_sub0 = new_subscription, fu_sub1 = new_subscription\<rparr>,
      register_provenance_producer sur (fus_node_name s) pr)"

text \<open>The part of the callback that fuses the two cached samples and publishes.\<close>

definition fusion_publish ::
    "surroundings \<Rightarrow> readings \<Rightarrow> message \<Rightarrow> message \<Rightarrow> message \<Rightarrow> fusion_node \<Rightarrow> process_state \<Rightarrow>
     fusion_node \<times> (string \<times> message) list \<times> process_state" where
  "fusion_publish sur rd loaned in0 in1 node pr =
     (let result = crunch (fu_limit node);
          g = process_globals pr;
          (missed0, seq0) = get_missed_samples_and_update_seq_nr in0 (cs_sequence (fu_sub0 node)) g;
          (missed1, seq1) = get_missed_samples_and_update_seq_nr in1 (cs_sequence (fu_sub1 node)) g;
          (m1, pr1) = with_globals (merge_history_into_sample (loaned\<lparr>msg_size := 0\<rparr>) in0) pr;
          (m2, pr2) = with_globals (merge_history_into_sample m1 in1) pr1;
          seq = fu_sequence node;
          src = oldest_provenance_source [provenance_source in0, provenance_source in1];
          (m3, pr3) = complete_output (fu_name node) seq 0 (missed0 + missed1) (stamp_ns rd) result src m2 pr2;
          pr4 = emit_provenance_link sur (fu_name node) seq 0 (link_ns rd)
                  [(0, provenance_identity in0), (1, provenance_identity in1)] src False pr3;
          pr5 = on_io (print_execution_time ''Fusion'' (fu_name node @ '' Trigger'')
                  (IntegerDuration (usec_between (tc3 rd) (tc4 rd) + usec_between (tc1 rd) (tc2 rd)))) pr4
      in (node\<lparr>fu_sequence := seq + 1, fu_sub0 := (fu_sub0 node)\<lparr>cs_sequence := seq0\<rparr>,
              fu_sub1 := (fu_sub1 node)\<lparr>cs_sequence := seq1\<rparr>\<rparr>,
          [(fu_output_topic node, m3)], pr5))"

definition fusion_store :: "nat \<Rightarrow> message \<Rightarrow> fusion_node \<Rightarrow> fusion_node" where
  "fusion_store input_number input node =
     (if input_number = 0 then node\<lparr>fu_sub0 := (fu_sub0 node)\<lparr>cs_cache := Some input\<rparr>\<rparr>
      else node\<lparr>fu_sub1 := (fu_sub1 node)\<lparr>cs_cache := Some input\<rparr>\<rparr>)"

definition fusion_input_callback ::
    "surroundings \<Rightarrow> readings \<Rightarrow> message \<Rightarrow> nat \<Rightarrow> message \<Rightarrow> fusion_node \<Rightarrow> process_state \<Rightarrow>
     fusion_node \<times> (string \<times> message) list \<times> process_state" where
  "fusion_input_callback sur rd loaned input_number input node pr =
     (let (cb, pr1) = provenance_callback_guard sur (fu_name node) (guard_ns rd) pr;
          node1 = fusion_store input_number input node
      in if input_number \<noteq> 0 then
           (node1, [], leave_guard cb (on_io (print_execution_time ''Fusion'' (fu_name node)
              (IntegerDuration (usec_between (tc1 rd) (tc2 rd)))) pr1))
         else
           (case (cs_cache (fu_sub0 node1), cs_cache (fu_sub1 node1)) of
              (Some in0, Some in1) \<Rightarrow>
                (let (node2, pub, pr2) = fusion_publish sur rd loaned in0 in1 node1 pr1
                 in (node2, pub, leave_guard cb pr2))
            | _ \<Rightarrow> (node1, [], leave_guard cb pr1)))"

section \<open>Cyclic\<close>

record cyclic_node =
  cy_name :: string
  cy_output_topic :: string
  cy_limit :: u64
  cy_sequence :: u32
  cy_subscriptions :: "cached_subscription list"

text \<open>
  The constructor gives the first six subscriptions and the timer their priorities; it indexes
  the vector without a check, so a cyclic node has at least six inputs when \<open>PICAS\<close> is defined.
\<close>

definition cyclic_ports :: "bool \<Rightarrow> cyclic_settings \<Rightarrow> port list" where
  "cyclic_ports picas s =
     map (\<lambda>(i, topic). SubscribePort topic 1 (if i < 6 then prio picas (cyc_priorities s ! i) else None))
       (enumerate 0 (cyc_inputs s)) @
     [PublishPort (cyc_output_topic s) 1, TimerPort (cyc_cycle_time s) (prio picas (cyc_priorities s ! 6))]"

definition Cyclic ::
    "surroundings \<Rightarrow> cyclic_settings \<Rightarrow> process_state \<Rightarrow> cyclic_node \<times> process_state" where
  "Cyclic sur s pr =
     (\<lparr>cy_name = cyc_node_name s, cy_output_topic = cyc_output_topic s, cy_limit = cyc_limit s,
       cy_sequence = 0, cy_subscriptions = map (\<lambda>_. new_subscription) (cyc_inputs s)\<rparr>,
      register_provenance_producer sur (cyc_node_name s) pr)"

definition cyclic_input_callback ::
    "readings \<Rightarrow> nat \<Rightarrow> message \<Rightarrow> cyclic_node \<Rightarrow> process_state \<Rightarrow> cyclic_node \<times> process_state" where
  "cyclic_input_callback rd input_number input node pr =
     (node\<lparr>cy_subscriptions := (cy_subscriptions node)[input_number :=
        (cy_subscriptions node ! input_number)\<lparr>cs_cache := Some input\<rparr>]\<rparr>,
      on_io (print_execution_time ''Cyclic'' (cy_name node)
        (DoubleDuration (usec_between (tc1 rd) (tc2 rd)))) pr)"

text \<open>The cached inputs with their index, as the first loop of the timer callback collects them.\<close>

definition cached_inputs :: "cached_subscription list \<Rightarrow> (nat \<times> message) list" where
  "cached_inputs subs =
     List.map_filter (\<lambda>(i, s). map_option (\<lambda>m. (i, m)) (cs_cache s)) (enumerate 0 subs)"

text \<open>One turn of the second loop: missed samples so far, output message, process.\<close>

definition cyclic_take ::
    "u32 \<times> message \<times> cached_subscription list \<times> process_state \<Rightarrow> cached_subscription \<Rightarrow>
     u32 \<times> message \<times> cached_subscription list \<times> process_state" where
  "cyclic_take = (\<lambda>(missed, out, subs, pr) s.
     case cs_cache s of
       None \<Rightarrow> (missed, out, subs @ [s], pr)
     | Some input \<Rightarrow>
         let (mi, seq) = get_missed_samples_and_update_seq_nr input (cs_sequence s) (process_globals pr);
             (out', pr') = with_globals (merge_history_into_sample out input) pr
         in (missed + mi, out', subs @ [\<lparr>cs_sequence = seq, cs_cache = None\<rparr>], pr'))"

definition cyclic_timer_callback ::
    "surroundings \<Rightarrow> readings \<Rightarrow> message \<Rightarrow> cyclic_node \<Rightarrow> process_state \<Rightarrow>
     cyclic_node \<times> (string \<times> message) list \<times> process_state" where
  "cyclic_timer_callback sur rd loaned node pr =
     (let (cb, pr1) = provenance_callback_guard sur (cy_name node) (guard_ns rd) pr;
          result = crunch (cy_limit node);
          cached = cached_inputs (cy_subscriptions node);
          inputs = map (\<lambda>(i, m). (of_nat i, provenance_identity m)) cached;
          sources = map (\<lambda>(i, m). provenance_source m) cached;
          (missed, m1, subs, pr2) =
            foldl cyclic_take (0, loaned\<lparr>msg_size := 0\<rparr>, [], pr1) (cy_subscriptions node);
          seq = cy_sequence node;
          src = oldest_provenance_source sources;
          (m2, pr3) = complete_output (cy_name node) seq 0 missed (stamp_ns rd) result src m1 pr2;
          pr4 = emit_provenance_link sur (cy_name node) seq 0 (link_ns rd) inputs src True pr3;
          pr5 = on_io (print_execution_time ''Cyclic'' (cy_name node @ ''Timer'')
                  (IntegerDuration (usec_between (tc1 rd) (tc2 rd)))) pr4
      in (node\<lparr>cy_sequence := seq + 1, cy_subscriptions := subs\<rparr>,
          [(cy_output_topic node, m2)], leave_guard cb pr5))"

section \<open>Command\<close>

record command_node =
  cm_name :: string
  cm_sequence :: u32
  cm_sink_sequence :: u32

definition command_ports :: "bool \<Rightarrow> command_settings \<Rightarrow> port list" where
  "command_ports picas s = [SubscribePort (cmd_input_topic s) 10 (prio picas (cmd_priority s))]"

definition Command ::
    "surroundings \<Rightarrow> command_settings \<Rightarrow> process_state \<Rightarrow> command_node \<times> process_state" where
  "Command sur s pr =
     (\<lparr>cm_name = cmd_node_name s, cm_sequence = 0, cm_sink_sequence = 0\<rparr>,
      register_provenance_producer sur (cmd_node_name s) pr)"

text \<open>
  The callback prints the legacy report when that is on; \<open>wall\<close> holds the two readings of the
  system clock that \<open>print_sample_path\<close> takes.
\<close>

definition command_input_callback ::
    "surroundings \<Rightarrow> readings \<Rightarrow> 'd fp \<Rightarrow> u64 \<times> u64 \<Rightarrow> message \<Rightarrow> command_node \<Rightarrow>
     'd sample_path_state \<Rightarrow> process_state \<Rightarrow> command_node \<times> 'd sample_path_state \<times> process_state" where
  "command_input_callback sur rd F wall input node sp pr =
     (let (cb, pr1) = provenance_callback_guard sur (cm_name node) (guard_ns rd) pr;
          g = process_globals pr1;
          (missed, seq) = get_missed_samples_and_update_seq_nr input (cm_sequence node) g;
          sink_seq = cm_sink_sequence node;
          sp1 = (if is_legacy_verbose_output_enabled g
                 then print_sample_path F (fst wall) (snd wall) (cm_name node) missed input g sp
                 else sp);
          pr2 = on_io (print_execution_time ''Command'' (cm_name node)
                  (IntegerDuration (usec_between (tc1 rd) (tc2 rd)))) pr1;
          pr3 = emit_provenance_sink sur (cm_name node) sink_seq (link_ns rd)
                  (provenance_identity input) (provenance_source input) pr2
      in (node\<lparr>cm_sequence := seq, cm_sink_sequence := sink_seq + 1\<rparr>, sp1, leave_guard cb pr3))"

section \<open>Frame facts\<close>

lemma guard_io [state_frame]: "provenance_callback_guard sur p t pr = (cb, pr') \<Longrightarrow> pr_io pr' = pr_io pr"
  by (auto simp: provenance_callback_guard_def split: prod.splits)

lemma leave_guard_io [state_frame, simp]: "pr_io (leave_guard cb pr) = pr_io pr"
  by (simp add: leave_guard_def)

lemma on_io_print_globals [simp]:
  "io_globals (pr_io (on_io (print_execution_time a b c) pr)) = io_globals (pr_io pr)"
  by (simp add: on_io_def print_execution_time_def)

lemma write_record_globals [simp]:
  "io_globals (pr_io (write_provenance_record sur rec p ts pr)) = io_globals (pr_io pr)"
  by (simp add: write_provenance_record_def write_provenance_line_def on_io_def
      reference_system_write_stdout_line_def split_beta Let_def)

lemma emit_globals [simp]:
  "io_globals (pr_io (emit_provenance_link sur a b c d e f h pr)) = io_globals (pr_io pr)"
  "io_globals (pr_io (emit_provenance_sink sur a b d i f pr)) = io_globals (pr_io pr)"
  by (simp_all add: emit_provenance_link_def emit_provenance_sink_def)

lemma with_globals_simps [simp]:
  "fst (with_globals f pr) = fst (f (io_globals (pr_io pr)))"
  "io_globals (pr_io (snd (with_globals f pr))) = snd (f (io_globals (pr_io pr)))"
  by (simp_all add: with_globals_def split_beta Let_def)

section \<open>Histories of outputs\<close>

text \<open>A message freshly loaned has no history, whatever its array holds.\<close>

lemma loaned_fresh:
  assumes "wf_message loaned"
  shows "wf_message (loaned\<lparr>msg_size := 0\<rparr>)" and "entries (loaned\<lparr>msg_size := 0\<rparr>) = []"
    and "node_names (loaned\<lparr>msg_size := 0\<rparr>) = {}"
  using assms by (simp_all add: wf_message_def entries_def node_names_def)

lemma merged_into_fresh:
  assumes "wf_message loaned" and "wf_message input" and "\<not> benchmark_mode g"
  defines "r \<equiv> merge_history_into_sample (loaned\<lparr>msg_size := 0\<rparr>) input g"
  shows "node_names (fst r) = node_names input" and "snd r = g" and "wf_message (fst r)"
    and "one_entry_per_node (fst r)"
proof -
  have "card (node_names input) \<le> STATS_CAPACITY"
    using assms(2) card_length [of "map stat_name (entries input)"]
    by (simp add: node_names_def wf_message_def entries_length)
  note res = merge_result [OF loaned_fresh(1) [OF assms(1)] assms(2,3)]
  have fits: "card (node_names (loaned\<lparr>msg_size := 0\<rparr>) \<union> node_names input) \<le> STATS_CAPACITY"
    using \<open>card _ \<le> _\<close> by (simp add: loaned_fresh(3) [OF assms(1)])
  have ent: "entries (fst r) = fold upsert (entries input) []"
    unfolding r_def using res(1) [OF fits] by (simp add: loaned_fresh(2) [OF assms(1)])
  show "snd r = g" "wf_message (fst r)" unfolding r_def using res(2,3) [OF fits] by simp_all
  show "node_names (fst r) = node_names input"
    unfolding node_names_def ent by (simp add: fold_upsert_names)
  show "one_entry_per_node (fst r)"
    unfolding one_entry_per_node_def ent by (intro fold_upsert_distinct) simp
qed

lemma set_provenance_frame [simp]:
  "entries (set_provenance (m\<lparr>msg_data := d\<rparr>) nm seq ch src) = entries m"
  "wf_message (set_provenance (m\<lparr>msg_data := d\<rparr>) nm seq ch src) = wf_message m"
  "msg_size (set_provenance (m\<lparr>msg_data := d\<rparr>) nm seq ch src) = msg_size m"
  "stats (set_provenance (m\<lparr>msg_data := d\<rparr>) nm seq ch src) = stats m"
  by (simp_all add: entries_def set_provenance_def wf_message_def)

text \<open>What every node promises of its output.\<close>

definition output_ok :: "string \<Rightarrow> u32 \<Rightarrow> u32 \<Rightarrow> u64 \<Rightarrow> provenance_source_t \<Rightarrow> string set \<Rightarrow> globals \<Rightarrow> message \<Rightarrow> bool" where
  "output_ok nm seq ch ts src names g out \<longleftrightarrow>
     wf_message out \<and> one_entry_per_node out \<and> node_names out = insert nm names \<and>
     get_sample_sequence_number out g = seq \<and> get_sample_timestamp out g = ts \<and>
     provenance_source out = src \<and>
     provenance_identity out = \<lparr>pm_name = nm, pm_sequence = seq, pm_channel = ch\<rparr>"

lemma last_entry:
  assumes "wf_message m" and "entries m = es @ [e]"
  shows "stats m ! (msg_size m - 1) = e" and "msg_size m \<noteq> 0"
proof -
  have "msg_size m = Suc (length es)" using entries_length [OF assms(1)] assms(2) by simp
  then show "msg_size m \<noteq> 0" "stats m ! (msg_size m - 1) = e"
    using entries_nth [OF assms(1), of "length es"] assms(2) by simp_all
qed

lemma complete_output_ok:
  assumes "wf_message m" and "one_entry_per_node m" and "fitting_name nm"
    and "\<not> benchmark_mode (process_globals pr)"
    and "nm \<notin> node_names m" and "card (node_names m) < STATS_CAPACITY"
    and "complete_output nm seq ch missed ts result src m pr = (out, pr')"
  shows "output_ok nm seq ch ts src (node_names m) (process_globals pr) out"
    and "process_globals pr' = process_globals pr"
proof -
  let ?g = "process_globals pr"
  have "msg_size m < STATS_CAPACITY"
    using assms(1,2,6) entries_length [of m] distinct_names_card [of "entries m"]
    by (simp add: one_entry_per_node_def node_names_def)
  then obtain e where e: "stat_name e = nm" "timestamp e = ts" "sequence_number e = seq"
    "entries (fst (set_sample nm seq missed ts m ?g)) = upsert e (entries m)"
    "snd (set_sample nm seq missed ts m ?g) = ?g"
    "wf_message (fst (set_sample nm seq missed ts m ?g))"
    using set_sample_refines [OF assms(1,3,4)] by metis
  have app: "upsert e (entries m) = entries m @ [e]"
    using assms(5) e(1) by (intro upsert_fresh) (simp add: node_names_def)
  obtain d where out: "out = set_provenance ((fst (set_sample nm seq missed ts m ?g))\<lparr>msg_data := d\<rparr>) nm seq ch src"
    and pr': "pr' = snd (with_globals (set_sample nm seq missed ts m) pr)"
    using assms(7) by (auto simp: complete_output_def split_beta Let_def)
  have ent: "entries out = entries m @ [e]" "wf_message out"
    unfolding out using e(4,6) app by simp_all
  note le = last_entry [OF ent(2,1)]
  show "output_ok nm seq ch ts src (node_names m) ?g out"
    unfolding output_ok_def get_sample_sequence_number_def get_sample_timestamp_def
      node_names_def one_entry_per_node_def
    using ent le e(1-3) assms(2,4,5)
    by (auto simp: node_names_def one_entry_per_node_def out [THEN arg_cong, of provenance_source]
        out [THEN arg_cong, of provenance_identity])
  show "process_globals pr' = ?g" unfolding pr' using e(5) by simp
qed

end
