(* ===== verification/Node_Behaviour.thy ===== *)
theory Node_Behaviour
  imports Nodes
begin

text \<open>
  What the callbacks of the nodes guarantee: the history and provenance of what they publish,
  when they publish, and what they leave in their caches.
\<close>

section \<open>Transform and intersection\<close>

lemma guarded_globals:
  "provenance_callback_guard sur p t pr = (cb, pr1) \<Longrightarrow> process_globals pr1 = process_globals pr"
  by (simp add: guard_io)

lemma relay_output:
  assumes "wf_message loaned" and "wf_message input" and "fitting_name nm"
    and "\<not> benchmark_mode (process_globals pr)" and "nm \<notin> node_names input"
    and "card (node_names input) < STATS_CAPACITY"
    and "with_globals (merge_history_into_sample (loaned\<lparr>msg_size := 0\<rparr>) input) pr = (m1, pr2)"
    and "complete_output nm seq ch missed ts result src m1 pr2 = (out, pr3)"
  shows "output_ok nm seq ch ts src (node_names input) (process_globals pr) out"
    and "process_globals pr3 = process_globals pr" and "process_globals pr2 = process_globals pr"
proof -
  have m1: "m1 = fst (merge_history_into_sample (loaned\<lparr>msg_size := 0\<rparr>) input (process_globals pr))"
    using assms(7) by (metis fst_conv with_globals_simps(1))
  note mf = merged_into_fresh [OF assms(1,2,4)]
  show g2: "process_globals pr2 = process_globals pr"
    using assms(7) mf(2) by (metis snd_conv with_globals_simps(2))
  have "\<not> benchmark_mode (process_globals pr2)" using assms(4) g2 by simp
  note co = complete_output_ok [of m1 nm pr2, OF _ _ assms(3) this _ _ assms(8)]
  show "output_ok nm seq ch ts src (node_names input) (process_globals pr) out"
    using co(1) mf(1,3,4) assms(5,6) unfolding m1 g2 by simp
  show "process_globals pr3 = process_globals pr"
    using co(2) mf(1,3,4) assms(5,6) g2 unfolding m1 by simp
qed


definition example_surroundings :: surroundings where
  "example_surroundings = \<lparr>env = (\<lambda>_. None), boot_id_file = [], start_ns = 0, pid = 1\<rparr>"

definition example_readings :: readings where
  "example_readings =
     \<lparr>guard_ns = 1, stamp_ns = 2, link_ns = 3, tc1 = \<lparr>tv_sec = 0, tv_usec = 0\<rparr>,
      tc2 = \<lparr>tv_sec = 0, tv_usec = 5\<rparr>, tc3 = \<lparr>tv_sec = 0, tv_usec = 6\<rparr>,
      tc4 = \<lparr>tv_sec = 0, tv_usec = 9\<rparr>\<rparr>"

definition example_process :: process_state where
  "example_process = \<lparr>pr_io = \<lparr>io_globals = initial_globals, stdout_log = []\<rparr>, pr_runtime = None\<rparr>"

lemma example_process_mode [simp]: "\<not> benchmark_mode (process_globals example_process)"
  by (simp add: example_process_def initial_globals_def)

lemma example_samples:
  "wf_message (sample_of [])" "wf_message (sample_of [(a, 3, 30, 0)])"
  "nul \<notin> set a \<Longrightarrow> length a < 48 \<Longrightarrow> node_names (sample_of [(a, 3, 30, 0)]) = {a}"
  by (simp_all add: sample_of_wf STATS_CAPACITY_def node_names_def sample_of_entries stat_name_def
      c_string_name_field)


text \<open>
  An intersection relays each connection on its own: a sample of connection \<open>i\<close> is
  published on that connection's topic with channel \<open>i\<close> and that connection's next sequence
  number, the history and provenance as for a transform, and no other connection changes.
\<close>

theorem intersection_publishes:
  assumes "wf_message loaned" and "wf_message input" and "fitting_name (is_name node)"
    and "\<not> benchmark_mode (process_globals pr)" and "is_name node \<notin> node_names input"
    and "card (node_names input) < STATS_CAPACITY" and "i < length (is_connections node)"
    and "intersection_input_callback sur rd loaned input i node pr = (node', pub, pr')"
  shows "\<exists>out. pub = [(co_output_topic (is_connections node ! i), out)] \<and>
           output_ok (is_name node) (co_sequence (is_connections node ! i)) (of_nat i) (stamp_ns rd)
             (provenance_source input) (node_names input) (process_globals pr) out \<and>
           co_sequence (is_connections node' ! i) = co_sequence (is_connections node ! i) + 1 \<and>
           (\<forall>j. j \<noteq> i \<longrightarrow> is_connections node' ! j = is_connections node ! j) \<and>
           length (is_connections node') = length (is_connections node)"
proof -
  let ?con = "is_connections node ! i"
  obtain cb pr1 where gd: "provenance_callback_guard sur (is_name node) (guard_ns rd) pr = (cb, pr1)"
    by fastforce
  obtain m1 pr2 where mg: "with_globals (merge_history_into_sample (loaned\<lparr>msg_size := 0\<rparr>) input) pr1 = (m1, pr2)"
    by fastforce
  obtain missed in_seq where ms: "get_missed_samples_and_update_seq_nr input (co_input_sequence ?con)
      (process_globals pr2) = (missed, in_seq)" by fastforce
  obtain out pr3 where co: "complete_output (is_name node) (co_sequence ?con) (of_nat i) missed (stamp_ns rd)
      (crunch (co_limit ?con)) (provenance_source input) m1 pr2 = (out, pr3)" by fastforce
  have g1: "process_globals pr1 = process_globals pr" using gd by (rule guarded_globals)
  then have "\<not> benchmark_mode (process_globals pr1)" using assms(4) by simp
  note r = relay_output [OF assms(1-3) this assms(5,6) mg co]
  have "node' = node\<lparr>is_connections := (is_connections node)[i :=
      ?con\<lparr>co_sequence := co_sequence ?con + 1, co_input_sequence := in_seq\<rparr>]\<rparr>"
    "pub = [(co_output_topic ?con, out)]"
    using assms(8) unfolding intersection_input_callback_def gd mg ms co Let_def prod.case by simp_all
  with r g1 assms(7) show ?thesis by simp
qed

theorem intersection_publishes_witness:
  "\<exists>node' out pr'. intersection_input_callback example_surroundings example_readings
      (sample_of []) (sample_of [(''A'', 3, 30, 0)]) 1
      \<lparr>is_name = ''I'', is_connections =
         [\<lparr>co_output_topic = ''o0'', co_limit = 0, co_sequence = 4, co_input_sequence = 0\<rparr>,
          \<lparr>co_output_topic = ''o1'', co_limit = 0, co_sequence = 8, co_input_sequence = 0\<rparr>]\<rparr>
      example_process = (node', [(''o1'', out)], pr') \<and>
     node_names out = {''I'', ''A''} \<and> co_sequence (is_connections node' ! 0) = 4"
proof -
  let ?node = "\<lparr>is_name = ''I'', is_connections =
         [\<lparr>co_output_topic = ''o0'', co_limit = 0, co_sequence = 4, co_input_sequence = 0\<rparr>,
          \<lparr>co_output_topic = ''o1'', co_limit = 0, co_sequence = 8, co_input_sequence = 0\<rparr>]\<rparr>"
  obtain node' pub pr' where r: "intersection_input_callback example_surroundings example_readings
      (sample_of []) (sample_of [(''A'', 3, 30, 0)]) 1 ?node example_process = (node', pub, pr')"
    by (rule prod_cases3)
  have "fitting_name (is_name ?node)" "is_name ?node \<notin> node_names (sample_of [(''A'', 3, 30, 0)])"
    "card (node_names (sample_of [(''A'', 3, 30, 0)])) < STATS_CAPACITY"
    "1 < length (is_connections ?node)"
    by (simp_all add: fitting_name_def NODE_NAME_LENGTH_def example_samples(3) STATS_CAPACITY_def)
  from intersection_publishes [OF example_samples(1,2) this(1) example_process_mode this(2-4) r]
  obtain out where "pub = [(co_output_topic (is_connections ?node ! 1), out)]"
    and "node_names out = insert ''I'' (node_names (sample_of [(''A'', 3, 30, 0)]))"
    and "is_connections node' ! 0 = is_connections ?node ! 0"
    unfolding output_ok_def by (metis intersection_node.select_convs(1) zero_neq_one)
  with r show ?thesis by (simp add: example_samples(3))
qed

section \<open>Fusion\<close>

lemma merge_second:
  assumes "wf_message m1" and "one_entry_per_node m1" and "wf_message in1"
    and "\<not> benchmark_mode (process_globals pr1)"
    and "card (node_names m1 \<union> node_names in1) \<le> STATS_CAPACITY"
    and "with_globals (merge_history_into_sample m1 in1) pr1 = (m2, pr2)"
  shows "node_names m2 = node_names m1 \<union> node_names in1" and "wf_message m2"
    and "one_entry_per_node m2" and "process_globals pr2 = process_globals pr1"
proof -
  note res = merge_result [OF assms(1,3,4,5)]
  have m2: "m2 = fst (merge_history_into_sample m1 in1 (process_globals pr1))"
    using assms(6) by (metis fst_conv with_globals_simps(1))
  show "process_globals pr2 = process_globals pr1"
    using assms(6) res(2) by (metis snd_conv with_globals_simps(2))
  show "wf_message m2" unfolding m2 by (rule res(3))
  have ent: "entries m2 = fold upsert (entries in1) (fold upsert (entries m1) [])"
    unfolding m2 by (rule res(1))
  show "node_names m2 = node_names m1 \<union> node_names in1"
    unfolding node_names_def ent by (auto simp: fold_upsert_names)
  show "one_entry_per_node m2"
    unfolding one_entry_per_node_def ent by (intro fold_upsert_distinct) simp
qed

lemma fusion_publish_result:
  assumes "fusion_publish sur rd loaned in0 in1 node pr = (node', pub, pr')"
  shows "\<exists>out. pub = [(fu_output_topic node, out)]" "fu_sequence node' = fu_sequence node + 1"
    "cs_cache (fu_sub0 node') = cs_cache (fu_sub0 node)" "cs_cache (fu_sub1 node') = cs_cache (fu_sub1 node)"
  using assms unfolding fusion_publish_def Let_def split_beta by auto

text \<open>
  Claim C3.  A fusion publishes exactly when a sample arrives on its first input and its second
  input has delivered at least one sample before; a sample on the second input is only stored.
  Samples stay cached, so that one sample of the second input is fused with every later sample
  of the first.
\<close>

theorem fusion_publishes_iff:
  assumes "fusion_input_callback sur rd loaned k input node pr = (node', pub, pr')"
  shows "(pub \<noteq> [] \<longleftrightarrow> k = 0 \<and> cs_cache (fu_sub1 node) \<noteq> None) \<and> length pub \<le> 1 \<and>
         cs_cache (fu_sub0 node') = (if k = 0 then Some input else cs_cache (fu_sub0 node)) \<and>
         cs_cache (fu_sub1 node') = (if k = 0 then cs_cache (fu_sub1 node) else Some input) \<and>
         fu_sequence node' = (if pub = [] then fu_sequence node else fu_sequence node + 1)"
proof -
  obtain cb pr1 where gd: "provenance_callback_guard sur (fu_name node) (guard_ns rd) pr = (cb, pr1)"
    by fastforce
  show ?thesis
  proof (cases "k = 0 \<and> cs_cache (fu_sub1 node) \<noteq> None")
    case True
    then obtain in1 where in1: "cs_cache (fu_sub1 node) = Some in1" by blast
    let ?n = "fusion_store 0 input node"
    obtain node2 pub2 pr2 where fp: "fusion_publish sur rd loaned input in1 ?n pr1 = (node2, pub2, pr2)"
      by (rule prod_cases3)
    have caches: "cs_cache (fu_sub0 ?n) = Some input" "cs_cache (fu_sub1 ?n) = Some in1"
      using in1 by (simp_all add: fusion_store_def)
    have "node' = node2" "pub = pub2"
      using assms True unfolding fusion_input_callback_def gd Let_def prod.case
      by (simp_all add: caches fp)
    then show ?thesis
      using fusion_publish_result [OF fp] True in1 by (auto simp: fusion_store_def)
  next
    case False
    then have "node' = fusion_store k input node" "pub = []"
      using assms unfolding fusion_input_callback_def gd Let_def prod.case
      by (auto simp: fusion_store_def split: if_splits)
    with False show ?thesis by (auto simp: fusion_store_def)
  qed
qed

theorem fusion_publishes_iff_witness:
  "\<exists>node' pr'. fusion_input_callback example_surroundings example_readings (sample_of []) 0
      (sample_of [(''A'', 3, 30, 0)])
      \<lparr>fu_name = ''F'', fu_output_topic = ''o'', fu_limit = 0, fu_sequence = 0,
       fu_sub0 = new_subscription, fu_sub1 = new_subscription\<rparr> example_process = (node', [], pr')"
proof -
  let ?node = "\<lparr>fu_name = ''F'', fu_output_topic = ''o'', fu_limit = 0, fu_sequence = 0,
       fu_sub0 = new_subscription, fu_sub1 = new_subscription\<rparr>"
  obtain node' pub pr' where r: "fusion_input_callback example_surroundings example_readings (sample_of []) 0
      (sample_of [(''A'', 3, 30, 0)]) ?node example_process = (node', pub, pr')"
    by (rule prod_cases3)
  have "pub = []" using fusion_publishes_iff [OF r] by (simp add: new_subscription_def)
  with r show ?thesis by blast
qed



section \<open>Cyclic\<close>

lemma cyclic_take_fold:
  assumes "wf_message m" and "one_entry_per_node m" and "\<not> benchmark_mode (process_globals pr)"
    and "\<forall>s \<in> set subs. \<forall>i. cs_cache s = Some i \<longrightarrow> wf_message i"
    and "card (node_names m \<union> (\<Union>s \<in> set subs. case cs_cache s of None \<Rightarrow> {} | Some i \<Rightarrow> node_names i)) \<le> STATS_CAPACITY"
    and "foldl cyclic_take (missed, m, acc, pr) subs = (missed', m', acc', pr')"
  shows "wf_message m' \<and> one_entry_per_node m' \<and> process_globals pr' = process_globals pr \<and>
    node_names m' = node_names m \<union> (\<Union>s \<in> set subs. case cs_cache s of None \<Rightarrow> {} | Some i \<Rightarrow> node_names i) \<and>
    map cs_cache acc' = map cs_cache acc @ replicate (length subs) None"
  using assms
proof (induction subs arbitrary: missed m acc pr)
  case Nil
  then show ?case by simp
next
  case (Cons s subs)
  show ?case
  proof (cases "cs_cache s")
    case None
    then have step: "cyclic_take (missed, m, acc, pr) s = (missed, m, acc @ [s], pr)"
      by (simp add: cyclic_take_def)
    from Cons.IH [of m pr missed "acc @ [s]"] Cons.prems None show ?thesis
      by (simp add: step)
  next
    case (Some i)
    let ?rest = "\<Union>s \<in> set subs. case cs_cache s of None \<Rightarrow> {} | Some i \<Rightarrow> node_names i"
    obtain mi seq where ms: "get_missed_samples_and_update_seq_nr i (cs_sequence s) (process_globals pr) = (mi, seq)"
      by fastforce
    obtain m1 pr1 where mg: "with_globals (merge_history_into_sample m i) pr = (m1, pr1)" by fastforce
    have step: "cyclic_take (missed, m, acc, pr) s =
        (missed + mi, m1, acc @ [\<lparr>cs_sequence = seq, cs_cache = None\<rparr>], pr1)"
      by (simp add: cyclic_take_def Some ms mg)
    have all: "card (node_names m \<union> node_names i \<union> ?rest) \<le> STATS_CAPACITY"
      using Cons.prems(5) Some by (simp add: Un_assoc)
    have "finite (node_names m \<union> node_names i \<union> ?rest)"
      by (auto simp: node_names_def split: option.splits)
    then have "card (node_names m \<union> node_names i) \<le> card (node_names m \<union> node_names i \<union> ?rest)"
      by (intro card_mono) auto
    then have room: "card (node_names m \<union> node_names i) \<le> STATS_CAPACITY" using all by linarith
    have wf_i: "wf_message i" using Cons.prems(4) Some by simp
    note m1 = merge_second [OF Cons.prems(1,2) wf_i Cons.prems(3) room mg]
    have "\<not> benchmark_mode (process_globals pr1)" using Cons.prems(3) m1(4) by simp
    moreover have "foldl cyclic_take (missed + mi, m1, acc @ [\<lparr>cs_sequence = seq, cs_cache = None\<rparr>], pr1) subs =
        (missed', m', acc', pr')"
      using Cons.prems(6) step by simp
    ultimately show ?thesis
      using Cons.IH [of m1 pr1 "missed + mi" "acc @ [\<lparr>cs_sequence = seq, cs_cache = None\<rparr>]"]
        m1 all Cons.prems(4) Some by (simp add: Un_assoc)
  qed
qed

lemma cached_inputs_snd: "map snd (cached_inputs subs) = List.map_filter cs_cache subs"
proof -
  have "map snd (List.map_filter (\<lambda>(i, s). map_option (\<lambda>m. (i, m)) (cs_cache s)) (enumerate n subs)) =
      List.map_filter cs_cache subs" for n
    by (induction subs arbitrary: n) (simp_all add: map_filter_simps split: option.splits)
  then show ?thesis by (simp add: cached_inputs_def)
qed



section \<open>Command\<close>

text \<open>
  A command node consumes: with structured output on and tracking off it prints for
  every sample its execution time and then one sink record that names the sample received and
  its source, numbered by the node's own count of samples; the process-wide switches and
  counters stay, and the legacy report is touched only when it is enabled.
\<close>

theorem command_prints_sink:
  assumes "structured_output (process_globals pr)" and "\<not> enabled sur"
    and "command_input_callback sur rd F wall input node sp pr = (node', sp', pr')"
  shows "stdout_log (pr_io pr') = stdout_log (pr_io pr) @
           [ExecutionTime ''Command'' (cm_name node) (IntegerDuration (usec_between (tc1 rd) (tc2 rd))),
            Line (event_record (sink_members (cm_name node) (cm_sink_sequence node) (link_ns rd)
              (provenance_identity input) (provenance_source input)))] \<and>
         process_globals pr' = process_globals pr \<and>
         cm_sink_sequence node' = cm_sink_sequence node + 1 \<and>
         cm_sequence node' = get_sample_sequence_number input (process_globals pr) \<and>
         (\<not> legacy_verbose_output (process_globals pr) \<longrightarrow> sp' = sp)"
proof -
  have gd: "provenance_callback_guard sur p t q = (null_callback, q)" for p t q
    using assms(2) by (simp add: provenance_callback_guard_def begin_callback_def)
  show ?thesis
    using assms(1,3)
    unfolding command_input_callback_def gd
    by (auto simp: Let_def split_beta get_missed_samples_and_update_seq_nr_def emit_provenance_sink_def
        write_provenance_record_def write_provenance_line_def on_io_def assms(2)
        reference_system_write_stdout_line_def print_execution_time_def)
qed

theorem command_prints_sink_witness:
  "cm_sink_sequence (fst (command_input_callback example_surroundings example_readings real_fp (0, 0)
     (sample_of [(''A'', 3, 30, 0)]) \<lparr>cm_name = ''S'', cm_sequence = 0, cm_sink_sequence = 4\<rparr>
     initial_sample_path example_process)) = 5"
proof -
  let ?node = "\<lparr>cm_name = ''S'', cm_sequence = 0, cm_sink_sequence = 4\<rparr>"
  obtain node' sp' pr' where r: "command_input_callback example_surroundings example_readings real_fp (0, 0)
     (sample_of [(''A'', 3, 30, 0)]) ?node initial_sample_path example_process = (node', sp', pr')"
    by (rule prod_cases3)
  have "structured_output (process_globals example_process)" "\<not> enabled example_surroundings"
    by (simp_all add: example_process_def initial_globals_def enabled_def example_surroundings_def)
  from command_prints_sink [OF this r] show ?thesis unfolding r by simp
qed

end
