(* ===== verification/Source_Schedule.thy ===== *)
theory Source_Schedule
  imports Text_Input "HOL-Library.Monad_Syntax"
begin

text \<open>
  \<open>source_schedule.hpp\<close>: the schedule file that changes a source's period in phases, and the
  start record that gives the phases their epoch.  The file system is a function from paths to
  contents; exceptions are the left injection of a sum.
\<close>

section \<open>Data\<close>

datatype exn = Runtime_error string | Out_of_range

record phase_t =
  ph_id :: string
  ph_offset :: int
  ph_period :: int

record source_schedule =
  start_path :: string
  ss_session :: string
  ss_boot :: string
  ss_hash :: string
  ss_duration :: int
  ss_epoch :: int
  ss_next :: nat
  ss_phases :: "phase_t list"

type_synonym file_system = "string \<Rightarrow> string option"

section \<open>Operations\<close>

definition token_char :: "char \<Rightarrow> bool" where
  "token_char c \<longleftrightarrow>
     CHR ''a'' \<le> c \<and> c \<le> CHR ''z'' \<or> CHR ''A'' \<le> c \<and> c \<le> CHR ''Z'' \<or>
     CHR ''0'' \<le> c \<and> c \<le> CHR ''9'' \<or> c = CHR ''-'' \<or> c = CHR ''_'' \<or> c = CHR ''.''"

definition check_token :: "string \<Rightarrow> exn option" where
  "check_token token =
     (if token = [] \<or> token = ''.'' \<or> token = ''..'' then Some (Runtime_error ''empty source identity'')
      else if \<exists>c \<in> set token. \<not> token_char c then Some (Runtime_error ''unsafe source identity'')
      else None)"

fun check_tokens :: "string list \<Rightarrow> exn option" where
  "check_tokens [] = None"
| "check_tokens (t # ts) = (case check_token t of Some e \<Rightarrow> Some e | None \<Rightarrow> check_tokens ts)"

text \<open>\<open>path(p).parent_path() / "start"\<close>, with a root directory written as one slash.\<close>

definition parent_start :: "string \<Rightarrow> string" where
  "parent_start path =
     (if CHR ''/'' \<notin> set path then ''start''
      else
        let upto = rev (dropWhile (\<lambda>c. c \<noteq> CHR ''/'') (rev path));
            dir = rev (dropWhile (\<lambda>c. c = CHR ''/'') (rev upto))
        in dir @ ''/start'')"

type_synonym header = "string \<times> string \<times> string \<times> string \<times> string \<times> string \<times> int \<times> u64"

definition read_header :: "string \<Rightarrow> (header \<times> string) option" where
  "read_header text =
     do {
       (magic, r1) \<leftarrow> read_token text;
       (session, r2) \<leftarrow> read_token r1;
       (boot, r3) \<leftarrow> read_token r2;
       (hash, r4) \<leftarrow> read_token r3;
       (declared_source, r5) \<leftarrow> read_token r4;
       (declared_instance, r6) \<leftarrow> read_token r5;
       (duration, r7) \<leftarrow> read_int64 r6;
       (cnt, r8) \<leftarrow> read_u64 r7;
       Some ((magic, session, boot, hash, declared_source, declared_instance, duration, cnt), r8)
     }"

definition read_phase :: "string \<Rightarrow> (phase_t \<times> string) option" where
  "read_phase text =
     do {
       (pid, r1) \<leftarrow> read_token text;
       (offset, r2) \<leftarrow> read_int64 r1;
       (period, r3) \<leftarrow> read_int64 r2;
       Some (\<lparr>ph_id = pid, ph_offset = offset, ph_period = period\<rparr>, r3)
     }"

text \<open>
  The loop over the phases: \<open>n\<close> turns are left and \<open>acc\<close> is \<open>phases_\<close>, so that the turn's index
  is the length of \<open>acc\<close> and the ids inserted so far are those of \<open>acc\<close>.
\<close>

fun read_phases :: "nat \<Rightarrow> int \<Rightarrow> string \<Rightarrow> phase_t list \<Rightarrow> exn + (phase_t list \<times> string)" where
  "read_phases 0 duration text acc = Inr (acc, text)"
| "read_phases (Suc n) duration text acc =
     (case read_phase text of
        None \<Rightarrow> Inl (Runtime_error ''invalid source schedule phase'')
      | Some (ph, rest) \<Rightarrow>
          if ph_period ph \<le> 0 \<or> ph_offset ph < 0 \<or> ph_offset ph \<ge> duration \<or>
             (if acc = [] then ph_offset ph \<noteq> 0 else ph_offset ph \<le> ph_offset (last acc)) \<or>
             ph_id ph \<in> set (map ph_id acc)
          then Inl (Runtime_error ''invalid source schedule phase'')
          else (case check_token (ph_id ph) of
                  Some e \<Rightarrow> Inl e
                | None \<Rightarrow> read_phases n duration rest (acc @ [ph])))"

definition file_text :: "file_system \<Rightarrow> string \<Rightarrow> string" where
  "file_text fs path = (case fs path of None \<Rightarrow> [] | Some text \<Rightarrow> text)"

definition SourceSchedule ::
    "file_system \<Rightarrow> string \<Rightarrow> string \<Rightarrow> string \<Rightarrow> string \<Rightarrow> int \<Rightarrow> exn + source_schedule" where
  "SourceSchedule fs path src boot inst initial =
     (case read_header (file_text fs path) of
        None \<Rightarrow> Inl (Runtime_error ''invalid or stale source schedule identity'')
      | Some ((magic, session, boot_decl, hash, declared_source, declared_instance, duration, cnt), rest) \<Rightarrow>
          if magic \<noteq> ''LAME_SOURCE_SCHEDULE_V1'' \<or> declared_source \<noteq> src \<or> boot_decl \<noteq> boot \<or>
             declared_instance \<noteq> inst \<or> duration \<le> 0 \<or> cnt \<noteq> 3
          then Inl (Runtime_error ''invalid or stale source schedule identity'')
          else
            (case check_tokens [session, boot_decl, hash, src, inst] of
               Some e \<Rightarrow> Inl e
             | None \<Rightarrow>
                 (case read_phases (unat cnt) duration rest [] of
                    Inl e \<Rightarrow> Inl e
                  | Inr (phases, rest') \<Rightarrow>
                      if read_token rest' \<noteq> None \<or> ph_period (hd phases) \<noteq> initial \<or>
                         ph_period (hd phases) \<noteq> ph_period (last phases)
                      then Inl (Runtime_error ''source schedule periods or trailing content invalid'')
                      else Inr \<lparr>start_path = parent_start path, ss_session = session,
                                ss_boot = boot_decl, ss_hash = hash, ss_duration = duration,
                                ss_epoch = 0, ss_next = 0, ss_phases = phases\<rparr>)))"

definition phase :: "nat \<Rightarrow> source_schedule \<Rightarrow> exn + phase_t" where
  "phase index sch =
     (if index < length (ss_phases sch) then Inr (ss_phases sch ! index) else Inl Out_of_range)"

definition requested :: "nat \<Rightarrow> source_schedule \<Rightarrow> exn + int" where
  "requested index sch =
     (case phase index sch of Inl e \<Rightarrow> Inl e | Inr ph \<Rightarrow> Inr (ss_epoch sch + ph_offset ph))"

definition read_start :: "string \<Rightarrow> ((string \<times> string \<times> string \<times> string \<times> int) \<times> string) option" where
  "read_start text =
     do {
       (magic, r1) \<leftarrow> read_token text;
       (session, r2) \<leftarrow> read_token r1;
       (boot, r3) \<leftarrow> read_token r2;
       (hash, r4) \<leftarrow> read_token r3;
       (epoch, r5) \<leftarrow> read_int64 r4;
       Some ((magic, session, boot, hash, epoch), r5)
     }"

definition load_epoch :: "file_system \<Rightarrow> source_schedule \<Rightarrow> exn + source_schedule" where
  "load_epoch fs sch =
     (case read_start (file_text fs (start_path sch)) of
        None \<Rightarrow> Inl (Runtime_error ''invalid or stale source start record'')
      | Some ((magic, session, boot, hash, epoch), rest) \<Rightarrow>
          if read_token rest \<noteq> None \<or> magic \<noteq> ''LAME_SOURCE_START_V1'' \<or> session \<noteq> ss_session sch \<or>
             boot \<noteq> ss_boot sch \<or> hash \<noteq> ss_hash sch \<or> epoch \<le> 0 \<or>
             epoch > int64_max - ss_duration sch
          then Inl (Runtime_error ''invalid or stale source start record'')
          else Inr (sch\<lparr>ss_epoch := epoch\<rparr>))"

text \<open>The loop of \<open>due\<close>: \<open>n\<close> indices from \<open>i\<close> on are left.\<close>

fun due_loop :: "nat \<Rightarrow> nat \<Rightarrow> int \<Rightarrow> source_schedule \<Rightarrow> nat list" where
  "due_loop 0 i now sch = []"
| "due_loop (Suc n) i now sch =
     (case requested i sch of
        Inl _ \<Rightarrow> []
      | Inr r \<Rightarrow> if now \<ge> r then i # due_loop n (Suc i) now sch else [])"

definition due :: "file_system \<Rightarrow> int \<Rightarrow> source_schedule \<Rightarrow> exn + (nat list \<times> source_schedule)" where
  "due fs now sch =
     (if ss_epoch sch = 0 \<and> fs (start_path sch) = None then Inr ([], sch)
      else
        case (if ss_epoch sch = 0 then load_epoch fs sch else Inr sch) of
          Inl e \<Rightarrow> Inl e
        | Inr sch' \<Rightarrow>
            Inr (due_loop (length (ss_phases sch') - ss_next sch') (ss_next sch') now sch', sch'))"

definition applied :: "nat \<Rightarrow> source_schedule \<Rightarrow> source_schedule" where
  "applied index sch = sch\<lparr>ss_next := index + 1\<rparr>"

text \<open>\<open>record\<close>: the line appended to the stream; \<open>stream_ok\<close> is its state after the flush.\<close>

definition record_application ::
    "bool \<Rightarrow> nat \<Rightarrow> string \<Rightarrow> string \<Rightarrow> string \<Rightarrow> string \<Rightarrow> int \<Rightarrow> int \<Rightarrow> int \<Rightarrow> source_schedule \<Rightarrow>
     exn + string" where
  \<open>record_application stream_ok index status src boot inst old_period new_period application sch =
     (case (phase index sch, requested index sch) of
        (Inr ph, Inr req) \<Rightarrow>
          if stream_ok then Inr (
            ''{"version":1,"clock":"CLOCK_MONOTONIC","session":"'' @ ss_session sch @
            ''","boot_id":"'' @ boot @ ''","schedule_hash":"'' @ ss_hash sch @
            ''","source":"'' @ src @ ''","instance":"'' @ inst @
            ''","phase_id":"'' @ ph_id ph @ ''","status":"'' @ status @
            ''","requested_ns":'' @ show_int req @ '',"applied_ns":'' @ show_int application @
            '',"old_period_ns":'' @ show_int old_period @ '',"new_period_ns":'' @ show_int new_period @
            ''}'' @ [CHR 0x0A])
          else Inl (Runtime_error ''source application record failed'')
      | _ \<Rightarrow> Inl Out_of_range)\<close>

section \<open>Well-formed schedules\<close>

definition safe_token :: "string \<Rightarrow> bool" where
  "safe_token t \<longleftrightarrow> t \<noteq> [] \<and> t \<noteq> ''.'' \<and> t \<noteq> ''..'' \<and> (\<forall>c \<in> set t. token_char c)"

definition wf_schedule :: "source_schedule \<Rightarrow> bool" where
  "wf_schedule sch \<longleftrightarrow>
     0 < ss_duration sch \<and> ss_duration sch \<le> int64_max \<and>
     length (ss_phases sch) = 3 \<and> ph_offset (hd (ss_phases sch)) = 0 \<and>
     sorted_wrt (<) (map ph_offset (ss_phases sch)) \<and> distinct (map ph_id (ss_phases sch)) \<and>
     (\<forall>ph \<in> set (ss_phases sch). 0 < ph_period ph \<and> ph_period ph \<le> int64_max \<and>
        0 \<le> ph_offset ph \<and> ph_offset ph < ss_duration sch \<and> safe_token (ph_id ph)) \<and>
     ph_period (hd (ss_phases sch)) = ph_period (last (ss_phases sch)) \<and>
     safe_token (ss_session sch) \<and> safe_token (ss_boot sch) \<and> safe_token (ss_hash sch) \<and>
     0 \<le> ss_epoch sch \<and> ss_epoch sch \<le> int64_max - ss_duration sch \<and> ss_next sch \<le> 3"

lemma check_token_None: "check_token t = None \<longleftrightarrow> safe_token t"
  by (auto simp: check_token_def safe_token_def)

lemma check_tokens_None: "check_tokens ts = None \<longleftrightarrow> (\<forall>t \<in> set ts. safe_token t)"
proof (induction ts)
  case (Cons t ts)
  then show ?case by (cases "check_token t") (auto simp: check_token_None [symmetric])
qed simp

declare check_tokens.simps [simp del]

lemma read_int64_range: "read_int64 s = Some (v, rest) \<Longrightarrow> in_int64 v"
  by (auto simp: read_int64_def Let_def split: option.splits if_splits)

lemma read_phase_range:
  "read_phase s = Some (ph, rest) \<Longrightarrow> in_int64 (ph_period ph) \<and> in_int64 (ph_offset ph)"
  by (auto simp: read_phase_def bind_eq_Some_conv dest: read_int64_range split: prod.splits)

definition phases_ok :: "int \<Rightarrow> phase_t list \<Rightarrow> bool" where
  "phases_ok duration phs \<longleftrightarrow>
     (phs \<noteq> [] \<longrightarrow> ph_offset (hd phs) = 0) \<and> sorted_wrt (<) (map ph_offset phs) \<and>
     distinct (map ph_id phs) \<and>
     (\<forall>ph \<in> set phs. 0 < ph_period ph \<and> ph_period ph \<le> int64_max \<and> 0 \<le> ph_offset ph \<and>
        ph_offset ph < duration \<and> safe_token (ph_id ph))"

lemma sorted_wrt_last: "sorted_wrt (<) xs \<Longrightarrow> x \<in> set xs \<Longrightarrow> x \<le> (last xs :: int)"
proof (induction xs)
  case (Cons y xs)
  then show ?case using last_in_set [of xs] by (cases "xs = []") (fastforce simp: less_imp_le)+
qed simp

lemma phases_ok_snoc:
  assumes "phases_ok duration acc" and "0 < ph_period ph" "ph_period ph \<le> int64_max"
    and "0 \<le> ph_offset ph" "ph_offset ph < duration" "safe_token (ph_id ph)"
    and "ph_id ph \<notin> set (map ph_id acc)"
    and "if acc = [] then ph_offset ph = 0 else ph_offset (last acc) < ph_offset ph"
  shows "phases_ok duration (acc @ [ph])"
proof -
  have "ph_offset q < ph_offset ph" if "q \<in> set acc" for q
    using sorted_wrt_last [of "map ph_offset acc" "ph_offset q"] assms(1,8) that
    by (auto simp: phases_ok_def last_map split: if_splits)
  then show ?thesis
    using assms by (auto simp: phases_ok_def sorted_wrt_append hd_append)
qed

lemma read_phases_ok:
  assumes "read_phases n duration inp acc = Inr (phs, rest)" and "phases_ok duration acc"
  shows "phases_ok duration phs \<and> length phs = length acc + n"
  using assms
proof (induction n duration inp acc rule: read_phases.induct)
  case (2 n duration inp acc)
  from "2.prems"(1) obtain ph r where ph: "read_phase inp = Some (ph, r)"
    by (auto split: option.splits)
  from "2.prems"(1) ph have step: "\<not> (ph_period ph \<le> 0 \<or> ph_offset ph < 0 \<or> ph_offset ph \<ge> duration \<or>
             (if acc = [] then ph_offset ph \<noteq> 0 else ph_offset ph \<le> ph_offset (last acc)) \<or>
             ph_id ph \<in> set (map ph_id acc))"
    and tok: "check_token (ph_id ph) = None"
    and rest: "read_phases n duration r (acc @ [ph]) = Inr (phs, rest)"
    by (auto split: if_splits option.splits)
  have "ph_period ph \<le> int64_max" using read_phase_range [OF ph] by (simp add: in_int64_def)
  then have ok: "phases_ok duration (acc @ [ph])"
    using step tok "2.prems"(2) by (intro phases_ok_snoc) (auto simp: check_token_None split: if_splits)
  from "2.IH" [OF ph refl step tok rest ok] show ?case by simp
qed simp

lemma SourceSchedule_accepts:
  assumes "SourceSchedule fs path src boot inst initial = Inr sch"
  shows "wf_schedule sch \<and> ss_epoch sch = 0 \<and> ss_next sch = 0 \<and> ss_boot sch = boot \<and>
         safe_token src \<and> safe_token inst \<and> ph_period (hd (ss_phases sch)) = initial"
proof -
  obtain magic session bd hash ds di duration cnt rest where h:
    "read_header (file_text fs path) = Some ((magic, session, bd, hash, ds, di, duration, cnt), rest)"
    using assms by (auto simp: SourceSchedule_def split: option.splits)
  have dur: "duration \<le> int64_max"
    using h by (auto simp: read_header_def bind_eq_Some_conv in_int64_def dest!: read_int64_range
        split: prod.splits)
  from assms h have g: "bd = boot" "di = inst" "0 < duration" "cnt = 3"
    and toks: "check_tokens [session, boot, hash, src, inst] = None"
    by (auto simp: SourceSchedule_def split: if_splits option.splits)
  have at_phases: "(case read_phases 3 duration rest [] of Inl e \<Rightarrow> Inl e
      | Inr (phases, rest') \<Rightarrow>
          if read_token rest' \<noteq> None \<or> ph_period (hd phases) \<noteq> initial \<or>
             ph_period (hd phases) \<noteq> ph_period (last phases)
          then Inl (Runtime_error ''source schedule periods or trailing content invalid'')
          else Inr \<lparr>start_path = parent_start path, ss_session = session, ss_boot = boot,
                    ss_hash = hash, ss_duration = duration, ss_epoch = 0, ss_next = 0,
                    ss_phases = phases\<rparr>) = Inr sch"
    using assms unfolding SourceSchedule_def h g option.case prod.case toks
    by (simp split: if_splits)
  then obtain phs r where p: "read_phases 3 duration rest [] = Inr (phs, r)"
    by (cases "read_phases 3 duration rest []") auto
  with at_phases have s: "ph_period (hd phs) = initial" "ph_period (hd phs) = ph_period (last phs)"
    "sch = \<lparr>start_path = parent_start path, ss_session = session, ss_boot = boot, ss_hash = hash,
       ss_duration = duration, ss_epoch = 0, ss_next = 0, ss_phases = phs\<rparr>"
    by (auto split: if_splits)
  have "phases_ok duration phs \<and> length phs = 3"
    using read_phases_ok [OF p] by (simp add: phases_ok_def)
  then show ?thesis
    using s g toks dur by (auto simp: wf_schedule_def phases_ok_def check_tokens_None)
qed


section \<open>Printing and reading a schedule\<close>

definition phase_text :: "phase_t \<Rightarrow> string" where
  "phase_text ph = CHR 0x0A # ph_id ph @ '' '' @ show_int (ph_offset ph) @ '' '' @ show_int (ph_period ph)"

definition schedule_text :: "string \<Rightarrow> string \<Rightarrow> source_schedule \<Rightarrow> string" where
  "schedule_text src inst sch =
     ''LAME_SOURCE_SCHEDULE_V1'' @ '' '' @ ss_session sch @ '' '' @ ss_boot sch @ '' '' @ ss_hash sch @
     '' '' @ src @ '' '' @ inst @ '' '' @ show_int (ss_duration sch) @ '' '' @ show_u64 3 @
     concat (map phase_text (ss_phases sch)) @ [CHR 0x0A]"

lemma token_char_not_space: "token_char c \<Longrightarrow> \<not> is_space c"
  by (auto simp: token_char_def is_space_def less_eq_char_def)

lemma read_safe_token:
  assumes "safe_token t" and "is_space b"
  shows "read_token (t @ b # rest) = Some (t, b # rest)"
  using assms by (intro read_token_word) (auto simp: safe_token_def token_char_not_space)

lemma space_not_digit: "is_space b \<Longrightarrow> \<not> is_digit b"
  using digit_not_space by blast

lemma read_shown_int64:
  assumes "0 \<le> v" and "v \<le> int64_max" and "rest = [] \<or> is_space (hd rest)"
  shows "read_int64 (show_int v @ rest) = Some (v, rest)"
  using assms read_int64_to_dec [of rest "nat v"] space_not_digit by (auto simp: show_int_def)

lemma read_phase_text:
  assumes "safe_token (ph_id ph)" and "0 \<le> ph_offset ph" "ph_offset ph \<le> int64_max"
    and "0 \<le> ph_period ph" "ph_period ph \<le> int64_max" and "rest = [] \<or> is_space (hd rest)"
  shows "read_phase (phase_text ph @ rest) = Some (ph, rest)"
proof -
  have "read_token (phase_text ph @ rest) =
      Some (ph_id ph, '' '' @ show_int (ph_offset ph) @ '' '' @ show_int (ph_period ph) @ rest)"
    using read_safe_token [OF assms(1), of "CHR 0x20"] by (simp add: phase_text_def read_token_blank)
  moreover have "read_int64 ('' '' @ show_int (ph_offset ph) @ '' '' @ show_int (ph_period ph) @ rest) =
      Some (ph_offset ph, '' '' @ show_int (ph_period ph) @ rest)"
    using read_shown_int64 [OF assms(2,3), of "'' '' @ show_int (ph_period ph) @ rest"]
    by (simp add: read_int64_blank)
  moreover have "read_int64 ('' '' @ show_int (ph_period ph) @ rest) = Some (ph_period ph, rest)"
    using read_shown_int64 [OF assms(4-6)] by (simp add: read_int64_blank)
  ultimately show ?thesis by (simp add: read_phase_def)
qed

lemma read_phases_text:
  assumes "phases_ok duration (acc @ phs)" and "duration \<le> int64_max"
    and "rest = [] \<or> is_space (hd rest)"
  shows "read_phases (length phs) duration (concat (map phase_text phs) @ rest) acc = Inr (acc @ phs, rest)"
  using assms(1)
proof (induction phs arbitrary: acc)
  case Nil
  then show ?case by simp
next
  case (Cons ph phs)
  let ?rest = "concat (map phase_text phs) @ rest"
  have ph: "0 < ph_period ph" "ph_period ph \<le> int64_max" "0 \<le> ph_offset ph" "ph_offset ph < duration"
    "safe_token (ph_id ph)" "ph_id ph \<notin> set (map ph_id acc)"
    using Cons.prems by (auto simp: phases_ok_def)
  have first: "if acc = [] then ph_offset ph = 0 else ph_offset (last acc) < ph_offset ph"
    using Cons.prems last_in_set [of acc] by (fastforce simp: phases_ok_def sorted_wrt_append)
  have "?rest = [] \<or> is_space (hd ?rest)"
    using assms(3) by (cases phs) (auto simp: phase_text_def)
  then have "read_phase (phase_text ph @ ?rest) = Some (ph, ?rest)"
    using ph assms(2) by (intro read_phase_text) auto
  then show ?case
    using Cons ph first by (auto simp: check_token_None [THEN iffD2] split: if_splits)
qed

lemma read_token_after:
  assumes "safe_token t" and "is_space a" and "is_space b"
  shows "read_token (a # t @ b # rest) = Some (t, b # rest)"
  using assms by (simp add: read_token_blank read_safe_token)

lemma read_header_text:
  assumes "safe_token session" "safe_token boot" "safe_token hash" "safe_token src" "safe_token inst"
    and "0 \<le> duration" "duration \<le> int64_max" and "is_space (hd rest)" "rest \<noteq> []"
  shows "read_header (''LAME_SOURCE_SCHEDULE_V1'' @ '' '' @ session @ '' '' @ boot @ '' '' @ hash @
     '' '' @ src @ '' '' @ inst @ '' '' @ show_int duration @ '' '' @ show_u64 3 @ rest) =
     Some ((''LAME_SOURCE_SCHEDULE_V1'', session, boot, hash, src, inst, duration, 3), rest)"
proof -
  let ?r7 = "'' '' @ show_u64 3 @ rest"
  let ?r6 = "'' '' @ show_int duration @ ?r7"
  let ?r5 = "'' '' @ inst @ ?r6" let ?r4 = "'' '' @ src @ ?r5" let ?r3 = "'' '' @ hash @ ?r4"
  let ?r2 = "'' '' @ boot @ ?r3" let ?r1 = "'' '' @ session @ ?r2"
  have t: "read_token (''LAME_SOURCE_SCHEDULE_V1'' @ ?r1) = Some (''LAME_SOURCE_SCHEDULE_V1'', ?r1)"
    by (rule read_token_word) (simp_all add: is_space_def)
  have toks: "read_token ?r1 = Some (session, ?r2)" "read_token ?r2 = Some (boot, ?r3)"
    "read_token ?r3 = Some (hash, ?r4)" "read_token ?r4 = Some (src, ?r5)"
    "read_token ?r5 = Some (inst, ?r6)"
    using assms read_token_after [of _ "CHR 0x20" "CHR 0x20"] by simp_all
  have i: "read_int64 ?r6 = Some (duration, ?r7)"
    using read_shown_int64 [OF assms(6,7), of ?r7] by (simp add: read_int64_blank)
  have u: "read_u64 ?r7 = Some (3, rest)"
    using read_u64_show [of rest 3] assms(8,9) space_not_digit by (simp add: read_u64_blank)
  show ?thesis unfolding read_header_def t Option.bind_lunit prod.case toks i u by (rule refl)
qed

lemma SourceSchedule_reads_text:
  assumes "wf_schedule sch" and "ss_epoch sch = 0" and "ss_next sch = 0"
    and "start_path sch = parent_start path" and "safe_token src" and "safe_token inst"
    and "fs path = Some (schedule_text src inst sch)"
  shows "SourceSchedule fs path src (ss_boot sch) inst (ph_period (hd (ss_phases sch))) = Inr sch"
proof -
  let ?ph = "concat (map phase_text (ss_phases sch)) @ [CHR 0x0A]"
  have wf: "safe_token (ss_session sch)" "safe_token (ss_boot sch)" "safe_token (ss_hash sch)"
    "0 < ss_duration sch" "ss_duration sch \<le> int64_max" "length (ss_phases sch) = 3"
    "phases_ok (ss_duration sch) ([] @ ss_phases sch)"
    "ph_period (hd (ss_phases sch)) = ph_period (last (ss_phases sch))"
    using assms(1) by (auto simp: wf_schedule_def phases_ok_def)
  have "is_space (hd ?ph)" by (cases "ss_phases sch") (auto simp: phase_text_def)
  then have h: "read_header (file_text fs path) =
      Some ((''LAME_SOURCE_SCHEDULE_V1'', ss_session sch, ss_boot sch, ss_hash sch, src, inst,
             ss_duration sch, 3), ?ph)"
    using read_header_text [of "ss_session sch" "ss_boot sch" "ss_hash sch" src inst "ss_duration sch" ?ph]
      wf assms(5-7) by (simp add: file_text_def schedule_text_def)
  have toks: "check_tokens [ss_session sch, ss_boot sch, ss_hash sch, src, inst] = None"
    using wf assms(5,6) by (simp add: check_tokens_None)
  have phs: "read_phases (unat (3::u64)) (ss_duration sch) ?ph [] = Inr (ss_phases sch, [CHR 0x0A])"
    using read_phases_text [OF wf(7,5), of "[CHR 0x0A]"] wf(6) by simp
  have "read_token [CHR 0x0A] = None" by (simp add: read_token_def)
  then show ?thesis
    unfolding SourceSchedule_def h option.case prod.case toks phs sum.case
    using wf(4,8) assms(2-4) by simp
qed

text \<open>
  Claim C4.  Reading a schedule file written for a well-formed schedule that has not started
  gives exactly that schedule back, for its own source, boot, instance and first period.
\<close>

theorem SourceSchedule_roundtrip:
  assumes "wf_schedule sch" and "ss_epoch sch = 0" and "ss_next sch = 0"
    and "start_path sch = parent_start path" and "safe_token src" and "safe_token inst"
    and "fs path = Some (schedule_text src inst sch)"
  shows "SourceSchedule fs path src (ss_boot sch) inst (ph_period (hd (ss_phases sch))) = Inr sch"
  using assms by (rule SourceSchedule_reads_text)

definition example_schedule :: source_schedule where
  "example_schedule =
     \<lparr>start_path = ''/run/start'', ss_session = ''s1'', ss_boot = ''b1'', ss_hash = ''h1'',
      ss_duration = 900, ss_epoch = 0, ss_next = 0,
      ss_phases = [\<lparr>ph_id = ''base'', ph_offset = 0, ph_period = 100\<rparr>,
                   \<lparr>ph_id = ''load'', ph_offset = 300, ph_period = 50\<rparr>,
                   \<lparr>ph_id = ''rest'', ph_offset = 600, ph_period = 100\<rparr>]\<rparr>"

lemma example_schedule_wf: "wf_schedule example_schedule" by code_simp

lemma example_tokens: "safe_token ''Lidar''" "safe_token ''i1''"
  "start_path example_schedule = parent_start ''/run/schedule''"
  by code_simp+

theorem SourceSchedule_roundtrip_witness:
  "SourceSchedule (\<lambda>_. Some (schedule_text ''Lidar'' ''i1'' example_schedule)) ''/run/schedule''
     ''Lidar'' ''b1'' ''i1'' 100 = Inr example_schedule"
  using SourceSchedule_roundtrip [of example_schedule "''/run/schedule''" "''Lidar''" "''i1''"
      "\<lambda>_. Some (schedule_text ''Lidar'' ''i1'' example_schedule)"]
    example_schedule_wf example_tokens
  by (simp add: example_schedule_def)


section \<open>Due phases\<close>

lemma due_loop_eq:
  "i + n \<le> length (ss_phases sch) \<Longrightarrow>
   due_loop n i now sch =
     takeWhile (\<lambda>j. ss_epoch sch + ph_offset (ss_phases sch ! j) \<le> now) [i..<i + n]"
proof (induction n arbitrary: i)
  case (Suc n)
  have "[i..<i + Suc n] = i # [Suc i..<Suc i + n]" by (simp add: upt_rec)
  then show ?case using Suc by (simp add: requested_def phase_def)
qed simp

lemma takeWhile_filter_down:
  assumes "\<And>x y. x \<le> y \<Longrightarrow> P y \<Longrightarrow> P (x::nat)" and "sorted xs"
  shows "takeWhile P xs = filter P xs"
  using assms(2)
proof (induction xs)
  case (Cons x xs)
  then have "filter P xs = []" if "\<not> P x" using that assms(1) by (auto simp: filter_empty_conv)
  with Cons show ?case by auto
qed simp

lemma offsets_mono:
  assumes "wf_schedule sch" and "i \<le> j" and "j < 3"
  shows "ph_offset (ss_phases sch ! i) \<le> ph_offset (ss_phases sch ! j)"
proof (cases "i = j")
  case False
  have len: "length (ss_phases sch) = 3" and "sorted_wrt (<) (map ph_offset (ss_phases sch))"
    using assms(1) by (simp_all add: wf_schedule_def)
  then have "map ph_offset (ss_phases sch) ! i < map ph_offset (ss_phases sch) ! j"
    using False assms(2,3) sorted_wrt_nth_less [of "(<)" "map ph_offset (ss_phases sch)" i j] by simp
  then show ?thesis using assms(2,3) len by simp
qed simp

lemma load_epoch_wf:
  assumes "wf_schedule sch" and "load_epoch fs sch = Inr sch'"
  shows "wf_schedule sch' \<and> (\<exists>e. 0 < e \<and> sch' = sch\<lparr>ss_epoch := e\<rparr>)"
proof -
  have e: "0 < ss_epoch sch'" "ss_epoch sch' \<le> int64_max - ss_duration sch"
    "sch' = sch\<lparr>ss_epoch := ss_epoch sch'\<rparr>"
    using assms(2) by (auto simp: load_epoch_def split: option.splits if_splits)
  have "wf_schedule (sch\<lparr>ss_epoch := ss_epoch sch'\<rparr>)"
    using assms(1) e(1,2) by (simp add: wf_schedule_def)
  with e show ?thesis by metis
qed

lemma load_epoch_nonzero:
  "wf_schedule sch \<Longrightarrow> load_epoch fs sch = Inr sch' \<Longrightarrow> ss_epoch sch' \<noteq> 0"
  using load_epoch_wf [of sch fs sch'] by auto

lemma due_lists:
  assumes "wf_schedule sch" and "due fs now sch = Inr (idx, sch')"
  shows "wf_schedule sch' \<and> (\<exists>e. sch' = sch\<lparr>ss_epoch := e\<rparr>) \<and>
         (ss_epoch sch \<noteq> 0 \<longrightarrow> sch' = sch) \<and>
         idx = (if ss_epoch sch' = 0 then []
                else filter (\<lambda>i. ss_epoch sch' + ph_offset (ss_phases sch ! i) \<le> now) [ss_next sch..<3]) \<and>
         (\<forall>i < 3. \<exists>r. requested i sch' = Inr r \<and> in_int64 r)"
proof -
  obtain e where e: "wf_schedule sch'" "sch' = sch\<lparr>ss_epoch := e\<rparr>" "ss_epoch sch \<noteq> 0 \<Longrightarrow> sch' = sch"
  proof (cases "ss_epoch sch = 0 \<and> fs (start_path sch) \<noteq> None")
    case True
    then have "load_epoch fs sch = Inr sch'"
      using assms(2) by (auto simp: due_def split: sum.splits)
    then show ?thesis using load_epoch_wf [OF assms(1)] True that by blast
  next
    case False
    then have "sch' = sch" using assms(2) by (auto simp: due_def split: if_splits)
    then show ?thesis using assms(1) that [of "ss_epoch sch"] by simp
  qed
  have "idx = (if ss_epoch sch' = 0 then []
     else filter (\<lambda>i. ss_epoch sch' + ph_offset (ss_phases sch ! i) \<le> now) [ss_next sch..<3])"
  proof (cases "ss_epoch sch' = 0")
    case True
    then have "ss_epoch sch = 0 \<and> fs (start_path sch) = None"
      using assms(2) e(3) load_epoch_nonzero [OF assms(1)]
      by (auto simp: due_def split: if_splits sum.splits)
    then show ?thesis using assms(2) True by (simp add: due_def)
  next
    case False
    have len: "ss_next sch' \<le> 3" "length (ss_phases sch') = 3" using e(1) by (auto simp: wf_schedule_def)
    have "idx = due_loop (length (ss_phases sch') - ss_next sch') (ss_next sch') now sch'"
      using assms(2) False by (auto simp: due_def split: if_splits sum.splits)
    also have "\<dots> = takeWhile (\<lambda>j. ss_epoch sch' + ph_offset (ss_phases sch' ! j) \<le> now) [ss_next sch'..<3]"
      using len by (subst due_loop_eq) simp_all
    also have "\<dots> = takeWhile (\<lambda>j. j < 3 \<and> ss_epoch sch' + ph_offset (ss_phases sch' ! j) \<le> now) [ss_next sch'..<3]"
      by (rule takeWhile_cong) auto
    also have "\<dots> = filter (\<lambda>j. j < 3 \<and> ss_epoch sch' + ph_offset (ss_phases sch' ! j) \<le> now) [ss_next sch'..<3]"
      using offsets_mono [OF e(1)] by (intro takeWhile_filter_down) force+
    also have "\<dots> = filter (\<lambda>j. ss_epoch sch' + ph_offset (ss_phases sch' ! j) \<le> now) [ss_next sch'..<3]"
      by (rule filter_cong) auto
    finally show ?thesis using False e(2) by simp
  qed
  moreover have "\<exists>r. requested i sch' = Inr r \<and> in_int64 r" if "i < 3" for i
  proof -
    have "i < length (ss_phases sch')" using e(1) that by (simp add: wf_schedule_def)
    then have "0 \<le> ph_offset (ss_phases sch' ! i)" "ph_offset (ss_phases sch' ! i) < ss_duration sch'"
      using e(1) nth_mem by (auto simp: wf_schedule_def)
    moreover have "0 \<le> ss_epoch sch'" "ss_epoch sch' \<le> int64_max - ss_duration sch'"
      using e(1) by (simp_all add: wf_schedule_def)
    ultimately have "in_int64 (ss_epoch sch' + ph_offset (ss_phases sch' ! i))"
      by (simp add: in_int64_def int64_max_def)
    with \<open>i < length _\<close> show ?thesis by (simp add: requested_def phase_def)
  qed
  ultimately show ?thesis using e by blast
qed



end
