(* ===== verification/Sensor_Node.thy ===== *)
theory Sensor_Node
  imports Node_Behaviour Source_Schedule
begin

text \<open>
  \<open>nodes/rclcpp/sensor.hpp\<close>: the source node.  Its timer callback publishes a fresh sample and,
  when the node has a source schedule, switches the timer's period as the phases of the
  schedule fall due.  The timer itself belongs to \<open>rcl\<close>; what the node sees of it is its
  period and the return codes of reading and exchanging it, which are arguments.
\<close>

section \<open>State and constructor\<close>

record sensor_node =
  sn_name :: string
  sn_topic :: string
  sn_kind :: u32
  sn_sequence :: u32
  sn_period :: int
  sn_resets :: nat
  sn_schedule :: "source_schedule option"
  sn_boot :: string
  sn_instance :: string
  sn_applications :: "string list"

definition sensor_ports :: "bool \<Rightarrow> sensor_settings \<Rightarrow> port list" where
  "sensor_ports picas s =
     [PublishPort (sen_topic_name s) 1, TimerPort (sen_cycle_time s) (prio picas (sen_priority s))]"

definition applications_path :: "string \<Rightarrow> string" where
  "applications_path nm = ''/artifacts/raw/'' @ nm @ ''.source-applications.jsonl''"

definition plain_sensor :: "sensor_settings \<Rightarrow> sensor_node" where
  "plain_sensor s =
     \<lparr>sn_name = sen_node_name s, sn_topic = sen_topic_name s, sn_kind = sen_source_kind s,
      sn_sequence = 0, sn_period = sen_cycle_time s, sn_resets = 0, sn_schedule = None,
      sn_boot = [], sn_instance = [], sn_applications = []\<rparr>"

text \<open>\<open>can_open\<close> says whether the evidence file can be created.\<close>

definition load_schedule ::
    "surroundings \<Rightarrow> file_system \<Rightarrow> bool \<Rightarrow> sensor_settings \<Rightarrow> exn + sensor_node" where
  "load_schedule sur fs can_open s =
     (case (env sur ''REFERENCE_SYSTEM_BOOT_ID'', env sur ''REFERENCE_SYSTEM_INSTANCE_ID'') of
        (Some boot, Some inst) \<Rightarrow>
          (case SourceSchedule fs (sen_schedule_file s) (sen_node_name s) boot inst (sen_cycle_time s) of
             Inl e \<Rightarrow> Inl e
           | Inr sch \<Rightarrow>
               if fs (applications_path (sen_node_name s)) \<noteq> None
               then Inl (Runtime_error ''source application evidence already exists'')
               else if \<not> can_open then Inl (Runtime_error ''cannot open source application file'')
               else Inr ((plain_sensor s)\<lparr>sn_schedule := Some sch, sn_boot := boot, sn_instance := inst\<rparr>))
      | _ \<Rightarrow> Inl (Runtime_error ''source schedule requires explicit producer identity''))"

definition Sensor ::
    "surroundings \<Rightarrow> file_system \<Rightarrow> bool \<Rightarrow> sensor_settings \<Rightarrow> process_state \<Rightarrow>
     exn + (sensor_node \<times> process_state)" where
  "Sensor sur fs can_open s pr =
     (let pr1 = register_provenance_producer sur (sen_node_name s) pr
      in if sen_schedule_file s \<noteq> [] then
           (case load_schedule sur fs can_open s of Inl e \<Rightarrow> Inl e | Inr node \<Rightarrow> Inr (node, pr1))
         else Inr (plain_sensor s, pr1))"

section \<open>Applying the schedule\<close>

text \<open>
  What \<open>apply_source_schedule\<close> meets outside: the schedule directory, the clock when it asks what
  is due and when it writes the record of a phase, the return codes of \<open>rcl\<close>, and whether the
  evidence stream is still good.
\<close>

record schedule_io =
  io_fs :: file_system
  io_due_ns :: int
  io_apply_ns :: "nat \<Rightarrow> int"
  io_get_ok :: bool
  io_exchange_ok :: bool
  io_stream_ok :: bool

fun record_skipped ::
    "schedule_io \<Rightarrow> int \<Rightarrow> source_schedule \<Rightarrow> nat list \<Rightarrow> sensor_node \<Rightarrow> exn + sensor_node" where
  "record_skipped sio current sch [] node = Inr node"
| "record_skipped sio current sch (i # is) node =
     (case record_application (io_stream_ok sio) i ''skipped'' (sn_name node) (sn_boot node)
             (sn_instance node) current current (io_apply_ns sio i) sch of
        Inl e \<Rightarrow> Inl e
      | Inr line \<Rightarrow> record_skipped sio current sch is (node\<lparr>sn_applications := sn_applications node @ [line]\<rparr>))"

definition apply_last ::
    "schedule_io \<Rightarrow> source_schedule \<Rightarrow> nat \<Rightarrow> sensor_node \<Rightarrow> exn + sensor_node" where
  "apply_last sio sch index node =
     (case phase index sch of
        Inl e \<Rightarrow> Inl e
      | Inr ph \<Rightarrow>
          if \<not> io_exchange_ok sio then Inl (Runtime_error ''source timer period exchange failed'')
          else
            (case record_application (io_stream_ok sio) index ''applied'' (sn_name node) (sn_boot node)
                    (sn_instance node) (sn_period node) (ph_period ph) (io_apply_ns sio index) sch of
               Inl e \<Rightarrow> Inl e
             | Inr line \<Rightarrow>
                 Inr (node\<lparr>sn_period := ph_period ph, sn_resets := sn_resets node + 1,
                       sn_applications := sn_applications node @ [line],
                       sn_schedule := Some (applied index sch)\<rparr>)))"

definition apply_source_schedule :: "schedule_io \<Rightarrow> sensor_node \<Rightarrow> exn + sensor_node" where
  "apply_source_schedule sio node =
     (case sn_schedule node of
        None \<Rightarrow> Inr node
      | Some sch \<Rightarrow>
          (case due (io_fs sio) (io_due_ns sio) sch of
             Inl e \<Rightarrow> Inl e
           | Inr (idx, sch') \<Rightarrow>
               if idx = [] then Inr (node\<lparr>sn_schedule := Some sch'\<rparr>)
               else if \<not> io_get_ok sio then Inl (Runtime_error ''cannot read source timer period'')
               else
                 (case record_skipped sio (sn_period node) sch' (butlast idx) node of
                    Inl e \<Rightarrow> Inl e
                  | Inr node' \<Rightarrow> apply_last sio sch' (last idx) node')))"

section \<open>The timer callback\<close>

definition sensor_timer_callback ::
    "surroundings \<Rightarrow> readings \<Rightarrow> schedule_io \<Rightarrow> message \<Rightarrow> sensor_node \<Rightarrow> process_state \<Rightarrow>
     exn + (sensor_node \<times> (string \<times> message) list \<times> process_state)" where
  "sensor_timer_callback sur rd sio loaned node pr =
     (let (cb, pr1) = provenance_callback_guard sur (sn_name node) (guard_ns rd) pr
      in case apply_source_schedule sio node of
           Inl e \<Rightarrow> Inl e
         | Inr node1 \<Rightarrow>
             let seq = sn_sequence node1;
                 (m1, pr2) = with_globals (set_sample (sn_name node) seq 0 (stamp_ns rd)
                               (loaned\<lparr>msg_size := 0\<rparr>)) pr1;
                 src = \<lparr>kind = sn_kind node, sequence = seq, timestamp_ns = stamp_ns rd\<rparr>;
                 m2 = set_provenance m1 (sn_name node) seq 0 src;
                 pr3 = (if sn_kind node \<noteq> 0
                        then emit_provenance_source sur (sn_name node) seq (sn_kind node) (stamp_ns rd) pr2
                        else pr2);
                 pr4 = on_io (print_execution_time ''Sensor'' (sn_name node)
                         (IntegerDuration (usec_between (tc1 rd) (tc2 rd)))) pr3
             in Inr (node1\<lparr>sn_sequence := seq + 1\<rparr>, [(sn_topic node, m2)], leave_guard cb pr4))"

section \<open>What the schedule does to the timer\<close>

text \<open>
  The invariant: the schedule is well formed, and the timer runs at the period of the phase
  applied last, which is the source's own period before any phase is applied.
\<close>

definition sensor_ok :: "int \<Rightarrow> sensor_node \<Rightarrow> bool" where
  "sensor_ok initial node \<longleftrightarrow>
     (case sn_schedule node of
        None \<Rightarrow> sn_period node = initial
      | Some sch \<Rightarrow> wf_schedule sch \<and>
          sn_period node = (if ss_next sch = 0 then initial else ph_period (ss_phases sch ! (ss_next sch - 1))))"

lemma sensor_ok_sequence [simp, state_frame]:
  "sensor_ok initial (node\<lparr>sn_sequence := n\<rparr>) = sensor_ok initial node"
  by (simp add: sensor_ok_def split: option.split)

lemma record_skipped_frame:
  "record_skipped sio current sch is node = Inr node' \<Longrightarrow>
   (\<exists>lines. length lines = length is \<and> node' = node\<lparr>sn_applications := sn_applications node @ lines\<rparr>)"
proof (induction "is" arbitrary: node)
  case Nil
  then show ?case by (intro exI [of _ "[]"]) simp
next
  case (Cons i "is")
  then obtain line where l: "record_skipped sio current sch is
      (node\<lparr>sn_applications := sn_applications node @ [line]\<rparr>) = Inr node'"
    by (auto split: sum.splits)
  from Cons.IH [OF l] obtain lines where "length lines = length is"
    "node' = node\<lparr>sn_applications := sn_applications node @ line # lines\<rparr>" by auto
  then show ?case by (intro exI [of _ "line # lines"]) simp
qed

lemma apply_last_frame:
  "apply_last sio sch i node = Inr node' \<Longrightarrow>
   i < length (ss_phases sch) \<and> (\<exists>line. node' = node\<lparr>sn_period := ph_period (ss_phases sch ! i),
     sn_resets := sn_resets node + 1, sn_applications := sn_applications node @ [line],
     sn_schedule := Some (applied i sch)\<rparr>)"
  by (auto simp: apply_last_def phase_def split: sum.splits if_splits)

lemma sorted_last: "sorted xs \<Longrightarrow> x \<in> set xs \<Longrightarrow> x \<le> last xs" for x :: nat
proof (induction xs)
  case (Cons y xs)
  then show ?case using last_in_set [of xs] by (cases "xs = []") auto
qed simp

text \<open>
  Applying the schedule keeps the timer on the right period: when it succeeds, either
  nothing was due and the timer is untouched, or the phases due are all consumed, one evidence
  record is written for each of them, the timer is reset once and runs at the period of the
  latest phase whose requested time has come.
\<close>

theorem apply_source_schedule_period:
  assumes "sn_schedule node = Some sch" and "wf_schedule sch"
    and "due (io_fs sio) (io_due_ns sio) sch = Inr (idx, sch1)"
    and "apply_source_schedule sio node = Inr node'"
  shows "if idx = [] then node' = node\<lparr>sn_schedule := Some sch1\<rparr>
         else sn_schedule node' = Some (applied (last idx) sch1) \<and>
              sn_period node' = ph_period (ss_phases sch ! last idx) \<and>
              sn_resets node' = sn_resets node + 1 \<and>
              (\<exists>lines. sn_applications node' = sn_applications node @ lines \<and> length lines = length idx) \<and>
              ss_next sch \<le> last idx \<and> last idx < 3 \<and>
              (\<forall>i. last idx < i \<and> i < 3 \<longrightarrow> io_due_ns sio < ss_epoch sch1 + ph_offset (ss_phases sch ! i))"
proof (cases "idx = []")
  case True
  then show ?thesis using assms by (simp add: apply_source_schedule_def)
next
  case False
  have idx: "sch1 = sch\<lparr>ss_epoch := ss_epoch sch1\<rparr>"
    "idx = filter (\<lambda>i. ss_epoch sch1 + ph_offset (ss_phases sch ! i) \<le> io_due_ns sio) [ss_next sch..<3]"
    using due_lists [OF assms(2,3)] False by (auto split: if_splits)
  obtain node1 where sk: "record_skipped sio (sn_period node) sch1 (butlast idx) node = Inr node1"
    and ap: "apply_last sio sch1 (last idx) node1 = Inr node'"
    using assms(1,3,4) False by (auto simp: apply_source_schedule_def split: if_splits sum.splits)
  obtain lines where n1: "node1 = node\<lparr>sn_applications := sn_applications node @ lines\<rparr>"
    "length lines = length (butlast idx)" using record_skipped_frame [OF sk] by blast
  obtain line where n': "node' = node1\<lparr>sn_period := ph_period (ss_phases sch1 ! last idx),
     sn_resets := sn_resets node1 + 1, sn_applications := sn_applications node1 @ [line],
     sn_schedule := Some (applied (last idx) sch1)\<rparr>" using apply_last_frame [OF ap] by blast
  have phs: "ss_phases sch1 = ss_phases sch" by (subst idx(1)) simp
  have "last idx \<in> set idx" using False by simp
  then have "ss_next sch \<le> last idx" "last idx < 3" using idx(2) by auto
  moreover have "io_due_ns sio < ss_epoch sch1 + ph_offset (ss_phases sch ! i)" if "last idx < i" "i < 3" for i
  proof (rule ccontr)
    assume "\<not> ?thesis"
    then have "i \<in> set idx" using idx(2) that \<open>ss_next sch \<le> last idx\<close> by auto
    moreover have "sorted idx" unfolding idx(2) by (simp add: sorted_wrt_filter)
    ultimately have "i \<le> last idx" using sorted_last [of idx i] by simp
    with that show False by simp
  qed
  moreover have "sn_applications node' = sn_applications node @ (lines @ [line])"
    "length (lines @ [line]) = length idx"
    using n' n1 False by simp_all
  ultimately show ?thesis using n' n1 False phs by auto
qed

definition example_sio :: schedule_io where
  "example_sio = \<lparr>io_fs = (\<lambda>_. None), io_due_ns = 950, io_apply_ns = (\<lambda>_. 951), io_get_ok = True,
     io_exchange_ok = True, io_stream_ok = True\<rparr>"

definition example_sensor :: sensor_node where
  "example_sensor =
     \<lparr>sn_name = ''Lidar'', sn_topic = ''t'', sn_kind = 1, sn_sequence = 5, sn_period = 100, sn_resets = 1,
      sn_schedule = Some (example_schedule\<lparr>ss_epoch := 500, ss_next := 1\<rparr>), sn_boot = ''b1'',
      sn_instance = ''i1'', sn_applications = []\<rparr>"

theorem apply_source_schedule_period_witness:
  "\<exists>node'. apply_source_schedule example_sio example_sensor = Inr node' \<and> sn_period node' = 50"
proof -
  let ?sch = "example_schedule\<lparr>ss_epoch := 500, ss_next := 1\<rparr>"
  have wf: "wf_schedule ?sch" by code_simp
  have d: "due (io_fs example_sio) (io_due_ns example_sio) ?sch = Inr ([1], ?sch)"
    by (simp add: due_def example_sio_def example_schedule_def requested_def phase_def numeral_2_eq_2)
  have sch: "sn_schedule example_sensor = Some ?sch" by (simp add: example_sensor_def)
  obtain node' where a: "apply_source_schedule example_sio example_sensor = Inr node'"
    unfolding apply_source_schedule_def sch option.case d sum.case prod.case
    by (simp add: example_sio_def apply_last_def phase_def record_application_def requested_def
        example_schedule_def)
  show ?thesis
    using apply_source_schedule_period [OF sch wf d a] a by (simp add: example_schedule_def)
qed

section \<open>Runs of a sensor\<close>

lemma sensor_ok_apply [invariant_rules]:
  assumes "sensor_ok initial node" and "apply_source_schedule sio node = Inr node'"
  shows "sensor_ok initial node' \<and> sn_sequence node' = sn_sequence node \<and> sn_name node' = sn_name node"
proof (cases "sn_schedule node")
  case None
  then show ?thesis using assms by (simp add: apply_source_schedule_def)
next
  case (Some sch)
  then have wf: "wf_schedule sch" using assms(1) by (simp add: sensor_ok_def)
  obtain idx sch1 where d: "due (io_fs sio) (io_due_ns sio) sch = Inr (idx, sch1)"
    using assms(2) Some by (auto simp: apply_source_schedule_def split: sum.splits)
  note dl = due_lists [OF wf d]
  obtain e where e: "sch1 = sch\<lparr>ss_epoch := e\<rparr>" using dl by blast
  show ?thesis
  proof (cases "idx = []")
    case True
    then have n': "node' = node\<lparr>sn_schedule := Some sch1\<rparr>"
      using assms(2) Some d by (simp add: apply_source_schedule_def)
    have "wf_schedule sch1" using dl by blast
    then show ?thesis using assms(1) Some unfolding n' by (auto simp: sensor_ok_def e)
  next
    case False
    obtain node1 where sk: "record_skipped sio (sn_period node) sch1 (butlast idx) node = Inr node1"
      and ap: "apply_last sio sch1 (last idx) node1 = Inr node'"
      using assms(2) Some d False by (auto simp: apply_source_schedule_def split: if_splits sum.splits)
    obtain lines where n1: "node1 = node\<lparr>sn_applications := sn_applications node @ lines\<rparr>"
      using record_skipped_frame [OF sk] by blast
    obtain line where n': "node' = node1\<lparr>sn_period := ph_period (ss_phases sch1 ! last idx),
       sn_resets := sn_resets node1 + 1, sn_applications := sn_applications node1 @ [line],
       sn_schedule := Some (applied (last idx) sch1)\<rparr>" and lt: "last idx < length (ss_phases sch1)"
      using apply_last_frame [OF ap] by blast
    have "wf_schedule (applied (last idx) sch1)"
      using dl lt by (simp add: wf_schedule_def applied_def)
    then show ?thesis unfolding n' n1 by (simp add: sensor_ok_def applied_def)
  qed
qed

lemma sensor_ok_new [invariant_rules]:
  assumes "Sensor sur fs can_open s pr = Inr (node, pr1)"
  shows "sensor_ok (sen_cycle_time s) node \<and> sn_sequence node = 0 \<and> sn_name node = sen_node_name s"
proof (cases "sen_schedule_file s = []")
  case True
  then show ?thesis using assms by (auto simp: Sensor_def sensor_ok_def plain_sensor_def)
next
  case False
  then obtain boot inst sch where
    "SourceSchedule fs (sen_schedule_file s) (sen_node_name s) boot inst (sen_cycle_time s) = Inr sch"
    and n: "node = (plain_sensor s)\<lparr>sn_schedule := Some sch, sn_boot := boot, sn_instance := inst\<rparr>"
    using assms by (auto simp: Sensor_def load_schedule_def split: sum.splits option.splits if_splits)
  then have "wf_schedule sch \<and> ss_next sch = 0" using SourceSchedule_accepts by blast
  then show ?thesis unfolding n by (simp add: sensor_ok_def plain_sensor_def)
qed

text \<open>
  A sensor publishes, at every tick that does not fail, one sample whose history is
  the sensor's own entry with the next sequence number and the time of the tick, and whose
  provenance source is that very sample; a sensor of kind zero is no provenance source.
\<close>

theorem sensor_publishes:
  assumes "wf_message loaned" and "fitting_name (sn_name node)"
    and "\<not> benchmark_mode (process_globals pr)"
    and "sensor_ok initial node"
    and "sensor_timer_callback sur rd sio loaned node pr = Inr (node', pub, pr')"
  shows "(\<exists>out. pub = [(sn_topic node, out)] \<and>
            output_ok (sn_name node) (sn_sequence node) 0 (stamp_ns rd)
              \<lparr>kind = sn_kind node, sequence = sn_sequence node, timestamp_ns = stamp_ns rd\<rparr> {}
              (process_globals pr) out \<and>
            (source_valid (provenance_source out) \<longleftrightarrow> sn_kind node \<noteq> 0)) \<and>
         sn_sequence node' = sn_sequence node + 1 \<and> sensor_ok initial node' \<and>
         process_globals pr' = process_globals pr"
proof -
  obtain cb pr1 where gd: "provenance_callback_guard sur (sn_name node) (guard_ns rd) pr = (cb, pr1)"
    by fastforce
  have g1: "process_globals pr1 = process_globals pr" using gd by (rule guarded_globals)
  obtain node1 where ap: "apply_source_schedule sio node = Inr node1"
    using assms(5) unfolding sensor_timer_callback_def gd Let_def prod.case by (auto split: sum.splits)
  note ok1 = sensor_ok_apply [OF assms(4) ap]
  let ?seq = "sn_sequence node"
  let ?src = "\<lparr>kind = sn_kind node, sequence = ?seq, timestamp_ns = stamp_ns rd\<rparr>"
  obtain m1 pr2 where ss: "with_globals (set_sample (sn_name node) ?seq 0 (stamp_ns rd) (loaned\<lparr>msg_size := 0\<rparr>)) pr1 =
      (m1, pr2)" by fastforce
  let ?out = "set_provenance m1 (sn_name node) ?seq 0 ?src"
  have fresh: "wf_message (loaned\<lparr>msg_size := 0\<rparr>)" "one_entry_per_node (loaned\<lparr>msg_size := 0\<rparr>)"
    "sn_name node \<notin> node_names (loaned\<lparr>msg_size := 0\<rparr>)"
    "card (node_names (loaned\<lparr>msg_size := 0\<rparr>)) < STATS_CAPACITY"
    using loaned_fresh [OF assms(1)] by (simp_all add: one_entry_per_node_def STATS_CAPACITY_def)
  have mode: "\<not> benchmark_mode (process_globals pr1)" using assms(3) g1 by simp
  have co: "complete_output (sn_name node) ?seq 0 0 (stamp_ns rd) r ?src (loaned\<lparr>msg_size := 0\<rparr>) pr1 =
      (set_provenance (m1\<lparr>msg_data := (msg_data m1)[0 := r]\<rparr>) (sn_name node) ?seq 0 ?src, pr2)" for r
    by (simp add: complete_output_def ss)
  have same: "\<exists>r. m1\<lparr>msg_data := (msg_data m1)[0 := r]\<rparr> = m1"
    by (rule exI [of _ "msg_data m1 ! 0"]) simp
  then obtain r where r: "m1\<lparr>msg_data := (msg_data m1)[0 := r]\<rparr> = m1" by blast
  note out = complete_output_ok [OF fresh(1,2) assms(2) mode fresh(3,4) co [of r, unfolded r]]
  have res: "pub = [(sn_topic node, ?out)]" "node' = node1\<lparr>sn_sequence := ?seq + 1\<rparr>"
    "process_globals pr' = process_globals pr2"
    using assms(5) ok1 unfolding sensor_timer_callback_def gd Let_def prod.case ap
    by (auto simp: ss emit_provenance_source_def split: if_splits)
  have "sensor_ok initial node'" using ok1 unfolding res(2) by simp
  then show ?thesis
    using out res g1 loaned_fresh(3) [OF assms(1)] ok1 by (simp add: output_ok_def source_valid_def)
qed

lemma example_sensor_ok: "sensor_ok 100 example_sensor"
proof -
  have "wf_schedule (example_schedule\<lparr>ss_epoch := 500, ss_next := 1\<rparr>)" by code_simp
  then show ?thesis by (simp add: sensor_ok_def example_sensor_def) (simp add: example_schedule_def)
qed

theorem sensor_publishes_witness:
  "\<exists>node' out pr'. sensor_timer_callback example_surroundings example_readings
      (example_sio\<lparr>io_due_ns := 0\<rparr>) (sample_of []) example_sensor example_process =
      Inr (node', [(''t'', out)], pr') \<and> node_names out = {''Lidar''} \<and> sn_sequence node' = 6"
proof -
  let ?sch = "example_schedule\<lparr>ss_epoch := 500, ss_next := 1\<rparr>"
  have "due (io_fs example_sio) 0 ?sch = Inr ([], ?sch)"
    by (simp add: due_def example_sio_def example_schedule_def requested_def phase_def numeral_2_eq_2)
  moreover have sch: "sn_schedule example_sensor = Some ?sch" by (simp add: example_sensor_def)
  ultimately have ap: "apply_source_schedule (example_sio\<lparr>io_due_ns := 0\<rparr>) example_sensor =
      Inr (example_sensor\<lparr>sn_schedule := Some ?sch\<rparr>)"
    by (simp add: apply_source_schedule_def)
  obtain node' pub pr' where r: "sensor_timer_callback example_surroundings example_readings
      (example_sio\<lparr>io_due_ns := 0\<rparr>) (sample_of []) example_sensor example_process = Inr (node', pub, pr')"
    unfolding sensor_timer_callback_def ap Let_def split_beta sum.case by blast
  have fit: "fitting_name (sn_name example_sensor)"
    by (simp add: example_sensor_def fitting_name_def NODE_NAME_LENGTH_def)
  from sensor_publishes [OF example_samples(1) fit example_process_mode example_sensor_ok r]
  obtain out where "pub = [(''t'', out)]" "node_names out = {''Lidar''}" "sn_sequence node' = 6"
    unfolding output_ok_def by (auto simp: example_sensor_def)
  with r show ?thesis by blast
qed

definition output_numbers :: "(string \<times> message) list \<Rightarrow> u32 list" where
  "output_numbers pubs = map (\<lambda>(topic, m). provenance_sequence m) pubs"

lemma output_numbers_append [simp]: "output_numbers (a @ b) = output_numbers a @ output_numbers b"
  by (simp add: output_numbers_def)

text \<open>A run of ticks, stopping at the first exception.\<close>

fun sensor_run ::
    "surroundings \<Rightarrow> (readings \<times> schedule_io \<times> message) list \<Rightarrow> sensor_node \<Rightarrow> process_state \<Rightarrow>
     exn + (sensor_node \<times> (string \<times> message) list \<times> process_state)" where
  "sensor_run sur [] node pr = Inr (node, [], pr)"
| "sensor_run sur ((rd, sio, loaned) # ticks) node pr =
     (case sensor_timer_callback sur rd sio loaned node pr of
        Inl e \<Rightarrow> Inl e
      | Inr (node1, pub, pr1) \<Rightarrow>
          (case sensor_run sur ticks node1 pr1 of
             Inl e \<Rightarrow> Inl e
           | Inr (node2, pubs, pr2) \<Rightarrow> Inr (node2, pub @ pubs, pr2)))"

lemma sensor_tick:
  assumes "sensor_timer_callback sur rd sio loaned node pr = Inr (node1, pub, pr1)"
    and "sensor_ok initial node"
  shows "sensor_ok initial node1 \<and> sn_sequence node1 = sn_sequence node + 1 \<and>
    output_numbers pub = [sn_sequence node]"
proof -
  obtain cb pr0 where gd: "provenance_callback_guard sur (sn_name node) (guard_ns rd) pr = (cb, pr0)"
    by fastforce
  obtain node0 where ap: "apply_source_schedule sio node = Inr node0"
    using assms(1) unfolding sensor_timer_callback_def gd Let_def prod.case by (auto split: sum.splits)
  note ok = sensor_ok_apply [OF assms(2) ap]
  have "node1 = node0\<lparr>sn_sequence := sn_sequence node + 1\<rparr> \<and>
      output_numbers pub = [sn_sequence node]"
    using assms(1) ok unfolding sensor_timer_callback_def gd Let_def prod.case ap
    by (auto simp: split_beta output_numbers_def set_provenance_def)
  then show ?thesis using ok by simp
qed

lemma sensor_run_numbers:
  "sensor_run sur ticks node pr = Inr (node', pubs, pr') \<Longrightarrow> sensor_ok initial node \<Longrightarrow>
   sensor_ok initial node' \<and>
   output_numbers pubs =
     map (\<lambda>i. sn_sequence node + of_nat i) [0..<length ticks]"
proof (induction sur ticks node pr arbitrary: pubs rule: sensor_run.induct)
  case (2 sur rd sio loaned ticks node pr)
  from "2.prems"(1) obtain node1 pub pr1 pubs1 where
    t: "sensor_timer_callback sur rd sio loaned node pr = Inr (node1, pub, pr1)"
    and r: "sensor_run sur ticks node1 pr1 = Inr (node', pubs1, pr')" and p: "pubs = pub @ pubs1"
    by (auto split: sum.splits)
  note tick = sensor_tick [OF t "2.prems"(2)]
  have ok: "sensor_ok initial node'"
    and nums: "output_numbers pubs1 =
      map (\<lambda>i. sn_sequence node1 + of_nat i) [0..<length ticks]"
    using "2.IH" [OF t refl refl r tick [THEN conjunct1]] by blast+
  have "map (\<lambda>i. sn_sequence node + of_nat i) [0..<Suc (length ticks)] =
      sn_sequence node # map (\<lambda>i. sn_sequence node + 1 + of_nat i) [0..<length ticks]"
    by (simp only: upt_conv_Cons [OF zero_less_Suc] list.map map_Suc_upt [symmetric] map_map)
      (simp add: comp_def add.assoc)
  then show ?case using ok nums tick p by simp
qed (simp add: output_numbers_def)

text \<open>
  Claim C5.  Over any run of ticks of a sensor that starts from its constructor and does not
  fail, one sample is published per tick, the samples are numbered 0, 1, 2, ... without a gap,
  and at the end the timer runs at the source's own period or at the period of the phase of the
  schedule that was applied last.
\<close>

theorem sensor_run_ok:
  assumes "Sensor sur fs can_open s pr = Inr (node, pr0)"
    and "sensor_run sur ticks node pr0 = Inr (node', pubs, pr')"
  shows "output_numbers pubs = map of_nat [0..<length ticks] \<and>
         sensor_ok (sen_cycle_time s) node'"
  using sensor_run_numbers [OF assms(2), of "sen_cycle_time s"] sensor_ok_new [OF assms(1)] by simp

theorem sensor_run_ok_witness:
  "\<exists>pubs. (\<exists>node' pr'. sensor_run example_surroundings
      [(example_readings, example_sio, sample_of []), (example_readings, example_sio, sample_of [])]
      (plain_sensor \<lparr>sen_node_name = ''L'', sen_topic_name = ''t'', sen_cycle_time = 100,
         sen_source_kind = 1, sen_schedule_file = [], sen_priority = 0\<rparr>) example_process =
      Inr (node', pubs, pr')) \<and> output_numbers pubs = [0, 1]"
proof -
  let ?s = "\<lparr>sen_node_name = ''L'', sen_topic_name = ''t'', sen_cycle_time = 100,
         sen_source_kind = 1, sen_schedule_file = [], sen_priority = 0\<rparr>"
  let ?ticks = "[(example_readings, example_sio, sample_of []), (example_readings, example_sio, sample_of [])]"
  have new: "Sensor example_surroundings (\<lambda>_. None) True ?s example_process = Inr (plain_sensor ?s, example_process)"
    by (simp add: Sensor_def register_provenance_producer_def register_producer_def enabled_def
        example_surroundings_def example_process_def)
  have tick: "\<exists>x. sensor_timer_callback sur rd sio loaned node pr = Inr x \<and> sn_schedule (fst x) = None"
    if "sn_schedule node = None" for sur rd sio loaned node pr
    using that by (simp add: sensor_timer_callback_def apply_source_schedule_def Let_def split_beta)
  obtain n1 p1 q1 where t1: "sensor_timer_callback example_surroundings example_readings example_sio
      (sample_of []) (plain_sensor ?s) example_process = Inr (n1, p1, q1)" "sn_schedule n1 = None"
    using tick [of "plain_sensor ?s"] by (fastforce simp: plain_sensor_def)
  obtain n2 p2 q2 where t2: "sensor_timer_callback example_surroundings example_readings example_sio
      (sample_of []) n1 q1 = Inr (n2, p2, q2)"
    using tick [OF t1(2)] by fastforce
  have run: "sensor_run example_surroundings ?ticks (plain_sensor ?s) example_process = Inr (n2, p1 @ p2 @ [], q2)"
    by (simp add: t1 t2)
  have "[0..<length ?ticks] = [0, 1]" by (simp add: upt_rec)
  with sensor_run_ok [OF new run] have "output_numbers (p1 @ p2 @ []) = [0, 1]"
    by simp
  with run show ?thesis
    by (intro exI [of _ "p1 @ p2 @ []"] conjI exI [of _ n2] exI [of _ q2])
qed

end
