(* ===== verification/Autoware.thy ===== *)
theory Autoware
  imports Sensor_Node "HOL-Library.Multiset"
begin

text \<open>
  \<open>autoware_reference_system\<close>: the callback priorities, the timing configurations, the builder
  that creates the 24 nodes, and the command lines of the executables that run all nodes, one
  group of nodes, or one node per process.
\<close>

section \<open>Callback priorities\<close>

text \<open>The constants of \<open>callback::priority::Default\<close>; a higher number is more critical.\<close>

datatype callback_priority =
    FRONT_LIDAR_DRIVER_CALLBACK
  | REAR_LIDAR_DRIVER_CALLBACK
  | POINT_CLOUD_MAP_CALLBACK
  | LANELET_2_MAP_CALLBACK
  | VISUALIZER_CALLBACK
  | POINTS_TRANSFORMER_REAR_CALLBACK
  | POINTS_TRANSFORMER_FRONT_CALLBACK
  | POINT_CLOUD_FUSION_CALLBACK_1
  | POINT_CLOUD_FUSION_CALLBACK_2
  | POINT_CLOUD_MAP_LOADER_CALLBACK
  | VOXEL_GRID_DOWNSAMPLER_CALLBACK
  | RAY_GROUND_FILTER_CALLBACK
  | NDT_LOCALIZER_CALLBACK_1
  | NDT_LOCALIZER_CALLBACK_2
  | EUCLIDEAN_CLUSTER_SETTINGS_CALLBACK
  | INTERSECTION_OUTPUT_CALLBACK
  | EUCLIDEAN_CLUSTER_DETECTOR_CALLBACK
  | EUCLIDEAN_INTERSECTION_CALLBACK
  | LANELET_2_GLOBAL_PLANNER_CALLBACK_1
  | LANELET_2_GLOBAL_PLANNER_CALLBACK_2
  | LANELET_2_MAP_LOADER_CALLBACK_1
  | LANELET_2_MAP_LOADER_CALLBACK_2
  | PARKING_PLANNER_CALLBACK
  | LANE_PLANNER_CALLBACK
  | OBJECT_COLLISION_ESTIMATOR_CALLBACK
  | BEHAVIOR_PLANNER_CALLBACK_1
  | BEHAVIOR_PLANNER_CALLBACK_2
  | BEHAVIOR_PLANNER_CALLBACK_3
  | BEHAVIOR_PLANNER_CALLBACK_4
  | BEHAVIOR_PLANNER_CALLBACK_5
  | BEHAVIOR_PLANNER_CALLBACK_6
  | BEHAVIOR_PLANNER_CALLBACK_7
  | MPC_CONTROLLER_CALLBACK
  | VEHICLE_INTERFACE_CALLBACK_1
  | VEHICLE_INTERFACE_CALLBACK_2
  | VEHICLE_DBW_SYSTEM_CALLBACK

fun Default_priority :: "callback_priority \<Rightarrow> int" where
  "Default_priority FRONT_LIDAR_DRIVER_CALLBACK = 51"
| "Default_priority REAR_LIDAR_DRIVER_CALLBACK = 50"
| "Default_priority POINT_CLOUD_MAP_CALLBACK = 22"
| "Default_priority LANELET_2_MAP_CALLBACK = 30"
| "Default_priority VISUALIZER_CALLBACK = 27"
| "Default_priority POINTS_TRANSFORMER_REAR_CALLBACK = 52"
| "Default_priority POINTS_TRANSFORMER_FRONT_CALLBACK = 53"
| "Default_priority POINT_CLOUD_FUSION_CALLBACK_1 = 55"
| "Default_priority POINT_CLOUD_FUSION_CALLBACK_2 = 54"
| "Default_priority POINT_CLOUD_MAP_LOADER_CALLBACK = 24"
| "Default_priority VOXEL_GRID_DOWNSAMPLER_CALLBACK = 23"
| "Default_priority RAY_GROUND_FILTER_CALLBACK = 56"
| "Default_priority NDT_LOCALIZER_CALLBACK_1 = 26"
| "Default_priority NDT_LOCALIZER_CALLBACK_2 = 25"
| "Default_priority EUCLIDEAN_CLUSTER_SETTINGS_CALLBACK = 47"
| "Default_priority INTERSECTION_OUTPUT_CALLBACK = 49"
| "Default_priority EUCLIDEAN_CLUSTER_DETECTOR_CALLBACK = 57"
| "Default_priority EUCLIDEAN_INTERSECTION_CALLBACK = 48"
| "Default_priority LANELET_2_GLOBAL_PLANNER_CALLBACK_1 = 29"
| "Default_priority LANELET_2_GLOBAL_PLANNER_CALLBACK_2 = 28"
| "Default_priority LANELET_2_MAP_LOADER_CALLBACK_1 = 32"
| "Default_priority LANELET_2_MAP_LOADER_CALLBACK_2 = 31"
| "Default_priority PARKING_PLANNER_CALLBACK = 33"
| "Default_priority LANE_PLANNER_CALLBACK = 34"
| "Default_priority OBJECT_COLLISION_ESTIMATOR_CALLBACK = 58"
| "Default_priority BEHAVIOR_PLANNER_CALLBACK_1 = 59"
| "Default_priority BEHAVIOR_PLANNER_CALLBACK_2 = 39"
| "Default_priority BEHAVIOR_PLANNER_CALLBACK_3 = 35"
| "Default_priority BEHAVIOR_PLANNER_CALLBACK_4 = 36"
| "Default_priority BEHAVIOR_PLANNER_CALLBACK_5 = 38"
| "Default_priority BEHAVIOR_PLANNER_CALLBACK_6 = 37"
| "Default_priority BEHAVIOR_PLANNER_CALLBACK_7 = 65"
| "Default_priority MPC_CONTROLLER_CALLBACK = 68"
| "Default_priority VEHICLE_INTERFACE_CALLBACK_1 = 67"
| "Default_priority VEHICLE_INTERFACE_CALLBACK_2 = 66"
| "Default_priority VEHICLE_DBW_SYSTEM_CALLBACK = 69"

section \<open>Timing\<close>

text \<open>
  A timing configuration gives the periods of the timers in nanoseconds and the limits of the
  workloads.
\<close>

datatype period_name =
    FRONT_LIDAR_DRIVER
  | REAR_LIDAR_DRIVER
  | POINT_CLOUD_MAP
  | VISUALIZER
  | LANELET2MAP
  | EUCLIDEAN_CLUSTER_SETTINGS
  | BEHAVIOR_PLANNER_CYCLE

datatype limit_name =
    POINTS_TRANSFORMER_FRONT
  | POINTS_TRANSFORMER_REAR
  | VOXEL_GRID_DOWNSAMPLER
  | POINT_CLOUD_MAP_LOADER
  | RAY_GROUND_FILTER
  | EUCLIDEAN_CLUSTER_DETECTOR
  | EUCLIDEAN_INTERSECTION
  | OBJECT_COLLISION_ESTIMATOR
  | MPC_CONTROLLER
  | PARKING_PLANNER
  | LANE_PLANNER
  | POINT_CLOUD_FUSION
  | NDT_LOCALIZER
  | VEHICLE_INTERFACE
  | LANELET_2_GLOBAL_PLANNER
  | LANELET_2_MAP_LOADER
  | BEHAVIOR_PLANNER

record timing =
  tm_period :: "period_name \<Rightarrow> int"
  tm_limit :: "limit_name \<Rightarrow> u64"

definition milliseconds :: "int \<Rightarrow> int" where
  "milliseconds n = n * 1000000"

definition DEFAULT_NUMBER_CRUNCHER_LIMIT :: u64 where
  "DEFAULT_NUMBER_CRUNCHER_LIMIT = 123456"

fun Default_period :: "period_name \<Rightarrow> int" where
  "Default_period FRONT_LIDAR_DRIVER = milliseconds 100"
| "Default_period REAR_LIDAR_DRIVER = milliseconds 100"
| "Default_period POINT_CLOUD_MAP = milliseconds 120"
| "Default_period VISUALIZER = milliseconds 60"
| "Default_period LANELET2MAP = milliseconds 100"
| "Default_period EUCLIDEAN_CLUSTER_SETTINGS = milliseconds 25"
| "Default_period BEHAVIOR_PLANNER_CYCLE = milliseconds 100"

definition Default_timing :: timing where
  "Default_timing = \<lparr>tm_period = Default_period, tm_limit = (\<lambda>_. DEFAULT_NUMBER_CRUNCHER_LIMIT)\<rparr>"

definition BenchmarkThroughput :: timing where
  "BenchmarkThroughput = \<lparr>tm_period = (\<lambda>_. milliseconds 0), tm_limit = (\<lambda>_. 0)\<rparr>"

definition BenchmarkCPUUsage :: timing where
  "BenchmarkCPUUsage = \<lparr>tm_period = Default_period, tm_limit = (\<lambda>_. 0)\<rparr>"

section \<open>The builder\<close>

datatype node_settings =
    SensorNode sensor_settings
  | TransformNode transform_settings
  | FusionNode fusion_settings
  | CyclicNode cyclic_settings
  | IntersectionNode intersection_settings
  | CommandNode command_settings

fun settings_name :: "node_settings \<Rightarrow> string" where
  "settings_name (SensorNode s) = sen_node_name s"
| "settings_name (TransformNode s) = tra_node_name s"
| "settings_name (FusionNode s) = fus_node_name s"
| "settings_name (CyclicNode s) = cyc_node_name s"
| "settings_name (IntersectionNode s) = int_node_name s"
| "settings_name (CommandNode s) = cmd_node_name s"

text \<open>
  The input period: the explicit source period when there is one, otherwise the configured
  period multiplied by the scale, a \<open>double\<close>, and truncated.  \<open>scaled\<close> is that multiplication.
\<close>

definition input_period :: "(int \<Rightarrow> int) \<Rightarrow> int option \<Rightarrow> int \<Rightarrow> int" where
  "input_period scaled src_period period =
     (case src_period of Some p \<Rightarrow> p | None \<Rightarrow> scaled period)"

definition is_selected :: "string list \<Rightarrow> string \<Rightarrow> bool" where
  "is_selected selected nm \<longleftrightarrow> selected = [] \<or> nm \<in> set selected"

text \<open>\<open>if (is_selected(name)) nodes.emplace_back(...)\<close>.\<close>

definition build_node :: "string list \<Rightarrow> node_settings \<Rightarrow> node_settings list" where
  "build_node selected s = (if is_selected selected (settings_name s) then [s] else [])"

definition sensor :: "timing \<Rightarrow> (int \<Rightarrow> int) \<Rightarrow> int option \<Rightarrow> string \<Rightarrow> string \<Rightarrow> period_name \<Rightarrow> u32 \<Rightarrow> callback_priority \<Rightarrow> node_settings" where
  "sensor T scaled src_period sched nm period knd pr =
     SensorNode \<lparr>sen_node_name = nm, sen_topic_name = nm,
       sen_cycle_time = input_period scaled src_period (tm_period T period), sen_source_kind = knd,
       sen_schedule_file = sched, sen_priority = Default_priority pr\<rparr>"

definition transform :: "timing \<Rightarrow> string \<Rightarrow> string \<Rightarrow> limit_name \<Rightarrow> callback_priority \<Rightarrow> node_settings" where
  "transform T nm input limit pr =
     TransformNode \<lparr>tra_node_name = nm, tra_input_topic = input, tra_output_topic = nm,
       tra_limit = tm_limit T limit, tra_priority = Default_priority pr\<rparr>"

definition fusion :: "timing \<Rightarrow> string \<Rightarrow> string \<Rightarrow> string \<Rightarrow> limit_name \<Rightarrow> callback_priority \<Rightarrow> callback_priority \<Rightarrow> node_settings" where
  "fusion T nm input_0 input_1 limit pr1 pr2 =
     FusionNode \<lparr>fus_node_name = nm, fus_input_0 = input_0, fus_input_1 = input_1, fus_output_topic = nm,
       fus_limit = tm_limit T limit, fus_priority_1 = Default_priority pr1, fus_priority_2 = Default_priority pr2\<rparr>"

definition sensor_nodes :: "timing \<Rightarrow> (int \<Rightarrow> int) \<Rightarrow> int option \<Rightarrow> string \<Rightarrow> node_settings list" where
  "sensor_nodes T scaled src_period sched =
     (let S = sensor T scaled src_period sched in
      [S ''FrontLidarDriver'' FRONT_LIDAR_DRIVER 1 FRONT_LIDAR_DRIVER_CALLBACK,
       S ''RearLidarDriver'' REAR_LIDAR_DRIVER 2 REAR_LIDAR_DRIVER_CALLBACK,
       S ''PointCloudMap'' POINT_CLOUD_MAP 3 POINT_CLOUD_MAP_CALLBACK,
       S ''Visualizer'' VISUALIZER 4 VISUALIZER_CALLBACK,
       S ''Lanelet2Map'' LANELET2MAP 5 LANELET_2_MAP_CALLBACK,
       S ''EuclideanClusterSettings'' EUCLIDEAN_CLUSTER_SETTINGS 6 EUCLIDEAN_CLUSTER_SETTINGS_CALLBACK])"

definition transform_nodes :: "timing \<Rightarrow> node_settings list" where
  "transform_nodes T =
     [transform T ''PointsTransformerFront'' ''FrontLidarDriver'' POINTS_TRANSFORMER_FRONT POINTS_TRANSFORMER_FRONT_CALLBACK,
      transform T ''PointsTransformerRear'' ''RearLidarDriver'' POINTS_TRANSFORMER_REAR POINTS_TRANSFORMER_REAR_CALLBACK,
      transform T ''VoxelGridDownsampler'' ''PointCloudFusion'' VOXEL_GRID_DOWNSAMPLER VOXEL_GRID_DOWNSAMPLER_CALLBACK,
      transform T ''PointCloudMapLoader'' ''PointCloudMap'' POINT_CLOUD_MAP_LOADER POINT_CLOUD_MAP_LOADER_CALLBACK,
      transform T ''RayGroundFilter'' ''PointCloudFusion'' RAY_GROUND_FILTER RAY_GROUND_FILTER_CALLBACK,
      transform T ''ObjectCollisionEstimator'' ''EuclideanClusterDetector'' OBJECT_COLLISION_ESTIMATOR OBJECT_COLLISION_ESTIMATOR_CALLBACK,
      transform T ''MPCController'' ''BehaviorPlanner'' MPC_CONTROLLER MPC_CONTROLLER_CALLBACK,
      transform T ''ParkingPlanner'' ''Lanelet2MapLoader'' PARKING_PLANNER PARKING_PLANNER_CALLBACK,
      transform T ''LanePlanner'' ''Lanelet2MapLoader'' LANE_PLANNER LANE_PLANNER_CALLBACK]"

definition fusion_nodes :: "timing \<Rightarrow> node_settings list" where
  "fusion_nodes T =
     [fusion T ''PointCloudFusion'' ''PointsTransformerFront'' ''PointsTransformerRear'' POINT_CLOUD_FUSION POINT_CLOUD_FUSION_CALLBACK_1 POINT_CLOUD_FUSION_CALLBACK_2,
      fusion T ''NDTLocalizer'' ''PointCloudMapLoader'' ''VoxelGridDownsampler'' NDT_LOCALIZER NDT_LOCALIZER_CALLBACK_1 NDT_LOCALIZER_CALLBACK_2,
      fusion T ''VehicleInterface'' ''MPCController'' ''BehaviorPlanner'' VEHICLE_INTERFACE VEHICLE_INTERFACE_CALLBACK_1 VEHICLE_INTERFACE_CALLBACK_2,
      fusion T ''Lanelet2GlobalPlanner'' ''Visualizer'' ''NDTLocalizer'' LANELET_2_GLOBAL_PLANNER LANELET_2_GLOBAL_PLANNER_CALLBACK_1 LANELET_2_GLOBAL_PLANNER_CALLBACK_2,
      fusion T ''Lanelet2MapLoader'' ''Lanelet2Map'' ''Lanelet2GlobalPlanner'' LANELET_2_MAP_LOADER LANELET_2_MAP_LOADER_CALLBACK_1 LANELET_2_MAP_LOADER_CALLBACK_2]"

definition behavior_planner :: "timing \<Rightarrow> node_settings" where
  "behavior_planner T =
     CyclicNode \<lparr>cyc_node_name = ''BehaviorPlanner'',
       cyc_inputs = [''ObjectCollisionEstimator'', ''NDTLocalizer'', ''Lanelet2GlobalPlanner'',
         ''Lanelet2MapLoader'', ''ParkingPlanner'', ''LanePlanner''],
       cyc_output_topic = ''BehaviorPlanner'', cyc_limit = tm_limit T BEHAVIOR_PLANNER,
       cyc_cycle_time = tm_period T BEHAVIOR_PLANNER_CYCLE,
       cyc_priorities = map Default_priority [BEHAVIOR_PLANNER_CALLBACK_1, BEHAVIOR_PLANNER_CALLBACK_2,
         BEHAVIOR_PLANNER_CALLBACK_3, BEHAVIOR_PLANNER_CALLBACK_4, BEHAVIOR_PLANNER_CALLBACK_5,
         BEHAVIOR_PLANNER_CALLBACK_6, BEHAVIOR_PLANNER_CALLBACK_7]\<rparr>"

definition euclidean_cluster_detector :: "timing \<Rightarrow> node_settings" where
  "euclidean_cluster_detector T =
     IntersectionNode \<lparr>int_node_name = ''EuclideanClusterDetector'', int_connections =
       [\<lparr>con_input_topic = ''RayGroundFilter'', con_output_topic = ''EuclideanClusterDetector'',
         con_limit = tm_limit T EUCLIDEAN_CLUSTER_DETECTOR,
         con_priority = Default_priority EUCLIDEAN_CLUSTER_DETECTOR_CALLBACK\<rparr>,
        \<lparr>con_input_topic = ''EuclideanClusterSettings'', con_output_topic = ''EuclideanIntersection'',
         con_limit = tm_limit T EUCLIDEAN_INTERSECTION,
         con_priority = Default_priority EUCLIDEAN_INTERSECTION_CALLBACK\<rparr>]\<rparr>"

definition command_nodes :: "node_settings list" where
  "command_nodes =
     [CommandNode \<lparr>cmd_node_name = ''VehicleDBWSystem'', cmd_input_topic = ''VehicleInterface'',
        cmd_priority = Default_priority VEHICLE_DBW_SYSTEM_CALLBACK\<rparr>,
      CommandNode \<lparr>cmd_node_name = ''IntersectionOutput'', cmd_input_topic = ''EuclideanIntersection'',
        cmd_priority = Default_priority INTERSECTION_OUTPUT_CALLBACK\<rparr>]"

definition create_autoware_nodes ::
    "timing \<Rightarrow> string list \<Rightarrow> (int \<Rightarrow> int) \<Rightarrow> int option \<Rightarrow> string \<Rightarrow> node_settings list" where
  "create_autoware_nodes T selected scaled src_period sched =
     concat (map (build_node selected)
       (sensor_nodes T scaled src_period sched @ transform_nodes T @ fusion_nodes T @
        [behavior_planner T, euclidean_cluster_detector T] @ command_nodes))"

fun settings_ports :: "bool \<Rightarrow> node_settings \<Rightarrow> port list" where
  "settings_ports picas (SensorNode s) = sensor_ports picas s"
| "settings_ports picas (TransformNode s) = transform_ports picas s"
| "settings_ports picas (FusionNode s) = fusion_ports picas s"
| "settings_ports picas (CyclicNode s) = cyclic_ports picas s"
| "settings_ports picas (IntersectionNode s) = intersection_ports picas s"
| "settings_ports picas (CommandNode s) = command_ports picas s"

section \<open>Command lines\<close>

definition kNodeNames :: "string list" where
  "kNodeNames =
     [''FrontLidarDriver'', ''RearLidarDriver'', ''PointCloudMap'', ''Visualizer'', ''Lanelet2Map'',
      ''EuclideanClusterSettings'', ''PointsTransformerFront'', ''PointsTransformerRear'',
      ''VoxelGridDownsampler'', ''PointCloudMapLoader'', ''RayGroundFilter'',
      ''ObjectCollisionEstimator'', ''MPCController'', ''ParkingPlanner'', ''LanePlanner'',
      ''PointCloudFusion'', ''NDTLocalizer'', ''VehicleInterface'', ''Lanelet2GlobalPlanner'',
      ''Lanelet2MapLoader'', ''BehaviorPlanner'', ''EuclideanClusterDetector'', ''VehicleDBWSystem'',
      ''IntersectionOutput'']"

text \<open>
  The scale factor is a \<open>double\<close>; what the code does with it is the record \<open>scale_ops\<close>: the value
  one, reading a whole string with \<open>strtod\<close> without a range error, the test that it is finite and
  in \<open>[0.1, 10.0]\<close>, and scaling a period.
\<close>

record 'd scale_ops =
  so_one :: 'd
  so_parse :: "string \<Rightarrow> 'd option"
  so_in_range :: "'d \<Rightarrow> bool"
  so_apply :: "'d \<Rightarrow> int \<Rightarrow> int"

type_synonym environment = "string \<Rightarrow> string option"

datatype invalid_argument = Invalid_argument string

definition input_period_scale :: "'d scale_ops \<Rightarrow> environment \<Rightarrow> invalid_argument + 'd" where
  "input_period_scale ops ev =
     (case ev ''LAME_INPUT_PERIOD_SCALE'' of
        None \<Rightarrow> Inr (so_one ops)
      | Some v \<Rightarrow>
          (case so_parse ops v of
             None \<Rightarrow> Inl (Invalid_argument ''LAME_INPUT_PERIOD_SCALE must be in [0.1, 10.0]'')
           | Some d \<Rightarrow>
               if so_in_range ops d then Inr d
               else Inl (Invalid_argument ''LAME_INPUT_PERIOD_SCALE must be in [0.1, 10.0]'')))"

definition is_source_node :: "string \<Rightarrow> bool" where
  "is_source_node nm \<longleftrightarrow>
     nm = ''FrontLidarDriver'' \<or> nm = ''RearLidarDriver'' \<or> nm = ''PointCloudMap'' \<or>
     nm = ''Visualizer'' \<or> nm = ''Lanelet2Map'' \<or> nm = ''EuclideanClusterSettings''"

definition source_period :: "environment \<Rightarrow> string \<Rightarrow> invalid_argument + int option" where
  "source_period ev nm =
     (case ev ''LAME_SOURCE_PERIOD_NS'' of
        None \<Rightarrow> Inr None
      | Some v \<Rightarrow>
          if ev ''LAME_INPUT_PERIOD_SCALE'' \<noteq> None then
            Inl (Invalid_argument ''LAME_SOURCE_PERIOD_NS conflicts with LAME_INPUT_PERIOD_SCALE'')
          else if \<not> is_source_node nm then
            Inl (Invalid_argument ''LAME_SOURCE_PERIOD_NS is valid only for source nodes'')
          else
            let (period_ns, rest, erange) = strtoll v
            in if erange \<or> rest = v \<or> rest \<noteq> [] \<or> period_ns \<le> 0
               then Inl (Invalid_argument ''LAME_SOURCE_PERIOD_NS must be a positive integer'')
               else Inr (Some period_ns))"

definition structured_output_enabled :: "environment \<Rightarrow> invalid_argument + bool" where
  "structured_output_enabled ev =
     (case ev ''LAME_STRUCTURED_OUTPUT'' of
        None \<Rightarrow> Inr True
      | Some v \<Rightarrow>
          if v = ''1'' then Inr True
          else if v = ''0'' then Inr False
          else Inl (Invalid_argument ''LAME_STRUCTURED_OUTPUT must be 0 or 1''))"

definition schedule_file_for ::
    "environment \<Rightarrow> string \<Rightarrow> int option \<Rightarrow> invalid_argument + string" where
  "schedule_file_for ev nm sp =
     (case ev ''LAME_SOURCE_SCHEDULE_FILE'' of
        None \<Rightarrow> Inr []
      | Some path \<Rightarrow>
          if \<not> is_source_node nm \<or> sp = None \<or> path = [] then
            Inl (Invalid_argument ''source schedule requires source identity and explicit period'')
          else Inr path)"

text \<open>
  An executable either exits with a code or goes on to run nodes; \<open>args\<close> are the arguments
  after the program's name.
\<close>

datatype launch =
    Exit int
  | Launch "node_settings list" globals

definition node_staticsinglethreaded_main ::
    "'d scale_ops \<Rightarrow> environment \<Rightarrow> string list \<Rightarrow> globals \<Rightarrow> launch" where
  "node_staticsinglethreaded_main ops ev args g =
     (case args of
        [nm] \<Rightarrow>
          if nm = ''--help'' then Exit 0
          else if nm \<notin> set kNodeNames then Exit 1
          else
            (case source_period ev nm of
               Inl _ \<Rightarrow> Exit 1
             | Inr sp \<Rightarrow>
                 (case schedule_file_for ev nm sp of
                    Inl _ \<Rightarrow> Exit 1
                  | Inr sched \<Rightarrow>
                      (case input_period_scale ops ev of
                         Inl _ \<Rightarrow> Exit 1
                       | Inr scale \<Rightarrow>
                           (case structured_output_enabled ev of
                              Inl _ \<Rightarrow> Exit 1
                            | Inr on \<Rightarrow>
                                Launch (create_autoware_nodes Default_timing [nm] (so_apply ops scale) sp sched)
                                  (snd (set_structured_output_enabled on True g))))))
      | _ \<Rightarrow> Exit 1)"

definition node_groups :: "(string \<times> string list) list" where
  "node_groups =
     [(''intersection_medium'', [''EuclideanClusterDetector'', ''EuclideanClusterSettings'',
        ''IntersectionOutput'']),
      (''map_localization_medium'', [''PointCloudMap'', ''PointCloudMapLoader'', ''VoxelGridDownsampler'',
        ''NDTLocalizer'', ''Visualizer'', ''Lanelet2Map'', ''LanePlanner'', ''ParkingPlanner'',
        ''Lanelet2MapLoader'', ''Lanelet2GlobalPlanner'']),
      (''perception_collision_high'', [''FrontLidarDriver'', ''RearLidarDriver'',
        ''PointsTransformerFront'', ''PointsTransformerRear'', ''PointCloudFusion'', ''RayGroundFilter'',
        ''ObjectCollisionEstimator'']),
      (''planning_control_high'', [''VehicleDBWSystem'', ''VehicleInterface'', ''MPCController'',
        ''BehaviorPlanner''])]"

text \<open>The builder's defaults: scale one, no source period, no schedule.\<close>

definition default_nodes :: "'d scale_ops \<Rightarrow> string list \<Rightarrow> node_settings list" where
  "default_nodes ops selected =
     create_autoware_nodes Default_timing selected (so_apply ops (so_one ops)) None []"

definition group_staticsinglethreaded_main ::
    "'d scale_ops \<Rightarrow> string list \<Rightarrow> globals \<Rightarrow> launch" where
  "group_staticsinglethreaded_main ops args g =
     (case args of
        [nm] \<Rightarrow>
          if nm = ''--help'' then Exit 0
          else (case map_of node_groups nm of
                  None \<Rightarrow> Exit 1
                | Some members \<Rightarrow> Launch (default_nodes ops members) g)
      | _ \<Rightarrow> Exit 1)"

text \<open>
  The multi-executor executable: real-time priority, processor and nodes of its four executors,
  and the executor a node is added to.
\<close>

definition picas_executors :: "(int \<times> nat \<times> string list) list" where
  "picas_executors =
     [(90, 0, [''VehicleDBWSystem'', ''VehicleInterface'', ''MPCController'', ''BehaviorPlanner'']),
      (89, 1, [''FrontLidarDriver'', ''RearLidarDriver'', ''PointsTransformerFront'',
         ''PointsTransformerRear'', ''PointCloudFusion'', ''RayGroundFilter'', ''ObjectCollisionEstimator'']),
      (88, 2, [''EuclideanClusterDetector'', ''EuclideanClusterSettings'', ''IntersectionOutput'']),
      (87, 3, [''PointCloudMap'', ''PointCloudMapLoader'', ''VoxelGridDownsampler'', ''NDTLocalizer'',
         ''Visualizer'', ''Lanelet2Map'', ''LanePlanner'', ''ParkingPlanner'', ''Lanelet2MapLoader'',
         ''Lanelet2GlobalPlanner''])]"

definition picas_executor_of :: "string \<Rightarrow> nat option" where
  "picas_executor_of nm =
     (let i = first_index (\<lambda>(prio, cpu, members). nm \<in> set members) picas_executors
      in if i < length picas_executors then Some i else None)"

definition picas_assignment :: "'d scale_ops \<Rightarrow> node_settings list list" where
  "picas_assignment ops =
     map (\<lambda>i. filter (\<lambda>s. picas_executor_of (settings_name s) = Some i) (default_nodes ops []))
       [0..<length picas_executors]"

section \<open>The nodes that are built\<close>

lemma build_node_all: "concat (map (build_node []) xs) = xs"
  by (induction xs) (simp_all add: build_node_def is_selected_def)

lemma build_node_filter:
  "selected \<noteq> [] \<Longrightarrow> concat (map (build_node selected) xs) = filter (\<lambda>s. settings_name s \<in> set selected) xs"
  by (induction xs) (simp_all add: build_node_def is_selected_def)

lemma create_all:
  "create_autoware_nodes T [] scaled sp sched =
     sensor_nodes T scaled sp sched @ transform_nodes T @ fusion_nodes T @
     [behavior_planner T, euclidean_cluster_detector T] @ command_nodes"
  by (simp only: create_autoware_nodes_def build_node_all)

lemmas node_defs = sensor_nodes_def transform_nodes_def fusion_nodes_def behavior_planner_def
  euclidean_cluster_detector_def command_nodes_def sensor_def transform_def fusion_def Let_def

lemma create_names: "map settings_name (create_autoware_nodes T [] scaled sp sched) = kNodeNames"
  unfolding create_all node_defs kNodeNames_def by simp

lemma kNodeNames_distinct: "distinct kNodeNames"
  by code_simp

text \<open>
  Without a selection the builder creates 24 nodes with distinct names, in the order
  of the list of allowed nodes; with a selection it creates exactly those of them that are
  selected, in the same order.
\<close>

theorem create_autoware_nodes_names:
  "map settings_name (create_autoware_nodes T [] scaled sp sched) = kNodeNames \<and>
   distinct kNodeNames \<and> length kNodeNames = 24 \<and>
   (selected \<noteq> [] \<longrightarrow>
      create_autoware_nodes T selected scaled sp sched =
        filter (\<lambda>s. settings_name s \<in> set selected) (create_autoware_nodes T [] scaled sp sched))"
proof (intro conjI impI)
  show "length kNodeNames = 24" by (simp add: kNodeNames_def)
  assume sel: "selected \<noteq> []"
  show "create_autoware_nodes T selected scaled sp sched =
      filter (\<lambda>s. settings_name s \<in> set selected) (create_autoware_nodes T [] scaled sp sched)"
    unfolding create_autoware_nodes_def by (simp only: build_node_filter [OF sel] build_node_all)
qed (rule create_names kNodeNames_distinct)+

theorem create_autoware_nodes_names_witness:
  "create_autoware_nodes Default_timing [''nobody''] (\<lambda>p. p) None [] = []"
proof -
  have "''nobody'' \<notin> set kNodeNames" by code_simp
  then have "\<forall>s \<in> set (create_autoware_nodes Default_timing [] (\<lambda>p. p) None []). settings_name s \<noteq> ''nobody''"
    using create_names [of Default_timing "\<lambda>p. p" None "[]"] by (metis image_eqI list.set_map)
  then show ?thesis
    using create_autoware_nodes_names [of Default_timing "\<lambda>p. p" None "[]" "[''nobody'']"]
    by (simp add: filter_empty_conv)
qed

section \<open>The communication graph\<close>

definition subscribed_topics :: "node_settings \<Rightarrow> string list" where
  "subscribed_topics s = List.map_filter (\<lambda>p. case p of SubscribePort t d q \<Rightarrow> Some t | _ \<Rightarrow> None) (settings_ports False s)"

definition published_topics :: "node_settings \<Rightarrow> string list" where
  "published_topics s = List.map_filter (\<lambda>p. case p of PublishPort t d \<Rightarrow> Some t | _ \<Rightarrow> None) (settings_ports False s)"

definition port_priorities :: "node_settings \<Rightarrow> int list" where
  "port_priorities s = List.map_filter (\<lambda>p. case p of SubscribePort t d q \<Rightarrow> q | TimerPort t q \<Rightarrow> q | _ \<Rightarrow> None) (settings_ports True s)"

lemmas port_defs = subscribed_topics_def published_topics_def port_priorities_def sensor_ports_def
  transform_ports_def fusion_ports_def cyclic_ports_def intersection_ports_def command_ports_def
  prio_def map_filter_simps

lemma all_published:
  "concat (map published_topics (create_autoware_nodes T [] scaled sp sched)) =
     [''FrontLidarDriver'', ''RearLidarDriver'', ''PointCloudMap'', ''Visualizer'', ''Lanelet2Map'',
      ''EuclideanClusterSettings'', ''PointsTransformerFront'', ''PointsTransformerRear'',
      ''VoxelGridDownsampler'', ''PointCloudMapLoader'', ''RayGroundFilter'',
      ''ObjectCollisionEstimator'', ''MPCController'', ''ParkingPlanner'', ''LanePlanner'',
      ''PointCloudFusion'', ''NDTLocalizer'', ''VehicleInterface'', ''Lanelet2GlobalPlanner'',
      ''Lanelet2MapLoader'', ''BehaviorPlanner'', ''EuclideanClusterDetector'', ''EuclideanIntersection'']"
  unfolding create_all node_defs by (simp add: port_defs)

lemma all_subscribed:
  "concat (map subscribed_topics (create_autoware_nodes T [] scaled sp sched)) =
     [''FrontLidarDriver'', ''RearLidarDriver'', ''PointCloudFusion'', ''PointCloudMap'', ''PointCloudFusion'',
      ''EuclideanClusterDetector'', ''BehaviorPlanner'', ''Lanelet2MapLoader'', ''Lanelet2MapLoader'',
      ''PointsTransformerFront'', ''PointsTransformerRear'', ''PointCloudMapLoader'', ''VoxelGridDownsampler'',
      ''MPCController'', ''BehaviorPlanner'', ''Visualizer'', ''NDTLocalizer'', ''Lanelet2Map'',
      ''Lanelet2GlobalPlanner'', ''ObjectCollisionEstimator'', ''NDTLocalizer'', ''Lanelet2GlobalPlanner'',
      ''Lanelet2MapLoader'', ''ParkingPlanner'', ''LanePlanner'', ''RayGroundFilter'',
      ''EuclideanClusterSettings'', ''VehicleInterface'', ''EuclideanIntersection'']"
  unfolding create_all node_defs by (simp add: port_defs)

text \<open>
  The communication graph is closed: no two nodes publish on the same topic, every
  topic a node subscribes to is published by a node, and every topic published is subscribed to.
\<close>

theorem communication_graph_closed:
  "distinct (concat (map published_topics (create_autoware_nodes T [] scaled sp sched))) \<and>
   set (concat (map subscribed_topics (create_autoware_nodes T [] scaled sp sched))) =
   set (concat (map published_topics (create_autoware_nodes T [] scaled sp sched)))"
proof
  show "distinct (concat (map published_topics (create_autoware_nodes T [] scaled sp sched)))"
    unfolding all_published by code_simp
  show "set (concat (map subscribed_topics (create_autoware_nodes T [] scaled sp sched))) =
      set (concat (map published_topics (create_autoware_nodes T [] scaled sp sched)))"
    unfolding all_published all_subscribed by code_simp
qed

lemma all_priorities:
  "concat (map port_priorities (create_autoware_nodes T [] scaled sp sched)) =
     [51, 50, 22, 27, 30, 47, 53, 52, 23, 24, 56, 58, 68, 33, 34, 55, 54, 26, 25, 67, 66, 29, 28, 32, 31,
      59, 39, 35, 36, 38, 37, 65, 57, 48, 69, 49]"
  unfolding create_all node_defs by (simp add: port_defs)

text \<open>
  Under the priority-driven executor every callback of the system has a priority of
  its own, so that the choice among ready callbacks is never a tie; there are 36 of them.
\<close>

theorem callback_priorities_distinct:
  "distinct (concat (map port_priorities (create_autoware_nodes T [] scaled sp sched))) \<and>
   length (concat (map port_priorities (create_autoware_nodes T [] scaled sp sched))) = 36"
  unfolding all_priorities by code_simp

section \<open>Groups and executors\<close>

lemma group_members:
  "mset (concat (map snd node_groups)) = mset kNodeNames"
  "mset (concat (map (snd \<circ> snd) picas_executors)) = mset kNodeNames"
  by code_simp+

fun launched_names :: "launch \<Rightarrow> string list" where
  "launched_names (Exit code) = []"
| "launched_names (Launch ns g) = map settings_name ns"

lemma selected_names:
  "selected \<noteq> [] \<Longrightarrow>
   map settings_name (create_autoware_nodes T selected scaled sp sched) =
     filter (\<lambda>n. n \<in> set selected) kNodeNames"
proof -
  assume sel: "selected \<noteq> []"
  have "create_autoware_nodes T selected scaled sp sched =
      filter (\<lambda>s. settings_name s \<in> set selected) (create_autoware_nodes T [] scaled sp sched)"
    unfolding create_autoware_nodes_def by (simp only: build_node_filter [OF sel] build_node_all)
  then show ?thesis
    unfolding create_names [of T scaled sp sched, symmetric] by (simp add: filter_map comp_def)
qed

lemma filter_singleton: "distinct xs \<Longrightarrow> x \<in> set xs \<Longrightarrow> filter (\<lambda>y. y \<in> set [x]) xs = [x]"
proof (induction xs)
  case (Cons y xs)
  show ?case
  proof (cases "x = y")
    case True
    then have "filter (\<lambda>y. y \<in> set [x]) xs = []" using Cons.prems by (auto simp: filter_empty_conv)
    then show ?thesis using True by simp
  qed (use Cons in simp)
qed simp

lemma single_name: "nm \<in> set kNodeNames \<Longrightarrow>
   map settings_name (create_autoware_nodes T [nm] scaled sp sched) = [nm]"
  by (simp only: selected_names [OF not_Cons_self2] filter_singleton [OF kNodeNames_distinct] list.discI)

lemma help_not_node: "''--help'' \<notin> set kNodeNames" "map_of node_groups ''--help'' = None"
  by code_simp+

lemma group_launch:
  "map (\<lambda>(nm, members). launched_names (group_staticsinglethreaded_main ops [nm] g)) node_groups =
   map (\<lambda>(nm, members). filter (\<lambda>n. n \<in> set members) kNodeNames) node_groups"
proof (rule map_cong [OF refl])
  fix p assume p: "p \<in> set node_groups"
  obtain nm members where nm: "p = (nm, members)" by fastforce
  have "distinct (map fst node_groups)" by code_simp
  then have m: "map_of node_groups nm = Some members" using p nm by simp
  have "\<forall>(nm, members) \<in> set node_groups. members \<noteq> []" by code_simp
  then have "members \<noteq> []" using p nm by blast
  moreover have "nm \<noteq> ''--help''" using m help_not_node(2) by auto
  ultimately show "(case p of (nm, members) \<Rightarrow> launched_names (group_staticsinglethreaded_main ops [nm] g)) =
      (case p of (nm, members) \<Rightarrow> filter (\<lambda>n. n \<in> set members) kNodeNames)"
    using nm m by (simp add: group_staticsinglethreaded_main_def default_nodes_def selected_names)
qed

lemma node_launch:
  assumes "nm \<in> set kNodeNames"
  shows "launched_names (node_staticsinglethreaded_main ops (\<lambda>_. None) [nm] g) = [nm]"
proof -
  have "nm \<noteq> ''--help''" using assms help_not_node(1) by auto
  then show ?thesis
    using assms single_name by (simp add: node_staticsinglethreaded_main_def source_period_def
        schedule_file_for_def input_period_scale_def structured_output_enabled_def)
qed

lemma picas_names:
  "map (map settings_name) (picas_assignment ops) =
   map (\<lambda>i. filter (\<lambda>n. picas_executor_of n = Some i) kNodeNames) [0..<4]"
proof -
  have len: "length picas_executors = 4" by (simp add: picas_executors_def)
  have names: "map settings_name (default_nodes ops []) = kNodeNames"
    unfolding default_nodes_def by (rule create_names)
  have "map settings_name (filter (\<lambda>s. picas_executor_of (settings_name s) = Some i) (default_nodes ops [])) =
      filter (\<lambda>n. picas_executor_of n = Some i) kNodeNames" for i
    unfolding names [symmetric] by (simp add: filter_map comp_def)
  then show ?thesis unfolding picas_assignment_def len map_map comp_def by simp
qed

text \<open>
  The ways to deploy the system are equivalent in what they run: starting every group
  once, starting every node on its own, or assigning the nodes to the four executors of the
  multi-executor program creates each of the 24 nodes exactly once.
\<close>

theorem deployments_cover:
  "mset (concat (map (\<lambda>(nm, members). launched_names (group_staticsinglethreaded_main ops [nm] g)) node_groups)) =
     mset kNodeNames \<and>
   concat (map (\<lambda>nm. launched_names (node_staticsinglethreaded_main ops (\<lambda>_. None) [nm] g)) kNodeNames) = kNodeNames \<and>
   mset (concat (map (map settings_name) (picas_assignment ops))) = mset kNodeNames"
proof (intro conjI)
  show "mset (concat (map (\<lambda>(nm, members). launched_names (group_staticsinglethreaded_main ops [nm] g)) node_groups)) =
     mset kNodeNames"
    unfolding group_launch by code_simp
  have "map (\<lambda>nm. launched_names (node_staticsinglethreaded_main ops (\<lambda>_. None) [nm] g)) kNodeNames =
      map (\<lambda>nm. [nm]) kNodeNames"
    using node_launch by (intro map_cong [OF refl])
  moreover have "concat (map (\<lambda>nm. [nm]) xs) = xs" for xs :: "string list" by (induction xs) simp_all
  ultimately show "concat (map (\<lambda>nm. launched_names (node_staticsinglethreaded_main ops (\<lambda>_. None) [nm] g)) kNodeNames) =
      kNodeNames"
    by (simp only:)
  show "mset (concat (map (map settings_name) (picas_assignment ops))) = mset kNodeNames"
    unfolding picas_names by code_simp
qed



end
