(* ===== verification/Callback_Groups.thy ===== *)
theory Callback_Groups
  imports Prelude
begin

text \<open>
  The objects the executor of \<open>src/ros2-picas/rclcpp\<close> works on: entities (timers, subscriptions,
  services, clients and waitables), callback groups, nodes and guard conditions, and the searches
  of \<open>memory_strategy.cpp\<close> that lead from a handle to its entity and from an entity to its group.

  Objects are named by numbers, as pointers name them.  A weak pointer is such a number; locking it
  looks the object up in the \<open>world\<close>, where an expired one is absent.  Maps keyed by weak pointers
  with \<open>std::owner_less\<close> are ordered maps over these numbers.
\<close>

section \<open>Objects\<close>

datatype rclcpp_exn =
    RuntimeError string | InvalidArgument string | RCLError string
  | OverflowError string | UnderflowError string | QoSCheckCompatibleException string

datatype entity_kind = Timer | Subscription | Service | Client | Waitable

datatype group_type = MutuallyExclusive | Reentrant

record entity =
  ent_handle :: nat
  entity_priority :: int

record callback_group =
  cg_type :: group_type
  can_be_taken_from :: bool
  group_associated :: bool
  auto_add :: bool
  ptrs :: "entity_kind \<Rightarrow> nat list"
  notify_condition :: "(nat \<times> nat) option"

text \<open>The condition that notifies of changes is named together with the context it belongs to.\<close>

record node_base =
  nb_name :: string
  nb_groups :: "nat list"
  nb_default_group :: nat
  node_associated :: bool
  nb_context :: nat
  nb_condition :: nat

record world =
  the_group :: "nat \<Rightarrow> callback_group option"
  the_node :: "nat \<Rightarrow> node_base option"
  the_entity :: "entity_kind \<Rightarrow> nat \<Rightarrow> entity option"
  next_condition :: nat
  triggered :: "nat list"
  context_valid :: "nat \<Rightarrow> bool"
  condition_init_ok :: "nat \<Rightarrow> bool"
  condition_trigger_ok :: "nat \<Rightarrow> bool"

text \<open>
  The last three fields are the answers of \<open>rcl\<close>: whether a context is valid, whether a guard
  condition can be created in a context, and whether one can be triggered.
\<close>

type_synonym group_map = "(nat, nat) omap"

text \<open>
  An operation that may throw returns the exception, if any, with the state it leaves behind.
\<close>

type_synonym 's outcome = "rclcpp_exn option \<times> 's"

definition and_then :: "'s outcome \<Rightarrow> ('s \<Rightarrow> 's outcome) \<Rightarrow> 's outcome" where
  "and_then r f = (case fst r of None \<Rightarrow> f (snd r) | Some e \<Rightarrow> r)"

lemma and_then_simps [simp]:
  "and_then (None, s) f = f s"
  "and_then (Some e, s) f = (Some e, s)"
  by (simp_all add: and_then_def)

definition on_group :: "nat \<Rightarrow> (callback_group \<Rightarrow> callback_group) \<Rightarrow> world \<Rightarrow> world" where
  "on_group gp f w = w\<lparr>the_group := (the_group w)(gp := map_option f (the_group w gp))\<rparr>"

definition on_node :: "nat \<Rightarrow> (node_base \<Rightarrow> node_base) \<Rightarrow> world \<Rightarrow> world" where
  "on_node np f w = w\<lparr>the_node := (the_node w)(np := map_option f (the_node w np))\<rparr>"

section \<open>Guard conditions\<close>

definition trigger :: "nat \<Rightarrow> world \<Rightarrow> world outcome" where
  "trigger gc w =
     (if condition_trigger_ok w gc then (None, w\<lparr>triggered := triggered w @ [gc]\<rparr>)
      else (Some (RCLError ''failed to trigger guard condition''), w))"

section \<open>Callback groups\<close>

definition CallbackGroup :: "group_type \<Rightarrow> bool \<Rightarrow> callback_group" where
  "CallbackGroup ty add =
     \<lparr>cg_type = ty, can_be_taken_from = True, group_associated = False, auto_add = add,
      ptrs = (\<lambda>_. []), notify_condition = None\<rparr>"

text \<open>\<open>_find_ptrs_if_impl\<close>: the first live entity of the group that satisfies the predicate.\<close>

definition find_ptrs_if :: "world \<Rightarrow> entity_kind \<Rightarrow> (nat \<Rightarrow> bool) \<Rightarrow> callback_group \<Rightarrow> nat option" where
  "find_ptrs_if w k P g = find (\<lambda>p. the_entity w k p \<noteq> None \<and> P p) (ptrs g k)"

definition collect_all_ptrs :: "world \<Rightarrow> callback_group \<Rightarrow> entity_kind \<Rightarrow> nat list" where
  "collect_all_ptrs w g k = filter (\<lambda>p. the_entity w k p \<noteq> None) (ptrs g k)"

definition trigger_notify_guard_condition :: "nat \<Rightarrow> world \<Rightarrow> world outcome" where
  "trigger_notify_guard_condition gp w =
     (case the_group w gp of
        None \<Rightarrow> (None, w)
      | Some g \<Rightarrow> (case notify_condition g of None \<Rightarrow> (None, w) | Some (gc, _) \<Rightarrow> trigger gc w))"

text \<open>
  \<open>get_notify_guard_condition\<close>: a condition that belongs to another context is dropped, after it
  has been triggered when the group is in use; a missing one is created.
\<close>

definition drop_foreign_condition :: "nat \<Rightarrow> nat \<Rightarrow> world \<Rightarrow> world outcome" where
  "drop_foreign_condition gp ctx w =
     (case the_group w gp of
        None \<Rightarrow> (None, w)
      | Some g \<Rightarrow>
          (case notify_condition g of
             None \<Rightarrow> (None, w)
           | Some (gc, c) \<Rightarrow>
               if c = ctx then (None, w)
               else and_then (if group_associated g then trigger gc w else (None, w))
                      (\<lambda>w. (None, on_group gp (\<lambda>g. g\<lparr>notify_condition := None\<rparr>) w))))"

definition get_notify_guard_condition :: "nat \<Rightarrow> nat \<Rightarrow> world \<Rightarrow> world outcome" where
  "get_notify_guard_condition gp ctx w =
     and_then (drop_foreign_condition gp ctx w) (\<lambda>w.
       case the_group w gp of
         None \<Rightarrow> (None, w)
       | Some g \<Rightarrow>
           (case notify_condition g of
              Some _ \<Rightarrow> (None, w)
            | None \<Rightarrow>
                if condition_init_ok w ctx
                then (None, on_group gp (\<lambda>g. g\<lparr>notify_condition := Some (next_condition w, ctx)\<rparr>)
                              (w\<lparr>next_condition := next_condition w + 1\<rparr>))
                else (Some (RCLError ''failed to create guard condition''), w)))"

text \<open>The five \<open>add_*\<close> operations append the new pointer and then drop the expired ones.\<close>

definition add_ptr :: "entity_kind \<Rightarrow> nat \<Rightarrow> world \<Rightarrow> callback_group \<Rightarrow> callback_group" where
  "add_ptr k p w g =
     g\<lparr>ptrs := (ptrs g)(k := filter (\<lambda>q. the_entity w k q \<noteq> None) (ptrs g k @ [p]))\<rparr>"

definition add_subscription :: "nat \<Rightarrow> world \<Rightarrow> callback_group \<Rightarrow> callback_group" where
  "add_subscription = add_ptr Subscription"

definition add_timer :: "nat \<Rightarrow> world \<Rightarrow> callback_group \<Rightarrow> callback_group" where
  "add_timer = add_ptr Timer"

definition add_service :: "nat \<Rightarrow> world \<Rightarrow> callback_group \<Rightarrow> callback_group" where
  "add_service = add_ptr Service"

definition add_client :: "nat \<Rightarrow> world \<Rightarrow> callback_group \<Rightarrow> callback_group" where
  "add_client = add_ptr Client"

definition add_waitable :: "nat \<Rightarrow> world \<Rightarrow> callback_group \<Rightarrow> callback_group" where
  "add_waitable = add_ptr Waitable"

definition remove_waitable :: "nat \<Rightarrow> callback_group \<Rightarrow> callback_group" where
  "remove_waitable p g = g\<lparr>ptrs := (ptrs g)(Waitable := remove1 p (ptrs g Waitable))\<rparr>"

section \<open>Nodes\<close>

definition create_callback_group ::
    "nat \<Rightarrow> nat \<Rightarrow> group_type \<Rightarrow> bool \<Rightarrow> world \<Rightarrow> world" where
  "create_callback_group gp np ty add w =
     on_node np (\<lambda>n. n\<lparr>nb_groups := nb_groups n @ [gp]\<rparr>)
       (w\<lparr>the_group := (the_group w)(gp \<mapsto> CallbackGroup ty add)\<rparr>)"

definition callback_group_in_node :: "world \<Rightarrow> nat \<Rightarrow> node_base \<Rightarrow> bool" where
  "callback_group_in_node w gp n \<longleftrightarrow> (\<exists>q \<in> set (nb_groups n). the_group w q \<noteq> None \<and> q = gp)"

text \<open>The groups that \<open>for_each_callback_group\<close> visits, in order.\<close>

definition live_groups :: "world \<Rightarrow> node_base \<Rightarrow> nat list" where
  "live_groups w n = filter (\<lambda>gp. the_group w gp \<noteq> None) (nb_groups n)"

text \<open>
  \<open>NodeTimers::add_timer\<close> and \<open>NodeTopics::add_subscription\<close>: the group defaults to that of the
  node; afterwards the node's and the group's conditions are triggered.
\<close>

definition notify_creation :: "string \<Rightarrow> node_base \<Rightarrow> nat \<Rightarrow> world \<Rightarrow> world outcome" where
  "notify_creation what n gp w =
     (case and_then (trigger (nb_condition n) w) (trigger_notify_guard_condition gp) of
        (None, w') \<Rightarrow> (None, w')
      | (Some _, w') \<Rightarrow> (Some (RuntimeError (''failed to notify wait set on '' @ what @ '' creation'')), w'))"

definition node_add_timer :: "nat \<Rightarrow> nat option \<Rightarrow> node_base \<Rightarrow> world \<Rightarrow> world outcome" where
  "node_add_timer p grp n w =
     (case grp of
        Some gp \<Rightarrow>
          if \<not> callback_group_in_node w gp n
          then (Some (RuntimeError ''Cannot create timer, group not in node.''), w)
          else notify_creation ''timer'' n gp (on_group gp (add_timer p w) w)
      | None \<Rightarrow>
          notify_creation ''timer'' n (nb_default_group n)
            (on_group (nb_default_group n) (add_timer p w) w))"

definition node_add_subscription ::
    "nat \<Rightarrow> nat list \<Rightarrow> nat option \<Rightarrow> nat option \<Rightarrow> node_base \<Rightarrow> world \<Rightarrow> world outcome" where
  "node_add_subscription p events intra grp n w =
     (let add = (\<lambda>gp w.
            let w1 = on_group gp (add_subscription p w) w;
                w2 = foldl (\<lambda>w e. on_group gp (add_waitable e w) w) w1 events;
                w3 = (case intra of None \<Rightarrow> w2 | Some i \<Rightarrow> on_group gp (add_waitable i w2) w2)
            in notify_creation ''subscription'' n gp w3)
      in case grp of
           Some gp \<Rightarrow>
             if \<not> callback_group_in_node w gp n
             then (Some (RuntimeError ''Cannot create subscription, callback group not in node.''), w)
             else add gp w
         | None \<Rightarrow> add (nb_default_group n) w)"

section \<open>From handles to entities and groups\<close>

definition has_handle :: "world \<Rightarrow> entity_kind \<Rightarrow> nat \<Rightarrow> nat \<Rightarrow> bool" where
  "has_handle w k h p = (case the_entity w k p of None \<Rightarrow> False | Some e \<Rightarrow> ent_handle e = h)"

fun entity_by_handle :: "world \<Rightarrow> entity_kind \<Rightarrow> nat \<Rightarrow> group_map \<Rightarrow> nat option" where
  "entity_by_handle w k h [] = None"
| "entity_by_handle w k h ((gp, np) # m) =
     (case the_group w gp of
        None \<Rightarrow> entity_by_handle w k h m
      | Some g \<Rightarrow>
          (case find_ptrs_if w k (has_handle w k h) g of
             Some p \<Rightarrow> Some p
           | None \<Rightarrow> entity_by_handle w k h m))"

definition get_subscription_by_handle :: "world \<Rightarrow> nat \<Rightarrow> group_map \<Rightarrow> nat option" where
  "get_subscription_by_handle w = entity_by_handle w Subscription"

definition get_service_by_handle :: "world \<Rightarrow> nat \<Rightarrow> group_map \<Rightarrow> nat option" where
  "get_service_by_handle w = entity_by_handle w Service"

definition get_client_by_handle :: "world \<Rightarrow> nat \<Rightarrow> group_map \<Rightarrow> nat option" where
  "get_client_by_handle w = entity_by_handle w Client"

definition get_timer_by_handle :: "world \<Rightarrow> nat \<Rightarrow> group_map \<Rightarrow> nat option" where
  "get_timer_by_handle w = entity_by_handle w Timer"

definition get_node_by_group :: "world \<Rightarrow> nat \<Rightarrow> group_map \<Rightarrow> nat option" where
  "get_node_by_group w gp m =
     (case map_of m gp of
        None \<Rightarrow> None
      | Some np \<Rightarrow> if the_node w np \<noteq> None then Some np else None)"

fun group_by_entity :: "world \<Rightarrow> entity_kind \<Rightarrow> nat \<Rightarrow> group_map \<Rightarrow> nat option" where
  "group_by_entity w k p [] = None"
| "group_by_entity w k p ((gp, np) # m) =
     (case (the_group w gp, the_node w np) of
        (Some g, Some n) \<Rightarrow>
          (case find_ptrs_if w k (\<lambda>q. q = p) g of
             Some _ \<Rightarrow> Some gp
           | None \<Rightarrow> group_by_entity w k p m)
      | _ \<Rightarrow> group_by_entity w k p m)"

definition get_group_by_subscription :: "world \<Rightarrow> nat \<Rightarrow> group_map \<Rightarrow> nat option" where
  "get_group_by_subscription w = group_by_entity w Subscription"

definition get_group_by_service :: "world \<Rightarrow> nat \<Rightarrow> group_map \<Rightarrow> nat option" where
  "get_group_by_service w = group_by_entity w Service"

definition get_group_by_client :: "world \<Rightarrow> nat \<Rightarrow> group_map \<Rightarrow> nat option" where
  "get_group_by_client w = group_by_entity w Client"

definition get_group_by_timer :: "world \<Rightarrow> nat \<Rightarrow> group_map \<Rightarrow> nat option" where
  "get_group_by_timer w = group_by_entity w Timer"

definition get_group_by_waitable :: "world \<Rightarrow> nat \<Rightarrow> group_map \<Rightarrow> nat option" where
  "get_group_by_waitable w = group_by_entity w Waitable"

section \<open>Facts\<close>

lemma find_ptrs_if_SomeD:
  "find_ptrs_if w k P g = Some p \<Longrightarrow> p \<in> set (ptrs g k) \<and> the_entity w k p \<noteq> None \<and> P p"
  by (auto simp: find_ptrs_if_def find_Some_iff in_set_conv_nth)

lemma find_ptrs_if_None_iff:
  "find_ptrs_if w k P g = None \<longleftrightarrow> (\<forall>p \<in> set (ptrs g k). the_entity w k p \<noteq> None \<longrightarrow> \<not> P p)"
  by (auto simp: find_ptrs_if_def find_None_iff)

text \<open>
  A group that is found is in the map with a live node, and it holds the entity.
\<close>

lemma group_by_entity_SomeD:
  assumes "group_by_entity w k p m = Some gp"
  shows "\<exists>g np. the_group w gp = Some g \<and> (gp, np) \<in> set m \<and> the_node w np \<noteq> None \<and>
           p \<in> set (ptrs g k) \<and> the_entity w k p \<noteq> None"
  using assms
proof (induction m)
  case Nil
  then show ?case by simp
next
  case (Cons x m)
  obtain gq nq where x: "x = (gq, nq)" by (cases x)
  show ?case
  proof (cases "group_by_entity w k p m = Some gp")
    case True
    with Cons.IH show ?thesis by fastforce
  next
    case False
    with Cons.prems x show ?thesis
      by (auto split: option.splits dest: find_ptrs_if_SomeD)
  qed
qed

lemma entity_by_handle_SomeD:
  assumes "entity_by_handle w k h m = Some p"
  shows "\<exists>gp np g e. (gp, np) \<in> set m \<and> the_group w gp = Some g \<and> p \<in> set (ptrs g k) \<and>
           the_entity w k p = Some e \<and> ent_handle e = h"
  using assms
proof (induction m)
  case Nil
  then show ?case by simp
next
  case (Cons x m)
  obtain gq nq where x: "x = (gq, nq)" by (cases x)
  show ?case
  proof (cases "entity_by_handle w k h m = Some p")
    case True
    with Cons.IH show ?thesis by fastforce
  next
    case False
    with Cons.prems x show ?thesis
      by (fastforce simp: has_handle_def split: option.splits dest!: find_ptrs_if_SomeD)
  qed
qed

end
