(* ===== verification/Memory_Strategy.thy ===== *)
theory Memory_Strategy
  imports Callback_Groups Interfaces
begin

text \<open>
  \<open>AllocatorMemoryStrategy\<close> of \<open>strategies/allocator_memory_strategy.hpp\<close>: the lists of handles
  that wait for work or are ready, and the five searches for the next entity to run, with the
  priority-driven selection that PiCAS adds to them.
\<close>

section \<open>State\<close>

record memory_strategy =
  guard_conditions :: "nat list"
  handles :: "entity_kind \<Rightarrow> nat list"
  strategy_priority_enabled :: bool

record any_executable =
  chosen :: "entity_kind \<Rightarrow> nat option"
  exec_group :: "nat option"
  exec_node :: "nat option"
  exec_data :: "nat option"

text \<open>\<open>exec_data\<close> names the waitable whose data has been taken.\<close>

definition AnyExecutable :: any_executable where
  "AnyExecutable = \<lparr>chosen = (\<lambda>_. None), exec_group = None, exec_node = None, exec_data = None\<rparr>"

definition AllocatorMemoryStrategy :: memory_strategy where
  "AllocatorMemoryStrategy =
     \<lparr>guard_conditions = [], handles = (\<lambda>_. []), strategy_priority_enabled = False\<rparr>"

section \<open>Collecting entities\<close>

definition add_guard_condition :: "nat \<Rightarrow> memory_strategy \<Rightarrow> memory_strategy" where
  "add_guard_condition gc ms =
     (if gc \<in> set (guard_conditions ms) then ms
      else ms\<lparr>guard_conditions := guard_conditions ms @ [gc]\<rparr>)"

definition remove_guard_condition :: "nat \<Rightarrow> memory_strategy \<Rightarrow> memory_strategy" where
  "remove_guard_condition gc ms = ms\<lparr>guard_conditions := remove1 gc (guard_conditions ms)\<rparr>"

definition clear_handles :: "memory_strategy \<Rightarrow> memory_strategy" where
  "clear_handles ms = ms\<lparr>handles := (\<lambda>_. [])\<rparr>"

text \<open>
  \<open>remove_null_handles\<close>: \<open>ready k i\<close> says that the wait set still has the \<open>i\<close>-th handle of its
  kind after waiting; a waitable is asked itself.
\<close>

definition ready_handles :: "(nat \<Rightarrow> bool) \<Rightarrow> nat list \<Rightarrow> nat list" where
  "ready_handles ready hs = map snd (filter (\<lambda>(i, h). ready i) (enumerate 0 hs))"

definition remove_null_handles ::
    "(entity_kind \<Rightarrow> nat \<Rightarrow> bool) \<Rightarrow> (nat \<Rightarrow> bool) \<Rightarrow> memory_strategy \<Rightarrow> memory_strategy" where
  "remove_null_handles ready is_ready ms =
     ms\<lparr>handles := (\<lambda>k. if k = Waitable then filter is_ready (handles ms k)
                       else ready_handles (ready k) (handles ms k))\<rparr>"

text \<open>
  What a group contributes to the handles: for a waitable the waitable itself, otherwise the
  handle of the entity.
\<close>

definition entity_handle :: "world \<Rightarrow> entity_kind \<Rightarrow> nat \<Rightarrow> nat" where
  "entity_handle w k p =
     (if k = Waitable then p else case the_entity w k p of None \<Rightarrow> p | Some e \<Rightarrow> ent_handle e)"

fun collect_entities :: "world \<Rightarrow> group_map \<Rightarrow> memory_strategy \<Rightarrow> bool \<times> memory_strategy" where
  "collect_entities w [] ms = (False, ms)"
| "collect_entities w ((gp, np) # m) ms =
     (case (the_group w gp, the_node w np) of
        (Some g, Some n) \<Rightarrow>
          if \<not> can_be_taken_from g then collect_entities w m ms
          else collect_entities w m
                 (ms\<lparr>handles := (\<lambda>k. handles ms k @ map (entity_handle w k) (collect_all_ptrs w g k))\<rparr>)
      | _ \<Rightarrow> (True, snd (collect_entities w m ms)))"

definition add_waitable_handle :: "nat option \<Rightarrow> memory_strategy \<Rightarrow> memory_strategy outcome" where
  "add_waitable_handle p ms =
     (case p of
        None \<Rightarrow> (Some (RuntimeError ''waitable object unexpectedly nullptr''), ms)
      | Some q \<Rightarrow> (None, ms\<lparr>handles := (handles ms)(Waitable := handles ms Waitable @ [q])\<rparr>))"

text \<open>
  \<open>add_handles_to_wait_set\<close>: the wait set receives the handles kind by kind; the first one that
  \<open>rcl\<close> refuses ends the operation.
\<close>

record wait_set =
  waiting :: "entity_kind \<Rightarrow> nat list"
  waiting_conditions :: "nat list"

fun add_to_wait_set ::
    "(entity_kind \<Rightarrow> nat \<Rightarrow> bool) \<Rightarrow> entity_kind \<Rightarrow> nat list \<Rightarrow> wait_set \<Rightarrow> bool \<times> wait_set" where
  "add_to_wait_set rcl_add k [] ws = (True, ws)"
| "add_to_wait_set rcl_add k (h # hs) ws =
     (if rcl_add k h
      then add_to_wait_set rcl_add k hs (ws\<lparr>waiting := (waiting ws)(k := waiting ws k @ [h])\<rparr>)
      else (False, ws))"

definition if_ok :: "bool \<times> 's \<Rightarrow> ('s \<Rightarrow> bool \<times> 's) \<Rightarrow> bool \<times> 's" where
  "if_ok r f = (if fst r then f (snd r) else r)"

definition add_handles_to_wait_set ::
    "(entity_kind \<Rightarrow> nat \<Rightarrow> bool) \<Rightarrow> memory_strategy \<Rightarrow> wait_set \<Rightarrow> bool \<times> wait_set" where
  "add_handles_to_wait_set rcl_add ms ws =
     if_ok (add_to_wait_set rcl_add Subscription (handles ms Subscription) ws) (\<lambda>ws.
     if_ok (add_to_wait_set rcl_add Client (handles ms Client) ws) (\<lambda>ws.
     if_ok (add_to_wait_set rcl_add Service (handles ms Service) ws) (\<lambda>ws.
     if_ok (add_to_wait_set rcl_add Timer (handles ms Timer) ws) (\<lambda>ws.
       (True, ws\<lparr>waiting_conditions := waiting_conditions ws @ guard_conditions ms,
                waiting := (waiting ws)(Waitable := waiting ws Waitable @ handles ms Waitable)\<rparr>)))))"

text \<open>The sizes asked for when the wait set is resized; \<open>count\<close> is what a waitable adds.\<close>

definition number_of_ready :: "entity_kind \<Rightarrow> (nat \<Rightarrow> nat) \<Rightarrow> memory_strategy \<Rightarrow> nat" where
  "number_of_ready k count ms = length (handles ms k) + sum_list (map count (handles ms Waitable))"

definition number_of_ready_subscriptions :: "(nat \<Rightarrow> nat) \<Rightarrow> memory_strategy \<Rightarrow> nat" where
  "number_of_ready_subscriptions = number_of_ready Subscription"

definition number_of_ready_services :: "(nat \<Rightarrow> nat) \<Rightarrow> memory_strategy \<Rightarrow> nat" where
  "number_of_ready_services = number_of_ready Service"

definition number_of_ready_clients :: "(nat \<Rightarrow> nat) \<Rightarrow> memory_strategy \<Rightarrow> nat" where
  "number_of_ready_clients = number_of_ready Client"

definition number_of_ready_timers :: "(nat \<Rightarrow> nat) \<Rightarrow> memory_strategy \<Rightarrow> nat" where
  "number_of_ready_timers = number_of_ready Timer"

definition number_of_ready_events :: "(nat \<Rightarrow> nat) \<Rightarrow> memory_strategy \<Rightarrow> nat" where
  "number_of_ready_events count ms = sum_list (map count (handles ms Waitable))"

definition number_of_guard_conditions :: "(nat \<Rightarrow> nat) \<Rightarrow> memory_strategy \<Rightarrow> nat" where
  "number_of_guard_conditions count ms =
     length (guard_conditions ms) + sum_list (map count (handles ms Waitable))"

definition number_of_waitables :: "memory_strategy \<Rightarrow> nat" where
  "number_of_waitables ms = length (handles ms Waitable)"

section \<open>The next entity of a kind\<close>

definition handle_entity :: "world \<Rightarrow> group_map \<Rightarrow> entity_kind \<Rightarrow> nat \<Rightarrow> nat option" where
  "handle_entity w m k h = (if k = Waitable then Some h else entity_by_handle w k h m)"

definition priority_of :: "world \<Rightarrow> entity_kind \<Rightarrow> nat \<Rightarrow> int" where
  "priority_of w k p = (case the_entity w k p of None \<Rightarrow> 0 | Some e \<Rightarrow> entity_priority e)"

definition group_takeable :: "world \<Rightarrow> nat \<Rightarrow> bool" where
  "group_takeable w gp = (case the_group w gp of None \<Rightarrow> False | Some g \<Rightarrow> can_be_taken_from g)"

definition set_executable ::
    "world \<Rightarrow> group_map \<Rightarrow> entity_kind \<Rightarrow> nat \<Rightarrow> nat \<Rightarrow> any_executable \<Rightarrow> any_executable" where
  "set_executable w m k p gp ae =
     ae\<lparr>chosen := (chosen ae)(k \<mapsto> p), exec_group := Some gp, exec_node := get_node_by_group w gp m\<rparr>"

text \<open>
  The loop over the handles of a kind.  \<open>call\<close> is the outcome of \<open>timer->call()\<close>, which only the
  search for timers makes; it returns false for a cancelled timer.  The result is the executable,
  the handles that remain in the list, and the entities that were called.  Without priorities the
  first one that can run ends the loop; with priorities every one that can run is erased from the
  list and the best so far is kept.
\<close>

definition keep_handle ::
    "nat \<Rightarrow> rclcpp_exn + any_executable \<times> nat list \<times> nat list \<Rightarrow> rclcpp_exn + any_executable \<times> nat list \<times> nat list" where
  "keep_handle h r = (case r of Inl e \<Rightarrow> Inl e | Inr (ae, kept, called) \<Rightarrow> Inr (ae, h # kept, called))"

definition note_call ::
    "nat \<Rightarrow> rclcpp_exn + any_executable \<times> nat list \<times> nat list \<Rightarrow> rclcpp_exn + any_executable \<times> nat list \<times> nat list" where
  "note_call p r = (case r of Inl e \<Rightarrow> Inl e | Inr (ae, kept, called) \<Rightarrow> Inr (ae, kept, p # called))"

fun scan_handles ::
    "world \<Rightarrow> group_map \<Rightarrow> entity_kind \<Rightarrow> bool \<Rightarrow> (nat \<Rightarrow> rclcpp_exn + bool) \<Rightarrow> nat list \<Rightarrow>
     any_executable \<Rightarrow> int \<Rightarrow> rclcpp_exn + any_executable \<times> nat list \<times> nat list" where
  "scan_handles w m k enabled call [] ae highest = Inr (ae, [], [])"
| "scan_handles w m k enabled call (h # hs) ae highest =
     (case handle_entity w m k h of
        None \<Rightarrow> scan_handles w m k enabled call hs ae highest
      | Some p \<Rightarrow>
          (case group_by_entity w k p m of
             None \<Rightarrow> scan_handles w m k enabled call hs ae highest
           | Some gp \<Rightarrow>
               if \<not> group_takeable w gp
               then keep_handle h (scan_handles w m k enabled call hs ae highest)
               else
                 (case call p of
                    Inl e \<Rightarrow> Inl e
                  | Inr False \<Rightarrow> keep_handle h (scan_handles w m k enabled call hs ae highest)
                  | Inr True \<Rightarrow>
                      if enabled
                      then note_call p
                        (if chosen ae k = None \<or> priority_of w k p > highest
                         then scan_handles w m k enabled call hs
                                (set_executable w m k p gp ae) (priority_of w k p)
                         else scan_handles w m k enabled call hs ae highest)
                      else Inr (set_executable w m k p gp ae, hs, [p]))))"

definition get_next ::
    "world \<Rightarrow> group_map \<Rightarrow> entity_kind \<Rightarrow> (nat \<Rightarrow> rclcpp_exn + bool) \<Rightarrow> any_executable \<times> memory_strategy \<Rightarrow>
     rclcpp_exn + (any_executable \<times> memory_strategy) \<times> nat list" where
  "get_next w m k call = (\<lambda>(ae, ms).
     case scan_handles w m k (strategy_priority_enabled ms) call (handles ms k) ae (- 1) of
       Inl e \<Rightarrow> Inl e
     | Inr (ae', kept, called) \<Rightarrow> Inr ((ae', ms\<lparr>handles := (handles ms)(k := kept)\<rparr>), called))"

text \<open>\<open>TimerBase::call\<close> of \<open>timer.hpp\<close> over the answer of \<open>rcl_timer_call\<close>.\<close>

datatype rcl_ret = RCL_RET_OK | RCL_RET_TIMER_CANCELED | RCL_RET_ERROR

definition timer_call :: "(nat \<Rightarrow> rcl_ret) \<Rightarrow> nat \<Rightarrow> rclcpp_exn + bool" where
  "timer_call rcl_timer_call p =
     (case rcl_timer_call p of
        RCL_RET_TIMER_CANCELED \<Rightarrow> Inr False
      | RCL_RET_OK \<Rightarrow> Inr True
      | RCL_RET_ERROR \<Rightarrow> Inl (RuntimeError ''Failed to notify timer that callback occurred''))"

definition get_next_timer ::
    "world \<Rightarrow> group_map \<Rightarrow> (nat \<Rightarrow> rcl_ret) \<Rightarrow> any_executable \<times> memory_strategy \<Rightarrow>
     rclcpp_exn + (any_executable \<times> memory_strategy) \<times> nat list" where
  "get_next_timer w m rcl_timer_call = get_next w m Timer (timer_call rcl_timer_call)"

definition get_next_plain ::
    "world \<Rightarrow> group_map \<Rightarrow> entity_kind \<Rightarrow> any_executable \<times> memory_strategy \<Rightarrow> any_executable \<times> memory_strategy" where
  "get_next_plain w m k s =
     (case get_next w m k (\<lambda>_. Inr True) s of Inl e \<Rightarrow> s | Inr (s', called) \<Rightarrow> s')"

definition get_next_subscription ::
    "world \<Rightarrow> group_map \<Rightarrow> any_executable \<times> memory_strategy \<Rightarrow> any_executable \<times> memory_strategy" where
  "get_next_subscription w m = get_next_plain w m Subscription"

definition get_next_service ::
    "world \<Rightarrow> group_map \<Rightarrow> any_executable \<times> memory_strategy \<Rightarrow> any_executable \<times> memory_strategy" where
  "get_next_service w m = get_next_plain w m Service"

definition get_next_client ::
    "world \<Rightarrow> group_map \<Rightarrow> any_executable \<times> memory_strategy \<Rightarrow> any_executable \<times> memory_strategy" where
  "get_next_client w m = get_next_plain w m Client"

definition get_next_waitable ::
    "world \<Rightarrow> group_map \<Rightarrow> any_executable \<times> memory_strategy \<Rightarrow> any_executable \<times> memory_strategy" where
  "get_next_waitable w m = get_next_plain w m Waitable"

section \<open>What a search finds\<close>

text \<open>The entity and group that a handle stands for when it can run now.\<close>

definition candidate ::
    "world \<Rightarrow> group_map \<Rightarrow> entity_kind \<Rightarrow> (nat \<Rightarrow> rclcpp_exn + bool) \<Rightarrow> nat \<Rightarrow> (nat \<times> nat) option" where
  "candidate w m k call h =
     (case handle_entity w m k h of
        None \<Rightarrow> None
      | Some p \<Rightarrow>
          (case group_by_entity w k p m of
             None \<Rightarrow> None
           | Some gp \<Rightarrow> if group_takeable w gp \<and> call p = Inr True then Some (p, gp) else None))"

definition runnable ::
    "world \<Rightarrow> group_map \<Rightarrow> entity_kind \<Rightarrow> (nat \<Rightarrow> rclcpp_exn + bool) \<Rightarrow> nat list \<Rightarrow> (nat \<times> nat) list" where
  "runnable w m k call hs = List.map_filter (candidate w m k call) hs"

text \<open>A handle is blocked when it is valid but its group is in use or its timer was cancelled.\<close>

definition blocked ::
    "world \<Rightarrow> group_map \<Rightarrow> entity_kind \<Rightarrow> (nat \<Rightarrow> rclcpp_exn + bool) \<Rightarrow> nat \<Rightarrow> bool" where
  "blocked w m k call h \<longleftrightarrow>
     candidate w m k call h = None \<and>
     (\<exists>p. handle_entity w m k h = Some p \<and> group_by_entity w k p m \<noteq> None)"

definition higher_priority :: "world \<Rightarrow> entity_kind \<Rightarrow> nat \<times> nat \<Rightarrow> nat \<times> nat \<Rightarrow> nat \<times> nat" where
  "higher_priority w k a b = (if priority_of w k (fst b) > priority_of w k (fst a) then b else a)"

interpretation prio: best_choice
  "\<lambda>a b. priority_of w k (fst a) > priority_of w k (fst b)" "higher_priority w k"
  for w k
  by unfold_locales (auto simp: higher_priority_def)

lemma runnable_simps [simp]:
  "runnable w m k call [] = []"
  "runnable w m k call (h # hs) =
     (case candidate w m k call h of None \<Rightarrow> runnable w m k call hs
      | Some c \<Rightarrow> c # runnable w m k call hs)"
  by (simp_all add: runnable_def List.map_filter_simps split: option.splits)

lemma set_executable_twice [simp]:
  "set_executable w m k p gp (set_executable w m k q gq ae) = set_executable w m k p gp ae"
  by (simp add: set_executable_def)

lemma chosen_set_executable [simp]:
  "chosen (set_executable w m k p gp ae) = (chosen ae)(k \<mapsto> p)"
  "exec_group (set_executable w m k p gp ae) = Some gp"
  by (simp_all add: set_executable_def)

lemma keep_handle_InrD:
  "keep_handle h r = Inr (ae, kept, called) \<Longrightarrow> \<exists>kept'. r = Inr (ae, kept', called) \<and> kept = h # kept'"
  by (auto simp: keep_handle_def split: sum.splits)

lemma note_call_InrD:
  "note_call p r = Inr (ae, kept, called) \<Longrightarrow> \<exists>called'. r = Inr (ae, kept, called') \<and> called = p # called'"
  by (auto simp: note_call_def split: sum.splits)

text \<open>
  One round of the loop by what the handle is: invalid (erased), blocked (kept), or runnable.
\<close>

lemma scan_invalid:
  assumes "candidate w m k call h = None" and "\<not> blocked w m k call h"
  shows "scan_handles w m k enabled call (h # hs) ae highest =
           scan_handles w m k enabled call hs ae highest"
  using assms by (auto simp: candidate_def blocked_def split: option.splits)

lemma scan_blocked:
  assumes "blocked w m k call h"
    and "scan_handles w m k enabled call (h # hs) ae highest = Inr r"
  shows "scan_handles w m k enabled call (h # hs) ae highest =
           keep_handle h (scan_handles w m k enabled call hs ae highest)"
  using assms
  by (auto simp: candidate_def blocked_def split: option.splits sum.splits bool.splits if_splits)

lemma scan_runnable:
  assumes "candidate w m k call h = Some (p, gp)"
  shows "scan_handles w m k enabled call (h # hs) ae highest =
           (if enabled
            then note_call p
              (if chosen ae k = None \<or> priority_of w k p > highest
               then scan_handles w m k enabled call hs (set_executable w m k p gp ae) (priority_of w k p)
               else scan_handles w m k enabled call hs ae highest)
            else Inr (set_executable w m k p gp ae, hs, [p]))"
  using assms by (auto simp: candidate_def split: option.splits sum.splits bool.splits if_splits)

lemma handle_cases:
  obtains "candidate w m k call h = None" "\<not> blocked w m k call h"
  | "blocked w m k call h" "candidate w m k call h = None"
  | p gp where "candidate w m k call h = Some (p, gp)"
  by (cases "candidate w m k call h"; cases "blocked w m k call h") (auto simp: blocked_def)

text \<open>With priorities: all that can run is called and erased, the rest keeps its place.\<close>

lemma scan_lists:
  assumes "scan_handles w m k True call hs ae highest = Inr (ae', kept, called)"
  shows "called = map fst (runnable w m k call hs) \<and> kept = filter (blocked w m k call) hs"
  using assms
proof (induction hs arbitrary: ae highest ae' kept called)
  case Nil
  then show ?case by simp
next
  case (Cons h hs)
  show ?case
  proof (cases rule: handle_cases [of w m k call h])
    case 1
    from Cons.prems have "scan_handles w m k True call hs ae highest = Inr (ae', kept, called)"
      unfolding scan_invalid [OF 1] .
    with 1 Cons.IH show ?thesis by simp
  next
    case 2
    from scan_blocked [OF 2(1) Cons.prems] Cons.prems
    obtain kept' where "scan_handles w m k True call hs ae highest = Inr (ae', kept', called)"
      and "kept = h # kept'"
      using keep_handle_InrD by metis
    with 2 Cons.IH show ?thesis by simp
  next
    case (3 p gp)
    with Cons.prems obtain ae2 highest2 called' where
      "scan_handles w m k True call hs ae2 highest2 = Inr (ae', kept, called')" "called = p # called'"
      by (auto simp only: scan_runnable simp_thms if_True split: if_splits dest!: note_call_InrD)
    moreover from 3 have "\<not> blocked w m k call h" by (simp add: blocked_def)
    ultimately show ?thesis using 3 Cons.IH by simp
  qed
qed

lemma scan_improves:
  assumes "scan_handles w m k True call hs (set_executable w m k p gp ae) (priority_of w k p) =
             Inr (ae', kept, called)"
  shows "ae' = (case foldl (higher_priority w k) (p, gp) (runnable w m k call hs) of
                  (q, gq) \<Rightarrow> set_executable w m k q gq ae)"
  using assms
proof (induction hs arbitrary: p gp kept called)
  case Nil
  then show ?case by simp
next
  case (Cons h hs)
  show ?case
  proof (cases rule: handle_cases [of w m k call h])
    case 1
    show ?thesis using Cons.IH [OF Cons.prems [unfolded scan_invalid [OF 1]]] 1 by simp
  next
    case 2
    from scan_blocked [OF 2(1) Cons.prems] Cons.prems obtain kept' where
      "scan_handles w m k True call hs (set_executable w m k p gp ae) (priority_of w k p) =
         Inr (ae', kept', called)"
      using keep_handle_InrD by metis
    from Cons.IH [OF this] 2 show ?thesis by simp
  next
    case (3 q gq)
    with Cons.prems Cons.IH show ?thesis
      by (auto simp: scan_runnable higher_priority_def simp del: scan_handles.simps
          split: if_splits dest!: note_call_InrD)
  qed
qed

text \<open>Starting from nothing chosen, the search ends with the best of all that can run.\<close>

definition best_runnable :: "world \<Rightarrow> entity_kind \<Rightarrow> (nat \<times> nat) list \<Rightarrow> nat \<times> nat" where
  "best_runnable w k cs = foldl (higher_priority w k) (hd cs) (tl cs)"

lemma scan_chooses:
  assumes "scan_handles w m k True call hs ae highest = Inr (ae', kept, called)"
    and "chosen ae k = None"
  shows "ae' = (if runnable w m k call hs = [] then ae
                else case best_runnable w k (runnable w m k call hs) of
                       (q, gq) \<Rightarrow> set_executable w m k q gq ae)"
  using assms(1)
proof (induction hs arbitrary: kept called)
  case Nil
  then show ?case by simp
next
  case (Cons h hs)
  show ?case
  proof (cases rule: handle_cases [of w m k call h])
    case 1
    show ?thesis using Cons.IH [OF Cons.prems [unfolded scan_invalid [OF 1]]] 1 by simp
  next
    case 2
    from scan_blocked [OF 2(1) Cons.prems] Cons.prems obtain kept' where
      "scan_handles w m k True call hs ae highest = Inr (ae', kept', called)"
      using keep_handle_InrD by metis
    from Cons.IH [OF this] 2 show ?thesis by simp
  next
    case (3 q gq)
    with Cons.prems assms(2) obtain called' where
      "scan_handles w m k True call hs (set_executable w m k q gq ae) (priority_of w k q) =
         Inr (ae', kept, called')"
      by (auto simp: scan_runnable simp del: scan_handles.simps dest!: note_call_InrD)
    from scan_improves [OF this] 3 show ?thesis
      by (simp add: best_runnable_def)
  qed
qed

lemma best_runnable_member: "cs \<noteq> [] \<Longrightarrow> best_runnable w k cs \<in> set cs"
  using prio.scan_member [of w k "hd cs" "tl cs"] by (cases cs) (auto simp: best_runnable_def)

lemma best_runnable_best:
  "c \<in> set cs \<Longrightarrow> priority_of w k (fst c) \<le> priority_of w k (fst (best_runnable w k cs))"
  using prio.scan_best [of c "hd cs" "tl cs" w k] by (cases cs) (auto simp: best_runnable_def)

text \<open>Without priorities: the first that can run, and the handles after it stay.\<close>

lemma scan_first:
  assumes "scan_handles w m k False call hs ae highest = Inr (ae', kept, called)"
  shows "ae' = (case runnable w m k call hs of [] \<Rightarrow> ae | (q, gq) # cs \<Rightarrow> set_executable w m k q gq ae) \<and>
         called = map fst (take 1 (runnable w m k call hs)) \<and> set kept \<subseteq> set hs"
  using assms
proof (induction hs arbitrary: kept called)
  case Nil
  then show ?case by simp
next
  case (Cons h hs)
  show ?case
  proof (cases rule: handle_cases [of w m k call h])
    case 1
    from Cons.prems have "scan_handles w m k False call hs ae highest = Inr (ae', kept, called)"
      unfolding scan_invalid [OF 1] .
    from Cons.IH [OF this] 1 show ?thesis by auto
  next
    case 2
    from scan_blocked [OF 2(1) Cons.prems] Cons.prems obtain kept' where
      "scan_handles w m k False call hs ae highest = Inr (ae', kept', called)" "kept = h # kept'"
      using keep_handle_InrD by metis
    with Cons.IH [OF this(1)] 2 show ?thesis by auto
  next
    case (3 q gq)
    with Cons.prems show ?thesis by (auto simp: scan_runnable simp del: scan_handles.simps)
  qed
qed

lemma scan_returns:
  assumes "\<And>p. \<exists>b. call p = Inr b"
  shows "\<exists>r. scan_handles w m k enabled call hs ae highest = Inr r"
proof (induction hs arbitrary: ae highest)
  case Nil
  then show ?case by simp
next
  case (Cons h hs)
  have keep: "\<exists>r. keep_handle h (scan_handles w m k enabled call hs ae highest) = Inr r" for ae highest
    using Cons.IH [of ae highest] by (auto simp: keep_handle_def)
  have noted: "\<exists>r. note_call p (scan_handles w m k enabled call hs ae highest) = Inr r" for p ae highest
    using Cons.IH [of ae highest] by (auto simp: note_call_def)
  show ?case
    using assms [of "the (handle_entity w m k h)"] Cons.IH keep noted
    by (auto split: option.splits sum.splits bool.splits)
qed

lemma candidate_SomeD:
  assumes "candidate w m k call h = Some (p, gp)"
  shows "handle_entity w m k h = Some p \<and> group_by_entity w k p m = Some gp \<and>
         group_takeable w gp \<and> call p = Inr True"
  using assms by (auto simp: candidate_def split: option.splits if_splits)

lemma runnable_memberD:
  "(p, gp) \<in> set (runnable w m k call hs) \<Longrightarrow> \<exists>h \<in> set hs. candidate w m k call h = Some (p, gp)"
  by (induction hs) (auto split: option.splits)

end
