(* ===== verification/Executor.thy ===== *)
theory Executor
  imports Memory_Strategy
begin

text \<open>
  \<open>Executor\<close> of \<open>executor.cpp\<close>: which callback groups and nodes it serves, how it waits for work,
  how it chooses the next callback with and without PiCAS priorities, and how it runs it.  The
  answers of \<open>rcl\<close> are parameters; running a callback is recorded in the list \<open>executed\<close>.
\<close>

section \<open>State\<close>

record executor =
  weak_nodes :: "nat list"
  manual_groups :: group_map
  automatic_groups :: group_map
  all_groups :: group_map
  group_conditions :: "(nat, nat) omap"
  strategy :: memory_strategy
  spinning :: bool
  priority_enabled :: bool
  executor_priority :: int
  executor_cpu :: int
  interrupt_condition :: nat
  shutdown_condition :: nat
  executed :: "(entity_kind \<times> nat) list"

text \<open>
  \<open>manual_groups\<close> is \<open>weak_groups_associated_with_executor_to_nodes_\<close>, \<open>automatic_groups\<close> is
  \<open>weak_groups_to_nodes_associated_with_executor_\<close>, \<open>all_groups\<close> is \<open>weak_groups_to_nodes_\<close> and
  \<open>group_conditions\<close> is \<open>weak_groups_to_guard_conditions_\<close>.
\<close>

type_synonym exec_state = "world \<times> executor"

definition Executor :: "nat \<Rightarrow> nat \<Rightarrow> memory_strategy \<Rightarrow> executor" where
  "Executor interrupt shutdown ms =
     \<lparr>weak_nodes = [], manual_groups = [], automatic_groups = [], all_groups = [],
      group_conditions = [],
      strategy = add_guard_condition interrupt (add_guard_condition shutdown ms),
      spinning = False, priority_enabled = False, executor_priority = 0, executor_cpu = 0,
      interrupt_condition = interrupt, shutdown_condition = shutdown, executed = []\<rparr>"

definition set_executor_priority_cpu :: "int \<Rightarrow> int \<Rightarrow> executor \<Rightarrow> executor" where
  "set_executor_priority_cpu priority cpu ex = ex\<lparr>executor_priority := priority, executor_cpu := cpu\<rparr>"

definition enable_callback_priority :: "executor \<Rightarrow> executor" where
  "enable_callback_priority ex =
     ex\<lparr>priority_enabled := True, strategy := (strategy ex)\<lparr>strategy_priority_enabled := True\<rparr>\<rparr>"

definition disable_callback_priority :: "executor \<Rightarrow> executor" where
  "disable_callback_priority ex =
     ex\<lparr>priority_enabled := False, strategy := (strategy ex)\<lparr>strategy_priority_enabled := False\<rparr>\<rparr>"

text \<open>
  \<open>set_callback_priority\<close>: for a subscription the waitables that belong to it (its intra-process
  waitable and its event handlers) receive the priority as well.
\<close>

definition give_priority :: "entity_kind \<Rightarrow> nat \<Rightarrow> int \<Rightarrow> world \<Rightarrow> world" where
  "give_priority k p priority w =
     w\<lparr>the_entity := (the_entity w)(k := (the_entity w k)(p :=
          map_option (\<lambda>e. e\<lparr>entity_priority := priority\<rparr>) (the_entity w k p)))\<rparr>"

definition set_callback_priority :: "entity_kind \<Rightarrow> nat list \<Rightarrow> nat option \<Rightarrow> int \<Rightarrow> world \<Rightarrow> world" where
  "set_callback_priority k waitables ptr priority w =
     (case ptr of
        None \<Rightarrow> w
      | Some p \<Rightarrow>
          if k = Subscription
          then foldl (\<lambda>w q. give_priority Waitable q priority w) (give_priority k p priority w) waitables
          else give_priority k p priority w)"

definition set_memory_strategy :: "memory_strategy option \<Rightarrow> executor \<Rightarrow> executor outcome" where
  "set_memory_strategy ms ex =
     (case ms of
        None \<Rightarrow> (Some (RuntimeError ''Received NULL memory strategy in executor.''), ex)
      | Some s \<Rightarrow> (None, ex\<lparr>strategy := s\<rparr>))"

section \<open>Callback groups and nodes\<close>

definition get_all_callback_groups :: "executor \<Rightarrow> nat list" where
  "get_all_callback_groups ex = map fst (manual_groups ex) @ map fst (automatic_groups ex)"

definition get_manually_added_callback_groups :: "executor \<Rightarrow> nat list" where
  "get_manually_added_callback_groups ex = map fst (manual_groups ex)"

definition get_automatically_added_callback_groups_from_nodes :: "executor \<Rightarrow> nat list" where
  "get_automatically_added_callback_groups_from_nodes ex = map fst (automatic_groups ex)"

text \<open>The map that an operation is asked to change.\<close>

datatype which_groups = Manual | Automatic

fun groups_of :: "which_groups \<Rightarrow> executor \<Rightarrow> group_map" where
  "groups_of Manual ex = manual_groups ex"
| "groups_of Automatic ex = automatic_groups ex"

fun set_groups :: "which_groups \<Rightarrow> group_map \<Rightarrow> executor \<Rightarrow> executor" where
  "set_groups Manual m ex = ex\<lparr>manual_groups := m\<rparr>"
| "set_groups Automatic m ex = ex\<lparr>automatic_groups := m\<rparr>"

text \<open>\<open>std::map::insert\<close> leaves an existing entry alone.\<close>

definition omap_insert :: "'k::linorder \<Rightarrow> 'v \<Rightarrow> ('k, 'v) omap \<Rightarrow> ('k, 'v) omap" where
  "omap_insert k v m = (if map_of m k = None then omap_set k v m else m)"

definition trigger_interrupt :: "string \<Rightarrow> exec_state \<Rightarrow> exec_state outcome" where
  "trigger_interrupt failure = (\<lambda>(w, ex).
     case trigger (interrupt_condition ex) w of
       (None, w') \<Rightarrow> (None, (w', ex))
     | (Some e, w') \<Rightarrow> (Some (RuntimeError failure), (w', ex)))"

definition watch_group :: "nat \<Rightarrow> nat \<Rightarrow> exec_state \<Rightarrow> exec_state outcome" where
  "watch_group gp np = (\<lambda>(w, ex).
     case the_node w np of
       None \<Rightarrow> (None, (w, ex))
     | Some n \<Rightarrow>
         if \<not> context_valid w (nb_context n) then (None, (w, ex))
         else
           (case get_notify_guard_condition gp (nb_context n) w of
              (Some e, w') \<Rightarrow> (Some e, (w', ex))
            | (None, w') \<Rightarrow>
                (case Option.bind (the_group w' gp) notify_condition of
                   None \<Rightarrow> (None, (w', ex))
                 | Some (gc, _) \<Rightarrow>
                     (None, (w', ex\<lparr>group_conditions := omap_set gp gc (group_conditions ex),
                                    strategy := add_guard_condition gc (strategy ex)\<rparr>)))))"

definition add_callback_group_to_map ::
    "nat \<Rightarrow> nat \<Rightarrow> which_groups \<Rightarrow> bool \<Rightarrow> exec_state \<Rightarrow> exec_state outcome" where
  "add_callback_group_to_map gp np which notify = (\<lambda>(w, ex).
     case the_group w gp of
       None \<Rightarrow> (None, (w, ex))
     | Some g \<Rightarrow>
         if group_associated g
         then (Some (RuntimeError ''Callback group has already been added to an executor.''), (w, ex))
         else
           let w1 = on_group gp (\<lambda>g. g\<lparr>group_associated := True\<rparr>) w
           in if map_of (groups_of which ex) gp \<noteq> None
              then (Some (RuntimeError ''Callback group was already added to executor.''), (w1, ex))
              else
                let ex1 = set_groups which (omap_set gp np (groups_of which ex)) ex;
                    ex2 = ex1\<lparr>all_groups := omap_insert gp np (all_groups ex1)\<rparr>
                in and_then (watch_group gp np (w1, ex2)) (\<lambda>s.
                     if notify
                     then trigger_interrupt ''Failed to trigger guard condition on callback group add: '' s
                     else (None, s)))"

definition add_callback_group :: "nat \<Rightarrow> nat \<Rightarrow> bool \<Rightarrow> exec_state \<Rightarrow> exec_state outcome" where
  "add_callback_group gp np notify = add_callback_group_to_map gp np Manual notify"

text \<open>The loop over the groups of a node: those not yet served that ask for it are added.\<close>

fun add_groups_of_node :: "nat list \<Rightarrow> nat \<Rightarrow> bool \<Rightarrow> exec_state \<Rightarrow> exec_state outcome" where
  "add_groups_of_node [] np notify s = (None, s)"
| "add_groups_of_node (gp # gps) np notify s =
     (case the_group (fst s) gp of
        None \<Rightarrow> add_groups_of_node gps np notify s
      | Some g \<Rightarrow>
          if \<not> group_associated g \<and> auto_add g
          then and_then (add_callback_group_to_map gp np Automatic notify s)
                 (add_groups_of_node gps np notify)
          else add_groups_of_node gps np notify s)"

fun add_callback_groups_from_nodes :: "nat list \<Rightarrow> exec_state \<Rightarrow> exec_state outcome" where
  "add_callback_groups_from_nodes [] s = (None, s)"
| "add_callback_groups_from_nodes (np # nps) s =
     (case the_node (fst s) np of
        None \<Rightarrow> add_callback_groups_from_nodes nps s
      | Some n \<Rightarrow>
          and_then (add_groups_of_node (live_groups (fst s) n) np True s)
            (add_callback_groups_from_nodes nps))"

definition add_callback_groups_from_nodes_associated_to_executor ::
    "exec_state \<Rightarrow> exec_state outcome" where
  "add_callback_groups_from_nodes_associated_to_executor s =
     add_callback_groups_from_nodes (weak_nodes (snd s)) s"

definition add_node :: "nat \<Rightarrow> bool \<Rightarrow> exec_state \<Rightarrow> exec_state outcome" where
  "add_node np notify = (\<lambda>(w, ex).
     case the_node w np of
       None \<Rightarrow> (None, (w, ex))
     | Some n \<Rightarrow>
         if node_associated n
         then (Some (RuntimeError (''Node '' @ [CHR 0x27] @ nb_name n @ [CHR 0x27] @ '' has already been added to an executor.'')), (w, ex))
         else
           let w1 = on_node np (\<lambda>n. n\<lparr>node_associated := True\<rparr>) w
           in and_then (add_groups_of_node (live_groups w1 n) np notify (w1, ex)) (\<lambda>(w2, ex2).
                (None, (w2, ex2\<lparr>weak_nodes := weak_nodes ex2 @ [np]\<rparr>))))"

definition has_node_in :: "world \<Rightarrow> nat \<Rightarrow> group_map \<Rightarrow> bool" where
  "has_node_in w np m \<longleftrightarrow> (\<exists>(g, n) \<in> set m. the_node w n \<noteq> None \<and> n = np)"

definition unwatch_group :: "nat \<Rightarrow> bool \<Rightarrow> exec_state \<Rightarrow> exec_state outcome" where
  "unwatch_group gp notify = (\<lambda>(w, ex).
     let ex1 = (case map_of (group_conditions ex) gp of
                  None \<Rightarrow> ex
                | Some gc \<Rightarrow> ex\<lparr>strategy := remove_guard_condition gc (strategy ex)\<rparr>);
         ex2 = ex1\<lparr>group_conditions := omap_erase gp (group_conditions ex1)\<rparr>
     in if notify
        then trigger_interrupt ''Failed to trigger guard condition on callback group remove: '' (w, ex2)
        else (None, (w, ex2)))"

definition remove_callback_group_from_map ::
    "nat \<Rightarrow> which_groups \<Rightarrow> bool \<Rightarrow> exec_state \<Rightarrow> exec_state outcome" where
  "remove_callback_group_from_map gp which notify = (\<lambda>(w, ex).
     case map_of (groups_of which ex) gp of
       None \<Rightarrow> (Some (RuntimeError ''Callback group needs to be associated with executor.''), (w, ex))
     | Some np \<Rightarrow>
         if the_node w np = None
         then (Some (RuntimeError ''Node must not be deleted before its callback group(s).''), (w, ex))
         else
           let ex1 = set_groups which (omap_erase gp (groups_of which ex)) ex;
               ex2 = ex1\<lparr>all_groups := omap_erase gp (all_groups ex1)\<rparr>;
               w1 = on_group gp (\<lambda>g. g\<lparr>group_associated := False\<rparr>) w
           in if \<not> has_node_in w1 np (automatic_groups ex2) \<and> \<not> has_node_in w1 np (manual_groups ex2)
              then unwatch_group gp notify (w1, ex2)
              else (None, (w1, ex2)))"

definition remove_callback_group :: "nat \<Rightarrow> bool \<Rightarrow> exec_state \<Rightarrow> exec_state outcome" where
  "remove_callback_group gp notify = remove_callback_group_from_map gp Manual notify"

text \<open>
  The loop of \<open>remove_node\<close> over the automatically added groups; locking an expired group gives
  the null pointer, which is in no map.
\<close>

fun remove_groups_of_node :: "group_map \<Rightarrow> nat \<Rightarrow> bool \<Rightarrow> exec_state \<Rightarrow> exec_state outcome" where
  "remove_groups_of_node [] np notify s = (None, s)"
| "remove_groups_of_node ((gp, nq) # m) np notify s =
     (if the_node (fst s) nq \<noteq> None \<and> nq = np then
        (if the_group (fst s) gp = None
         then (Some (RuntimeError ''Callback group needs to be associated with executor.''), s)
         else and_then (remove_callback_group_from_map gp Automatic notify s)
                (remove_groups_of_node m np notify))
      else remove_groups_of_node m np notify s)"

definition remove_node :: "nat \<Rightarrow> bool \<Rightarrow> exec_state \<Rightarrow> exec_state outcome" where
  "remove_node np notify = (\<lambda>(w, ex).
     case the_node w np of
       None \<Rightarrow> (None, (w, ex))
     | Some n \<Rightarrow>
         if \<not> node_associated n
         then (Some (RuntimeError ''Node needs to be associated with an executor.''), (w, ex))
         else if np \<notin> set (weak_nodes ex)
         then (Some (RuntimeError ''Node needs to be associated with this executor.''), (w, ex))
         else
           let ex1 = ex\<lparr>weak_nodes := filter (\<lambda>nq. nq \<noteq> np) (weak_nodes ex)\<rparr>
           in and_then (remove_groups_of_node (automatic_groups ex1) np notify (w, ex1)) (\<lambda>(w2, ex2).
                (None, (on_node np (\<lambda>n. n\<lparr>node_associated := False\<rparr>) w2, ex2))))"

section \<open>Waiting for work\<close>

datatype wait_status = Wait_ok | Wait_timeout | Wait_set_empty | Wait_failed

record wait_answers =
  rcl_clear_ok :: bool
  rcl_resize_ok :: bool
  rcl_add_ok :: "entity_kind \<Rightarrow> nat \<Rightarrow> bool"
  rcl_wait :: wait_status
  rcl_ready :: "entity_kind \<Rightarrow> nat \<Rightarrow> bool"
  waitable_ready :: "nat \<Rightarrow> bool"

definition forget_group :: "nat \<Rightarrow> executor \<Rightarrow> executor" where
  "forget_group gp ex =
     (let ex1 = ex\<lparr>automatic_groups := omap_erase gp (automatic_groups ex),
                   manual_groups := omap_erase gp (manual_groups ex)\<rparr>;
          ex2 = (case map_of (group_conditions ex1) gp of
                   None \<Rightarrow> ex1
                 | Some gc \<Rightarrow> ex1\<lparr>group_conditions := omap_erase gp (group_conditions ex1),
                                strategy := remove_guard_condition gc (strategy ex1)\<rparr>)
      in ex2\<lparr>all_groups := omap_erase gp (all_groups ex2)\<rparr>)"

definition expired_groups :: "world \<Rightarrow> group_map \<Rightarrow> nat list" where
  "expired_groups w m = map fst (filter (\<lambda>(gp, np). the_group w gp = None \<or> the_node w np = None) m)"

definition collect_work :: "exec_state \<Rightarrow> exec_state" where
  "collect_work = (\<lambda>(w, ex).
     let (invalid, ms) = collect_entities w (all_groups ex) (clear_handles (strategy ex));
         ex1 = ex\<lparr>strategy := ms\<rparr>
     in (w, if invalid then foldl (\<lambda>ex gp. forget_group gp ex) ex1 (expired_groups w (all_groups ex1))
            else ex1))"

definition wait_for_work :: "wait_answers \<Rightarrow> exec_state \<Rightarrow> exec_state outcome" where
  "wait_for_work ans s =
     and_then (add_callback_groups_from_nodes_associated_to_executor s) (\<lambda>s1.
       let (w, ex) = collect_work s1
       in if \<not> rcl_clear_ok ans then (Some (RCLError ''Couldn't clear wait set''), (w, ex))
          else if \<not> rcl_resize_ok ans then (Some (RCLError ''Couldn't resize the wait set''), (w, ex))
          else if \<not> fst (add_handles_to_wait_set (rcl_add_ok ans) (strategy ex)
                      \<lparr>waiting = (\<lambda>_. []), waiting_conditions = []\<rparr>)
          then (Some (RuntimeError ''Couldn't fill wait set''), (w, ex))
          else if rcl_wait ans = Wait_failed then (Some (RCLError ''rcl_wait() failed''), (w, ex))
          else (None, (w, ex\<lparr>strategy := remove_null_handles (rcl_ready ans) (waitable_ready ans) (strategy ex)\<rparr>)))"

section \<open>Choosing the next callback\<close>

definition clear_kinds :: "entity_kind list \<Rightarrow> any_executable \<Rightarrow> any_executable" where
  "clear_kinds ks ae = ae\<lparr>chosen := (\<lambda>k. if k \<in> set ks then None else chosen ae k)\<rparr>"

text \<open>
  One comparison of the priority-driven choice: an entity of kind \<open>k\<close> replaces what was chosen
  before when its priority is strictly higher, and is dropped otherwise.
\<close>

definition prefer_higher ::
    "world \<Rightarrow> entity_kind \<Rightarrow> entity_kind list \<Rightarrow> any_executable \<times> int \<Rightarrow> any_executable \<times> int" where
  "prefer_higher w k earlier = (\<lambda>(ae, highest).
     case chosen ae k of
       Some p \<Rightarrow>
         if highest < priority_of w k p then (clear_kinds earlier ae, priority_of w k p)
         else (clear_kinds [k] ae, highest)
     | None \<Rightarrow> (ae, highest))"

definition prefer_next ::
    "world \<Rightarrow> group_map \<Rightarrow> entity_kind \<Rightarrow> entity_kind list \<Rightarrow>
     (any_executable \<times> memory_strategy) \<times> int \<Rightarrow> (any_executable \<times> memory_strategy) \<times> int" where
  "prefer_next w m k earlier = (\<lambda>(s, highest).
     let (ae, ms) = get_next_plain w m k s;
         (ae', highest') = prefer_higher w k earlier (ae, highest)
     in ((ae', ms), highest'))"

text \<open>The data of a waitable is taken when the waitable is chosen.\<close>

definition take_data :: "any_executable \<Rightarrow> any_executable" where
  "take_data ae = (case chosen ae Waitable of None \<Rightarrow> ae | Some p \<Rightarrow> ae\<lparr>exec_data := Some p\<rparr>)"

definition choose_by_priority ::
    "world \<Rightarrow> group_map \<Rightarrow> (nat \<Rightarrow> rcl_ret) \<Rightarrow> any_executable \<times> memory_strategy \<Rightarrow>
     rclcpp_exn + (bool \<times> any_executable \<times> memory_strategy) \<times> nat list" where
  "choose_by_priority w m rcl_timer_call s =
     (case get_next_timer w m rcl_timer_call s of
        Inl e \<Rightarrow> Inl e
      | Inr (s1, called) \<Rightarrow>
          let h1 = (case chosen (fst s1) Timer of None \<Rightarrow> - 1 | Some p \<Rightarrow> priority_of w Timer p);
              r2 = prefer_next w m Subscription [Timer] (s1, h1);
              r3 = prefer_next w m Service [Timer, Subscription] r2;
              r4 = prefer_next w m Client [Timer, Subscription, Service] r3;
              r5 = prefer_next w m Waitable [Timer, Subscription, Service, Client] r4;
              ((ae, ms), highest) = r5
          in Inr ((highest \<ge> 0, take_data ae, ms), called))"

definition first_found ::
    "world \<Rightarrow> group_map \<Rightarrow> entity_kind \<Rightarrow> bool \<times> any_executable \<times> memory_strategy \<Rightarrow>
     bool \<times> any_executable \<times> memory_strategy" where
  "first_found w m k = (\<lambda>(success, s).
     if success then (success, s)
     else let (ae, ms) = get_next_plain w m k s in (chosen ae k \<noteq> None, (ae, ms)))"

definition choose_first ::
    "world \<Rightarrow> group_map \<Rightarrow> (nat \<Rightarrow> rcl_ret) \<Rightarrow> any_executable \<times> memory_strategy \<Rightarrow>
     rclcpp_exn + (bool \<times> any_executable \<times> memory_strategy) \<times> nat list" where
  "choose_first w m rcl_timer_call s =
     (case get_next_timer w m rcl_timer_call s of
        Inl e \<Rightarrow> Inl e
      | Inr (s1, called) \<Rightarrow>
          let r4 = first_found w m Client (first_found w m Service (first_found w m Subscription
                     (chosen (fst s1) Timer \<noteq> None, s1)));
              (success, ae, ms) = first_found w m Waitable r4
          in Inr ((success, (if fst r4 then ae else take_data ae), ms), called))"

text \<open>The last part of \<open>get_next_ready_executable_from_map\<close>: taking the callback group.\<close>

definition take_group ::
    "group_map \<Rightarrow> bool \<Rightarrow> any_executable \<Rightarrow> world \<Rightarrow> bool \<times> world" where
  "take_group m success ae w =
     (if \<not> success then (False, w)
      else
        (case exec_group ae of
           None \<Rightarrow> (False, w)
         | Some gp \<Rightarrow>
             if map_of m gp = None then (False, w)
             else (True, on_group gp (\<lambda>g. if cg_type g = MutuallyExclusive
                                           then g\<lparr>can_be_taken_from := False\<rparr> else g) w)))"

definition get_next_ready_executable_from_map ::
    "(nat \<Rightarrow> rcl_ret) \<Rightarrow> group_map \<Rightarrow> any_executable \<Rightarrow> exec_state \<Rightarrow>
     rclcpp_exn + (bool \<times> any_executable \<times> exec_state) \<times> nat list" where
  "get_next_ready_executable_from_map rcl_timer_call m ae = (\<lambda>(w, ex).
     case (if priority_enabled ex then choose_by_priority else choose_first)
            w m rcl_timer_call (ae, strategy ex) of
       Inl e \<Rightarrow> Inl e
     | Inr ((success, ae', ms), called) \<Rightarrow>
         let (ok, w') = take_group m success ae' w
         in Inr ((ok, ae', (w', ex\<lparr>strategy := ms\<rparr>)), called))"

definition get_next_ready_executable ::
    "(nat \<Rightarrow> rcl_ret) \<Rightarrow> any_executable \<Rightarrow> exec_state \<Rightarrow>
     rclcpp_exn + (bool \<times> any_executable \<times> exec_state) \<times> nat list" where
  "get_next_ready_executable rcl_timer_call ae s =
     get_next_ready_executable_from_map rcl_timer_call (all_groups (snd s)) ae s"

text \<open>
  \<open>get_next_executable\<close>: without priorities what is left from the last wait is used up first; with
  priorities every choice is preceded by a wait.
\<close>

definition get_next_executable ::
    "wait_answers \<Rightarrow> (nat \<Rightarrow> rcl_ret) \<Rightarrow> (nat \<Rightarrow> rcl_ret) \<Rightarrow> any_executable \<Rightarrow> exec_state \<Rightarrow>
     rclcpp_exn + (bool \<times> any_executable \<times> exec_state) \<times> nat list" where
  "get_next_executable ans before after ae s =
     (case (if priority_enabled (snd s) then Inr ((False, ae, s), [])
            else get_next_ready_executable before ae s) of
        Inl e \<Rightarrow> Inl e
      | Inr ((True, ae1, s1), called) \<Rightarrow> Inr ((True, ae1, s1), called)
      | Inr ((False, ae1, s1), called) \<Rightarrow>
          (case wait_for_work ans s1 of
             (Some e, s2) \<Rightarrow> Inl e
           | (None, s2) \<Rightarrow>
               if \<not> spinning (snd s2) then Inr ((False, ae1, s2), called)
               else (case get_next_ready_executable after ae1 s2 of
                       Inl e \<Rightarrow> Inl e
                     | Inr (r, called') \<Rightarrow> Inr (r, called @ called'))))"

section \<open>Running it\<close>

definition release_group :: "any_executable \<Rightarrow> world \<Rightarrow> world" where
  "release_group ae w =
     (case exec_group ae of None \<Rightarrow> w | Some gp \<Rightarrow> on_group gp (\<lambda>g. g\<lparr>can_be_taken_from := True\<rparr>) w)"

definition callbacks_of :: "any_executable \<Rightarrow> (entity_kind \<times> nat) list" where
  "callbacks_of ae =
     List.map_filter (\<lambda>k. map_option (Pair k) (chosen ae k)) [Timer, Subscription, Service, Client, Waitable]"

definition execute_any_executable :: "any_executable \<Rightarrow> exec_state \<Rightarrow> exec_state outcome" where
  "execute_any_executable ae = (\<lambda>(w, ex).
     if \<not> spinning ex then (None, (w, ex))
     else trigger_interrupt ''Failed to trigger guard condition from execute_any_executable: ''
            (release_group ae w, ex\<lparr>executed := executed ex @ callbacks_of ae\<rparr>))"

text \<open>
  One turn of \<open>SingleThreadedExecutor::spin\<close> (and of \<open>spin_rt\<close>, \<open>spin_cpu\<close> and \<open>spin_deadline\<close>,
  whose loops are the same): the executable is destroyed at the end of the turn, which releases
  its group once more.
\<close>

definition spin_turn ::
    "wait_answers \<times> (nat \<Rightarrow> rcl_ret) \<times> (nat \<Rightarrow> rcl_ret) \<Rightarrow> exec_state \<Rightarrow> rclcpp_exn + exec_state" where
  "spin_turn = (\<lambda>(ans, before, after) s.
     case get_next_executable ans before after AnyExecutable s of
       Inl e \<Rightarrow> Inl e
     | Inr ((success, ae, s1), called) \<Rightarrow>
         (case (if success then execute_any_executable ae s1 else (None, s1)) of
            (Some e, s2) \<Rightarrow> Inl e
          | (None, (w, ex)) \<Rightarrow> Inr (release_group ae w, ex)))"

text \<open>
  \<open>spin\<close> over the turns the environment grants before the context becomes invalid or the executor
  is cancelled; the flag is cleared when the loop is left.
\<close>

fun spin_turns ::
    "(wait_answers \<times> (nat \<Rightarrow> rcl_ret) \<times> (nat \<Rightarrow> rcl_ret)) list \<Rightarrow> exec_state \<Rightarrow> rclcpp_exn + exec_state" where
  "spin_turns [] s = Inr s"
| "spin_turns (t # ts) s =
     (if \<not> spinning (snd s) then Inr s
      else case spin_turn t s of Inl e \<Rightarrow> Inl e | Inr s' \<Rightarrow> spin_turns ts s')"

definition spin ::
    "(wait_answers \<times> (nat \<Rightarrow> rcl_ret) \<times> (nat \<Rightarrow> rcl_ret)) list \<Rightarrow> exec_state \<Rightarrow> rclcpp_exn + exec_state" where
  "spin turns = (\<lambda>(w, ex).
     if spinning ex then Inl (RuntimeError ''spin() called while already spinning'')
     else case spin_turns turns (w, ex\<lparr>spinning := True\<rparr>) of
            Inl e \<Rightarrow> Inl e
          | Inr (w', ex') \<Rightarrow> Inr (w', ex'\<lparr>spinning := False\<rparr>))"

definition spin_once_impl ::
    "wait_answers \<times> (nat \<Rightarrow> rcl_ret) \<times> (nat \<Rightarrow> rcl_ret) \<Rightarrow> exec_state \<Rightarrow> rclcpp_exn + exec_state" where
  "spin_once_impl = spin_turn"

definition spin_once ::
    "wait_answers \<times> (nat \<Rightarrow> rcl_ret) \<times> (nat \<Rightarrow> rcl_ret) \<Rightarrow> exec_state \<Rightarrow> rclcpp_exn + exec_state" where
  "spin_once t = (\<lambda>(w, ex).
     if spinning ex then Inl (RuntimeError ''spin_once() called while already spinning'')
     else case spin_once_impl t (w, ex\<lparr>spinning := True\<rparr>) of
            Inl e \<Rightarrow> Inl e
          | Inr (w', ex') \<Rightarrow> Inr (w', ex'\<lparr>spinning := False\<rparr>))"

text \<open>
  The loop of \<open>spin_some\<close> and \<open>spin_all\<close>: a turn waits only when the turn before found nothing;
  each turn of the list is one for which the context is valid and the time is not up.
\<close>

fun spin_some_turns ::
    "(wait_answers \<times> (nat \<Rightarrow> rcl_ret)) list \<Rightarrow> bool \<Rightarrow> bool \<Rightarrow> exec_state \<Rightarrow> rclcpp_exn + exec_state" where
  "spin_some_turns [] exhaustive work_available s = Inr s"
| "spin_some_turns ((ans, after) # ts) exhaustive work_available s =
     (if \<not> spinning (snd s) then Inr s
      else
        case (if work_available then (None, s) else wait_for_work ans s) of
          (Some e, s1) \<Rightarrow> Inl e
        | (None, s1) \<Rightarrow>
            (case get_next_ready_executable after AnyExecutable s1 of
               Inl e \<Rightarrow> Inl e
             | Inr ((True, ae, s2), called) \<Rightarrow>
                 (case execute_any_executable ae s2 of
                    (Some e, s3) \<Rightarrow> Inl e
                  | (None, (w, ex)) \<Rightarrow> spin_some_turns ts exhaustive True (release_group ae w, ex))
             | Inr ((False, ae, (w, ex)), called) \<Rightarrow>
                 if \<not> work_available \<or> \<not> exhaustive then Inr (release_group ae w, ex)
                 else spin_some_turns ts exhaustive False (release_group ae w, ex)))"

definition spin_some_impl ::
    "(wait_answers \<times> (nat \<Rightarrow> rcl_ret)) list \<Rightarrow> bool \<Rightarrow> exec_state \<Rightarrow> rclcpp_exn + exec_state" where
  "spin_some_impl turns exhaustive = (\<lambda>(w, ex).
     if spinning ex then Inl (RuntimeError ''spin_some() called while already spinning'')
     else case spin_some_turns turns exhaustive False (w, ex\<lparr>spinning := True\<rparr>) of
            Inl e \<Rightarrow> Inl e
          | Inr (w', ex') \<Rightarrow> Inr (w', ex'\<lparr>spinning := False\<rparr>))"

definition cancel :: "exec_state \<Rightarrow> exec_state outcome" where
  "cancel = (\<lambda>(w, ex).
     trigger_interrupt ''Failed to trigger guard condition in cancel: '' (w, ex\<lparr>spinning := False\<rparr>))"

end
