(* ===== verification/Scheduling.thy ===== *)
theory Scheduling
  imports Executor
begin

text \<open>
  What the executor's choice guarantees: with PiCAS priorities the callback chosen has the highest
  priority of all that can run; without them the kinds are served in a fixed order.  Two effects of
  the priority-driven search that its callers may not expect are proved as well: every timer that
  is ready is marked as called although at most one runs, and the callback group that is taken may
  belong to another callback than the one chosen.
\<close>

section \<open>One search with priorities\<close>

text \<open>\<open>ready_now\<close> lists the entities of a kind that can run now, with their groups.\<close>

definition calls :: "(nat \<Rightarrow> rcl_ret) \<Rightarrow> entity_kind \<Rightarrow> nat \<Rightarrow> rclcpp_exn + bool" where
  "calls rcl_timer_call k = (if k = Timer then timer_call rcl_timer_call else (\<lambda>_. Inr True))"

definition ready_now ::
    "world \<Rightarrow> group_map \<Rightarrow> (nat \<Rightarrow> rcl_ret) \<Rightarrow> memory_strategy \<Rightarrow> entity_kind \<Rightarrow> (nat \<times> nat) list" where
  "ready_now w m rcl_timer_call ms k = runnable w m k (calls rcl_timer_call k) (handles ms k)"

lemma get_next_priority:
  assumes "get_next w m k call (ae, ms) = Inr ((ae', ms'), called)"
    and "strategy_priority_enabled ms" and "chosen ae k = None"
  shows "ae' = (if runnable w m k call (handles ms k) = [] then ae
                else case best_runnable w k (runnable w m k call (handles ms k)) of
                       (q, gq) \<Rightarrow> set_executable w m k q gq ae) \<and>
         ms' = ms\<lparr>handles := (handles ms)(k := filter (blocked w m k call) (handles ms k))\<rparr> \<and>
         called = map fst (runnable w m k call (handles ms k))"
proof -
  from assms obtain kept where
    scan: "scan_handles w m k True call (handles ms k) ae (- 1) = Inr (ae', kept, called)"
    and ms': "ms' = ms\<lparr>handles := (handles ms)(k := kept)\<rparr>"
    by (auto simp: get_next_def split: sum.splits)
  from scan_chooses [OF scan assms(3)] scan_lists [OF scan] ms' show ?thesis by blast
qed

lemma get_next_plain_priority:
  assumes "get_next_plain w m k (ae, ms) = (ae', ms')"
    and "strategy_priority_enabled ms" and "chosen ae k = None"
  defines "cs \<equiv> runnable w m k (\<lambda>_. Inr True) (handles ms k)"
  shows "ae' = (if cs = [] then ae
                else case best_runnable w k cs of (q, gq) \<Rightarrow> set_executable w m k q gq ae) \<and>
         ms' = ms\<lparr>handles := (handles ms)(k := filter (blocked w m k (\<lambda>_. Inr True)) (handles ms k))\<rparr>"
proof -
  obtain r where "scan_handles w m k (strategy_priority_enabled ms) (\<lambda>_. Inr True) (handles ms k) ae (- 1) = Inr r"
    using scan_returns [of "\<lambda>_. Inr True"] by blast
  with assms(1) obtain called where "get_next w m k (\<lambda>_. Inr True) (ae, ms) = Inr ((ae', ms'), called)"
    by (auto simp: get_next_plain_def get_next_def split: prod.splits)
  from get_next_priority [OF this assms(2,3)] show ?thesis by (simp add: cs_def)
qed

section \<open>The comparison across kinds\<close>

text \<open>
  After the kinds in \<open>done\<close> have been searched, a non-negative \<open>highest\<close> belongs to the one callback
  chosen so far, and nothing that can run has a higher priority.
\<close>

definition champion ::
    "world \<Rightarrow> group_map \<Rightarrow> (entity_kind \<Rightarrow> (nat \<times> nat) list) \<Rightarrow> entity_kind set \<Rightarrow> any_executable \<Rightarrow> int \<Rightarrow> bool" where
  "champion w m R searched ae highest \<longleftrightarrow>
     (\<forall>k. k \<notin> searched \<longrightarrow> chosen ae k = None) \<and>
     (highest \<ge> 0 \<longrightarrow>
        (\<exists>k \<in> searched. \<exists>c \<in> set (R k). chosen ae = (\<lambda>_. None)(k \<mapsto> fst c) \<and> priority_of w k (fst c) = highest) \<and>
        (\<exists>gp. exec_group ae = Some gp \<and> map_of m gp \<noteq> None)) \<and>
     (\<forall>k \<in> searched. \<forall>c \<in> set (R k). priority_of w k (fst c) \<le> max highest (- 1))"

lemma championI:
  assumes "\<And>k. k \<notin> searched \<Longrightarrow> chosen ae k = None"
    and "highest \<ge> 0 \<Longrightarrow> \<exists>k \<in> searched. \<exists>c \<in> set (R k).
           chosen ae = (\<lambda>_. None)(k \<mapsto> fst c) \<and> priority_of w k (fst c) = highest"
    and "highest \<ge> 0 \<Longrightarrow> \<exists>gp. exec_group ae = Some gp \<and> map_of m gp \<noteq> None"
    and "\<And>k c. k \<in> searched \<Longrightarrow> c \<in> set (R k) \<Longrightarrow> priority_of w k (fst c) \<le> max highest (- 1)"
  shows "champion w m R searched ae highest"
  using assms unfolding champion_def by blast

lemma championD:
  assumes "champion w m R searched ae highest"
  shows "k \<notin> searched \<Longrightarrow> chosen ae k = None"
    and "highest \<ge> 0 \<Longrightarrow> \<exists>k \<in> searched. \<exists>c \<in> set (R k).
           chosen ae = (\<lambda>_. None)(k \<mapsto> fst c) \<and> priority_of w k (fst c) = highest"
    and "highest \<ge> 0 \<Longrightarrow> \<exists>gp. exec_group ae = Some gp \<and> map_of m gp \<noteq> None"
    and "k \<in> searched \<Longrightarrow> c \<in> set (R k) \<Longrightarrow> priority_of w k (fst c) \<le> max highest (- 1)"
  using assms unfolding champion_def by blast+

lemma runnable_group_in_map:
  assumes "(p, gp) \<in> set (runnable w m k call hs)"
  shows "map_of m gp \<noteq> None"
proof -
  from runnable_memberD [OF assms] obtain h where "candidate w m k call h = Some (p, gp)" ..
  then have "group_by_entity w k p m = Some gp" by (simp add: candidate_SomeD)
  from group_by_entity_SomeD [OF this] obtain np where "(gp, np) \<in> set m" by blast
  then show ?thesis by (simp add: map_of_eq_None_iff) force
qed

lemma champion_stage:
  assumes inv: "champion w m R (set earlier) ae highest"
    and new: "k \<notin> set earlier"
    and R: "R k = runnable w m k (\<lambda>_. Inr True) (handles ms k)"
    and enabled: "strategy_priority_enabled ms"
    and step: "prefer_next w m k earlier ((ae, ms), highest) = ((ae', ms'), highest')"
  shows "champion w m R (insert k (set earlier)) ae' highest'"
proof -
  from inv new have none: "chosen ae k = None" by (simp add: champion_def)
  obtain ae1 where next1: "get_next_plain w m k (ae, ms) = (ae1, ms')"
    and pref: "prefer_higher w k earlier (ae1, highest) = (ae', highest')"
    using step by (auto simp: prefer_next_def split: prod.splits)
  note ae1 = conjunct1 [OF get_next_plain_priority [OF next1 enabled none], folded R]
  show ?thesis
  proof (cases "R k = []")
    case True
    with ae1 pref none have "ae' = ae" "highest' = highest" by (simp_all add: prefer_higher_def)
    with inv True show ?thesis by (auto simp: champion_def)
  next
    case False
    obtain q gq where best: "best_runnable w k (R k) = (q, gq)" by fastforce
    from best_runnable_member [OF False, of w k] have mem: "(q, gq) \<in> set (R k)" by (simp add: best)
    have top: "priority_of w k (fst c) \<le> priority_of w k q" if "c \<in> set (R k)" for c
      using best_runnable_best [OF that, of w k] by (simp add: best)
    from ae1 False best have ae1': "ae1 = set_executable w m k q gq ae" by simp
    from mem R have gq: "map_of m gq \<noteq> None" using runnable_group_in_map by metis
    show ?thesis
    proof (cases "highest < priority_of w k q")
      case True
      with pref ae1' have res: "ae' = clear_kinds earlier ae1" "highest' = priority_of w k q"
        by (simp_all add: prefer_higher_def)
      have "chosen ae' = (\<lambda>_. None)(k \<mapsto> q)"
        using inv new by (auto simp: res ae1' clear_kinds_def champion_def fun_eq_iff)
      moreover have "exec_group ae' = Some gq" by (simp add: res ae1' clear_kinds_def)
      ultimately show ?thesis
        unfolding res(2)
      proof (intro championI)
        fix j c
        assume "j \<in> insert k (set earlier)" "c \<in> set (R j)"
        then show "priority_of w j (fst c) \<le> max (priority_of w k q) (- 1)"
          using championD(4) [OF inv, of j c] top [of c] True by fastforce
      next
        assume "chosen ae' = (\<lambda>_. None)(k \<mapsto> q)"
        with mem show "\<exists>j \<in> insert k (set earlier). \<exists>c \<in> set (R j).
            chosen ae' = (\<lambda>_. None)(j \<mapsto> fst c) \<and> priority_of w j (fst c) = priority_of w k q"
          by (intro bexI [of _ k] bexI [of _ "(q, gq)"]) simp_all
      qed (use gq in auto)
    next
      case False
      with pref ae1' have res: "ae' = clear_kinds [k] ae1" "highest' = highest"
        by (simp_all add: prefer_higher_def)
      have "chosen ae' = chosen ae"
        using none by (auto simp: res ae1' clear_kinds_def fun_eq_iff)
      moreover have "exec_group ae' = Some gq" by (simp add: res ae1' clear_kinds_def)
      ultimately show ?thesis
        unfolding res(2)
      proof (intro championI)
        fix j c
        assume "j \<in> insert k (set earlier)" "c \<in> set (R j)"
        then show "priority_of w j (fst c) \<le> max highest (- 1)"
          using championD(4) [OF inv, of j c] top [of c] False by fastforce
      next
        assume "highest \<ge> 0" "chosen ae' = chosen ae"
        with championD(2) [OF inv] show "\<exists>j \<in> insert k (set earlier). \<exists>c \<in> set (R j).
            chosen ae' = (\<lambda>_. None)(j \<mapsto> fst c) \<and> priority_of w j (fst c) = highest"
          by (metis insertI2)
      qed (use gq championD(1) [OF inv] in auto)
    qed
  qed
qed

lemma get_next_strategy:
  assumes "get_next w m k call (ae, ms) = Inr ((ae', ms'), called)"
  shows "strategy_priority_enabled ms' = strategy_priority_enabled ms"
    and "j \<noteq> k \<Longrightarrow> handles ms' j = handles ms j"
    and "guard_conditions ms' = guard_conditions ms"
  using assms by (auto simp: get_next_def split: sum.splits)

lemma get_next_plain_Inr:
  "\<exists>called. get_next w m k (\<lambda>_. Inr True) s = Inr (get_next_plain w m k s, called)"
proof -
  obtain ae ms where s: "s = (ae, ms)" by fastforce
  obtain r where "scan_handles w m k (strategy_priority_enabled ms) (\<lambda>_. Inr True) (handles ms k) ae (- 1) = Inr r"
    using scan_returns [of "\<lambda>_. Inr True"] by blast
  then show ?thesis by (auto simp: s get_next_plain_def get_next_def split: prod.splits)
qed

lemma prefer_next_strategy:
  assumes "prefer_next w m k earlier ((ae, ms), highest) = ((ae', ms'), highest')"
  shows "strategy_priority_enabled ms' = strategy_priority_enabled ms"
    and "j \<noteq> k \<Longrightarrow> handles ms' j = handles ms j"
proof -
  obtain ae1 where "get_next_plain w m k (ae, ms) = (ae1, ms')"
    using assms by (auto simp: prefer_next_def split: prod.splits)
  with get_next_plain_Inr [of w m k "(ae, ms)"] obtain called where
    "get_next w m k (\<lambda>_. Inr True) (ae, ms) = Inr ((ae1, ms'), called)" by auto
  from get_next_strategy(1,2) [OF this]
  show "strategy_priority_enabled ms' = strategy_priority_enabled ms"
    and "j \<noteq> k \<Longrightarrow> handles ms' j = handles ms j" by auto
qed

lemma champion_timer:
  assumes "get_next_timer w m rcl_timer_call (AnyExecutable, ms) = Inr ((ae, ms'), called)"
    and "strategy_priority_enabled ms"
    and R: "R Timer = runnable w m Timer (timer_call rcl_timer_call) (handles ms Timer)"
  shows "champion w m R {Timer} ae
           (case chosen ae Timer of None \<Rightarrow> - 1 | Some p \<Rightarrow> priority_of w Timer p)"
proof -
  from get_next_priority [OF assms(1) [unfolded get_next_timer_def] assms(2)] R
  have ae: "ae = (if R Timer = [] then AnyExecutable
                  else case best_runnable w Timer (R Timer) of (q, gq) \<Rightarrow> set_executable w m Timer q gq AnyExecutable)"
    by (simp add: AnyExecutable_def)
  show ?thesis
  proof (cases "R Timer = []")
    case True
    with ae show ?thesis by (simp add: champion_def AnyExecutable_def)
  next
    case False
    obtain q gq where best: "best_runnable w Timer (R Timer) = (q, gq)" by fastforce
    from best_runnable_member [OF False, of w Timer] have mem: "(q, gq) \<in> set (R Timer)"
      by (simp add: best)
    from ae False best have c: "chosen ae = (\<lambda>_. None)(Timer \<mapsto> q)" "exec_group ae = Some gq"
      by (simp_all add: AnyExecutable_def)
    show ?thesis
    proof (intro championI)
      fix k c
      assume "k \<in> {Timer}" "c \<in> set (R k)"
      then show "priority_of w k (fst c) \<le>
          max (case chosen ae Timer of None \<Rightarrow> - 1 | Some p \<Rightarrow> priority_of w Timer p) (- 1)"
        using best_runnable_best [of c "R Timer" w Timer] by (simp add: best c)
    next
      show "\<exists>k \<in> {Timer}. \<exists>ca \<in> set (R k). chosen ae = (\<lambda>_. None)(k \<mapsto> fst ca) \<and>
          priority_of w k (fst ca) = (case chosen ae Timer of None \<Rightarrow> - 1 | Some p \<Rightarrow> priority_of w Timer p)"
        using mem by (intro bexI [of _ Timer] bexI [of _ "(q, gq)"]) (simp_all add: c)
    next
      from mem R have "map_of m gq \<noteq> None" using runnable_group_in_map by metis
      then show "\<exists>gp. exec_group ae = Some gp \<and> map_of m gp \<noteq> None" by (simp add: c)
    qed (simp_all add: c)
  qed
qed

lemma choose_by_priority_champion:
  assumes "choose_by_priority w m rcl_timer_call (AnyExecutable, ms) = Inr ((success, ae, ms'), called)"
    and enabled: "strategy_priority_enabled ms"
  shows "\<exists>ae0 highest. champion w m (ready_now w m rcl_timer_call ms) UNIV ae0 highest \<and>
           ae = take_data ae0 \<and> (success \<longleftrightarrow> highest \<ge> 0) \<and>
           called = map fst (ready_now w m rcl_timer_call ms Timer) \<and>
           handles ms' Timer = filter (blocked w m Timer (timer_call rcl_timer_call)) (handles ms Timer)"
proof -
  let ?R = "ready_now w m rcl_timer_call ms"
  obtain ae1 ms1 where t: "get_next_timer w m rcl_timer_call (AnyExecutable, ms) = Inr ((ae1, ms1), called)"
    using assms(1) by (auto simp: choose_by_priority_def Let_def split: sum.splits prod.splits)
  define h1 where "h1 = (case chosen ae1 Timer of None \<Rightarrow> - 1 | Some p \<Rightarrow> priority_of w Timer p)"
  obtain ae2 ms2 h2 where s2: "prefer_next w m Subscription [Timer] ((ae1, ms1), h1) = ((ae2, ms2), h2)"
    by (metis prod.exhaust)
  obtain ae3 ms3 h3 where s3: "prefer_next w m Service [Timer, Subscription] ((ae2, ms2), h2) = ((ae3, ms3), h3)"
    by (metis prod.exhaust)
  obtain ae4 ms4 h4 where s4:
    "prefer_next w m Client [Timer, Subscription, Service] ((ae3, ms3), h3) = ((ae4, ms4), h4)"
    by (metis prod.exhaust)
  obtain ae5 ms5 h5 where s5:
    "prefer_next w m Waitable [Timer, Subscription, Service, Client] ((ae4, ms4), h4) = ((ae5, ms5), h5)"
    by (metis prod.exhaust)
  have res: "ae = take_data ae5" "success \<longleftrightarrow> h5 \<ge> 0" "ms' = ms5"
    using assms(1) t s2 s3 s4 s5 by (simp_all add: choose_by_priority_def Let_def h1_def)
  note keep1 = get_next_strategy [OF t [unfolded get_next_timer_def]]
  note keeps = keep1(1,2) prefer_next_strategy [OF s2] prefer_next_strategy [OF s3]
    prefer_next_strategy [OF s4] prefer_next_strategy [OF s5]
  have none: "chosen AnyExecutable Timer = None" by (simp add: AnyExecutable_def)
  from get_next_priority [OF t [unfolded get_next_timer_def] enabled none]
  have timers: "called = map fst (?R Timer)"
    "handles ms1 Timer = filter (blocked w m Timer (timer_call rcl_timer_call)) (handles ms Timer)"
    by (simp_all add: ready_now_def calls_def)
  have c1: "champion w m ?R {Timer} ae1 h1"
    unfolding h1_def by (rule champion_timer [OF t enabled]) (simp add: ready_now_def calls_def)
  have c2: "champion w m ?R {Subscription, Timer} ae2 h2"
    using champion_stage [OF _ _ _ _ s2, of ?R] c1 enabled keeps by (simp add: ready_now_def calls_def)
  have c3: "champion w m ?R {Service, Timer, Subscription} ae3 h3"
    using champion_stage [OF _ _ _ _ s3, of ?R] c2 enabled keeps
    by (simp add: ready_now_def calls_def insert_commute)
  have c4: "champion w m ?R {Client, Timer, Subscription, Service} ae4 h4"
    using champion_stage [OF _ _ _ _ s4, of ?R] c3 enabled keeps
    by (simp add: ready_now_def calls_def insert_commute)
  have "champion w m ?R {Waitable, Timer, Subscription, Service, Client} ae5 h5"
    using champion_stage [OF _ _ _ _ s5, of ?R] c4 enabled keeps
    by (simp add: ready_now_def calls_def insert_commute)
  moreover have "{Waitable, Timer, Subscription, Service, Client} = UNIV"
    using entity_kind.exhaust by auto
  ultimately show ?thesis using res timers keeps by (metis entity_kind.distinct(1,3,5,7))
qed

section \<open>The choice with priorities\<close>

lemma take_data_simps [simp]:
  "chosen (take_data ae) = chosen ae" "exec_group (take_data ae) = exec_group ae"
  by (simp_all add: take_data_def split: option.splits)

lemma priority_choice_parts:
  assumes "priority_enabled ex" and "strategy_priority_enabled (strategy ex)"
    and "get_next_ready_executable rcl_timer_call AnyExecutable (w, ex) = Inr ((ok, ae, s'), called)"
  obtains ae0 highest where
    "champion w (all_groups ex) (ready_now w (all_groups ex) rcl_timer_call (strategy ex)) UNIV ae0 highest"
    "ae = take_data ae0" "ok \<longleftrightarrow> highest \<ge> 0"
    "called = map fst (ready_now w (all_groups ex) rcl_timer_call (strategy ex) Timer)"
    "handles (strategy (snd s')) Timer =
       filter (blocked w (all_groups ex) Timer (timer_call rcl_timer_call)) (handles (strategy ex) Timer)"
proof -
  from assms(1,3) obtain success ms where
    c: "choose_by_priority w (all_groups ex) rcl_timer_call (AnyExecutable, strategy ex) =
          Inr ((success, ae, ms), called)"
    and t: "ok = fst (take_group (all_groups ex) success ae w)" and ms: "strategy (snd s') = ms"
    by (auto simp: get_next_ready_executable_def get_next_ready_executable_from_map_def Let_def
        split: sum.splits prod.splits)
  from choose_by_priority_champion [OF c assms(2)] obtain ae0 highest where
    ch: "champion w (all_groups ex) (ready_now w (all_groups ex) rcl_timer_call (strategy ex)) UNIV ae0 highest"
    and ae: "ae = take_data ae0" and su: "success \<longleftrightarrow> highest \<ge> 0"
    and timers: "called = map fst (ready_now w (all_groups ex) rcl_timer_call (strategy ex) Timer)"
      "handles ms Timer =
         filter (blocked w (all_groups ex) Timer (timer_call rcl_timer_call)) (handles (strategy ex) Timer)"
    by blast
  have "ok \<longleftrightarrow> highest \<ge> 0"
    using t su ae championD(3) [OF ch] by (auto simp: take_group_def)
  with ch ae show thesis using that timers ms by blast
qed

text \<open>
  Claim C6.  With callback priorities enabled, the executor finds something to run exactly when
  some callback that can run has a priority of at least zero; it then chooses one callback alone,
  that callback can run, and no callback of any kind that can run has a higher priority.
\<close>

theorem highest_priority_runs:
  assumes "priority_enabled ex" and "strategy_priority_enabled (strategy ex)"
    and "get_next_ready_executable rcl_timer_call AnyExecutable (w, ex) = Inr ((ok, ae, s'), called)"
  defines "R \<equiv> ready_now w (all_groups ex) rcl_timer_call (strategy ex)"
  shows "(ok \<longleftrightarrow> (\<exists>k. \<exists>c \<in> set (R k). priority_of w k (fst c) \<ge> 0)) \<and>
         (ok \<longrightarrow> (\<exists>k. \<exists>c \<in> set (R k). chosen ae = (\<lambda>_. None)(k \<mapsto> fst c) \<and>
            (\<forall>j. \<forall>d \<in> set (R j). priority_of w j (fst d) \<le> priority_of w k (fst c))))"
proof -
  from priority_choice_parts [OF assms(1-3)] obtain ae0 highest where
    ch: "champion w (all_groups ex) R UNIV ae0 highest" and ae: "ae = take_data ae0"
    and ok: "ok \<longleftrightarrow> highest \<ge> 0" unfolding R_def by blast
  have below: "priority_of w k (fst c) \<le> max highest (- 1)" if "c \<in> set (R k)" for k c
    using championD(4) [OF ch UNIV_I that] .
  show ?thesis
  proof (cases ok)
    case True
    with ok championD(2) [OF ch] obtain k c where
      c: "c \<in> set (R k)" "chosen ae0 = (\<lambda>_. None)(k \<mapsto> fst c)" "priority_of w k (fst c) = highest"
      by blast
    have "priority_of w j (fst d) \<le> priority_of w k (fst c)" if "d \<in> set (R j)" for j d
      using below [OF that] c(3) True ok by simp
    with True ok c ae show ?thesis by (metis take_data_simps(1))
  next
    case False
    with ok below show ?thesis by fastforce
  qed
qed

text \<open>The example of two callbacks in two groups of one node.\<close>

definition example_group :: "entity_kind \<Rightarrow> nat \<Rightarrow> callback_group" where
  "example_group k p =
     (CallbackGroup MutuallyExclusive True)\<lparr>group_associated := True, ptrs := (\<lambda>_. [])(k := [p])\<rparr>"

definition example_world :: world where
  "example_world =
     \<lparr>the_group = [10 \<mapsto> example_group Timer 1, 20 \<mapsto> example_group Subscription 2, 30 \<mapsto> example_group Timer 3],
      the_node = [5 \<mapsto> \<lparr>nb_name = ''n'', nb_groups = [10, 20, 30], nb_default_group = 10,
                        node_associated = True, nb_context = 0, nb_condition = 0\<rparr>],
      the_entity = (\<lambda>k. if k = Timer then [1 \<mapsto> \<lparr>ent_handle = 1, entity_priority = 5\<rparr>,
                                           3 \<mapsto> \<lparr>ent_handle = 3, entity_priority = 2\<rparr>]
                        else if k = Subscription then [2 \<mapsto> \<lparr>ent_handle = 2, entity_priority = 3\<rparr>]
                        else Map.empty),
      next_condition = 100, triggered = [], context_valid = (\<lambda>_. True),
      condition_init_ok = (\<lambda>_. True), condition_trigger_ok = (\<lambda>_. True)\<rparr>"

definition example_executor :: "bool \<Rightarrow> executor" where
  "example_executor priorities =
     (Executor 1 2 AllocatorMemoryStrategy)
       \<lparr>weak_nodes := [5], automatic_groups := [(10, 5), (20, 5), (30, 5)],
        all_groups := [(10, 5), (20, 5), (30, 5)], priority_enabled := priorities, spinning := True,
        strategy := \<lparr>guard_conditions = [], handles = (\<lambda>k. if k = Timer then [1, 3] else if k = Subscription then [2] else []),
                     strategy_priority_enabled = priorities\<rparr>\<rparr>"

definition example_choice ::
    "bool \<Rightarrow> (bool \<times> nat option \<times> nat option \<times> nat option) \<times> nat list \<times> nat list \<times> bool list" where
  "example_choice priorities =
     (case get_next_ready_executable (\<lambda>_. RCL_RET_OK) AnyExecutable (example_world, example_executor priorities) of
        Inl e \<Rightarrow> ((False, None, None, None), [], [], [])
      | Inr ((ok, ae, s), called) \<Rightarrow>
          ((ok, chosen ae Timer, chosen ae Subscription, exec_group ae), called,
           handles (strategy (snd s)) Timer, map (group_takeable (fst s)) [10, 20, 30]))"

lemma example_choice_priorities:
  "example_choice True = ((True, Some 1, None, Some 20), [1, 3], [], [True, False, True])"
  by code_simp

lemma example_choice_plain:
  "example_choice False = ((True, Some 1, None, Some 10), [1], [3], [False, True, True])"
  by code_simp

lemma example_choice_returns:
  "\<exists>ae s called. get_next_ready_executable (\<lambda>_. RCL_RET_OK) AnyExecutable
     (example_world, example_executor priorities) = Inr ((True, ae, s), called)"
  using example_choice_priorities example_choice_plain
  by (cases priorities) (auto simp: example_choice_def split: sum.splits)

lemma example_enabled [simp]:
  "priority_enabled (example_executor b) = b" "strategy_priority_enabled (strategy (example_executor b)) = b"
  by (simp_all add: example_executor_def)

theorem highest_priority_runs_witness:
  "\<exists>ae s called. get_next_ready_executable (\<lambda>_. RCL_RET_OK) AnyExecutable
       (example_world, example_executor True) = Inr ((True, ae, s), called) \<and>
     (\<exists>k. \<exists>c \<in> set (ready_now example_world (all_groups (example_executor True)) (\<lambda>_. RCL_RET_OK)
              (strategy (example_executor True)) k).
        chosen ae = (\<lambda>_. None)(k \<mapsto> fst c) \<and>
        (\<forall>j. \<forall>d \<in> set (ready_now example_world (all_groups (example_executor True)) (\<lambda>_. RCL_RET_OK)
              (strategy (example_executor True)) j).
           priority_of example_world j (fst d) \<le> priority_of example_world k (fst c)))"
proof -
  obtain ae s called where eq: "get_next_ready_executable (\<lambda>_. RCL_RET_OK) AnyExecutable
     (example_world, example_executor True) = Inr ((True, ae, s), called)"
    using example_choice_returns by blast
  show ?thesis
    by (rule exI, rule exI, rule exI, rule conjI, rule eq,
        rule mp [OF conjunct2 [OF highest_priority_runs [OF _ _ eq]] TrueI]) simp_all
qed

section \<open>What the search does to timers and groups\<close>

lemma callbacks_of_single: "chosen ae = (\<lambda>_. None)(k \<mapsto> p) \<Longrightarrow> callbacks_of ae = [(k, p)]"
  by (cases k) (simp_all add: callbacks_of_def List.map_filter_simps)

text \<open>
  With callback priorities enabled, the search calls every timer that can run, which
  for \<open>rcl\<close> starts the timer's next period, and strikes it from the list of ready timers, while one
  callback alone is run: the activations of the other ready timers are lost.
\<close>

theorem ready_timers_all_called:
  assumes "priority_enabled ex" and "strategy_priority_enabled (strategy ex)"
    and "get_next_ready_executable rcl_timer_call AnyExecutable (w, ex) = Inr ((ok, ae, s'), called)"
  shows "called = map fst (ready_now w (all_groups ex) rcl_timer_call (strategy ex) Timer) \<and>
         (\<forall>h \<in> set (handles (strategy (snd s')) Timer).
            candidate w (all_groups ex) Timer (timer_call rcl_timer_call) h = None) \<and>
         (ok \<longrightarrow> length (callbacks_of ae) = 1)"
proof -
  from priority_choice_parts [OF assms] obtain ae0 highest where
    ch: "champion w (all_groups ex) (ready_now w (all_groups ex) rcl_timer_call (strategy ex)) UNIV ae0 highest"
    and ae: "ae = take_data ae0" and ok: "ok \<longleftrightarrow> highest \<ge> 0"
    and timers: "called = map fst (ready_now w (all_groups ex) rcl_timer_call (strategy ex) Timer)"
      "handles (strategy (snd s')) Timer =
         filter (blocked w (all_groups ex) Timer (timer_call rcl_timer_call)) (handles (strategy ex) Timer)"
    by blast
  have "length (callbacks_of ae) = 1" if ok
  proof -
    from that ok championD(2) [OF ch] obtain k p where "chosen ae0 = (\<lambda>_. None)(k \<mapsto> p)" by blast
    then have "chosen ae = (\<lambda>_. None)(k \<mapsto> p)" by (simp add: ae)
    from callbacks_of_single [OF this] show ?thesis by simp
  qed
  moreover have "candidate w (all_groups ex) Timer (timer_call rcl_timer_call) h = None"
    if "h \<in> set (handles (strategy (snd s')) Timer)" for h
    using that by (simp add: timers(2) blocked_def)
  ultimately show ?thesis using timers(1) by blast
qed

theorem ready_timers_all_called_witness:
  "\<exists>ae s. get_next_ready_executable (\<lambda>_. RCL_RET_OK) AnyExecutable
       (example_world, example_executor True) = Inr ((True, ae, s), [1, 3]) \<and>
     length (callbacks_of ae) = 1"
proof -
  obtain ae s called where eq: "get_next_ready_executable (\<lambda>_. RCL_RET_OK) AnyExecutable
     (example_world, example_executor True) = Inr ((True, ae, s), called)"
    using example_choice_returns by blast
  with example_choice_priorities have "called = [1, 3]" by (simp add: example_choice_def split: prod.splits)
  with eq ready_timers_all_called [OF _ _ eq] show ?thesis by (intro exI conjI) auto
qed

text \<open>
  With callback priorities enabled, the group that is marked as taken need not be the
  group of the callback chosen: the later searches overwrite it even when they lose.  In the
  example a timer of group 10 wins, group 20 of a subscription that loses is taken, and group 10,
  although mutually exclusive, stays free for another thread.  Without priorities the group is
  the timer's own.
\<close>

theorem taken_group_may_be_foreign:
  "\<exists>ae s called ae' s' called'.
     get_next_ready_executable (\<lambda>_. RCL_RET_OK) AnyExecutable (example_world, example_executor True) =
       Inr ((True, ae, s), called) \<and>
     chosen ae Timer = Some 1 \<and> exec_group ae = Some 20 \<and>
     group_by_entity example_world Timer 1 (all_groups (example_executor True)) = Some 10 \<and>
     group_takeable (fst s) 10 \<and> \<not> group_takeable (fst s) 20 \<and>
     get_next_ready_executable (\<lambda>_. RCL_RET_OK) AnyExecutable (example_world, example_executor False) =
       Inr ((True, ae', s'), called') \<and>
     chosen ae' Timer = Some 1 \<and> exec_group ae' = Some 10 \<and> \<not> group_takeable (fst s') 10"
proof -
  obtain ae s called where eq: "get_next_ready_executable (\<lambda>_. RCL_RET_OK) AnyExecutable
     (example_world, example_executor True) = Inr ((True, ae, s), called)"
    using example_choice_returns by blast
  obtain ae' s' called' where eq': "get_next_ready_executable (\<lambda>_. RCL_RET_OK) AnyExecutable
     (example_world, example_executor False) = Inr ((True, ae', s'), called')"
    using example_choice_returns by blast
  have g: "group_by_entity example_world Timer 1 (all_groups (example_executor True)) = Some 10"
    by code_simp
  have a: "(chosen ae Timer, exec_group ae, group_takeable (fst s) 10, group_takeable (fst s) 20) =
          (Some 1, Some 20, True, False)"
    using example_choice_priorities by (simp add: example_choice_def eq)
  have b: "(chosen ae' Timer, exec_group ae', group_takeable (fst s') 10) = (Some 1, Some 10, False)"
    using example_choice_plain by (simp add: example_choice_def eq')
  show ?thesis
    by (rule exI [of _ ae], rule exI [of _ s], rule exI [of _ called],
        rule exI [of _ ae'], rule exI [of _ s'], rule exI [of _ called'])
      (use a b in \<open>simp add: eq eq' g del: One_nat_def\<close>)
qed

section \<open>The choice without priorities\<close>

lemma get_next_first:
  assumes "get_next w m k call (ae, ms) = Inr ((ae', ms'), called)"
    and "\<not> strategy_priority_enabled ms"
  shows "ae' = (case runnable w m k call (handles ms k) of
                  [] \<Rightarrow> ae | (q, gq) # cs \<Rightarrow> set_executable w m k q gq ae) \<and>
         called = map fst (take 1 (runnable w m k call (handles ms k)))"
  using assms scan_first [of w m k call "handles ms k" ae "- 1"]
  by (auto simp: get_next_def split: sum.splits)

text \<open>The state of the sequence of searches: nothing found yet, or found and kept.\<close>

definition found_first ::
    "world \<Rightarrow> group_map \<Rightarrow> (entity_kind \<Rightarrow> (nat \<times> nat) list) \<Rightarrow> entity_kind list \<Rightarrow>
     bool \<times> any_executable \<Rightarrow> bool" where
  "found_first w m R ks = (\<lambda>(success, ae).
     case find (\<lambda>k. R k \<noteq> []) ks of
       None \<Rightarrow> \<not> success \<and> ae = AnyExecutable
     | Some k \<Rightarrow> success \<and> ae = set_executable w m k (fst (hd (R k))) (snd (hd (R k))) AnyExecutable)"

lemma find_append: "find P (xs @ ys) = (case find P xs of None \<Rightarrow> find P ys | Some x \<Rightarrow> Some x)"
  by (induction xs) auto

lemma found_first_stage:
  assumes inv: "found_first w m R ks (success, ae)"
    and plain: "\<not> strategy_priority_enabled ms"
    and R: "R k = runnable w m k (\<lambda>_. Inr True) (handles ms k)"
    and step: "first_found w m k (success, (ae, ms)) = (success', (ae', ms'))"
  shows "found_first w m R (ks @ [k]) (success', ae') \<and>
         \<not> strategy_priority_enabled ms' \<and> (\<forall>j. j \<noteq> k \<longrightarrow> handles ms' j = handles ms j)"
proof (cases success)
  case True
  with inv plain step show ?thesis
    by (auto simp: found_first_def first_found_def find_append split: option.splits)
next
  case False
  with step have n: "get_next_plain w m k (ae, ms) = (ae', ms')" and s': "success' = (chosen ae' k \<noteq> None)"
    by (auto simp: first_found_def split: prod.splits)
  from get_next_plain_Inr [of w m k "(ae, ms)"] n obtain called where
    g: "get_next w m k (\<lambda>_. Inr True) (ae, ms) = Inr ((ae', ms'), called)" by auto
  from get_next_first [OF g plain] R
  have "ae' = (case R k of [] \<Rightarrow> ae | (q, gq) # cs \<Rightarrow> set_executable w m k q gq ae)" by simp
  moreover from inv False have "find (\<lambda>k. R k \<noteq> []) ks = None" "ae = AnyExecutable"
    by (auto simp: found_first_def split: option.splits)
  ultimately have "found_first w m R (ks @ [k]) (success', ae')"
    by (auto simp: found_first_def find_append s' AnyExecutable_def split: list.splits)
  with get_next_strategy(1,2) [OF g] plain show ?thesis by auto
qed

lemma choose_first_found:
  assumes "choose_first w m rcl_timer_call (AnyExecutable, ms) = Inr ((success, ae, ms'), called)"
    and plain: "\<not> strategy_priority_enabled ms"
  shows "\<exists>ae0. found_first w m (ready_now w m rcl_timer_call ms)
                 [Timer, Subscription, Service, Client, Waitable] (success, ae0) \<and>
               chosen ae = chosen ae0 \<and> exec_group ae = exec_group ae0 \<and>
               called = map fst (take 1 (ready_now w m rcl_timer_call ms Timer))"
proof -
  let ?R = "ready_now w m rcl_timer_call ms"
  obtain ae1 ms1 where t: "get_next w m Timer (timer_call rcl_timer_call) (AnyExecutable, ms) = Inr ((ae1, ms1), called)"
    using assms(1)
    by (auto simp: choose_first_def get_next_timer_def Let_def split: sum.splits prod.splits)
  from get_next_first [OF t plain]
  have t1: "ae1 = (case ?R Timer of [] \<Rightarrow> AnyExecutable | (q, gq) # cs \<Rightarrow> set_executable w m Timer q gq AnyExecutable)"
    and called: "called = map fst (take 1 (?R Timer))"
    by (simp_all add: ready_now_def calls_def)
  obtain f2 ae2 ms2 where s2:
    "first_found w m Subscription (chosen ae1 Timer \<noteq> None, ae1, ms1) = (f2, ae2, ms2)" by (metis prod.exhaust)
  obtain f3 ae3 ms3 where s3: "first_found w m Service (f2, ae2, ms2) = (f3, ae3, ms3)" by (metis prod.exhaust)
  obtain f4 ae4 ms4 where s4: "first_found w m Client (f3, ae3, ms3) = (f4, ae4, ms4)" by (metis prod.exhaust)
  obtain f5 ae5 ms5 where s5: "first_found w m Waitable (f4, ae4, ms4) = (f5, ae5, ms5)" by (metis prod.exhaust)
  have res: "success = f5" "ae = (if f4 then ae5 else take_data ae5)"
    using assms(1) t s2 s3 s4 s5 by (auto simp: choose_first_def get_next_timer_def Let_def)
  have c1: "found_first w m ?R [Timer] (chosen ae1 Timer \<noteq> None, ae1)"
    by (auto simp: found_first_def t1 AnyExecutable_def split: list.splits)
  note keep = get_next_strategy(1,2) [OF t]
  from found_first_stage [OF c1 _ _ s2] keep plain
  have c2: "found_first w m ?R [Timer, Subscription] (f2, ae2)" and k2: "\<not> strategy_priority_enabled ms2"
    "\<And>j. j \<noteq> Timer \<Longrightarrow> j \<noteq> Subscription \<Longrightarrow> handles ms2 j = handles ms j"
    by (simp_all add: ready_now_def calls_def)
  from found_first_stage [OF c2 _ _ s3] k2
  have c3: "found_first w m ?R [Timer, Subscription, Service] (f3, ae3)" and k3: "\<not> strategy_priority_enabled ms3"
    "\<And>j. j \<noteq> Timer \<Longrightarrow> j \<noteq> Subscription \<Longrightarrow> j \<noteq> Service \<Longrightarrow> handles ms3 j = handles ms j"
    by (simp_all add: ready_now_def calls_def)
  from found_first_stage [OF c3 _ _ s4] k3
  have c4: "found_first w m ?R [Timer, Subscription, Service, Client] (f4, ae4)"
    and k4: "\<not> strategy_priority_enabled ms4" "handles ms4 Waitable = handles ms Waitable"
    by (simp_all add: ready_now_def calls_def)
  from found_first_stage [OF c4 _ _ s5] k4
  have "found_first w m ?R [Timer, Subscription, Service, Client, Waitable] (f5, ae5)"
    by (simp add: ready_now_def calls_def)
  with res called show ?thesis by (intro exI [of _ ae5]) auto
qed

lemma plain_choice_parts:
  assumes "\<not> priority_enabled ex" and "\<not> strategy_priority_enabled (strategy ex)"
    and "get_next_ready_executable rcl_timer_call AnyExecutable (w, ex) = Inr ((ok, ae, s'), called)"
  defines "R \<equiv> ready_now w (all_groups ex) rcl_timer_call (strategy ex)"
  shows "called = map fst (take 1 (R Timer)) \<and>
         (case find (\<lambda>k. R k \<noteq> []) [Timer, Subscription, Service, Client, Waitable] of
            None \<Rightarrow> \<not> ok \<and> fst s' = w \<and> exec_group ae = None
          | Some k \<Rightarrow>
              ok \<and> chosen ae = (\<lambda>_. None)(k \<mapsto> fst (hd (R k))) \<and> exec_group ae = Some (snd (hd (R k))) \<and>
              fst s' = on_group (snd (hd (R k))) (\<lambda>g. if cg_type g = MutuallyExclusive
                                     then g\<lparr>can_be_taken_from := False\<rparr> else g) w)"
proof -
  from assms(1,3) obtain success ms where
    c: "choose_first w (all_groups ex) rcl_timer_call (AnyExecutable, strategy ex) =
          Inr ((success, ae, ms), called)"
    and t: "take_group (all_groups ex) success ae w = (ok, fst s')"
    by (auto simp: get_next_ready_executable_def get_next_ready_executable_from_map_def Let_def
        split: sum.splits prod.splits)
  from choose_first_found [OF c assms(2)] obtain ae0 where
    f: "found_first w (all_groups ex) R [Timer, Subscription, Service, Client, Waitable] (success, ae0)"
    and ae: "chosen ae = chosen ae0" "exec_group ae = exec_group ae0"
    and called: "called = map fst (take 1 (R Timer))"
    unfolding R_def by blast
  show ?thesis
  proof (cases "find (\<lambda>k. R k \<noteq> []) [Timer, Subscription, Service, Client, Waitable]")
    case None
    with f t ae called show ?thesis
      unfolding found_first_def by (auto simp: take_group_def AnyExecutable_def simp del: find.simps)
  next
    case (Some k)
    then have "R k \<noteq> []" unfolding find_Some_iff by blast
    then have "hd (R k) \<in> set (R k)" by simp
    then have "(fst (hd (R k)), snd (hd (R k))) \<in> set (R k)" by simp
    then have "map_of (all_groups ex) (snd (hd (R k))) \<noteq> None"
      unfolding R_def ready_now_def by (rule runnable_group_in_map)
    with Some f t ae called show ?thesis
      unfolding found_first_def by (auto simp: take_group_def AnyExecutable_def simp del: find.simps)
  qed
qed

text \<open>
  Without priorities the executor serves the kinds in the order timers, subscriptions,
  services, clients, waitables: it chooses the first callback that can run of the first kind that
  has one, takes that callback's own group, and calls no timer but the one it chooses.
\<close>

theorem kinds_served_in_order:
  assumes "\<not> priority_enabled ex" and "\<not> strategy_priority_enabled (strategy ex)"
    and "get_next_ready_executable rcl_timer_call AnyExecutable (w, ex) = Inr ((ok, ae, s'), called)"
  defines "R \<equiv> ready_now w (all_groups ex) rcl_timer_call (strategy ex)"
  shows "called = map fst (take 1 (R Timer)) \<and>
         (case find (\<lambda>k. R k \<noteq> []) [Timer, Subscription, Service, Client, Waitable] of
            None \<Rightarrow> \<not> ok
          | Some k \<Rightarrow> ok \<and> callbacks_of ae = [(k, fst (hd (R k)))] \<and> exec_group ae = Some (snd (hd (R k))))"
  using plain_choice_parts [OF assms(1-3)] callbacks_of_single unfolding R_def
  by (fastforce split: option.splits simp del: find.simps)

theorem kinds_served_in_order_witness:
  "\<exists>ae s called. get_next_ready_executable (\<lambda>_. RCL_RET_OK) AnyExecutable
       (example_world, example_executor False) = Inr ((True, ae, s), called) \<and>
     called = map fst (take 1 (ready_now example_world (all_groups (example_executor False))
       (\<lambda>_. RCL_RET_OK) (strategy (example_executor False)) Timer))"
proof -
  obtain ae s called where eq: "get_next_ready_executable (\<lambda>_. RCL_RET_OK) AnyExecutable
     (example_world, example_executor False) = Inr ((True, ae, s), called)"
    using example_choice_returns by blast
  show ?thesis
    by (rule exI, rule exI, rule exI, rule conjI, rule eq,
        rule conjunct1 [OF kinds_served_in_order [OF _ _ eq]]) simp_all
qed

section \<open>The choice always comes to an end\<close>

lemma timer_call_total: "rcl_timer_call p \<noteq> RCL_RET_ERROR \<Longrightarrow> \<exists>b. timer_call rcl_timer_call p = Inr b"
  by (cases "rcl_timer_call p") (auto simp: timer_call_def)

lemma get_next_timer_returns:
  assumes "\<forall>p. rcl_timer_call p \<noteq> RCL_RET_ERROR"
  shows "\<exists>r. get_next_timer w m rcl_timer_call s = Inr r"
proof -
  obtain ae ms where s: "s = (ae, ms)" by fastforce
  obtain r where "scan_handles w m Timer (strategy_priority_enabled ms) (timer_call rcl_timer_call)
      (handles ms Timer) ae (- 1) = Inr r"
    using scan_returns [of "timer_call rcl_timer_call"] timer_call_total assms by blast
  then show ?thesis by (simp add: s get_next_timer_def get_next_def split: prod.splits)
qed

lemma choice_returns:
  assumes "\<forall>p. rcl_timer_call p \<noteq> RCL_RET_ERROR"
  shows "\<exists>r. get_next_ready_executable rcl_timer_call ae s = Inr r"
proof -
  obtain w ex where s: "s = (w, ex)" by fastforce
  obtain r where "get_next_timer w (all_groups ex) rcl_timer_call (ae, strategy ex) = Inr r"
    using get_next_timer_returns [OF assms] by blast
  then show ?thesis
    by (simp add: s get_next_ready_executable_def get_next_ready_executable_from_map_def
        choose_by_priority_def choose_first_def Let_def split: prod.splits)
qed

text \<open>
  Claim C10.  A callback that can run is not overlooked: while \<open>rcl\<close> can call the timers, a search
  that meets a callback that can run, of priority at least zero when priorities are enabled, ends
  with a callback to run.
\<close>

theorem ready_callback_found:
  assumes "\<forall>p. rcl_timer_call p \<noteq> RCL_RET_ERROR"
    and "priority_enabled ex \<longleftrightarrow> strategy_priority_enabled (strategy ex)"
    and "c \<in> set (ready_now w (all_groups ex) rcl_timer_call (strategy ex) k)"
    and "priority_enabled ex \<Longrightarrow> priority_of w k (fst c) \<ge> 0"
  shows "\<exists>ae s' called. get_next_ready_executable rcl_timer_call AnyExecutable (w, ex) =
           Inr ((True, ae, s'), called) \<and> callbacks_of ae \<noteq> []"
proof -
  let ?R = "ready_now w (all_groups ex) rcl_timer_call (strategy ex)"
  obtain ok ae s' called where
    eq: "get_next_ready_executable rcl_timer_call AnyExecutable (w, ex) = Inr ((ok, ae, s'), called)"
  proof -
    obtain r where r: "get_next_ready_executable rcl_timer_call AnyExecutable (w, ex) = Inr r"
      using choice_returns [OF assms(1)] by blast
    obtain ok ae s' called where "r = ((ok, ae, s'), called)" by (metis prod.exhaust)
    with r that show thesis by simp
  qed
  have "ok \<and> (\<exists>j p. chosen ae = (\<lambda>_. None)(j \<mapsto> p))"
  proof (cases "priority_enabled ex")
    case True
    with assms(2) have en: "strategy_priority_enabled (strategy ex)" by simp
    from priority_choice_parts [OF True en eq] obtain ae0 highest where
      ch: "champion w (all_groups ex) ?R UNIV ae0 highest" and ae: "ae = take_data ae0"
      and ok: "ok \<longleftrightarrow> highest \<ge> 0" by blast
    from championD(4) [OF ch UNIV_I assms(3)] assms(4) True ok have ok by auto
    moreover from this ok championD(2) [OF ch] obtain j p where "chosen ae0 = (\<lambda>_. None)(j \<mapsto> p)" by blast
    ultimately show ?thesis using ae by (metis take_data_simps(1))
  next
    case False
    with assms(2) have pl: "\<not> strategy_priority_enabled (strategy ex)" by simp
    from assms(3) have "find (\<lambda>k. ?R k \<noteq> []) [Timer, Subscription, Service, Client, Waitable] \<noteq> None"
      by (cases k) (auto simp: find_None_iff)
    with plain_choice_parts [OF False pl eq] show ?thesis
      by (fastforce split: option.splits simp del: find.simps)
  qed
  then obtain j p where "ok" "chosen ae = (\<lambda>_. None)(j \<mapsto> p)" by blast
  with eq callbacks_of_single [of ae j p] show ?thesis by auto
qed

theorem ready_callback_found_witness:
  "\<exists>ae s' called. get_next_ready_executable (\<lambda>_. RCL_RET_OK) AnyExecutable
     (example_world, example_executor True) = Inr ((True, ae, s'), called) \<and> callbacks_of ae \<noteq> []"
proof (rule ready_callback_found)
  show "(1, 10) \<in> set (ready_now example_world (all_groups (example_executor True)) (\<lambda>_. RCL_RET_OK)
          (strategy (example_executor True)) Timer)"
    by code_simp
  show "0 \<le> priority_of example_world Timer (fst (1, 10 :: nat))"
    by code_simp
qed simp_all

end
