(* ===== verification/Mutual_Exclusion.thy ===== *)
theory Mutual_Exclusion
  imports Scheduling
begin

text \<open>
  \<open>MultiThreadedExecutor\<close> of \<open>executors/multi_threaded_executor.cpp\<close> as a step relation: its threads
  wait for work and choose the next callback one at a time under the wait mutex, and run what they
  have chosen concurrently.  The invariant over the reachable states is the promise of a mutually
  exclusive callback group.
\<close>

section \<open>The threads\<close>

definition number_of_threads :: "nat \<Rightarrow> nat \<Rightarrow> nat" where
  "number_of_threads requested hardware_concurrency =
     (let n = (if requested \<noteq> 0 then requested else hardware_concurrency) in if n = 0 then 1 else n)"

record mt_state =
  mt_exec :: exec_state
  running :: "nat \<Rightarrow> any_executable option"

text \<open>
  A turn of \<open>run\<close> is a step of waiting, a choice that succeeds (\<open>take\<close>) or not (\<open>idle\<close>, which
  destroys the executable), and the execution of what was taken, which ends with \<open>finish\<close>; there
  the group is released by \<open>execute_any_executable\<close> only, because \<open>run\<close> clears the executable's
  group before it is destroyed.  \<open>cancel\<close> may happen at any time.
\<close>

inductive mt_step :: "mt_state \<Rightarrow> mt_state \<Rightarrow> bool" where
  wait: "wait_for_work ans (mt_exec s) = (None, e) \<Longrightarrow> mt_step s (s\<lparr>mt_exec := e\<rparr>)"
| take: "running s t = None \<Longrightarrow>
    get_next_ready_executable rcl_timer_call AnyExecutable (mt_exec s) = Inr ((True, ae, e), called) \<Longrightarrow>
    mt_step s (s\<lparr>mt_exec := e, running := (running s)(t \<mapsto> ae)\<rparr>)"
| idle: "get_next_ready_executable rcl_timer_call AnyExecutable (mt_exec s) = Inr ((False, ae, (w, ex)), called) \<Longrightarrow>
    mt_step s (s\<lparr>mt_exec := (release_group ae w, ex)\<rparr>)"
| finish: "running s t = Some ae \<Longrightarrow> execute_any_executable ae (mt_exec s) = (None, e) \<Longrightarrow>
    mt_step s (s\<lparr>mt_exec := e, running := (running s)(t := None)\<rparr>)"
| cancel: "cancel (mt_exec s) = (None, e) \<Longrightarrow> mt_step s (s\<lparr>mt_exec := e\<rparr>)"

inductive_cases mt_stepE: "mt_step s s'"

definition mt_start :: "exec_state \<Rightarrow> mt_state" where
  "mt_start e = \<lparr>mt_exec = e, running = (\<lambda>_. None)\<rparr>"

definition mt_reachable :: "exec_state \<Rightarrow> mt_state \<Rightarrow> bool" where
  "mt_reachable e s \<longleftrightarrow> mt_step\<^sup>*\<^sup>* (mt_start e) s"

section \<open>What waiting leaves alone\<close>

text \<open>
  The part of the state that matters for the choice: type, flag and members of the groups, and
  the switches of the executor.
\<close>

definition group_core :: "world \<Rightarrow> nat \<Rightarrow> (group_type \<times> bool \<times> (entity_kind \<Rightarrow> nat list)) option" where
  "group_core w gp = map_option (\<lambda>g. (cg_type g, can_be_taken_from g, ptrs g)) (the_group w gp)"

definition same_core :: "exec_state \<Rightarrow> exec_state \<Rightarrow> bool" where
  "same_core s s' \<longleftrightarrow>
     group_core (fst s') = group_core (fst s) \<and>
     priority_enabled (snd s') = priority_enabled (snd s) \<and>
     strategy_priority_enabled (strategy (snd s')) = strategy_priority_enabled (strategy (snd s))"

lemma same_core_refl [simp, intro]: "same_core s s"
  by (simp add: same_core_def)

lemma same_core_trans: "same_core s s1 \<Longrightarrow> same_core s1 s2 \<Longrightarrow> same_core s s2"
  by (simp add: same_core_def)

lemma and_then_core:
  assumes "\<And>s1. same_core s (snd r) \<Longrightarrow> r = (None, s1) \<Longrightarrow> same_core s1 (snd (f s1))"
    and "same_core s (snd r)"
  shows "same_core s (snd (and_then r f))"
proof (cases "fst r")
  case None
  then have "r = (None, snd r)" by (metis prod.collapse)
  with assms have "same_core (snd r) (snd (f (snd r)))" by blast
  with None assms(2) show ?thesis by (simp add: and_then_def same_core_trans)
qed (use assms(2) in \<open>simp add: and_then_def\<close>)

named_theorems core

lemma on_group_core [core]:
  assumes "\<And>g. cg_type (f g) = cg_type g \<and> can_be_taken_from (f g) = can_be_taken_from g \<and> ptrs (f g) = ptrs g"
  shows "group_core (on_group gp f w) = group_core w"
  using assms by (intro ext) (simp add: group_core_def on_group_def option.map_comp comp_def)

lemma trigger_core [core]: "group_core (snd (trigger gc w)) = group_core w"
  by (simp add: trigger_def group_core_def fun_eq_iff)

lemma trigger_interrupt_core [core]: "same_core s (snd (trigger_interrupt failure s))"
  using trigger_core [of "interrupt_condition (snd s)" "fst s"]
  by (auto simp: trigger_interrupt_def same_core_def split: prod.splits option.splits)

lemma world_and_then_core:
  assumes "group_core (snd r) = group_core w" and "\<And>w1. group_core (snd (f w1)) = group_core w1"
  shows "group_core (snd (and_then r f)) = group_core w"
  using assms by (cases r; cases "fst r") (simp_all add: and_then_def)

lemma drop_foreign_condition_core: "group_core (snd (drop_foreign_condition gp ctx w)) = group_core w"
  unfolding drop_foreign_condition_def
  by (auto split: option.splits prod.splits intro!: world_and_then_core simp: core)

lemma next_condition_core [core]: "group_core (w\<lparr>next_condition := n\<rparr>) = group_core w"
  by (simp add: group_core_def fun_eq_iff)

lemma get_notify_guard_condition_core [core]:
  "group_core (snd (get_notify_guard_condition gp ctx w)) = group_core w"
  unfolding get_notify_guard_condition_def
  by (rule world_and_then_core [OF drop_foreign_condition_core])
    (auto split: option.splits simp: core)

lemma add_guard_condition_enabled [simp]:
  "strategy_priority_enabled (add_guard_condition gc ms) = strategy_priority_enabled ms"
  "strategy_priority_enabled (remove_guard_condition gc ms) = strategy_priority_enabled ms"
  by (simp_all add: add_guard_condition_def remove_guard_condition_def)

lemma watch_group_core [core]: "same_core s (snd (watch_group gp np s))"
proof -
  obtain w ex where s: "s = (w, ex)" by fastforce
  show ?thesis
    using get_notify_guard_condition_core [of gp _ w]
    by (auto simp: s watch_group_def same_core_def split: option.splits prod.splits)
      (metis snd_conv)+
qed

lemma set_groups_simps [simp]:
  "priority_enabled (set_groups which m ex) = priority_enabled ex"
  "strategy (set_groups which m ex) = strategy ex"
  "spinning (set_groups which m ex) = spinning ex"
  by (cases which; simp)+

lemma add_callback_group_to_map_core [core]:
  "same_core s (snd (add_callback_group_to_map gp np which notify s))"
proof -
  obtain w ex where s: "s = (w, ex)" by fastforce
  have flag: "group_core (on_group gp (\<lambda>g. g\<lparr>group_associated := True\<rparr>) w) = group_core w"
    by (rule on_group_core) simp
  let ?s1 = "(on_group gp (\<lambda>g. g\<lparr>group_associated := True\<rparr>) w,
     (set_groups which (omap_set gp np (groups_of which ex)) ex)
       \<lparr>all_groups := omap_insert gp np (all_groups (set_groups which (omap_set gp np (groups_of which ex)) ex))\<rparr>)"
  have "same_core s ?s1" using flag by (simp add: same_core_def s)
  moreover have "same_core ?s1 (snd (and_then (watch_group gp np ?s1) (\<lambda>s.
      if notify then trigger_interrupt ''Failed to trigger guard condition on callback group add: '' s
      else (None, s))))"
    by (rule and_then_core) (simp_all add: core)
  ultimately show ?thesis
    using flag by (auto simp: s add_callback_group_to_map_def Let_def same_core_def split: option.splits)
qed

lemma add_groups_of_node_core [core]: "same_core s (snd (add_groups_of_node gps np notify s))"
proof (induction gps arbitrary: s)
  case (Cons gp gps)
  have "same_core s (snd (and_then (add_callback_group_to_map gp np Automatic notify s)
          (add_groups_of_node gps np notify)))"
    by (rule and_then_core) (simp_all add: Cons core)
  with Cons show ?case by (auto split: option.splits)
qed simp

lemma add_callback_groups_from_nodes_core [core]: "same_core s (snd (add_callback_groups_from_nodes nps s))"
proof (induction nps arbitrary: s)
  case (Cons np nps)
  have "same_core s (snd (and_then (add_groups_of_node (live_groups (fst s) n) np True s)
          (add_callback_groups_from_nodes nps)))" for n
    by (rule and_then_core) (simp_all add: Cons core)
  with Cons show ?case by (auto split: option.splits)
qed simp

lemma collect_entities_enabled [simp]:
  "strategy_priority_enabled (snd (collect_entities w m ms)) = strategy_priority_enabled ms"
  by (induction w m ms rule: collect_entities.induct) (auto split: option.splits)

lemma forget_group_enabled [simp]:
  "priority_enabled (forget_group gp ex) = priority_enabled ex"
  "strategy_priority_enabled (strategy (forget_group gp ex)) = strategy_priority_enabled (strategy ex)"
  by (simp_all add: forget_group_def Let_def split: option.splits)

lemma forget_groups_enabled [simp]:
  "priority_enabled (foldl (\<lambda>ex gp. forget_group gp ex) ex gps) = priority_enabled ex"
  "strategy_priority_enabled (strategy (foldl (\<lambda>ex gp. forget_group gp ex) ex gps)) =
     strategy_priority_enabled (strategy ex)"
  by (induction gps arbitrary: ex) simp_all

lemma collect_work_core [core]: "same_core s (collect_work s)"
proof -
  obtain w ex where s: "s = (w, ex)" by fastforce
  obtain invalid ms where
    c: "collect_entities w (all_groups ex) (clear_handles (strategy ex)) = (invalid, ms)" by fastforce
  have "strategy_priority_enabled ms = strategy_priority_enabled (strategy ex)"
    using collect_entities_enabled [of w "all_groups ex" "clear_handles (strategy ex)", unfolded c]
    by (simp add: clear_handles_def)
  then show ?thesis by (simp add: s collect_work_def same_core_def c Let_def)
qed

lemma wait_for_work_core [core]: "same_core s (snd (wait_for_work ans s))"
  unfolding wait_for_work_def
proof (rule and_then_core)
  fix s1
  have "same_core s1 (collect_work s1)" by (rule collect_work_core)
  then show "same_core s1 (snd (let (w, ex) = collect_work s1
       in if \<not> rcl_clear_ok ans then (Some (RCLError ''Couldn't clear wait set''), (w, ex))
          else if \<not> rcl_resize_ok ans then (Some (RCLError ''Couldn't resize the wait set''), (w, ex))
          else if \<not> fst (add_handles_to_wait_set (rcl_add_ok ans) (strategy ex)
                      \<lparr>waiting = (\<lambda>_. []), waiting_conditions = []\<rparr>)
          then (Some (RuntimeError ''Couldn't fill wait set''), (w, ex))
          else if rcl_wait ans = Wait_failed then (Some (RCLError ''rcl_wait() failed''), (w, ex))
          else (None, (w, ex\<lparr>strategy := remove_null_handles (rcl_ready ans) (waitable_ready ans) (strategy ex)\<rparr>))))"
    by (auto simp: same_core_def remove_null_handles_def split: prod.splits)
qed (simp add: add_callback_groups_from_nodes_associated_to_executor_def core)

section \<open>Mutual exclusion\<close>

text \<open>
  The invariant: with priorities off, every thread that runs something runs one callback of the
  group it took; a mutually exclusive group that a thread has taken is marked; and no two threads
  have taken the same mutually exclusive group.
\<close>

definition exclusive :: "world \<Rightarrow> nat \<Rightarrow> bool" where
  "exclusive w gp = (case the_group w gp of None \<Rightarrow> False | Some g \<Rightarrow> cg_type g = MutuallyExclusive)"

definition member :: "world \<Rightarrow> nat \<Rightarrow> entity_kind \<Rightarrow> nat \<Rightarrow> bool" where
  "member w gp k p = (case the_group w gp of None \<Rightarrow> False | Some g \<Rightarrow> p \<in> set (ptrs g k))"

definition mt_inv :: "mt_state \<Rightarrow> bool" where
  "mt_inv s \<longleftrightarrow>
     \<not> priority_enabled (snd (mt_exec s)) \<and> \<not> strategy_priority_enabled (strategy (snd (mt_exec s))) \<and>
     (\<forall>t ae. running s t = Some ae \<longrightarrow>
        (\<exists>gp k p. exec_group ae = Some gp \<and> callbacks_of ae = [(k, p)] \<and> member (fst (mt_exec s)) gp k p \<and>
           (exclusive (fst (mt_exec s)) gp \<longrightarrow> \<not> group_takeable (fst (mt_exec s)) gp))) \<and>
     (\<forall>t u ae be gp. running s t = Some ae \<and> running s u = Some be \<and> t \<noteq> u \<and>
        exec_group ae = Some gp \<and> exec_group be = Some gp \<longrightarrow> \<not> exclusive (fst (mt_exec s)) gp)"

lemma mt_invI:
  assumes "\<not> priority_enabled (snd (mt_exec s))" and "\<not> strategy_priority_enabled (strategy (snd (mt_exec s)))"
    and "\<And>t ae. running s t = Some ae \<Longrightarrow> \<exists>gp k p. exec_group ae = Some gp \<and> callbacks_of ae = [(k, p)] \<and>
           member (fst (mt_exec s)) gp k p \<and>
           (exclusive (fst (mt_exec s)) gp \<longrightarrow> \<not> group_takeable (fst (mt_exec s)) gp)"
    and "\<And>t u ae be gp. running s t = Some ae \<Longrightarrow> running s u = Some be \<Longrightarrow> t \<noteq> u \<Longrightarrow>
           exec_group ae = Some gp \<Longrightarrow> exec_group be = Some gp \<Longrightarrow> \<not> exclusive (fst (mt_exec s)) gp"
  shows "mt_inv s"
  using assms unfolding mt_inv_def by blast

lemma mt_invD:
  assumes "mt_inv s"
  shows "\<not> priority_enabled (snd (mt_exec s))" and "\<not> strategy_priority_enabled (strategy (snd (mt_exec s)))"
    and "running s t = Some ae \<Longrightarrow> \<exists>gp k p. exec_group ae = Some gp \<and> callbacks_of ae = [(k, p)] \<and>
           member (fst (mt_exec s)) gp k p \<and>
           (exclusive (fst (mt_exec s)) gp \<longrightarrow> \<not> group_takeable (fst (mt_exec s)) gp)"
    and "running s t = Some ae \<Longrightarrow> running s u = Some be \<Longrightarrow> t \<noteq> u \<Longrightarrow>
           exec_group ae = Some gp \<Longrightarrow> exec_group be = Some gp \<Longrightarrow> \<not> exclusive (fst (mt_exec s)) gp"
  using assms unfolding mt_inv_def by blast+

lemma core_facts:
  assumes "group_core w' = group_core w"
  shows "exclusive w' = exclusive w" "group_takeable w' = group_takeable w" "member w' = member w"
proof -
  have eq: "map_option (\<lambda>g. (cg_type g, can_be_taken_from g, ptrs g)) (the_group w' gp) =
      map_option (\<lambda>g. (cg_type g, can_be_taken_from g, ptrs g)) (the_group w gp)" for gp
    using fun_cong [OF assms, of gp] by (simp add: group_core_def)
  have "exclusive w' gp = exclusive w gp \<and> group_takeable w' gp = group_takeable w gp \<and>
      member w' gp k p = member w gp k p" for gp k p
    using eq [of gp]
    by (cases "the_group w' gp"; cases "the_group w gp")
      (simp_all add: exclusive_def group_takeable_def member_def)
  then show "exclusive w' = exclusive w" "group_takeable w' = group_takeable w" "member w' = member w"
    by (auto simp: fun_eq_iff)
qed

lemma on_group_facts:
  assumes "\<And>g. cg_type (f g) = cg_type g \<and> ptrs (f g) = ptrs g"
  shows "exclusive (on_group gp f w) = exclusive w" "member (on_group gp f w) = member w"
    "gq \<noteq> gp \<Longrightarrow> group_takeable (on_group gp f w) gq = group_takeable w gq"
  using assms
  by (auto simp: exclusive_def member_def group_takeable_def on_group_def fun_eq_iff split: option.splits)

lemma mt_inv_core:
  assumes "mt_inv s" and "same_core (mt_exec s) e"
  shows "mt_inv (s\<lparr>mt_exec := e\<rparr>)"
proof -
  from assms(2) have "group_core (fst e) = group_core (fst (mt_exec s))" by (simp add: same_core_def)
  note f = core_facts [OF this]
  from assms show ?thesis by (simp add: mt_inv_def f same_core_def)
qed

lemma trigger_interrupt_same: "trigger_interrupt failure s = (r, e) \<Longrightarrow> same_core s e"
  using trigger_interrupt_core [of s failure] by simp

lemma choice_keeps_switches:
  assumes "get_next_ready_executable rcl_timer_call ae (w, ex) = Inr ((ok, ae', (w', ex')), called)"
    and "\<not> priority_enabled ex" and "\<not> strategy_priority_enabled (strategy ex)"
  shows "\<not> priority_enabled ex' \<and> \<not> strategy_priority_enabled (strategy ex')"
proof -
  have plain: "strategy_priority_enabled ms' = strategy_priority_enabled ms"
    if n: "get_next_plain v m k (ae1, ms) = (ae2, ms')" for v m k ae1 ms ae2 ms'
  proof -
    from get_next_plain_Inr [of v m k "(ae1, ms)"] n obtain called where
      "get_next v m k (\<lambda>_. Inr True) (ae1, ms) = Inr ((ae2, ms'), called)" by auto
    from get_next_strategy(1) [OF this] show ?thesis .
  qed
  have first: "strategy_priority_enabled (snd (snd (first_found v m k r))) = strategy_priority_enabled (snd (snd r))"
    for v m k r
    by (cases r) (auto simp: first_found_def split: prod.splits dest: plain)
  from assms(1,2) obtain success where
    c: "choose_first w (all_groups ex) rcl_timer_call (ae, strategy ex) = Inr ((success, ae', strategy ex'), called)"
    and p: "priority_enabled ex' = priority_enabled ex"
    by (auto simp: get_next_ready_executable_def get_next_ready_executable_from_map_def Let_def
        split: sum.splits prod.splits)
  obtain ae1 ms1 where
    t: "get_next w (all_groups ex) Timer (timer_call rcl_timer_call) (ae, strategy ex) = Inr ((ae1, ms1), called)"
    using c by (auto simp: choose_first_def get_next_timer_def Let_def split: sum.splits prod.splits)
  let ?m = "all_groups ex"
  have "strategy ex' = snd (snd (first_found w ?m Waitable (first_found w ?m Client (first_found w ?m Service
      (first_found w ?m Subscription (chosen ae1 Timer \<noteq> None, ae1, ms1))))))"
    using c t by (auto simp: choose_first_def get_next_timer_def Let_def split: prod.splits)
  then have "strategy_priority_enabled (strategy ex') = strategy_priority_enabled ms1"
    by (simp add: first)
  with get_next_strategy(1) [OF t] p assms(2,3) show ?thesis by simp
qed

definition mark_taken :: "callback_group \<Rightarrow> callback_group" where
  "mark_taken g = (if cg_type g = MutuallyExclusive then g\<lparr>can_be_taken_from := False\<rparr> else g)"

lemma mark_taken_facts:
  "cg_type (mark_taken g) = cg_type g \<and> ptrs (mark_taken g) = ptrs g"
  by (simp add: mark_taken_def)

lemma choice_takes_own_group:
  assumes "\<not> priority_enabled ex" and "\<not> strategy_priority_enabled (strategy ex)"
    and "get_next_ready_executable rcl_timer_call AnyExecutable (w, ex) = Inr ((True, ae, (w', ex')), called)"
  obtains k p gp where "callbacks_of ae = [(k, p)]" "exec_group ae = Some gp" "member w gp k p"
    "group_takeable w gp" "w' = on_group gp mark_taken w"
proof -
  let ?R = "ready_now w (all_groups ex) rcl_timer_call (strategy ex)"
  note parts = conjunct2 [OF plain_choice_parts [OF assms]]
  obtain k where f: "find (\<lambda>k. ?R k \<noteq> []) [Timer, Subscription, Service, Client, Waitable] = Some k"
    using parts by (cases "find (\<lambda>k. ?R k \<noteq> []) [Timer, Subscription, Service, Client, Waitable]")
      (simp_all del: find.simps)
  obtain p gp where hd: "hd (?R k) = (p, gp)" by fastforce
  from f have "?R k \<noteq> []" unfolding find_Some_iff by blast
  then have "(p, gp) \<in> set (?R k)" using hd by (metis hd_in_set)
  from runnable_memberD [OF this [unfolded ready_now_def]] obtain h where
    "candidate w (all_groups ex) k (calls rcl_timer_call k) h = Some (p, gp)" ..
  from candidate_SomeD [OF this] have "group_by_entity w k p (all_groups ex) = Some gp"
    and take: "group_takeable w gp" by simp_all
  from group_by_entity_SomeD [OF this(1)] have mem: "member w gp k p" by (auto simp: member_def)
  from parts f hd have "chosen ae = (\<lambda>_. None)(k \<mapsto> p)" "exec_group ae = Some gp"
    "w' = on_group gp mark_taken w"
    by (simp_all del: find.simps add: mark_taken_def [abs_def])
  with callbacks_of_single mem take that show thesis by blast
qed

lemma mt_inv_take:
  assumes inv: "mt_inv s" and idle: "running s t = None"
    and choice: "get_next_ready_executable rcl_timer_call AnyExecutable (mt_exec s) = Inr ((True, ae, e), called)"
  shows "mt_inv (s\<lparr>mt_exec := e, running := (running s)(t \<mapsto> ae)\<rparr>)"
proof -
  obtain w ex where s: "mt_exec s = (w, ex)" by fastforce
  obtain w' ex' where e: "e = (w', ex')" by fastforce
  from inv s have off: "\<not> priority_enabled ex" "\<not> strategy_priority_enabled (strategy ex)"
    by (simp_all add: mt_inv_def)
  note c = choice [unfolded s e]
  from choice_takes_own_group [OF off c] obtain k p gp where
    own: "callbacks_of ae = [(k, p)]" "exec_group ae = Some gp" "member w gp k p" "group_takeable w gp"
    and w': "w' = on_group gp mark_taken w" .
  note f = on_group_facts [where f = mark_taken and gp = gp and w = w, OF mark_taken_facts, folded w']
  have ex_free: "\<not> exclusive w gp" if "running s u = Some be" "exec_group be = Some gp" for u be
    using inv that own(4) by (fastforce simp: mt_inv_def s)
  have marked: "exclusive w' gp \<Longrightarrow> \<not> group_takeable w' gp"
    by (auto simp: w' exclusive_def group_takeable_def on_group_def mark_taken_def split: option.splits)
  have one: "\<exists>gq j q. exec_group be = Some gq \<and> callbacks_of be = [(j, q)] \<and> member w' gq j q \<and>
      (exclusive w' gq \<longrightarrow> \<not> group_takeable w' gq)"
    if "((running s)(t \<mapsto> ae)) u = Some be" for u be
  proof (cases "u = t")
    case True
    with that own marked show ?thesis by (auto simp: f)
  next
    case False
    with that inv obtain gq j q where
      q: "exec_group be = Some gq" "callbacks_of be = [(j, q)]" "member w gq j q"
        "exclusive w gq \<longrightarrow> \<not> group_takeable w gq"
      by (fastforce simp: mt_inv_def s)
    then show ?thesis using marked f(3) [of gq] by (cases "gq = gp") (auto simp: f)
  qed
  have two: "\<not> exclusive w' gq"
    if "((running s)(t \<mapsto> ae)) u = Some be" "((running s)(t \<mapsto> ae)) v = Some ce" "u \<noteq> v"
      "exec_group be = Some gq" "exec_group ce = Some gq" for u v be ce gq
  proof (cases "u = t \<or> v = t")
    case True
    with that own(2) ex_free show ?thesis by (auto simp: f split: if_splits)
  next
    case False
    with that inv show ?thesis by (fastforce simp: mt_inv_def s f)
  qed
  show ?thesis
  proof (rule mt_invI)
    fix u be
    assume "running (s\<lparr>mt_exec := e, running := (running s)(t \<mapsto> ae)\<rparr>) u = Some be"
    with one [of u be] show "\<exists>gq j q. exec_group be = Some gq \<and> callbacks_of be = [(j, q)] \<and>
        member (fst (mt_exec (s\<lparr>mt_exec := e, running := (running s)(t \<mapsto> ae)\<rparr>))) gq j q \<and>
        (exclusive (fst (mt_exec (s\<lparr>mt_exec := e, running := (running s)(t \<mapsto> ae)\<rparr>))) gq \<longrightarrow>
         \<not> group_takeable (fst (mt_exec (s\<lparr>mt_exec := e, running := (running s)(t \<mapsto> ae)\<rparr>))) gq)"
      by (simp add: e)
  next
    fix u v be ce gq
    assume "running (s\<lparr>mt_exec := e, running := (running s)(t \<mapsto> ae)\<rparr>) u = Some be"
      "running (s\<lparr>mt_exec := e, running := (running s)(t \<mapsto> ae)\<rparr>) v = Some ce" "u \<noteq> v"
      "exec_group be = Some gq" "exec_group ce = Some gq"
    with two [of u be v ce gq]
    show "\<not> exclusive (fst (mt_exec (s\<lparr>mt_exec := e, running := (running s)(t \<mapsto> ae)\<rparr>))) gq"
      by (simp add: e)
  qed (use choice_keeps_switches [OF c off] in \<open>simp_all add: e\<close>)
qed

lemma mt_inv_finish:
  assumes inv: "mt_inv s" and run: "running s t = Some ae"
    and exec: "execute_any_executable ae (mt_exec s) = (None, e)"
  shows "mt_inv (s\<lparr>mt_exec := e, running := (running s)(t := None)\<rparr>)"
proof -
  obtain w ex where s: "mt_exec s = (w, ex)" by fastforce
  let ?s' = "s\<lparr>mt_exec := (release_group ae w, ex\<lparr>executed := executed ex @ callbacks_of ae\<rparr>),
      running := (running s)(t := None)\<rparr>"
  from inv run s obtain gp where gp: "exec_group ae = Some gp" by (fastforce simp: mt_inv_def)
  have rel: "release_group ae w = on_group gp (\<lambda>g. g\<lparr>can_be_taken_from := True\<rparr>) w"
    by (simp add: release_group_def gp)
  have f: "exclusive (release_group ae w) = exclusive w" "member (release_group ae w) = member w"
    "\<And>gq. gq \<noteq> gp \<Longrightarrow> group_takeable (release_group ae w) gq = group_takeable w gq"
    unfolding rel by (rule on_group_facts; simp)+
  have other: "\<not> exclusive w gp" if "running s u = Some be" "u \<noteq> t" "exec_group be = Some gp" for u be
    using inv run gp that by (fastforce simp: mt_inv_def s)
  have one: "\<exists>gq j q. exec_group be = Some gq \<and> callbacks_of be = [(j, q)] \<and> member w gq j q \<and>
      (exclusive w gq \<longrightarrow> \<not> group_takeable (release_group ae w) gq)"
    if "running s u = Some be" "u \<noteq> t" for u be
  proof -
    from that inv obtain gq j q where
      q: "exec_group be = Some gq" "callbacks_of be = [(j, q)]" "member w gq j q"
        "exclusive w gq \<longrightarrow> \<not> group_takeable w gq"
      by (fastforce simp: mt_inv_def s)
    then show ?thesis using other [OF that] f(3) [of gq] by (cases "gq = gp") auto
  qed
  have two: "\<not> exclusive w gq" if "running s u = Some be" "running s v = Some ce" "u \<noteq> v"
      "exec_group be = Some gq" "exec_group ce = Some gq" for u v be ce gq
    using inv that by (fastforce simp: mt_inv_def s)
  have rel_inv: "mt_inv ?s'"
    by (rule mt_invI) (use mt_invD(1,2) [OF inv] one two in \<open>auto simp: f s split: if_splits\<close>)
  show ?thesis
  proof (cases "spinning ex")
    case True
    with exec s have "same_core (release_group ae w, ex\<lparr>executed := executed ex @ callbacks_of ae\<rparr>) e"
      by (simp add: execute_any_executable_def trigger_interrupt_same)
    then have "mt_inv (?s'\<lparr>mt_exec := e\<rparr>)" by (intro mt_inv_core [OF rel_inv]) simp
    moreover have "?s'\<lparr>mt_exec := e\<rparr> = s\<lparr>mt_exec := e, running := (running s)(t := None)\<rparr>"
      by (cases s) simp
    ultimately show ?thesis by simp
  next
    case False
    with exec s have "e = mt_exec s" by (simp add: execute_any_executable_def)
    then show ?thesis
      by (intro mt_invI) (use mt_invD [OF inv] in \<open>auto split: if_splits\<close>)
  qed
qed

lemma mt_inv_step:
  assumes "mt_step s s'" and "mt_inv s"
  shows "mt_inv s'"
  using assms(1)
proof (cases rule: mt_step.cases)
  case (wait ans e)
  with wait_for_work_core [of "mt_exec s" ans] mt_inv_core [OF assms(2)] show ?thesis by simp
next
  case (take t rcl_timer_call ae e called)
  with mt_inv_take [OF assms(2)] show ?thesis by simp
next
  case (idle rcl_timer_call ae w ex called)
  obtain w0 ex0 where s: "mt_exec s = (w0, ex0)" by fastforce
  from assms(2) s have off: "\<not> priority_enabled ex0" "\<not> strategy_priority_enabled (strategy ex0)"
    by (simp_all add: mt_inv_def)
  note c = idle(2) [unfolded s]
  from plain_choice_parts [OF off c] have "w = w0" "exec_group ae = None"
    by (auto split: option.splits simp del: find.simps)
  with choice_keeps_switches [OF c off] off have "same_core (mt_exec s) (release_group ae w, ex)"
    by (simp add: s same_core_def release_group_def)
  with mt_inv_core [OF assms(2)] idle(1) show ?thesis by simp
next
  case (finish t ae e)
  with mt_inv_finish [OF assms(2)] show ?thesis by simp
next
  case (cancel e)
  obtain w ex where s: "mt_exec s = (w, ex)" by fastforce
  from cancel s have "same_core (w, ex\<lparr>spinning := False\<rparr>) e"
    by (simp add: cancel_def trigger_interrupt_same)
  then have "same_core (mt_exec s) e" by (simp add: s same_core_def)
  with mt_inv_core [OF assms(2)] cancel show ?thesis by simp
qed

lemma mt_inv_reachable:
  assumes "mt_reachable e s"
    and "\<not> priority_enabled (snd e)" and "\<not> strategy_priority_enabled (strategy (snd e))"
  shows "mt_inv s"
  using assms(1) unfolding mt_reachable_def
proof (induction rule: rtranclp_induct)
  case base
  with assms(2,3) show ?case by (simp add: mt_inv_def mt_start_def)
next
  case (step s s')
  then show ?case using mt_inv_step by blast
qed

text \<open>
  Claim C7.  Without priorities a mutually exclusive callback group keeps its promise under every
  interleaving of waiting, choosing, running and cancelling threads: no two threads run callbacks
  taken from the same mutually exclusive group, and what a thread runs is one callback, a member
  of the group it has taken.
\<close>

theorem mutual_exclusion:
  assumes "mt_reachable e s"
    and "\<not> priority_enabled (snd e)" and "\<not> strategy_priority_enabled (strategy (snd e))"
    and "running s t = Some ae"
  shows "\<exists>gp k p. exec_group ae = Some gp \<and> callbacks_of ae = [(k, p)] \<and> member (fst (mt_exec s)) gp k p \<and>
           (\<forall>u be. u \<noteq> t \<and> running s u = Some be \<and> exec_group be = Some gp \<longrightarrow>
              \<not> exclusive (fst (mt_exec s)) gp)"
proof -
  note inv = mt_inv_reachable [OF assms(1-3)]
  from mt_invD(3) [OF inv assms(4)] mt_invD(4) [OF inv assms(4)] show ?thesis by blast
qed

lemma example_taken:
  obtains ae w ex called where
    "get_next_ready_executable (\<lambda>_. RCL_RET_OK) AnyExecutable (example_world, example_executor False) =
       Inr ((True, ae, (w, ex)), called)"
    "exec_group ae = Some 10" "callbacks_of ae = [(Timer, 1)]" "w = on_group 10 mark_taken example_world"
proof -
  obtain ae e called where
    eq: "get_next_ready_executable (\<lambda>_. RCL_RET_OK) AnyExecutable (example_world, example_executor False) =
       Inr ((True, ae, e), called)"
    using example_choice_returns by blast
  obtain w ex where e: "e = (w, ex)" by fastforce
  have off: "\<not> priority_enabled (example_executor False)"
    "\<not> strategy_priority_enabled (strategy (example_executor False))" by simp_all
  have c: "chosen ae Timer = Some 1 \<and> exec_group ae = Some 10"
    using example_choice_plain by (simp add: example_choice_def eq)
  from choice_takes_own_group [OF off eq [unfolded e]] obtain k p gp where
    own: "callbacks_of ae = [(k, p)]" "exec_group ae = Some gp" "w = on_group gp mark_taken example_world" .
  from c own(1) have "callbacks_of ae = [(Timer, 1)]"
    by (auto simp: callbacks_of_def List.map_filter_simps split: option.splits)
  with eq e own c that show thesis by auto
qed

theorem mutual_exclusion_witness:
  "\<exists>s ae. mt_reachable (example_world, example_executor False) s \<and> running s 0 = Some ae \<and>
     (\<exists>gp k p. exec_group ae = Some gp \<and> callbacks_of ae = [(k, p)] \<and> member (fst (mt_exec s)) gp k p)"
proof -
  obtain ae w ex called where
    eq: "get_next_ready_executable (\<lambda>_. RCL_RET_OK) AnyExecutable (example_world, example_executor False) =
       Inr ((True, ae, (w, ex)), called)" by (rule example_taken)
  let ?start = "mt_start (example_world, example_executor False)"
  let ?s = "?start\<lparr>mt_exec := (w, ex), running := (running ?start)(0 \<mapsto> ae)\<rparr>"
  have step: "mt_step ?start ?s"
    by (rule mt_step.take [where rcl_timer_call = "\<lambda>_. RCL_RET_OK" and called = called]) (simp_all add: mt_start_def eq)
  then have reach: "mt_reachable (example_world, example_executor False) ?s"
    unfolding mt_reachable_def by blast
  have run: "running ?s 0 = Some ae" by simp
  from mutual_exclusion [OF reach _ _ run] have
    "\<exists>gp k p. exec_group ae = Some gp \<and> callbacks_of ae = [(k, p)] \<and> member (fst (mt_exec ?s)) gp k p"
    by (simp only: snd_conv example_enabled not_False_eq_True simp_thms) blast
  with reach run show ?thesis by blast
qed

section \<open>Where the promise fails\<close>

text \<open>Two timers in group 10 and a subscription in group 20.\<close>

definition pair_world :: world where
  "pair_world = example_world
     \<lparr>the_group := [10 \<mapsto> (example_group Timer 1)\<lparr>ptrs := (\<lambda>_. [])(Timer := [1, 3])\<rparr>, 20 \<mapsto> example_group Subscription 2]\<rparr>"

definition pair_executor :: executor where
  "pair_executor = (example_executor True)\<lparr>automatic_groups := [(10, 5), (20, 5)], all_groups := [(10, 5), (20, 5)]\<rparr>"

definition all_ready :: wait_answers where
  "all_ready = \<lparr>rcl_clear_ok = True, rcl_resize_ok = True, rcl_add_ok = (\<lambda>_ _. True), rcl_wait = Wait_ok,
                rcl_ready = (\<lambda>_ _. True), waitable_ready = (\<lambda>_. True)\<rparr>"

definition first_take :: "any_executable \<times> exec_state" where
  "first_take = (case get_next_ready_executable (\<lambda>_. RCL_RET_OK) AnyExecutable (pair_world, pair_executor) of
     Inr ((True, ae, e), called) \<Rightarrow> (ae, e) | _ \<Rightarrow> (AnyExecutable, (pair_world, pair_executor)))"

definition second_take :: "(bool \<times> any_executable \<times> exec_state) option" where
  "second_take = (case wait_for_work all_ready (snd first_take) of
     (None, e) \<Rightarrow>
       (case get_next_ready_executable (\<lambda>p. if p = 1 then RCL_RET_TIMER_CANCELED else RCL_RET_OK) AnyExecutable e of
          Inr (r, called) \<Rightarrow> Some r | _ \<Rightarrow> None)
   | _ \<Rightarrow> None)"

lemma both_takes:
  "callbacks_of (fst first_take) = [(Timer, 1)]"
  "case second_take of None \<Rightarrow> False
   | Some (ok, be, e) \<Rightarrow> ok \<and> callbacks_of be = [(Timer, 3)] \<and> exclusive (fst e) 10 \<and> member (fst e) 10 Timer 1 \<and>
       member (fst e) 10 Timer 3"
  by code_simp+

text \<open>
  With priorities the promise fails: from a start in which nothing runs, two threads can
  come to run two different callbacks of one mutually exclusive group, because the choice of the
  first marked another group as taken.
\<close>

theorem priorities_break_mutual_exclusion:
  "\<exists>s ae be. mt_reachable (pair_world, pair_executor) s \<and> running s 0 = Some ae \<and> running s 1 = Some be \<and>
     callbacks_of ae = [(Timer, 1)] \<and> callbacks_of be = [(Timer, 3)] \<and>
     exclusive (fst (mt_exec s)) 10 \<and> member (fst (mt_exec s)) 10 Timer 1 \<and> member (fst (mt_exec s)) 10 Timer 3"
proof -
  let ?start = "mt_start (pair_world, pair_executor)"
  obtain ae e1 where f: "first_take = (ae, e1)" by (cases first_take) auto
  from both_takes(1) f have ae: "callbacks_of ae = [(Timer, 1)]" by (metis fst_conv)
  then have "ae \<noteq> AnyExecutable"
    by (auto simp: AnyExecutable_def callbacks_of_def List.map_filter_simps)
  with f obtain c1 where
    g1: "get_next_ready_executable (\<lambda>_. RCL_RET_OK) AnyExecutable (pair_world, pair_executor) = Inr ((True, ae, e1), c1)"
    by (auto simp: first_take_def split: sum.splits bool.splits)
  from both_takes(2) obtain be e3 where sec: "second_take = Some (True, be, e3)"
    and be: "callbacks_of be = [(Timer, 3)]" "exclusive (fst e3) 10" "member (fst e3) 10 Timer 1"
      "member (fst e3) 10 Timer 3"
    by (auto split: option.splits)
  have sf: "snd first_take = e1" by (metis f snd_conv)
  from sec [unfolded second_take_def sf] obtain e2 c2 where w2: "wait_for_work all_ready e1 = (None, e2)"
    and g2: "get_next_ready_executable (\<lambda>p. if p = 1 then RCL_RET_TIMER_CANCELED else RCL_RET_OK) AnyExecutable e2 =
      Inr ((True, be, e3), c2)"
    by (auto split: prod.splits option.splits sum.splits)
  let ?sa = "?start\<lparr>mt_exec := e1, running := (running ?start)(0 \<mapsto> ae)\<rparr>"
  let ?sb = "?sa\<lparr>mt_exec := e2\<rparr>"
  let ?sc = "?sb\<lparr>mt_exec := e3, running := (running ?sb)(1 \<mapsto> be)\<rparr>"
  have "mt_step ?start ?sa" by (rule mt_step.take [where rcl_timer_call = "\<lambda>_. RCL_RET_OK" and called = c1]) (simp_all add: mt_start_def g1)
  moreover have "mt_step ?sa ?sb" by (rule mt_step.wait [where ans = all_ready]) (simp add: w2)
  moreover have "mt_step ?sb ?sc" 
    by (rule mt_step.take [where rcl_timer_call = "\<lambda>p. if p = 1 then RCL_RET_TIMER_CANCELED else RCL_RET_OK" and called = c2])
      (simp_all add: mt_start_def g2 del: One_nat_def)
  ultimately have "mt_reachable (pair_world, pair_executor) ?sc"
    unfolding mt_reachable_def by (meson converse_rtranclp_into_rtranclp rtranclp.rtrancl_refl)
  with ae be show ?thesis by (intro exI [of _ ?sc] exI [of _ ae] exI [of _ be]) simp
qed

text \<open>
  An executor that is cancelled between the choice and the execution of a callback
  leaves the callback's group marked as taken although nothing runs, so that a later spin never
  serves the group again; the destructor that would release it is disarmed.
\<close>

theorem cancelled_group_stays_taken:
  "\<exists>s. mt_reachable (example_world, example_executor False) s \<and> (\<forall>t. running s t = None) \<and>
     exclusive (fst (mt_exec s)) 10 \<and> \<not> group_takeable (fst (mt_exec s)) 10"
proof -
  obtain ae w ex called where
    eq: "get_next_ready_executable (\<lambda>_. RCL_RET_OK) AnyExecutable (example_world, example_executor False) =
       Inr ((True, ae, (w, ex)), called)" and w: "w = on_group 10 mark_taken example_world"
    by (rule example_taken)
  let ?start = "mt_start (example_world, example_executor False)"
  let ?sa = "?start\<lparr>mt_exec := (w, ex), running := (running ?start)(0 \<mapsto> ae)\<rparr>"
  have t: "condition_trigger_ok w c" for c by (simp add: w on_group_def example_world_def)
  let ?e = "(w\<lparr>triggered := triggered w @ [interrupt_condition ex]\<rparr>, ex\<lparr>spinning := False\<rparr>)"
  let ?sb = "?sa\<lparr>mt_exec := ?e\<rparr>"
  let ?sc = "?sb\<lparr>mt_exec := ?e, running := (running ?sb)(0 := None)\<rparr>"
  have "mt_step ?start ?sa" by (rule mt_step.take [where rcl_timer_call = "\<lambda>_. RCL_RET_OK" and called = called]) (simp_all add: mt_start_def eq)
  moreover have "mt_step ?sa ?sb"
    by (rule mt_step.cancel) (simp add: cancel_def trigger_interrupt_def trigger_def t)
  moreover have "mt_step ?sb ?sc"
    by (rule mt_step.finish [where ae = ae]) (simp_all add: execute_any_executable_def)
  ultimately have "mt_reachable (example_world, example_executor False) ?sc"
    unfolding mt_reachable_def by (meson converse_rtranclp_into_rtranclp rtranclp.rtrancl_refl)
  moreover have "exclusive w 10 \<and> \<not> group_takeable w 10" unfolding w by code_simp
  ultimately show ?thesis
    by (intro exI [of _ ?sc]) (simp add: mt_start_def exclusive_def group_takeable_def)
qed

end
