(* ===== verification/Executor_Groups.thy ===== *)
theory Executor_Groups
  imports Mutual_Exclusion
begin

text \<open>
  The books an executor keeps of its nodes and callback groups: the invariant that ties its three
  maps and the flags of the groups together, that every operation keeps it, and what adding and
  then removing a node leaves behind.
\<close>

section \<open>The invariant\<close>

text \<open>The invariant looks at the maps and at the flags of the groups only.\<close>

definition flags :: "world \<Rightarrow> nat \<Rightarrow> bool option" where
  "flags w gp = map_option group_associated (the_group w gp)"

definition books :: "(nat \<Rightarrow> bool option) \<Rightarrow> executor \<Rightarrow> bool" where
  "books flag ex \<longleftrightarrow>
     omap_ok (manual_groups ex) \<and> omap_ok (automatic_groups ex) \<and> omap_ok (all_groups ex) \<and>
     omap_ok (group_conditions ex) \<and>
     (\<forall>gp. map_of (manual_groups ex) gp = None \<or> map_of (automatic_groups ex) gp = None) \<and>
     map_of (all_groups ex) = map_of (manual_groups ex) ++ map_of (automatic_groups ex) \<and>
     (\<forall>gp. map_of (all_groups ex) gp \<noteq> None \<longrightarrow> flag gp \<noteq> Some False)"

definition books_ok :: "exec_state \<Rightarrow> bool" where
  "books_ok s \<longleftrightarrow> books (flags (fst s)) (snd s)"

lemma books_cong:
  assumes "books flag ex" "manual_groups ex' = manual_groups ex"
    "automatic_groups ex' = automatic_groups ex" "all_groups ex' = all_groups ex"
    "omap_ok (group_conditions ex')"
  shows "books flag ex'"
  using assms unfolding books_def by metis

lemma books_conditions [intro]: "books flag ex \<Longrightarrow> omap_ok (group_conditions ex)"
  by (simp add: books_def)

lemma books_weak_nodes [simp]: "books flag (ex\<lparr>weak_nodes := l\<rparr>) = books flag ex"
  unfolding books_def by simp

named_theorems flag

lemma on_group_flags [flag]:
  "(\<And>g. group_associated (f g) = group_associated g) \<Longrightarrow> flags (on_group gp f w) = flags w"
  by (intro ext) (simp add: flags_def on_group_def option.map_comp comp_def)

lemma trigger_flags [flag]: "flags (snd (trigger gc w)) = flags w"
  by (simp add: trigger_def flags_def fun_eq_iff)

lemma flags_update [flag]:
  "flags (w\<lparr>next_condition := n\<rparr>) = flags w" "flags (w\<lparr>triggered := l\<rparr>) = flags w"
  by (simp_all add: flags_def fun_eq_iff)

lemma on_node_flags [flag]: "flags (on_node np f w) = flags w"
  by (simp add: flags_def on_node_def fun_eq_iff)

lemma world_and_then_flags:
  assumes "flags (snd r) = flags w" and "\<And>w1. flags (snd (f w1)) = flags w1"
  shows "flags (snd (and_then r f)) = flags w"
  using assms by (cases r; cases "fst r") (simp_all add: and_then_def)

lemma get_notify_guard_condition_flags [flag]:
  "flags (snd (get_notify_guard_condition gp ctx w)) = flags w"
proof -
  have "flags (snd (drop_foreign_condition gp ctx w)) = flags w"
    unfolding drop_foreign_condition_def
    by (auto split: option.splits prod.splits intro!: world_and_then_flags simp: flag)
  then show ?thesis
    unfolding get_notify_guard_condition_def
    by (rule world_and_then_flags) (auto split: option.splits simp: flag)
qed

lemma trigger_interrupt_parts:
  "flags (fst (snd (trigger_interrupt failure s))) = flags (fst s)"
  "snd (snd (trigger_interrupt failure s)) = snd s"
proof -
  obtain w ex where s: "s = (w, ex)" by fastforce
  obtain r w' where t: "trigger (interrupt_condition ex) w = (r, w')" by fastforce
  have "flags w' = flags w" using trigger_flags [of "interrupt_condition ex" w] by (simp add: t)
  then show "flags (fst (snd (trigger_interrupt failure s))) = flags (fst s)"
    "snd (snd (trigger_interrupt failure s)) = snd s"
    by (simp_all add: s t trigger_interrupt_def split: option.splits)
qed

lemma trigger_interrupt_books: "books_ok s \<Longrightarrow> books_ok (snd (trigger_interrupt failure s))"
  by (simp add: books_ok_def trigger_interrupt_parts)

lemma and_then_books:
  assumes "books_ok (snd r)" and "\<And>s1. books_ok s1 \<Longrightarrow> books_ok (snd (f s1))"
  shows "books_ok (snd (and_then r f))"
  using assms by (cases "fst r") (simp_all add: and_then_def)

lemma watch_group_books:
  assumes "books_ok s"
  shows "books_ok (snd (watch_group gp np s))"
proof -
  obtain w ex where s: "s = (w, ex)" by fastforce
  have f: "flags w' = flags w" if "get_notify_guard_condition gp c w = (r, w')" for c r w'
    using get_notify_guard_condition_flags [of gp c w] that by simp
  from assms have b: "books (flags w) ex" by (simp add: books_ok_def s)
  then have "books (flags w) (ex\<lparr>group_conditions := omap_set gp gc (group_conditions ex),
      strategy := add_guard_condition gc (strategy ex)\<rparr>)" for gc
    by (rule books_cong) (use b in \<open>auto simp: books_def\<close>)
  with b f show ?thesis
    unfolding s watch_group_def books_ok_def by (simp split: option.splits prod.splits)
qed

lemma flags_set_associated:
  "flags (on_group gp (\<lambda>g. g\<lparr>group_associated := b\<rparr>) w) =
     (flags w)(gp := map_option (\<lambda>_. b) (flags w gp))"
  by (intro ext) (simp add: flags_def on_group_def option.map_comp comp_def)

lemma insert_group_books:
  fixes which :: which_groups and np :: nat
  assumes books: "books flag ex" and g: "flag gp = Some False"
  defines "ex1 \<equiv> set_groups which (omap_set gp np (groups_of which ex)) ex"
  shows "map_of (groups_of which ex) gp = None"
    and "books (flag(gp := Some True)) (ex1\<lparr>all_groups := omap_insert gp np (all_groups ex1)\<rparr>)"
proof -
  from books g have new: "map_of (all_groups ex) gp = None" unfolding books_def by metis
  moreover from books have all: "map_of (all_groups ex) = map_of (manual_groups ex) ++ map_of (automatic_groups ex)"
    by (simp add: books_def)
  ultimately have none: "map_of (manual_groups ex) gp = None" "map_of (automatic_groups ex) gp = None"
    by (simp_all add: map_add_None)
  then show "map_of (groups_of which ex) gp = None" by (cases which) simp_all
  have m: "(map_of (manual_groups ex))(gp \<mapsto> np) ++ map_of (automatic_groups ex) =
      (map_of (manual_groups ex) ++ map_of (automatic_groups ex))(gp \<mapsto> np)"
    using none by (auto simp: fun_eq_iff map_add_def split: option.splits)
  show "books (flag(gp := Some True)) (ex1\<lparr>all_groups := omap_insert gp np (all_groups ex1)\<rparr>)"
    using books none new m unfolding books_def
    by (cases which) (auto simp: ex1_def omap_insert_def)
qed

lemma add_callback_group_to_map_books:
  assumes "books_ok s"
  shows "books_ok (snd (add_callback_group_to_map gp np which notify s))"
proof -
  obtain w ex where s: "s = (w, ex)" by fastforce
  show ?thesis
  proof (cases "the_group w gp")
    case None
    with assms show ?thesis by (simp add: s add_callback_group_to_map_def)
  next
    case (Some g)
    show ?thesis
    proof (cases "group_associated g")
      case True
      with Some assms show ?thesis by (simp add: s add_callback_group_to_map_def)
    next
      case False
      from assms s have b: "books (flags w) ex" by (simp add: books_ok_def)
      from Some False have f: "flags w gp = Some False" by (simp add: flags_def)
      note ins = insert_group_books(1) [where which = which, OF b f]
        insert_group_books(2) [where which = which and np = np, OF b f]
      have b1: "books_ok (on_group gp (\<lambda>g. g\<lparr>group_associated := True\<rparr>) w,
          (set_groups which (omap_set gp np (groups_of which ex)) ex)
            \<lparr>all_groups := omap_insert gp np (all_groups (set_groups which (omap_set gp np (groups_of which ex)) ex))\<rparr>)"
        using ins(2) by (simp add: books_ok_def flags_set_associated f)
      show ?thesis
        using Some False ins(1) b1 unfolding s add_callback_group_to_map_def
        by (simp add: Let_def and_then_books watch_group_books trigger_interrupt_books)
    qed
  qed
qed

lemma add_groups_of_node_books: "books_ok s \<Longrightarrow> books_ok (snd (add_groups_of_node gps np notify s))"
proof (induction gps arbitrary: s)
  case (Cons gp gps)
  then show ?case
    by (auto split: option.splits intro!: and_then_books add_callback_group_to_map_books)
qed simp

lemma add_callback_groups_from_nodes_books: "books_ok s \<Longrightarrow> books_ok (snd (add_callback_groups_from_nodes nps s))"
proof (induction nps arbitrary: s)
  case (Cons np nps)
  then show ?case by (auto split: option.splits intro!: and_then_books add_groups_of_node_books)
qed simp

lemma add_node_books:
  assumes "books_ok s"
  shows "books_ok (snd (add_node np notify s))"
proof -
  obtain w ex where s: "s = (w, ex)" by fastforce
  have b: "books_ok (on_node np (\<lambda>n. n\<lparr>node_associated := True\<rparr>) w, ex)"
    using assms by (simp add: s books_ok_def flag)
  have push: "books_ok (snd (case s1 of (w2, ex2) \<Rightarrow> (None :: rclcpp_exn option, (w2, ex2\<lparr>weak_nodes := weak_nodes ex2 @ [np]\<rparr>))))"
    if "books_ok s1" for s1
    using that by (cases s1) (simp add: books_ok_def)
  from b have "books_ok (snd (and_then (add_groups_of_node gps np notify
      (on_node np (\<lambda>n. n\<lparr>node_associated := True\<rparr>) w, ex)) (\<lambda>(w2, ex2).
        (None, (w2, ex2\<lparr>weak_nodes := weak_nodes ex2 @ [np]\<rparr>)))))" for gps
    by (intro and_then_books add_groups_of_node_books push)
  with assms show ?thesis by (simp add: s add_node_def Let_def split: option.splits)
qed

lemma erase_group_books:
  fixes which :: which_groups
  assumes books: "books flag ex"
    and "map_of (groups_of which ex) gp = Some np"
  defines "ex1 \<equiv> set_groups which (omap_erase gp (groups_of which ex)) ex"
  shows "books (flag(gp := b)) (ex1\<lparr>all_groups := omap_erase gp (all_groups ex1)\<rparr>)"
proof -
  have other: "map_of (manual_groups ex) gp = None \<or> map_of (automatic_groups ex) gp = None"
    using books by (simp add: books_def)
  have m: "(map_of (manual_groups ex))(gp := None) ++ map_of (automatic_groups ex) =
      (map_of (manual_groups ex) ++ map_of (automatic_groups ex))(gp := None)"
    if "map_of (automatic_groups ex) gp = None"
    using that by (auto simp: fun_eq_iff map_add_def split: option.splits)
  have a: "map_of (manual_groups ex) ++ (map_of (automatic_groups ex))(gp := None) =
      (map_of (manual_groups ex) ++ map_of (automatic_groups ex))(gp := None)"
    if "map_of (manual_groups ex) gp = None"
    using that by (auto simp: fun_eq_iff map_add_def split: option.splits)
  show ?thesis
    using books assms(2) other m a unfolding books_def
    by (cases which) (auto simp: ex1_def)
qed

lemma unwatch_group_books:
  assumes "books_ok s"
  shows "books_ok (snd (unwatch_group gp notify s))"
proof -
  obtain w ex where s: "s = (w, ex)" by fastforce
  define ex1 where "ex1 = (case map_of (group_conditions ex) gp of None \<Rightarrow> ex
      | Some gc \<Rightarrow> ex\<lparr>strategy := remove_guard_condition gc (strategy ex)\<rparr>)"
  define ex2 where "ex2 = ex1\<lparr>group_conditions := omap_erase gp (group_conditions ex1)\<rparr>"
  from assms have b: "books (flags w) ex" by (simp add: s books_ok_def)
  then have "books (flags w) ex2"
    by (rule books_cong) (use b in \<open>auto simp: ex1_def ex2_def books_def split: option.splits\<close>)
  then have "books_ok (w, ex2)" by (simp add: books_ok_def)
  then show ?thesis
    by (simp add: s unwatch_group_def Let_def ex1_def [symmetric] ex2_def [symmetric] trigger_interrupt_books)
qed

lemma remove_callback_group_from_map_books:
  assumes "books_ok s"
  shows "books_ok (snd (remove_callback_group_from_map gp which notify s))"
proof -
  obtain w ex where s: "s = (w, ex)" by fastforce
  show ?thesis
  proof (cases "map_of (groups_of which ex) gp")
    case None
    with assms show ?thesis by (simp add: s remove_callback_group_from_map_def)
  next
    case (Some np)
    let ?ex1 = "set_groups which (omap_erase gp (groups_of which ex)) ex"
    from assms have "books (flags w) ex" by (simp add: s books_ok_def)
    from erase_group_books [OF this Some, of "map_option (\<lambda>_. False) (flags w gp)"]
    have b: "books_ok (on_group gp (\<lambda>g. g\<lparr>group_associated := False\<rparr>) w,
        ?ex1\<lparr>all_groups := omap_erase gp (all_groups ?ex1)\<rparr>)"
      by (simp add: books_ok_def flags_set_associated)
    with Some assms show ?thesis
      by (simp add: s remove_callback_group_from_map_def Let_def unwatch_group_books)
  qed
qed

lemma remove_groups_of_node_books: "books_ok s \<Longrightarrow> books_ok (snd (remove_groups_of_node m np notify s))"
proof (induction m arbitrary: s)
  case (Cons x m)
  obtain gp nq where x: "x = (gp, nq)" by fastforce
  have "books_ok (snd (and_then (remove_callback_group_from_map gp Automatic notify s)
      (remove_groups_of_node m np notify)))"
    by (intro and_then_books remove_callback_group_from_map_books Cons)
  with Cons x show ?case by simp
qed simp

lemma remove_node_books:
  assumes "books_ok s"
  shows "books_ok (snd (remove_node np notify s))"
proof -
  obtain w ex where s: "s = (w, ex)" by fastforce
  let ?ex1 = "ex\<lparr>weak_nodes := filter (\<lambda>nq. nq \<noteq> np) (weak_nodes ex)\<rparr>"
  have "books_ok (w, ?ex1)" using assms by (simp add: s books_ok_def)
  moreover have "books_ok (snd (case s1 of (w2, ex2) \<Rightarrow>
      (None :: rclcpp_exn option, (on_node np (\<lambda>n. n\<lparr>node_associated := False\<rparr>) w2, ex2))))"
    if "books_ok s1" for s1
    using that by (cases s1) (simp add: books_ok_def flag)
  ultimately have "books_ok (snd (and_then (remove_groups_of_node m np notify (w, ?ex1)) (\<lambda>(w2, ex2).
      (None, (on_node np (\<lambda>n. n\<lparr>node_associated := False\<rparr>) w2, ex2)))))" for m
    by (intro and_then_books remove_groups_of_node_books)
  with assms show ?thesis by (simp add: s remove_node_def Let_def split: option.splits)
qed

lemma map_add_erase:
  "(f(k := None)) ++ (g(k := None)) = (f ++ g)(k := None)"
  by (auto simp: fun_eq_iff map_add_def split: option.splits)

lemma forget_group_books:
  assumes "books flag ex"
  shows "books flag (forget_group gp ex)"
proof -
  have "omap_ok (group_conditions (forget_group gp ex))"
    using assms by (auto simp: forget_group_def Let_def books_def split: option.splits)
  moreover have "manual_groups (forget_group gp ex) = omap_erase gp (manual_groups ex)"
    "automatic_groups (forget_group gp ex) = omap_erase gp (automatic_groups ex)"
    "all_groups (forget_group gp ex) = omap_erase gp (all_groups ex)"
    by (simp_all add: forget_group_def Let_def split: option.splits)
  ultimately show ?thesis
    using assms unfolding books_def by (auto simp: map_add_erase)
qed

lemma forget_groups_books:
  "books flag ex \<Longrightarrow> books flag (foldl (\<lambda>ex gp. forget_group gp ex) ex gps)"
  by (induction gps arbitrary: ex) (simp_all add: forget_group_books)

lemma books_strategy [simp]: "books flag (ex\<lparr>strategy := ms\<rparr>) = books flag ex"
  unfolding books_def by simp

lemma collect_work_books:
  assumes "books_ok s"
  shows "books_ok (collect_work s)"
proof -
  obtain w ex where s: "s = (w, ex)" by fastforce
  obtain invalid ms where
    c: "collect_entities w (all_groups ex) (clear_handles (strategy ex)) = (invalid, ms)" by fastforce
  from assms have "books (flags w) (ex\<lparr>strategy := ms\<rparr>)" by (simp add: s books_ok_def)
  from forget_groups_books [OF this] assms show ?thesis
    by (simp add: s collect_work_def c Let_def books_ok_def)
qed

lemma wait_for_work_books:
  assumes "books_ok s"
  shows "books_ok (snd (wait_for_work ans s))"
  unfolding wait_for_work_def
proof (rule and_then_books)
  show "books_ok (snd (add_callback_groups_from_nodes_associated_to_executor s))"
    unfolding add_callback_groups_from_nodes_associated_to_executor_def
    by (rule add_callback_groups_from_nodes_books [OF assms])
next
  fix s1
  assume "books_ok s1"
  obtain w ex where c: "collect_work s1 = (w, ex)" by fastforce
  from collect_work_books [OF \<open>books_ok s1\<close>] show "books_ok (snd (let (w, ex) = collect_work s1
       in if \<not> rcl_clear_ok ans then (Some (RCLError ''Couldn't clear wait set''), (w, ex))
          else if \<not> rcl_resize_ok ans then (Some (RCLError ''Couldn't resize the wait set''), (w, ex))
          else if \<not> fst (add_handles_to_wait_set (rcl_add_ok ans) (strategy ex)
                      \<lparr>waiting = (\<lambda>_. []), waiting_conditions = []\<rparr>)
          then (Some (RuntimeError ''Couldn't fill wait set''), (w, ex))
          else if rcl_wait ans = Wait_failed then (Some (RCLError ''rcl_wait() failed''), (w, ex))
          else (None, (w, ex\<lparr>strategy := remove_null_handles (rcl_ready ans) (waitable_ready ans) (strategy ex)\<rparr>))))"
    by (simp add: c books_ok_def)
qed

text \<open>
  Claim C8.  The executor's books stay consistent whatever it is asked to do and whether or not the
  operation throws: the map of all groups is the disjoint union of the groups added by hand and
  those added with their nodes, and every living group in it is marked as associated, so that no
  second executor can take it.
\<close>

theorem executor_books_kept:
  assumes "books_ok s"
  shows "books_ok (snd (add_callback_group gp np notify s)) \<and> books_ok (snd (add_node np notify s)) \<and>
         books_ok (snd (remove_callback_group gp notify s)) \<and> books_ok (snd (remove_node np notify s)) \<and>
         books_ok (snd (wait_for_work ans s))"
  using assms
  by (simp add: add_callback_group_def remove_callback_group_def add_callback_group_to_map_books
      add_node_books remove_callback_group_from_map_books remove_node_books wait_for_work_books)

lemma example_books: "books_ok (example_world, example_executor False)"
  by (auto simp: books_ok_def books_def flags_def example_world_def example_executor_def Executor_def
      example_group_def omap_ok_def)

theorem executor_books_kept_witness:
  "books_ok (snd (remove_node 5 False (example_world, example_executor False)))"
  using executor_books_kept [OF example_books] by blast

section \<open>Adding and removing a node\<close>

lemma omap_set_split:
  assumes "map_of m k = None"
  shows "\<exists>a b. omap_set k v m = a @ (k, v) # b \<and> m = a @ b"
  using assms
proof (induction m)
  case Nil
  then show ?case by simp
next
  case (Cons p m)
  show ?case
  proof (cases "fst p < k")
    case True
    from Cons obtain a b where "omap_set k v m = a @ (k, v) # b \<and> m = a @ b" by (auto split: if_splits)
    with True show ?thesis
      by (metis append_Cons omap_set.simps(2))
  next
    case False
    with Cons.prems have "omap_set k v (p # m) = [] @ (k, v) # p # m \<and> p # m = [] @ p # m"
      by (cases p) (auto split: if_splits)
    then show ?thesis by blast
  qed
qed

lemma remove_groups_of_node_skip:
  "\<forall>x \<in> set a. snd x \<noteq> np \<Longrightarrow>
     remove_groups_of_node (a @ m) np notify s = remove_groups_of_node m np notify s"
  by (induction a) auto

lemma remove_groups_of_node_only:
  assumes "map_of m gp = None" and "\<forall>x \<in> set m. snd x \<noteq> np"
    and "the_node (fst s) np \<noteq> None" and "the_group (fst s) gp \<noteq> None"
    and "remove_callback_group_from_map gp Automatic notify s = (None, s')"
  shows "remove_groups_of_node (omap_set gp np m) np notify s = (None, s')"
proof -
  from omap_set_split [OF assms(1), of np] obtain a b where
    ab: "omap_set gp np m = a @ (gp, np) # b" "m = a @ b" by blast
  with assms(2) have "\<forall>x \<in> set a. snd x \<noteq> np" "\<forall>x \<in> set b. snd x \<noteq> np" by auto
  from remove_groups_of_node_skip [OF this(1)] remove_groups_of_node_skip [OF this(2), of "[]"]
  show ?thesis unfolding ab(1) using assms(3-5) by simp
qed

text \<open>
  Claim C37.  Adding a node with one callback group to an executor and removing it again restores
  the executor: its maps, its list of nodes and its guard conditions are as before, and node and
  group are free to be added elsewhere.
\<close>

theorem add_remove_node_restores:
  assumes n: "the_node w np = Some n" "\<not> node_associated n" "nb_groups n = [gp]"
    and g: "the_group w gp = Some g" "\<not> group_associated g" "auto_add g" "notify_condition g = None"
    and rcl: "context_valid w (nb_context n)" "condition_init_ok w (nb_context n)" "\<forall>c. condition_trigger_ok w c"
    and books: "books_ok (w, ex)" "np \<notin> set (weak_nodes ex)" "map_of (group_conditions ex) gp = None"
      "\<forall>x \<in> set (manual_groups ex) \<union> set (automatic_groups ex). snd x \<noteq> np"
      "next_condition w \<notin> set (guard_conditions (strategy ex))"
  shows "\<exists>w'. and_then (add_node np notify (w, ex)) (remove_node np notify) = (None, (w', ex)) \<and>
           flags w' = flags w \<and> the_node w' np = Some n"
proof -
  let ?gc = "next_condition w"
  let ?tr = "\<lambda>w. if notify then w\<lparr>triggered := triggered w @ [interrupt_condition ex]\<rparr> else w"
  define w1 where "w1 = on_node np (\<lambda>n. n\<lparr>node_associated := True\<rparr>) w"
  define w2 where "w2 = on_group gp (\<lambda>g. g\<lparr>group_associated := True\<rparr>) w1"
  define w3 where "w3 = ?tr (on_group gp (\<lambda>g. g\<lparr>notify_condition := Some (?gc, nb_context n)\<rparr>)
      (w2\<lparr>next_condition := ?gc + 1\<rparr>))"
  define ex3 where "ex3 = ex\<lparr>automatic_groups := omap_set gp np (automatic_groups ex),
      all_groups := omap_set gp np (all_groups ex), group_conditions := omap_set gp ?gc (group_conditions ex),
      strategy := add_guard_condition ?gc (strategy ex), weak_nodes := weak_nodes ex @ [np]\<rparr>"
  have f: "flags w gp = Some False" using g by (simp add: flags_def)
  from books(1) f have all: "map_of (all_groups ex) gp = None" and
    "map_of (all_groups ex) = map_of (manual_groups ex) ++ map_of (automatic_groups ex)"
    unfolding books_ok_def books_def by auto
  then have none: "map_of (automatic_groups ex) gp = None" "map_of (manual_groups ex) gp = None"
    by (simp_all add: map_add_None)
  have add: "add_node np notify (w, ex) = (None, (w3, ex3))"
    using n g rcl none all
    by (simp add: add_node_def live_groups_def add_callback_group_to_map_def watch_group_def
        get_notify_guard_condition_def drop_foreign_condition_def trigger_interrupt_def trigger_def
        on_group_def on_node_def Let_def omap_insert_def w1_def w2_def w3_def ex3_def)
  let ?ex4 = "ex3\<lparr>weak_nodes := filter (\<lambda>nq. nq \<noteq> np) (weak_nodes ex3)\<rparr>"
  define w5 where "w5 = ?tr (on_group gp (\<lambda>g. g\<lparr>group_associated := False\<rparr>) w3)"
  have nodes: "filter (\<lambda>nq. nq \<noteq> np) (weak_nodes ex3) = weak_nodes ex"
    using books(2) by (auto simp: ex3_def filter_id_conv)
  have gc: "strategy ex\<lparr>guard_conditions := remove1 ?gc (guard_conditions (strategy ex) @ [?gc])\<rparr> = strategy ex"
    using books(5) by (simp add: remove1_append)
  have nh: "\<not> has_node_in v np (automatic_groups ex) \<and> \<not> has_node_in v np (manual_groups ex)" for v
  proof -
    have "nq \<noteq> np" if "(gq, nq) \<in> set (automatic_groups ex) \<or> (gq, nq) \<in> set (manual_groups ex)" for gq nq
      using bspec [OF books(4), of "(gq, nq)"] that by auto
    then show ?thesis by (auto simp: has_node_in_def)
  qed
  have rem: "remove_callback_group_from_map gp Automatic notify (w3, ?ex4) = (None, (w5, ex))"
    using n g rcl none all books nodes gc nh
    by (simp add: remove_callback_group_from_map_def unwatch_group_def Let_def
        omap_erase_set trigger_interrupt_def trigger_def add_guard_condition_def remove_guard_condition_def
        on_group_def on_node_def w1_def w2_def w3_def w5_def ex3_def)
  have auto: "automatic_groups ?ex4 = omap_set gp np (automatic_groups ex)" by (simp add: ex3_def)
  have n3: "the_node w3 np = Some (n\<lparr>node_associated := True\<rparr>)"
    using n by (simp add: w1_def w2_def w3_def on_node_def on_group_def)
  have "the_group w3 gp \<noteq> None"
    using g by (simp add: w1_def w2_def w3_def on_node_def on_group_def)
  with n3 rem books(4) none(1) have
    "remove_groups_of_node (automatic_groups ?ex4) np notify (w3, ?ex4) = (None, (w5, ex))"
    unfolding auto by (intro remove_groups_of_node_only) auto
  moreover have "np \<in> set (weak_nodes ex3)" by (simp add: ex3_def)
  ultimately have "remove_node np notify (w3, ex3) =
      (None, (on_node np (\<lambda>n. n\<lparr>node_associated := False\<rparr>) w5, ex))"
    using n3 by (simp add: remove_node_def Let_def)
  moreover have "flags (on_node np (\<lambda>n. n\<lparr>node_associated := False\<rparr>) w5) = flags w"
    using f by (simp add: flag w5_def w3_def w2_def w1_def flags_set_associated fun_eq_iff)
  moreover have "the_node w5 np = Some (n\<lparr>node_associated := True\<rparr>)"
    using n3 by (simp add: w5_def on_group_def)
  then have "the_node (on_node np (\<lambda>n. n\<lparr>node_associated := False\<rparr>) w5) np = Some n"
    using n(2) by (simp add: on_node_def)
  ultimately show ?thesis using add by auto
qed

text \<open>A node with the given groups, and an executor that serves nothing.\<close>

definition idle_world :: "nat list \<Rightarrow> world" where
  "idle_world gps =
     \<lparr>the_group = (\<lambda>gp. if gp \<in> set gps then Some (CallbackGroup MutuallyExclusive True) else None),
      the_node = [5 \<mapsto> \<lparr>nb_name = ''n'', nb_groups = gps, nb_default_group = hd gps,
                        node_associated = False, nb_context = 0, nb_condition = 0\<rparr>],
      the_entity = (\<lambda>_. Map.empty), next_condition = 100, triggered = [], context_valid = (\<lambda>_. True),
      condition_init_ok = (\<lambda>_. True), condition_trigger_ok = (\<lambda>_. True)\<rparr>"

definition idle_executor :: executor where
  "idle_executor = Executor 1 2 AllocatorMemoryStrategy"

lemma idle_books: "books_ok (idle_world gps, idle_executor)"
  by (simp add: books_ok_def books_def idle_executor_def Executor_def)

theorem add_remove_node_restores_witness:
  "\<exists>w'. and_then (add_node 5 True (idle_world [10], idle_executor)) (remove_node 5 True) = (None, (w', idle_executor)) \<and>
     flags w' = flags (idle_world [10])"
proof -
  have "\<exists>w'. and_then (add_node 5 True (idle_world [10], idle_executor)) (remove_node 5 True) = (None, (w', idle_executor)) \<and>
     flags w' = flags (idle_world [10]) \<and>
     the_node w' 5 = Some \<lparr>nb_name = ''n'', nb_groups = [10], nb_default_group = 10,
        node_associated = False, nb_context = 0, nb_condition = 0\<rparr>"
    by (rule add_remove_node_restores [where gp = 10 and g = "CallbackGroup MutuallyExclusive True", OF _ _ _ _ _ _ _ _ _ _ idle_books])
      (simp_all add: idle_world_def idle_executor_def Executor_def CallbackGroup_def
        AllocatorMemoryStrategy_def add_guard_condition_def)
  then show ?thesis by blast
qed

text \<open>
  With two callback groups the executor is not restored: the guard condition of the group
  that is removed first stays in the memory strategy, although the executor serves no group any
  more and forgets the condition only when it is destroyed or the group expires.
\<close>

theorem remove_node_leaves_condition:
  "case and_then (add_node 5 False (idle_world [10, 20], idle_executor)) (remove_node 5 False) of
     (r, (w, ex)) \<Rightarrow>
       r = None \<and> weak_nodes ex = [] \<and> all_groups ex = [] \<and>
       map_option notify_condition (the_group w 10) = Some (Some (100, 0)) \<and>
       100 \<in> set (guard_conditions (strategy ex)) \<and>
       100 \<notin> set (guard_conditions (strategy idle_executor))"
  by code_simp

end
