(* ===== verification/Static_Executor.thy ===== *)
theory Static_Executor
  imports Executor
begin

text \<open>
  The static single-threaded executor the node and group programs run on
  (\<open>executors/static_single_threaded_executor.cpp\<close>), its collector of entities
  (\<open>executors/static_executor_entities_collector.cpp\<close>) and the list of executables
  (\<open>executable_list.cpp\<close>).  The collector shares the memory strategy and the wait set of the
  executor.  The list of executables has one list per kind of entity; its counters are the lengths
  of the lists.  The wait set is known by the sizes it was given and by the slots that the answers
  of \<open>rcl_wait\<close> leave filled.
\<close>

section \<open>State\<close>

record collector =
  manual_map :: group_map
  auto_map :: group_map
  collector_nodes :: "nat list"
  node_conditions :: "(nat, nat) omap"
  new_nodes :: "nat list"
  exec_list :: "entity_kind \<Rightarrow> nat list"
  is_init :: bool
  collector_waitable :: nat
  wait_sizes :: "entity_kind \<Rightarrow> nat"

text \<open>
  \<open>manual_map\<close> is \<open>weak_groups_associated_with_executor_to_nodes_\<close>, \<open>auto_map\<close> is
  \<open>weak_groups_to_nodes_associated_with_executor_\<close>; \<open>collector_waitable\<close> names the collector itself,
  which is one of the waitables, and \<open>wait_sizes\<close> are the sizes of the wait set.
\<close>

type_synonym static_state = "world \<times> executor \<times> collector"

definition StaticExecutorEntitiesCollector :: "nat \<Rightarrow> collector" where
  "StaticExecutorEntitiesCollector self =
     \<lparr>manual_map = [], auto_map = [], collector_nodes = [], node_conditions = [], new_nodes = [],
      exec_list = (\<lambda>_. []), is_init = False, collector_waitable = self, wait_sizes = (\<lambda>_. 0)\<rparr>"

section \<open>The list of executables\<close>

definition ExecutableList :: "entity_kind \<Rightarrow> nat list" where
  "ExecutableList = (\<lambda>_. [])"

definition add_executable :: "entity_kind \<Rightarrow> nat \<Rightarrow> (entity_kind \<Rightarrow> nat list) \<Rightarrow> entity_kind \<Rightarrow> nat list" where
  "add_executable k p l = l(k := l k @ [p])"

fun fill_executable_list_from_map ::
    "world \<Rightarrow> group_map \<Rightarrow> (entity_kind \<Rightarrow> nat list) \<Rightarrow> entity_kind \<Rightarrow> nat list" where
  "fill_executable_list_from_map w [] l = l"
| "fill_executable_list_from_map w ((gp, np) # m) l =
     (case (the_group w gp, the_node w np) of
        (Some g, Some n) \<Rightarrow>
          if \<not> can_be_taken_from g then fill_executable_list_from_map w m l
          else fill_executable_list_from_map w m
                 (foldl (\<lambda>l k. foldl (\<lambda>l p. add_executable k p l) l (collect_all_ptrs w g k))
                    l [Timer, Subscription, Service, Client, Waitable])
      | _ \<Rightarrow> fill_executable_list_from_map w m l)"

section \<open>Callback groups and nodes\<close>

fun map_of_groups :: "which_groups \<Rightarrow> collector \<Rightarrow> group_map" where
  "map_of_groups Manual c = manual_map c"
| "map_of_groups Automatic c = auto_map c"

fun set_map_of_groups :: "which_groups \<Rightarrow> group_map \<Rightarrow> collector \<Rightarrow> collector" where
  "set_map_of_groups Manual m c = c\<lparr>manual_map := m\<rparr>"
| "set_map_of_groups Automatic m c = c\<lparr>auto_map := m\<rparr>"

definition has_node_here :: "world \<Rightarrow> nat \<Rightarrow> collector \<Rightarrow> bool" where
  "has_node_here w np c \<longleftrightarrow> has_node_in w np (manual_map c) \<or> has_node_in w np (auto_map c)"

definition collector_add_callback_group ::
    "nat \<Rightarrow> nat \<Rightarrow> which_groups \<Rightarrow> world \<times> collector \<Rightarrow> (rclcpp_exn + bool) \<times> world \<times> collector" where
  "collector_add_callback_group gp np which = (\<lambda>(w, c).
     case the_group w gp of
       None \<Rightarrow> (Inr False, (w, c))
     | Some g \<Rightarrow>
         if group_associated g
         then (Inl (RuntimeError ''Callback group has already been added to an executor.''), (w, c))
         else
           let w1 = on_group gp (\<lambda>g. g\<lparr>group_associated := True\<rparr>) w;
               is_new_node = (\<not> has_node_here w1 np c)
           in if map_of (map_of_groups which c) gp \<noteq> None
              then (Inl (RuntimeError ''Callback group was already added to executor.''), (w1, c))
              else
                let c1 = set_map_of_groups which (omap_set gp np (map_of_groups which c)) c
                in if is_new_node then (Inr True, (w1, c1\<lparr>new_nodes := new_nodes c1 @ [np]\<rparr>))
                   else (Inr False, (w1, c1)))"

fun collector_add_groups ::
    "nat list \<Rightarrow> nat \<Rightarrow> bool \<Rightarrow> world \<times> collector \<Rightarrow> (rclcpp_exn + bool) \<times> world \<times> collector" where
  "collector_add_groups [] np is_new_node s = (Inr is_new_node, s)"
| "collector_add_groups (gp # gps) np is_new_node s =
     (case the_group (fst s) gp of
        None \<Rightarrow> collector_add_groups gps np is_new_node s
      | Some g \<Rightarrow>
          if \<not> group_associated g \<and> auto_add g
          then
            (case collector_add_callback_group gp np Automatic s of
               (Inl e, s1) \<Rightarrow> (Inl e, s1)
             | (Inr b, s1) \<Rightarrow> collector_add_groups gps np (b \<or> is_new_node) s1)
          else collector_add_groups gps np is_new_node s)"

definition collector_add_node :: "nat \<Rightarrow> world \<times> collector \<Rightarrow> (rclcpp_exn + bool) \<times> world \<times> collector" where
  "collector_add_node np = (\<lambda>(w, c).
     case the_node w np of
       None \<Rightarrow> (Inr False, (w, c))
     | Some n \<Rightarrow>
         if node_associated n
         then (Inl (RuntimeError ''Node has already been added to an executor.''), (w, c))
         else
           let w1 = on_node np (\<lambda>n. n\<lparr>node_associated := True\<rparr>) w
           in (case collector_add_groups (live_groups w1 n) np False (w1, c) of
                 (Inl e, s) \<Rightarrow> (Inl e, s)
               | (Inr b, (w2, c2)) \<Rightarrow> (Inr b, (w2, c2\<lparr>collector_nodes := collector_nodes c2 @ [np]\<rparr>))))"

fun collector_add_from_nodes :: "nat list \<Rightarrow> world \<times> collector \<Rightarrow> (world \<times> collector) outcome" where
  "collector_add_from_nodes [] s = (None, s)"
| "collector_add_from_nodes (np # nps) s =
     (case the_node (fst s) np of
        None \<Rightarrow> collector_add_from_nodes nps s
      | Some n \<Rightarrow>
          (case collector_add_groups (live_groups (fst s) n) np False s of
             (Inl e, s1) \<Rightarrow> (Some e, s1)
           | (Inr _, s1) \<Rightarrow> collector_add_from_nodes nps s1))"

definition collector_remove_group_from_map ::
    "nat \<Rightarrow> which_groups \<Rightarrow> world \<times> collector \<Rightarrow> (rclcpp_exn + bool) \<times> world \<times> collector" where
  "collector_remove_group_from_map gp which = (\<lambda>(w, c).
     case map_of (map_of_groups which c) gp of
       None \<Rightarrow> (Inl (RuntimeError ''Callback group needs to be associated with executor.''), (w, c))
     | Some np \<Rightarrow>
         if the_node w np = None
         then (Inl (RuntimeError ''Node must not be deleted before its callback group(s).''), (w, c))
         else
           let c1 = set_map_of_groups which (omap_erase gp (map_of_groups which c)) c
           in if \<not> has_node_here w np c1
              then (Inr True, (w, c1\<lparr>node_conditions := omap_erase np (node_conditions c1)\<rparr>))
              else (Inr False, (w, c1)))"

fun collector_remove_groups ::
    "nat option list \<Rightarrow> world \<times> collector \<Rightarrow> (world \<times> collector) outcome" where
  "collector_remove_groups [] s = (None, s)"
| "collector_remove_groups (None # gps) s =
     (Some (RuntimeError ''Callback group needs to be associated with executor.''), s)"
| "collector_remove_groups (Some gp # gps) s =
     (case collector_remove_group_from_map gp Automatic s of
        (Inl e, s1) \<Rightarrow> (Some e, s1)
      | (Inr _, s1) \<Rightarrow> collector_remove_groups gps s1)"

definition found_groups :: "world \<Rightarrow> nat \<Rightarrow> group_map \<Rightarrow> nat option list" where
  "found_groups w np m =
     map (\<lambda>(gp, _). if the_group w gp = None then None else Some gp)
       (filter (\<lambda>(_, nq). the_node w nq \<noteq> None \<and> nq = np) m)"

definition collector_remove_node :: "nat \<Rightarrow> world \<times> collector \<Rightarrow> (rclcpp_exn + bool) \<times> world \<times> collector" where
  "collector_remove_node np = (\<lambda>(w, c).
     case the_node w np of
       None \<Rightarrow> (Inr False, (w, c))
     | Some n \<Rightarrow>
         if \<not> node_associated n then (Inr False, (w, c))
         else if np \<notin> set (collector_nodes c) then (Inr False, (w, c))
         else
           let c1 = c\<lparr>collector_nodes := remove1 np (collector_nodes c)\<rparr>
           in (case collector_remove_groups (found_groups w np (auto_map c1)) (w, c1) of
                 (Some e, s) \<Rightarrow> (Inl e, s)
               | (None, (w2, c2)) \<Rightarrow>
                   (Inr True, (on_node np (\<lambda>n. n\<lparr>node_associated := False\<rparr>) w2, c2))))"

text \<open>The destructor gives the groups and nodes free.\<close>

definition release_all_groups :: "group_map \<Rightarrow> world \<Rightarrow> world" where
  "release_all_groups m w =
     foldl (\<lambda>w (gp, _). on_group gp (\<lambda>g. g\<lparr>group_associated := False\<rparr>) w) w m"

definition release_all_nodes :: "nat list \<Rightarrow> world \<Rightarrow> world" where
  "release_all_nodes nps w = foldl (\<lambda>w np. on_node np (\<lambda>n. n\<lparr>node_associated := False\<rparr>) w) w nps"

definition collector_destroy :: "world \<times> collector \<Rightarrow> world \<times> collector" where
  "collector_destroy = (\<lambda>(w, c).
     (release_all_nodes (collector_nodes c) (release_all_groups (auto_map c) (release_all_groups (manual_map c) w)),
      c\<lparr>manual_map := [], auto_map := [], exec_list := ExecutableList, collector_nodes := [],
        node_conditions := []\<rparr>))"

definition collector_get_all_callback_groups :: "collector \<Rightarrow> nat list" where
  "collector_get_all_callback_groups c = map fst (manual_map c) @ map fst (auto_map c)"

section \<open>Collecting entities\<close>

definition drop_expired :: "world \<Rightarrow> group_map \<Rightarrow> group_map" where
  "drop_expired w m = foldl (\<lambda>m gp. omap_erase gp m) m (expired_groups w m)"

definition fill_memory_strategy :: "static_state \<Rightarrow> static_state outcome" where
  "fill_memory_strategy = (\<lambda>(w, ex, c).
     let (invalid, ms1) = collect_entities w (auto_map c) (clear_handles (strategy ex));
         c1 = (if invalid then c\<lparr>auto_map := drop_expired w (auto_map c)\<rparr> else c);
         (invalid', ms2) = collect_entities w (manual_map c1) ms1;
         c2 = (if invalid' then c1\<lparr>manual_map := drop_expired w (manual_map c1)\<rparr> else c1)
     in (case add_waitable_handle (Some (collector_waitable c2)) ms2 of
           (e, ms3) \<Rightarrow> (e, (w, ex\<lparr>strategy := ms3\<rparr>, c2))))"

definition fill_executable_list :: "static_state \<Rightarrow> static_state outcome" where
  "fill_executable_list = (\<lambda>(w, ex, c).
     let c1 = c\<lparr>exec_list := ExecutableList\<rparr>
     in (case collector_add_from_nodes (collector_nodes c1) (w, c1) of
           (Some e, (w1, c2)) \<Rightarrow> (Some e, (w1, ex, c2))
         | (None, (w1, c2)) \<Rightarrow>
             let l1 = fill_executable_list_from_map w1 (manual_map c2) (exec_list c2);
                 l2 = fill_executable_list_from_map w1 (auto_map c2) l1
             in (None, (w1, ex, c2\<lparr>exec_list := add_executable Waitable (collector_waitable c2) l2\<rparr>))))"

text \<open>
  What the middleware and the waitables answer: \<open>slots k p\<close> is the number of slots of kind \<open>k\<close> a
  waitable asks for.
\<close>

definition prepare_wait_set ::
    "wait_answers \<Rightarrow> (entity_kind \<Rightarrow> nat \<Rightarrow> nat) \<Rightarrow> static_state \<Rightarrow> static_state outcome" where
  "prepare_wait_set ans slots = (\<lambda>(w, ex, c).
     if \<not> rcl_clear_ok ans then (Some (RuntimeError ''Couldn't clear wait set''), (w, ex, c))
     else if \<not> rcl_resize_ok ans then (Some (RuntimeError ''Couldn't resize the wait set: ''), (w, ex, c))
     else (None, (w, ex, c\<lparr>wait_sizes := (\<lambda>k. number_of_ready k (slots k) (strategy ex))\<rparr>)))"

definition note_new_nodes :: "world \<Rightarrow> collector \<Rightarrow> collector" where
  "note_new_nodes w c =
     c\<lparr>node_conditions :=
         foldl (\<lambda>m np. case the_node w np of None \<Rightarrow> m | Some n \<Rightarrow> omap_set np (nb_condition n) m)
           (node_conditions c) (new_nodes c),
       new_nodes := []\<rparr>"

definition collector_execute ::
    "wait_answers \<Rightarrow> (entity_kind \<Rightarrow> nat \<Rightarrow> nat) \<Rightarrow> static_state \<Rightarrow> static_state outcome" where
  "collector_execute ans slots s =
     and_then (fill_memory_strategy s) (\<lambda>s1.
     and_then (fill_executable_list s1) (\<lambda>s2.
     and_then (prepare_wait_set ans slots s2) (\<lambda>(w, ex, c). (None, (w, ex, note_new_nodes w c)))))"

definition collector_start ::
    "wait_answers \<Rightarrow> (entity_kind \<Rightarrow> nat \<Rightarrow> nat) \<Rightarrow> static_state \<Rightarrow> static_state outcome" where
  "collector_start ans slots = (\<lambda>(w, ex, c).
     and_then (collector_execute ans slots (w, ex, c\<lparr>exec_list := ExecutableList\<rparr>)) (\<lambda>(w, ex, c).
       (None, (w, ex, c\<lparr>is_init := True\<rparr>))))"

definition collector_fini :: "static_state \<Rightarrow> static_state" where
  "collector_fini = (\<lambda>(w, ex, c).
     (w, ex\<lparr>strategy := clear_handles (strategy ex)\<rparr>, c\<lparr>exec_list := ExecutableList\<rparr>))"

definition refresh_wait_set :: "wait_answers \<Rightarrow> static_state \<Rightarrow> static_state outcome" where
  "refresh_wait_set ans = (\<lambda>(w, ex, c).
     if \<not> rcl_clear_ok ans then (Some (RuntimeError ''Couldn't clear wait set''), (w, ex, c))
     else if \<not> fst (add_handles_to_wait_set (rcl_add_ok ans) (strategy ex)
                 \<lparr>waiting = (\<lambda>_. []), waiting_conditions = []\<rparr>)
     then (Some (RuntimeError ''Couldn't fill wait set''), (w, ex, c))
     else if rcl_wait ans = Wait_failed then (Some (RCLError ''rcl_wait() failed''), (w, ex, c))
     else (None, (w, ex, c)))"

text \<open>The guard conditions left in the wait set decide whether the collector is ready.\<close>

definition collector_is_ready :: "nat list \<Rightarrow> collector \<Rightarrow> bool" where
  "collector_is_ready conditions c \<longleftrightarrow> (\<exists>gc \<in> set conditions. gc \<in> snd ` set (node_conditions c))"

definition collector_add_to_wait_set :: "collector \<Rightarrow> nat list \<Rightarrow> nat list" where
  "collector_add_to_wait_set c conditions = conditions @ map snd (node_conditions c)"

definition get_number_of_ready_guard_conditions :: "collector \<Rightarrow> nat" where
  "get_number_of_ready_guard_conditions c = length (node_conditions c) + length (new_nodes c)"

section \<open>Executing what is ready\<close>

text \<open>
  The outcome of one pass: \<open>ready k i\<close> says that slot \<open>i\<close> of kind \<open>k\<close> is still filled after
  waiting, \<open>timer_is_ready\<close> and \<open>pass_timer_call\<close> answer for a timer, \<open>is_waitable_ready\<close> for a
  waitable, before and after the wait set has been cleared.  The result of \<open>timer->call()\<close> is ignored by the code, its exception is not.
\<close>

record pass_answers =
  slot_ready :: "entity_kind \<Rightarrow> nat \<Rightarrow> bool"
  timer_is_ready :: "nat \<Rightarrow> bool"
  pass_timer_call :: "nat \<Rightarrow> rcl_ret"
  is_waitable_ready :: "bool \<Rightarrow> nat \<Rightarrow> bool"
  ready_conditions :: "nat list"

definition runs_slot :: "pass_answers \<Rightarrow> collector \<Rightarrow> entity_kind \<Rightarrow> nat \<Rightarrow> bool" where
  "runs_slot pa c k i \<longleftrightarrow>
     i < length (exec_list c k) \<and> slot_ready pa k i \<and>
     (k = Timer \<longrightarrow> timer_is_ready pa (exec_list c k ! i))"

fun execute_slots ::
    "pass_answers \<Rightarrow> bool \<Rightarrow> entity_kind \<Rightarrow> nat list \<Rightarrow> bool \<Rightarrow> static_state \<Rightarrow> (rclcpp_exn + bool \<times> bool) \<times> static_state" where
  "execute_slots pa once k [] any s = (Inr (False, any), s)"
| "execute_slots pa once k (i # is) any (w, ex, c) =
     (if \<not> runs_slot pa c k i then execute_slots pa once k is any (w, ex, c)
      else
        let p = exec_list c k ! i
        in (case (if k = Timer then timer_call (pass_timer_call pa) p else Inr True) of
              Inl e \<Rightarrow> (Inl e, (w, ex, c))
            | Inr _ \<Rightarrow>
                let s1 = (w, ex\<lparr>executed := executed ex @ [(k, p)]\<rparr>, c)
                in if once then (Inr (True, True), s1)
                   else execute_slots pa once k is True s1))"

fun execute_kinds ::
    "pass_answers \<Rightarrow> bool \<Rightarrow> entity_kind list \<Rightarrow> bool \<Rightarrow> static_state \<Rightarrow> (rclcpp_exn + bool \<times> bool) \<times> static_state" where
  "execute_kinds pa once [] any s = (Inr (False, any), s)"
| "execute_kinds pa once (k # ks) any s =
     (case execute_slots pa once k [0..<wait_sizes (snd (snd s)) k] any s of
        (Inl e, s1) \<Rightarrow> (Inl e, s1)
      | (Inr (True, r), s1) \<Rightarrow> (Inr (True, r), s1)
      | (Inr (False, any1), s1) \<Rightarrow> execute_kinds pa once ks any1 s1)"

text \<open>
  The loop over the waitables.  The collector is one of them: executing it clears the wait set and
  collects the entities anew, so that the list changes under the loop.  The fuel bounds the number
  of turns; \<open>None\<close> is its exhaustion.
\<close>

definition waitable_is_ready :: "pass_answers \<Rightarrow> bool \<Rightarrow> collector \<Rightarrow> nat \<Rightarrow> bool" where
  "waitable_is_ready pa cleared c p =
     (if p = collector_waitable c then collector_is_ready (if cleared then [] else ready_conditions pa) c
      else is_waitable_ready pa cleared p)"

fun execute_waitables ::
    "nat \<Rightarrow> pass_answers \<Rightarrow> wait_answers \<Rightarrow> (entity_kind \<Rightarrow> nat \<Rightarrow> nat) \<Rightarrow> bool \<Rightarrow> bool \<Rightarrow> nat \<Rightarrow> bool \<Rightarrow>
     static_state \<Rightarrow> ((rclcpp_exn + bool) \<times> static_state) option" where
  "execute_waitables 0 pa ans slots once cleared i any s = None"
| "execute_waitables (Suc n) pa ans slots once cleared i any (w, ex, c) =
     (if \<not> i < length (exec_list c Waitable) then Some (Inr any, (w, ex, c))
      else
        let p = exec_list c Waitable ! i; own = (p = collector_waitable c)
        in if \<not> waitable_is_ready pa cleared c p
           then execute_waitables n pa ans slots once cleared (Suc i) any (w, ex, c)
           else
             let ex1 = ex\<lparr>executed := executed ex @ [(Waitable, p)]\<rparr>
             in (case (if own then collector_execute ans slots (w, ex1, c) else (None, (w, ex1, c))) of
                   (Some e, s1) \<Rightarrow> Some (Inl e, s1)
                 | (None, s1) \<Rightarrow>
                     if once then Some (Inr True, s1)
                     else execute_waitables n pa ans slots once (cleared \<or> own) (Suc i) True s1))"

definition execute_ready_executables ::
    "nat \<Rightarrow> pass_answers \<Rightarrow> wait_answers \<Rightarrow> (entity_kind \<Rightarrow> nat \<Rightarrow> nat) \<Rightarrow> bool \<Rightarrow> static_state \<Rightarrow>
     ((rclcpp_exn + bool) \<times> static_state) option" where
  "execute_ready_executables fuel pa ans slots once s =
     (case execute_kinds pa once [Subscription, Timer, Service, Client] False s of
        (Inl e, s1) \<Rightarrow> Some (Inl e, s1)
      | (Inr (True, r), s1) \<Rightarrow> Some (Inr r, s1)
      | (Inr (False, any), s1) \<Rightarrow> execute_waitables fuel pa ans slots once False 0 any s1)"

section \<open>The executor\<close>

definition lift_collector ::
    "(world \<times> collector \<Rightarrow> (rclcpp_exn + bool) \<times> world \<times> collector) \<Rightarrow> static_state \<Rightarrow>
     (rclcpp_exn + bool) \<times> static_state" where
  "lift_collector f = (\<lambda>(w, ex, c). case f (w, c) of (r, (w', c')) \<Rightarrow> (r, (w', ex, c')))"

definition trigger_if :: "bool \<Rightarrow> static_state \<Rightarrow> static_state outcome" where
  "trigger_if b = (\<lambda>(w, ex, c).
     if b then (case trigger (interrupt_condition ex) w of (e, w') \<Rightarrow> (e, (w', ex, c)))
     else (None, (w, ex, c)))"

definition static_add_callback_group :: "nat \<Rightarrow> nat \<Rightarrow> bool \<Rightarrow> static_state \<Rightarrow> static_state outcome" where
  "static_add_callback_group gp np notify s =
     (case lift_collector (collector_add_callback_group gp np Manual) s of
        (Inl e, s1) \<Rightarrow> (Some e, s1)
      | (Inr is_new_node, s1) \<Rightarrow> trigger_if (is_new_node \<and> notify) s1)"

definition static_add_node :: "nat \<Rightarrow> bool \<Rightarrow> static_state \<Rightarrow> static_state outcome" where
  "static_add_node np notify s =
     (case lift_collector (collector_add_node np) s of
        (Inl e, s1) \<Rightarrow> (Some e, s1)
      | (Inr is_new_node, s1) \<Rightarrow> trigger_if (is_new_node \<and> notify) s1)"

definition static_remove_callback_group :: "nat \<Rightarrow> bool \<Rightarrow> static_state \<Rightarrow> static_state outcome" where
  "static_remove_callback_group gp notify s =
     (case lift_collector (collector_remove_group_from_map gp Manual) s of
        (Inl e, s1) \<Rightarrow> (Some e, s1)
      | (Inr node_removed, s1) \<Rightarrow> trigger_if (node_removed \<and> notify) s1)"

definition static_remove_node :: "nat \<Rightarrow> bool \<Rightarrow> static_state \<Rightarrow> static_state outcome" where
  "static_remove_node np notify s =
     (case lift_collector (collector_remove_node np) s of
        (Inl e, s1) \<Rightarrow> (Some e, s1)
      | (Inr False, s1) \<Rightarrow> (Some (RuntimeError ''Node needs to be associated with this executor.''), s1)
      | (Inr True, s1) \<Rightarrow> trigger_if notify s1)"

text \<open>
  \<open>spin\<close>: every element of the list is a turn for which the context is valid; the collector is
  initialised anew each time.  \<open>spin_some\<close> and \<open>spin_all\<close> initialise it once and stop after the
  first turn, or after the first turn without work.
\<close>

type_synonym turn = "wait_answers \<times> pass_answers \<times> nat"

fun static_turns ::
    "bool \<Rightarrow> bool \<Rightarrow> (entity_kind \<Rightarrow> nat \<Rightarrow> nat) \<Rightarrow> turn list \<Rightarrow> static_state \<Rightarrow> static_state outcome option" where
  "static_turns some exhaustive slots [] s = Some (None, s)"
| "static_turns some exhaustive slots ((ans, pa, fuel) # ts) s =
     (if \<not> spinning (fst (snd s)) then Some (None, s)
      else
        (case refresh_wait_set ans s of
           (Some e, s1) \<Rightarrow> Some (Some e, s1)
         | (None, s1) \<Rightarrow>
             (case execute_ready_executables fuel pa ans slots False s1 of
                None \<Rightarrow> None
              | Some (Inl e, s2) \<Rightarrow> Some (Some e, s2)
              | Some (Inr work_available, s2) \<Rightarrow>
                  if some \<and> (\<not> work_available \<or> \<not> exhaustive) then Some (None, s2)
                  else static_turns some exhaustive slots ts s2)))"

definition set_spinning :: "bool \<Rightarrow> static_state \<Rightarrow> static_state" where
  "set_spinning b = (\<lambda>(w, ex, c). (w, ex\<lparr>spinning := b\<rparr>, c))"

definition static_spin ::
    "wait_answers \<Rightarrow> (entity_kind \<Rightarrow> nat \<Rightarrow> nat) \<Rightarrow> turn list \<Rightarrow> static_state \<Rightarrow> static_state outcome option" where
  "static_spin ans slots turns s =
     (if spinning (fst (snd s)) then Some (Some (RuntimeError ''spin() called while already spinning''), s)
      else
        map_option (map_prod id (set_spinning False))
          (case collector_start ans slots (set_spinning True s) of
             (Some e, s1) \<Rightarrow> Some (Some e, s1)
           | (None, s1) \<Rightarrow> static_turns False False slots turns s1))"

definition static_spin_some_impl ::
    "wait_answers \<Rightarrow> (entity_kind \<Rightarrow> nat \<Rightarrow> nat) \<Rightarrow> turn list \<Rightarrow> bool \<Rightarrow> static_state \<Rightarrow> static_state outcome option" where
  "static_spin_some_impl ans slots turns exhaustive s =
     (case (if is_init (snd (snd s)) then (None, s) else collector_start ans slots s) of
        (Some e, s1) \<Rightarrow> Some (Some e, s1)
      | (None, s1) \<Rightarrow>
          if spinning (fst (snd s1))
          then Some (Some (RuntimeError ''spin_some() called while already spinning''), s1)
          else map_option (map_prod id (set_spinning False))
                 (static_turns True exhaustive slots turns (set_spinning True s1)))"

definition static_spin_all ::
    "int \<Rightarrow> wait_answers \<Rightarrow> (entity_kind \<Rightarrow> nat \<Rightarrow> nat) \<Rightarrow> turn list \<Rightarrow> static_state \<Rightarrow> static_state outcome option" where
  "static_spin_all max_duration ans slots turns s =
     (if max_duration < 0
      then Some (Some (InvalidArgument ''max_duration must be greater than or equal to 0''), s)
      else static_spin_some_impl ans slots turns True s)"

definition static_spin_once_impl ::
    "wait_answers \<Rightarrow> (entity_kind \<Rightarrow> nat \<Rightarrow> nat) \<Rightarrow> turn \<Rightarrow> static_state \<Rightarrow> static_state outcome option" where
  "static_spin_once_impl ans slots = (\<lambda>(ans', pa, fuel) s.
     case (if is_init (snd (snd s)) then (None, s) else collector_start ans slots s) of
       (Some e, s1) \<Rightarrow> Some (Some e, s1)
     | (None, s1) \<Rightarrow>
         if \<not> spinning (fst (snd s1)) then Some (None, s1)
         else
           (case refresh_wait_set ans' s1 of
              (Some e, s2) \<Rightarrow> Some (Some e, s2)
            | (None, s2) \<Rightarrow>
                (case execute_ready_executables fuel pa ans' slots True s2 of
                   None \<Rightarrow> None
                 | Some (Inl e, s3) \<Rightarrow> Some (Some e, s3)
                 | Some (Inr _, s3) \<Rightarrow> Some (None, s3))))"

end
