(* ===== verification/Static_Alignment.thy ===== *)
theory Static_Alignment
  imports Static_Executor
begin

text \<open>
  The static executor relates the slots of the wait set to the entities it executes by position:
  slot \<open>i\<close> of a kind belongs to the \<open>i\<close>-th handle of the memory strategy, and what is executed for
  it is the \<open>i\<close>-th entry of the list of executables.  The two lists are filled separately; this
  theory shows when they are in step, what a pass then executes, that a pass ends, and where they
  are not in step.
\<close>

section \<open>What the two lists hold\<close>

definition entities_of_pair :: "world \<Rightarrow> entity_kind \<Rightarrow> nat \<times> nat \<Rightarrow> nat list" where
  "entities_of_pair w k = (\<lambda>(gp, np).
     case (the_group w gp, the_node w np) of
       (Some g, Some n) \<Rightarrow> if can_be_taken_from g then collect_all_ptrs w g k else []
     | _ \<Rightarrow> [])"

definition entities_of :: "world \<Rightarrow> group_map \<Rightarrow> entity_kind \<Rightarrow> nat list" where
  "entities_of w m k = concat (map (entities_of_pair w k) m)"

definition own_waitable :: "collector \<Rightarrow> entity_kind \<Rightarrow> nat list" where
  "own_waitable c k = (if k = Waitable then [collector_waitable c] else [])"

lemma entities_of_Nil [simp]: "entities_of w [] k = []"
  by (simp add: entities_of_def)

lemma entities_of_Cons [simp]: "entities_of w (p # m) k = entities_of_pair w k p @ entities_of w m k"
  by (simp add: entities_of_def)

lemma handles_collect_entities:
  "handles (snd (collect_entities w m ms)) k = handles ms k @ map (entity_handle w k) (entities_of w m k)"
  by (induction w m ms rule: collect_entities.induct) (auto simp: entities_of_pair_def split: option.splits)

lemma collect_entities_frame:
  "guard_conditions (snd (collect_entities w m ms)) = guard_conditions ms"
  by (induction w m ms rule: collect_entities.induct) (auto split: option.splits)

lemma add_executables: "foldl (\<lambda>l p. add_executable k p l) l ps = l(k := l k @ ps)"
  by (induction ps arbitrary: l) (auto simp: add_executable_def)

lemma add_all_executables:
  "distinct ks \<Longrightarrow>
     foldl (\<lambda>l k. foldl (\<lambda>l p. add_executable k p l) l (f k)) l ks k' =
       l k' @ (if k' \<in> set ks then f k' else [])"
  by (induction ks arbitrary: l) (auto simp: add_executables)

lemma all_kinds: "k \<in> set [Timer, Subscription, Service, Client, Waitable]"
  by (cases k) simp_all

lemma exec_list_fill_from_map:
  "fill_executable_list_from_map w m l k = l k @ entities_of w m k"
  using all_kinds [of k]
  by (induction w m l rule: fill_executable_list_from_map.induct)
    (auto simp: entities_of_pair_def add_all_executables simp del: foldl_Cons split: option.splits)

lemma drop_expired_eq:
  assumes "distinct (map fst m)"
  shows "drop_expired w m = filter (\<lambda>(gp, np). the_group w gp \<noteq> None \<and> the_node w np \<noteq> None) m"
proof -
  have fold_erase: "foldl (\<lambda>m gp. omap_erase gp m) m' gps = filter (\<lambda>p. fst p \<notin> set gps) m'" for m' :: group_map and gps
    by (induction gps arbitrary: m') (auto simp: omap_erase_def intro: filter_cong)
  have "fst p \<in> set (expired_groups w m) \<longleftrightarrow> the_group w (fst p) = None \<or> the_node w (snd p) = None"
    if "p \<in> set m" for p
  proof
    assume "fst p \<in> set (expired_groups w m)"
    then obtain np where "(fst p, np) \<in> set m" "the_group w (fst p) = None \<or> the_node w np = None"
      by (auto simp: expired_groups_def)
    with that show "the_group w (fst p) = None \<or> the_node w (snd p) = None"
      using eq_key_imp_eq_value [OF assms, of "fst p" np "snd p"] by simp
  next
    assume "the_group w (fst p) = None \<or> the_node w (snd p) = None"
    with that show "fst p \<in> set (expired_groups w m)"
      by (auto simp: expired_groups_def case_prod_beta)
  qed
  then show ?thesis
    unfolding drop_expired_def fold_erase by (intro filter_cong) auto
qed

lemma entities_of_drop_expired:
  assumes "distinct (map fst m)"
  shows "entities_of w (drop_expired w m) k = entities_of w m k"
  unfolding drop_expired_eq [OF assms]
  by (induction m) (auto simp: entities_of_pair_def split: option.splits)

section \<open>Collecting\<close>

text \<open>No group of a served node is waiting to be added.\<close>

definition settled :: "world \<Rightarrow> collector \<Rightarrow> bool" where
  "settled w c \<longleftrightarrow>
     (\<forall>np \<in> set (collector_nodes c). \<forall>gp \<in> set (case the_node w np of None \<Rightarrow> [] | Some n \<Rightarrow> live_groups w n).
        case the_group w gp of None \<Rightarrow> True | Some g \<Rightarrow> group_associated g \<or> \<not> auto_add g)"

lemma collector_add_groups_settled:
  "(\<forall>gp \<in> set gps. case the_group w gp of None \<Rightarrow> True | Some g \<Rightarrow> group_associated g \<or> \<not> auto_add g) \<Longrightarrow>
     collector_add_groups gps np b (w, c) = (Inr b, (w, c))"
  by (induction gps) (auto split: option.splits)

lemma collector_add_from_nodes_settled:
  "(\<forall>np \<in> set nps. \<forall>gp \<in> set (case the_node w np of None \<Rightarrow> [] | Some n \<Rightarrow> live_groups w n).
        case the_group w gp of None \<Rightarrow> True | Some g \<Rightarrow> group_associated g \<or> \<not> auto_add g) \<Longrightarrow>
     collector_add_from_nodes nps (w, c) = (None, (w, c))"
  by (induction nps) (auto simp: collector_add_groups_settled split: option.splits)

text \<open>The maps of the collector have no key twice.\<close>

definition maps_ok :: "collector \<Rightarrow> bool" where
  "maps_ok c \<longleftrightarrow> omap_ok (manual_map c) \<and> omap_ok (auto_map c)"

lemma maps_okD [dest]:
  assumes "maps_ok c"
  shows "distinct (map fst (manual_map c))" "distinct (map fst (auto_map c))"
  using assms by (simp_all add: maps_ok_def omap_ok_distinct)

lemma fill_memory_strategy_result:
  assumes "maps_ok c"
  obtains ex' c' where "fill_memory_strategy (w, ex, c) = (None, (w, ex', c'))"
    and "\<And>k. handles (strategy ex') k =
               map (entity_handle w k) (entities_of w (auto_map c) k @ entities_of w (manual_map c) k @ own_waitable c k)"
    and "ex' = ex\<lparr>strategy := strategy ex'\<rparr>"
    and "c' = c\<lparr>auto_map := auto_map c', manual_map := manual_map c'\<rparr>"
    and "auto_map c' \<in> {auto_map c, drop_expired w (auto_map c)}"
    and "manual_map c' \<in> {manual_map c, drop_expired w (manual_map c)}"
proof -
  obtain i1 ms1 where 1: "collect_entities w (auto_map c) (clear_handles (strategy ex)) = (i1, ms1)" by force
  obtain i2 ms2 where 2: "collect_entities w (manual_map c) ms1 = (i2, ms2)" by force
  have h: "handles ms2 k = map (entity_handle w k) (entities_of w (auto_map c) k @ entities_of w (manual_map c) k)" for k
    using handles_collect_entities [of w "auto_map c" "clear_handles (strategy ex)" k]
      handles_collect_entities [of w "manual_map c" ms1 k]
    unfolding 1 2 by (simp add: clear_handles_def)
  show thesis
    by (rule that [of "ex\<lparr>strategy := ms2\<lparr>handles := (handles ms2)(Waitable := handles ms2 Waitable @ [collector_waitable c])\<rparr>\<rparr>"
          "let c1 = (if i1 then c\<lparr>auto_map := drop_expired w (auto_map c)\<rparr> else c)
           in if i2 then c1\<lparr>manual_map := drop_expired w (manual_map c1)\<rparr> else c1"])
      (auto simp: fill_memory_strategy_def 1 2 h add_waitable_handle_def own_waitable_def entity_handle_def Let_def)
qed

text \<open>The lists after a collection in a settled state.\<close>

lemma collector_execute_settled:
  assumes "maps_ok c" and "settled w c" and "rcl_clear_ok ans" and "rcl_resize_ok ans"
  obtains ex' c' where "collector_execute ans slots (w, ex, c) = (None, (w, ex', c'))"
    and "\<And>k. handles (strategy ex') k =
               map (entity_handle w k) (entities_of w (auto_map c) k @ entities_of w (manual_map c) k @ own_waitable c k)"
    and "\<And>k. exec_list c' k = entities_of w (manual_map c) k @ entities_of w (auto_map c) k @ own_waitable c k"
    and "\<And>k. wait_sizes c' k = number_of_ready k (slots k) (strategy ex')"
    and "ex' = ex\<lparr>strategy := strategy ex'\<rparr>"
    and "collector_waitable c' = collector_waitable c" and "new_nodes c' = []"
    and "\<And>k. entities_of w (auto_map c') k = entities_of w (auto_map c) k"
    and "\<And>k. entities_of w (manual_map c') k = entities_of w (manual_map c) k"
proof -
  obtain ex1 c1 where f: "fill_memory_strategy (w, ex, c) = (None, (w, ex1, c1))"
    and h: "\<And>k. handles (strategy ex1) k =
       map (entity_handle w k) (entities_of w (auto_map c) k @ entities_of w (manual_map c) k @ own_waitable c k)"
    and ex1: "ex1 = ex\<lparr>strategy := strategy ex1\<rparr>"
    and c1: "c1 = c\<lparr>auto_map := auto_map c1, manual_map := manual_map c1\<rparr>"
    and maps: "auto_map c1 \<in> {auto_map c, drop_expired w (auto_map c)}"
      "manual_map c1 \<in> {manual_map c, drop_expired w (manual_map c)}"
    using fill_memory_strategy_result [OF assms(1)] by metis
  have kept: "entities_of w (auto_map c1) k = entities_of w (auto_map c) k"
    "entities_of w (manual_map c1) k = entities_of w (manual_map c) k" for k
    using maps maps_okD [OF assms(1)] by (auto simp: entities_of_drop_expired)
  have nodes: "collector_nodes c1 = collector_nodes c" "collector_waitable c1 = collector_waitable c"
    by (subst c1, simp)+
  have "collector_add_from_nodes (collector_nodes c1) (w, c1\<lparr>exec_list := ExecutableList\<rparr>)
      = (None, (w, c1\<lparr>exec_list := ExecutableList\<rparr>))"
    using assms(2) unfolding settled_def nodes by (rule collector_add_from_nodes_settled)
  then show thesis
    using assms(3,4)
    by (intro that [of ex1 "note_new_nodes w (c1\<lparr>exec_list := add_executable Waitable (collector_waitable c1)
          (fill_executable_list_from_map w (auto_map c1) (fill_executable_list_from_map w (manual_map c1) ExecutableList)),
          wait_sizes := \<lambda>k. number_of_ready k (slots k) (strategy ex1)\<rparr>)"])
      (simp_all add: collector_execute_def f fill_executable_list_def prepare_wait_set_def note_new_nodes_def
        h kept nodes add_executable_def exec_list_fill_from_map ExecutableList_def own_waitable_def Let_def
        ex1 [symmetric])
qed

section \<open>A pass\<close>

definition note_executed :: "(entity_kind \<times> nat) list \<Rightarrow> executor \<Rightarrow> executor" where
  "note_executed cs ex = ex\<lparr>executed := executed ex @ cs\<rparr>"

lemma note_executed_simps [simp]:
  "note_executed [] ex = ex"
  "note_executed ds (note_executed cs ex) = note_executed (cs @ ds) ex"
  "ex\<lparr>executed := executed ex @ cs\<rparr> = note_executed cs ex"
  by (simp_all add: note_executed_def)

lemma execute_slots_all:
  assumes "\<And>p. pass_timer_call pa p \<noteq> RCL_RET_ERROR"
  shows "execute_slots pa False k is any (w, ex, c) =
     (let run = filter (runs_slot pa c k) is
      in (Inr (False, any \<or> run \<noteq> []), (w, note_executed (map (\<lambda>i. (k, exec_list c k ! i)) run) ex, c)))"
proof (induction "is" arbitrary: any ex)
  case Nil
  then show ?case by simp
next
  case (Cons i "is")
  have "timer_call (pass_timer_call pa) p = Inr True \<or> timer_call (pass_timer_call pa) p = Inr False" for p
    using assms [of p] by (auto simp: timer_call_def split: rcl_ret.splits)
  then have "\<exists>b. (if k = Timer then timer_call (pass_timer_call pa) (exec_list c k ! i) else Inr True) = Inr b"
    by (cases "k = Timer") auto
  then show ?case using Cons by (auto simp: Let_def)
qed

text \<open>The entities of a kind whose slots are filled and that run.\<close>

definition running :: "pass_answers \<Rightarrow> collector \<Rightarrow> entity_kind \<Rightarrow> nat list" where
  "running pa c k =
     map (\<lambda>i. exec_list c k ! i) (filter (runs_slot pa c k) [0..<wait_sizes c k])"

lemma execute_kinds_all:
  assumes "\<And>p. pass_timer_call pa p \<noteq> RCL_RET_ERROR"
  shows "execute_kinds pa False ks any (w, ex, c) =
     (let run = concat (map (\<lambda>k. map (Pair k) (running pa c k)) ks)
      in (Inr (False, any \<or> run \<noteq> []), (w, note_executed run ex, c)))"
  by (induction ks arbitrary: any ex)
    (auto simp: execute_slots_all [OF assms] Let_def running_def comp_def)

lemma execute_waitables_quiet:
  assumes "\<not> waitable_is_ready pa False c (collector_waitable c)"
    and "i \<le> length (exec_list c Waitable)" and "length (exec_list c Waitable) < i + fuel"
  shows "execute_waitables fuel pa ans slots False False i any (w, ex, c) =
     (let run = filter (waitable_is_ready pa False c) (drop i (exec_list c Waitable))
      in Some (Inr (any \<or> run \<noteq> []), (w, note_executed (map (Pair Waitable) run) ex, c)))"
  using assms(2,3)
proof (induction fuel arbitrary: i any ex)
  case 0
  then show ?case by simp
next
  case (Suc fuel)
  show ?case
  proof (cases "i < length (exec_list c Waitable)")
    case False
    then show ?thesis by simp
  next
    case True
    moreover from True have "drop i (exec_list c Waitable) = exec_list c Waitable ! i # drop (Suc i) (exec_list c Waitable)"
      by (rule Cons_nth_drop_Suc [symmetric])
    moreover have "exec_list c Waitable ! i \<noteq> collector_waitable c"
      if "waitable_is_ready pa False c (exec_list c Waitable ! i)"
      using that assms(1) by auto
    ultimately show ?thesis using Suc by (simp add: Let_def)
  qed
qed

lemma pass_quiet:
  assumes "\<And>p. pass_timer_call pa p \<noteq> RCL_RET_ERROR"
    and "\<not> waitable_is_ready pa False c (collector_waitable c)" and "length (exec_list c Waitable) < fuel"
  shows "execute_ready_executables fuel pa ans slots False (w, ex, c) =
    (let run = concat (map (\<lambda>k. map (Pair k) (running pa c k)) [Subscription, Timer, Service, Client]) @
               map (Pair Waitable) (filter (waitable_is_ready pa False c) (exec_list c Waitable))
     in Some (Inr (run \<noteq> []), (w, note_executed run ex, c)))"
proof -
  define run where "run = concat (map (\<lambda>k. map (Pair k) (running pa c k)) [Subscription, Timer, Service, Client])"
  have kinds: "execute_kinds pa False [Subscription, Timer, Service, Client] False (w, ex, c) =
      (Inr (False, run \<noteq> []), (w, note_executed run ex, c))"
    unfolding execute_kinds_all [OF assms(1)] run_def by (simp only: Let_def simp_thms)
  show ?thesis
    unfolding execute_ready_executables_def kinds run_def [symmetric]
    using execute_waitables_quiet [OF assms(2), of 0 fuel] assms(3) by (auto simp: Let_def)
qed

text \<open>In step: the handles of every kind are those of the list of executables, and have slots.\<close>

definition in_step :: "world \<Rightarrow> executor \<Rightarrow> collector \<Rightarrow> bool" where
  "in_step w ex c \<longleftrightarrow>
     (\<forall>k. handles (strategy ex) k = map (entity_handle w k) (exec_list c k) \<and>
          length (exec_list c k) \<le> wait_sizes c k)"

lemma filter_positions:
  assumes "length xs \<le> n"
  shows "map (\<lambda>i. xs ! i) (filter (\<lambda>i. i < length xs \<and> P (xs ! i)) [0..<n]) = filter P xs"
proof -
  have "[0..<n] = [0..<length xs] @ [length xs..<n]"
    using assms upt_add_eq_append [of 0 "length xs" "n - length xs"] by simp
  then have "filter (\<lambda>i. i < length xs \<and> P (xs ! i)) [0..<n] = filter (\<lambda>i. P (xs ! i)) [0..<length xs]"
    by (auto simp: filter_empty_conv intro: filter_cong)
  also have "map (\<lambda>i. xs ! i) \<dots> = filter P (map (\<lambda>i. xs ! i) [0..<length xs])"
    by (simp add: filter_map comp_def)
  finally show ?thesis by (simp add: map_nth)
qed

lemma running_in_step:
  assumes "in_step w ex c"
    and "\<And>k i. i < length (handles (strategy ex) k) \<Longrightarrow> slot_ready pa k i = ready k (handles (strategy ex) k ! i)"
  shows "running pa c k =
     filter (\<lambda>p. ready k (entity_handle w k p) \<and> (k = Timer \<longrightarrow> timer_is_ready pa p)) (exec_list c k)"
proof -
  have "runs_slot pa c k = (\<lambda>i. i < length (exec_list c k) \<and> ready k (entity_handle w k (exec_list c k ! i)) \<and>
      (k = Timer \<longrightarrow> timer_is_ready pa (exec_list c k ! i)))"
    using assms unfolding runs_slot_def in_step_def by (intro ext) auto
  moreover have "length (exec_list c k) \<le> wait_sizes c k"
    using assms(1) by (simp add: in_step_def)
  ultimately show ?thesis
    unfolding running_def
    using filter_positions [of "exec_list c k" "wait_sizes c k"
        "\<lambda>p. ready k (entity_handle w k p) \<and> (k = Timer \<longrightarrow> timer_is_ready pa p)"] by simp
qed

lemma collected_in_step:
  assumes "maps_ok c" and "settled w c" and "manual_map c = [] \<or> auto_map c = []"
    and "collector_execute ans slots (w, ex, c) = (None, (w', ex', c'))"
  shows "w' = w \<and> in_step w ex' c' \<and> collector_waitable c' = collector_waitable c \<and>
    (\<forall>k. exec_list c' k = entities_of w (manual_map c @ auto_map c) k @ own_waitable c k)"
proof -
  have ok: "rcl_clear_ok ans" "rcl_resize_ok ans"
    using assms(4)
    by (auto simp: collector_execute_def and_then_def prepare_wait_set_def split: option.splits if_splits prod.splits)
  obtain ex1 c1 where e: "collector_execute ans slots (w, ex, c) = (None, (w, ex1, c1))"
    and h: "\<And>k. handles (strategy ex1) k =
       map (entity_handle w k) (entities_of w (auto_map c) k @ entities_of w (manual_map c) k @ own_waitable c k)"
    and l: "\<And>k. exec_list c1 k = entities_of w (manual_map c) k @ entities_of w (auto_map c) k @ own_waitable c k"
    and z: "\<And>k. wait_sizes c1 k = number_of_ready k (slots k) (strategy ex1)"
    and cw: "collector_waitable c1 = collector_waitable c"
    using collector_execute_settled [OF assms(1,2) ok] by metis
  have "handles (strategy ex1) k = map (entity_handle w k) (exec_list c1 k)" for k
    using assms(3) by (auto simp: h l)
  moreover from this have "length (exec_list c1 k) \<le> wait_sizes c1 k" for k
    by (simp add: z number_of_ready_def)
  ultimately have "in_step w ex1 c1" by (simp add: in_step_def)
  with e assms(4) l cw show ?thesis by (simp add: entities_of_def)
qed

text \<open>
  Claim C9.  When all groups were added in one way and none is waiting to be added, a collection followed by
  a pass executes exactly the ready entities of the served groups, each once: first the
  subscriptions, then the timers, services, clients and waitables, within a kind in the order of
  the groups.  The answers of the middleware enter as what it promises: after waiting, the slots
  of the ready handles are filled and no others.
\<close>

theorem static_pass_runs_ready:
  assumes "maps_ok c" and "settled w c" and "manual_map c = [] \<or> auto_map c = []"
    and "collector_execute ans slots (w, ex, c) = (None, (w', ex', c'))"
    and "\<And>k i. i < length (handles (strategy ex') k) \<Longrightarrow>
           slot_ready pa k i = ready k (handles (strategy ex') k ! i)"
    and "\<And>p. pass_timer_call pa p \<noteq> RCL_RET_ERROR"
    and "\<not> collector_is_ready (ready_conditions pa) c'"
    and "length (exec_list c' Waitable) < fuel"
  shows "execute_ready_executables fuel pa ans slots False (w', ex', c') =
    (let served = (\<lambda>k. entities_of w (manual_map c @ auto_map c) k);
         run = concat (map (\<lambda>k. map (Pair k)
                 (filter (\<lambda>p. ready k (entity_handle w k p) \<and> (k = Timer \<longrightarrow> timer_is_ready pa p)) (served k)))
                 [Subscription, Timer, Service, Client]) @
               map (Pair Waitable)
                 (filter (\<lambda>p. p \<noteq> collector_waitable c \<and> is_waitable_ready pa False p) (served Waitable))
     in Some (Inr (run \<noteq> []), (w, ex'\<lparr>executed := executed ex' @ run\<rparr>, c')))"
proof -
  have w: "w' = w" and step: "in_step w ex' c'" and cw: "collector_waitable c' = collector_waitable c"
    and l: "\<And>k. exec_list c' k = entities_of w (manual_map c @ auto_map c) k @ own_waitable c k"
    using collected_in_step [OF assms(1-4)] by blast+
  have not_own: "\<not> waitable_is_ready pa False c' (collector_waitable c')"
    using assms(7) by (simp add: waitable_is_ready_def)
  then have "waitable_is_ready pa False c' = (\<lambda>p. p \<noteq> collector_waitable c \<and> is_waitable_ready pa False p)"
    by (intro ext) (auto simp: waitable_is_ready_def cw)
  then have wait: "filter (waitable_is_ready pa False c') (exec_list c' Waitable) =
      filter (\<lambda>p. p \<noteq> collector_waitable c \<and> is_waitable_ready pa False p)
        (entities_of w (manual_map c @ auto_map c) Waitable)"
    by (simp add: l own_waitable_def)
  have "running pa c' k = filter (\<lambda>p. ready k (entity_handle w k p) \<and> (k = Timer \<longrightarrow> timer_is_ready pa p))
      (entities_of w (manual_map c @ auto_map c) k)" if "k \<in> set [Subscription, Timer, Service, Client]" for k
    using running_in_step [OF step assms(5), of k] that by (auto simp: l own_waitable_def)
  then have run: "map (\<lambda>k. map (Pair k) (running pa c' k)) [Subscription, Timer, Service, Client] =
      map (\<lambda>k. map (Pair k) (filter (\<lambda>p. ready k (entity_handle w k p) \<and> (k = Timer \<longrightarrow> timer_is_ready pa p))
        (entities_of w (manual_map c @ auto_map c) k))) [Subscription, Timer, Service, Client]"
    by (intro map_cong) simp_all
  show ?thesis
    unfolding w pass_quiet [OF assms(6) not_own assms(8)] run wait Let_def by (simp only: note_executed_def)
qed

section \<open>A pass ends\<close>

text \<open>With enough fuel the result is defined and does not depend on the fuel.\<close>

definition returns :: "(nat \<Rightarrow> 'r option) \<Rightarrow> bool" where
  "returns f \<longleftrightarrow> (\<exists>r N. \<forall>fuel \<ge> N. f fuel = Some r)"

lemma returnsI: "(\<And>fuel. f (Suc fuel) = Some r) \<Longrightarrow> returns f"
  unfolding returns_def by (metis Suc_le_D Suc_le_eq less_eq_Suc_le)

lemma returnsD: "returns f \<Longrightarrow> \<exists>r N. \<forall>n. f (N + n) = Some r"
  unfolding returns_def by (meson le_add1)

lemma returns_step: "returns g \<Longrightarrow> (\<And>fuel. f (Suc fuel) = g fuel) \<Longrightarrow> returns f"
  unfolding returns_def by (metis Suc_le_D Suc_le_mono)

lemma own_not_ready_cleared: "\<not> waitable_is_ready pa True c (collector_waitable c)"
  by (simp add: waitable_is_ready_def collector_is_ready_def)

text \<open>As long as the collector does not run, the list stays as it is.\<close>

lemma waitables_return_cleared:
  "returns (\<lambda>fuel. execute_waitables fuel pa ans slots once True i any (w, ex, c))"
proof (induction "length (exec_list c Waitable) - i" arbitrary: i any ex)
  case 0
  then show ?case by (intro returnsI [of _ "(Inr any, (w, ex, c))"]) simp
next
  case (Suc n)
  then have i: "i < length (exec_list c Waitable)" and n: "n = length (exec_list c Waitable) - Suc i" by simp_all
  show ?case
  proof (cases "waitable_is_ready pa True c (exec_list c Waitable ! i)")
    case False
    with i show ?thesis by (intro returns_step [OF Suc.hyps(1) [OF n, of any ex]]) simp
  next
    case True
    then have own: "exec_list c Waitable ! i \<noteq> collector_waitable c"
      using own_not_ready_cleared by metis
    let ?ex = "note_executed [(Waitable, exec_list c Waitable ! i)] ex"
    show ?thesis
    proof (cases once)
      case True
      with i own \<open>waitable_is_ready _ _ _ _\<close> show ?thesis
        by (intro returnsI [of _ "(Inr True, (w, ?ex, c))"]) simp
    next
      case False
      with i own \<open>waitable_is_ready _ _ _ _\<close> show ?thesis
        by (intro returns_step [OF Suc.hyps(1) [OF n, of True ?ex]]) simp
    qed
  qed
qed

lemma waitables_return:
  "returns (\<lambda>fuel. execute_waitables fuel pa ans slots once False i any (w, ex, c))"
proof (induction "length (exec_list c Waitable) - i" arbitrary: i any ex)
  case 0
  then show ?case by (intro returnsI [of _ "(Inr any, (w, ex, c))"]) simp
next
  case (Suc n)
  then have i: "i < length (exec_list c Waitable)" and n: "n = length (exec_list c Waitable) - Suc i" by simp_all
  show ?case
  proof (cases "waitable_is_ready pa False c (exec_list c Waitable ! i)")
    case False
    with i show ?thesis by (intro returns_step [OF Suc.hyps(1) [OF n, of any ex]]) simp
  next
    case True
    let ?p = "exec_list c Waitable ! i" and ?own = "exec_list c Waitable ! i = collector_waitable c"
    let ?ex = "note_executed [(Waitable, ?p)] ex"
    obtain e w1 ex1 c1 where
      s1: "(if ?own then collector_execute ans slots (w, ?ex, c) else (None, (w, ?ex, c))) = (e, (w1, ex1, c1))"
      using prod_cases4 by blast
    have step: "execute_waitables (Suc fuel) pa ans slots once False i any (w, ex, c) =
        (case e of Some e \<Rightarrow> Some (Inl e, (w1, ex1, c1))
         | None \<Rightarrow> if once then Some (Inr True, (w1, ex1, c1))
                   else execute_waitables fuel pa ans slots once ?own (Suc i) True (w1, ex1, c1))" for fuel
      using i True s1 by (simp add: Let_def split: option.splits)
    have later: "returns (\<lambda>fuel. execute_waitables fuel pa ans slots once ?own (Suc i) True (w1, ex1, c1))"
    proof (cases ?own)
      case True
      then show ?thesis using waitables_return_cleared by simp
    next
      case False
      with s1 show ?thesis using Suc.hyps(1) [OF n, of True ?ex] by auto
    qed
    show ?thesis
    proof (cases "e = None \<and> \<not> once")
      case True
      then show ?thesis by (intro returns_step [OF later]) (subst step, simp del: execute_waitables.simps)
    next
      case False
      then show ?thesis
        by (intro returnsI [of _ "(case e of Some e \<Rightarrow> Inl e | None \<Rightarrow> Inr True, (w1, ex1, c1))"])
          (subst step, auto simp del: execute_waitables.simps split: option.splits)
    qed
  qed
qed


section \<open>Where the lists are out of step\<close>

text \<open>
  A node (1) with two groups: the group 10 is added with the node, the group 11 by hand.  Each has
  one subscription, 100 and 101, with the handles 1100 and 1101.
\<close>

definition example_group :: "bool \<Rightarrow> nat \<Rightarrow> callback_group" where
  "example_group add p = (CallbackGroup MutuallyExclusive add)\<lparr>ptrs := (\<lambda>k. if k = Subscription then [p] else [])\<rparr>"

definition example_world :: world where
  "example_world =
     \<lparr>the_group = (\<lambda>gp. if gp = 10 then Some (example_group True 100)
                       else if gp = 11 then Some (example_group False 101) else None),
      the_node = (\<lambda>np. if np = 1 then Some \<lparr>nb_name = ''n'', nb_groups = [10, 11], nb_default_group = 10,
                       node_associated = False, nb_context = 0, nb_condition = 7\<rparr> else None),
      the_entity = (\<lambda>k p. if k = Subscription \<and> (p = 100 \<or> p = 101 \<or> p = 102)
                          then Some \<lparr>ent_handle = 1000 + p, entity_priority = 0\<rparr> else None),
      next_condition = 20, triggered = [], context_valid = (\<lambda>_. True), condition_init_ok = (\<lambda>_. True),
      condition_trigger_ok = (\<lambda>_. True)\<rparr>"

definition example_answers :: wait_answers where
  "example_answers =
     \<lparr>rcl_clear_ok = True, rcl_resize_ok = True, rcl_add_ok = (\<lambda>_ _. True), rcl_wait = Wait_ok,
      rcl_ready = (\<lambda>_ _. True), waitable_ready = (\<lambda>_. False)\<rparr>"

text \<open>Only the handle in slot \<open>i\<close> of the subscriptions is ready.\<close>

definition example_pass :: "nat \<Rightarrow> pass_answers" where
  "example_pass i =
     \<lparr>slot_ready = (\<lambda>k j. k = Subscription \<and> j = i), timer_is_ready = (\<lambda>_. False),
      pass_timer_call = (\<lambda>_. RCL_RET_OK), is_waitable_ready = (\<lambda>_ _. False), ready_conditions = []\<rparr>"

definition example_start :: "static_state" where
  "example_start =
     (example_world, Executor 5 6 AllocatorMemoryStrategy, StaticExecutorEntitiesCollector 50)"

text \<open>What a pass executes and the handle it waited for in slot \<open>i\<close>.\<close>

definition executed_for :: "nat \<Rightarrow> static_state outcome \<Rightarrow> (nat \<times> (entity_kind \<times> nat) list) option" where
  "executed_for i r =
     (case r of
        (Some e, _) \<Rightarrow> None
      | (None, s) \<Rightarrow>
          (case execute_ready_executables 9 (example_pass i) example_answers (\<lambda>_ _. 0) False s of
             Some (Inr _, (_, ex, _)) \<Rightarrow> Some (handles (strategy (fst (snd s))) Subscription ! i, executed ex)
           | _ \<Rightarrow> None))"

text \<open>
  With a group added by hand and another added with its node, the executor waits for the handle
  1100 of the subscription 100 and executes the subscription 101.
\<close>

lemma mixed_groups_out_of_step:
  "executed_for 0
     (and_then (static_add_node 1 True example_start) (\<lambda>s.
      and_then (static_add_callback_group 11 1 True s)
        (collector_start example_answers (\<lambda>_ _. 0)))) =
   Some (1100, [(Subscription, 101)])"
  by code_simp

text \<open>
  A group 9 that is created after the node was added enters the list of executables one collection
  before it enters the memory strategy: the executor waits for 1100 and executes 102.
\<close>

lemma late_group_out_of_step:
  "executed_for 0
     (and_then (static_add_node 1 True example_start) (\<lambda>(w, ex, c).
        collector_start example_answers (\<lambda>_ _. 0)
          (on_group 9 (add_subscription 102 w) (create_callback_group 9 1 MutuallyExclusive True w), ex, c))) =
   Some (1100, [(Subscription, 102)])"
  by code_simp

text \<open>
  Removing a node leaves its groups marked as served by an executor, so that a node that is
  removed and added again has no group served.
\<close>

lemma removed_node_served_no_more:
  "(case and_then (static_add_node 1 True example_start) (\<lambda>s.
         and_then (static_remove_node 1 True s) (static_add_node 1 True)) of
      (e, (_, _, c)) \<Rightarrow> (e, collector_nodes c, auto_map c)) = (None, [1], [])"
  by code_simp

text \<open>The node alone: its subscription is executed for its own handle.\<close>

definition example_added :: static_state where
  "example_added = snd (static_add_node 1 True example_start)"

definition example_collected :: "static_state outcome" where
  "example_collected = collector_execute example_answers (\<lambda>_ _. 0) example_added"

lemma example_handles:
  "handles (strategy (fst (snd (snd example_collected)))) k =
     (if k = Subscription then [1100] else if k = Waitable then [50] else [])"
  by (cases k; simp only: entity_kind.distinct if_True if_False simp_thms; code_simp)

theorem static_pass_runs_ready_witness:
  "map_option (\<lambda>(r, (_, ex, _)). (r, executed ex))
     (execute_ready_executables 9 (example_pass 0) example_answers (\<lambda>_ _. 0) False (snd example_collected)) =
   Some (Inr True, [(Subscription, 100)])"
proof -
  define w ex c where "w = fst example_added" and "ex = fst (snd example_added)" and "c = snd (snd example_added)"
  define w' ex' c' where "w' = fst (snd example_collected)" and "ex' = fst (snd (snd example_collected))"
    and "c' = snd (snd (snd example_collected))"
  note defs = w_def ex_def c_def w'_def ex'_def c'_def
  have "fst example_collected = None" by code_simp
  then have run: "collector_execute example_answers (\<lambda>_ _. 0) (w, ex, c) = (None, (w', ex', c'))"
    by (simp add: defs prod_eq_iff flip: example_collected_def)
  have ok: "maps_ok c" "settled w c" "manual_map c = [] \<or> auto_map c = []"
    and quiet: "\<not> collector_is_ready (ready_conditions (example_pass 0)) c'" "length (exec_list c' Waitable) < 9"
    unfolding defs by code_simp+
  have ready: "slot_ready (example_pass 0) k i = (k = Subscription \<and> handles (strategy ex') k ! i = 1100)"
    if "i < length (handles (strategy ex') k)" for k i
    using that unfolding defs example_handles by (auto simp: example_pass_def split: if_splits)
  have timers: "pass_timer_call (example_pass 0) p \<noteq> RCL_RET_ERROR" for p
    by (simp add: example_pass_def)
  note pass = static_pass_runs_ready [where ready = "\<lambda>k h. k = Subscription \<and> h = 1100", OF ok run ready timers quiet]
  have "entities_of w (manual_map c @ auto_map c) k = (if k = Subscription then [100] else [])" for k
    unfolding defs by (cases k; simp only: entity_kind.distinct if_True if_False simp_thms; code_simp)
  moreover have "entity_handle w Subscription 100 = 1100" "executed ex' = []" unfolding defs by code_simp+
  moreover have "snd example_collected = (w', ex', c')" by (simp add: defs)
  ultimately show ?thesis using pass by (simp add: Let_def)
qed

end
