(* ===== verification/Ring_Buffer.thy ===== *)
theory Ring_Buffer
  imports Callback_Groups Interfaces
begin

text \<open>
  The ring buffer behind intra-process subscriptions
  (\<open>experimental/buffers/ring_buffer_implementation.hpp\<close>).  The element type of the buffer is a
  smart pointer, so that an element is \<open>None\<close> for a null pointer and a moved-from cell is null.
  Indices are natural numbers: \<open>ring_ok\<close> keeps them below the capacity, a \<open>size_t\<close>, and an index
  is incremented only there, so that no \<open>size_t\<close> operation wraps.  The mutex makes every public
  operation atomic.
\<close>

section \<open>The buffer\<close>

record 'a ring_buffer =
  ring_capacity :: nat
  ring_cells :: "'a option list"
  write_index :: nat
  read_index :: nat
  ring_size :: nat

definition RingBufferImplementation :: "u64 \<Rightarrow> rclcpp_exn + 'a ring_buffer" where
  "RingBufferImplementation capacity =
     (if capacity = 0 then Inl (InvalidArgument ''capacity must be a positive, non-zero value'')
      else Inr \<lparr>ring_capacity = unat capacity, ring_cells = replicate (unat capacity) None,
                write_index = unat (capacity - 1), read_index = 0, ring_size = 0\<rparr>)"

definition next_index :: "'a ring_buffer \<Rightarrow> nat \<Rightarrow> nat" where
  "next_index b val = (val + 1) mod ring_capacity b"

definition has_data :: "'a ring_buffer \<Rightarrow> bool" where
  "has_data b \<longleftrightarrow> ring_size b \<noteq> 0"

definition is_full :: "'a ring_buffer \<Rightarrow> bool" where
  "is_full b \<longleftrightarrow> ring_size b = ring_capacity b"

definition enqueue :: "'a option \<Rightarrow> 'a ring_buffer \<Rightarrow> 'a ring_buffer" where
  "enqueue request b =
     (let b1 = b\<lparr>write_index := next_index b (write_index b)\<rparr>;
          b2 = b1\<lparr>ring_cells := (ring_cells b1)[write_index b1 := request]\<rparr>
      in if is_full b2 then b2\<lparr>read_index := next_index b2 (read_index b2)\<rparr>
         else b2\<lparr>ring_size := ring_size b2 + 1\<rparr>)"

definition dequeue :: "'a ring_buffer \<Rightarrow> 'a option \<times> 'a ring_buffer" where
  "dequeue b =
     (if \<not> has_data b then (None, b)
      else
        let request = ring_cells b ! read_index b
        in (request, b\<lparr>ring_cells := (ring_cells b)[read_index b := None],
                       read_index := next_index b (read_index b),
                       ring_size := ring_size b - 1\<rparr>))"

definition clear :: "'a ring_buffer \<Rightarrow> 'a ring_buffer" where
  "clear b = b"

section \<open>Invariant and contents\<close>

definition ring_ok :: "'a ring_buffer \<Rightarrow> bool" where
  "ring_ok b \<longleftrightarrow>
     0 < ring_capacity b \<and> ring_capacity b < 2 ^ 64 \<and>
     length (ring_cells b) = ring_capacity b \<and>
     read_index b < ring_capacity b \<and> write_index b < ring_capacity b \<and>
     ring_size b \<le> ring_capacity b \<and>
     next_index b (write_index b) = (read_index b + ring_size b) mod ring_capacity b"

definition ring_contents :: "'a ring_buffer \<Rightarrow> 'a option list" where
  "ring_contents b =
     map (\<lambda>i. ring_cells b ! ((read_index b + i) mod ring_capacity b)) [0..<ring_size b]"

lemma ring_contents_length [simp]: "length (ring_contents b) = ring_size b"
  by (simp add: ring_contents_def)

lemma ring_positions_differ:
  assumes "i < j" and "j < i + n"
  shows "(r + i) mod n \<noteq> (r + j) mod (n :: nat)"
proof
  assume "(r + i) mod n = (r + j) mod n"
  then have "n dvd (r + j) - (r + i)" using assms(1) by (metis add_left_mono less_imp_le mod_eq_dvd_iff_nat)
  with assms show False using dvd_imp_le [of n "j - i"] by auto
qed

lemma ring_okD:
  assumes "ring_ok b"
  shows "0 < ring_capacity b" "length (ring_cells b) = ring_capacity b"
    "read_index b < ring_capacity b" "ring_size b \<le> ring_capacity b"
    "next_index b (write_index b) = (read_index b + ring_size b) mod ring_capacity b"
    "next_index b k < ring_capacity b"
  using assms by (simp_all add: ring_ok_def next_index_def)

lemma next_index_frame [simp]:
  "next_index (b\<lparr>write_index := w\<rparr>) = next_index b"
  "next_index (b\<lparr>ring_cells := cs\<rparr>) = next_index b"
  "next_index (b\<lparr>read_index := r\<rparr>) = next_index b"
  "next_index (b\<lparr>ring_size := n\<rparr>) = next_index b"
  by (simp_all add: next_index_def fun_eq_iff)

lemma next_index_add: "next_index b ((r + k) mod ring_capacity b) = (r + k + 1) mod ring_capacity b"
  by (simp add: next_index_def mod_Suc_eq)

lemma enqueue_free:
  assumes "ring_ok b" and "\<not> is_full b"
  shows "ring_ok (enqueue e b)" and "ring_contents (enqueue e b) = ring_contents b @ [e]"
proof -
  note ok = ring_okD [OF assms(1)]
  let ?w = "(read_index b + ring_size b) mod ring_capacity b"
  have eq: "enqueue e b = b\<lparr>write_index := ?w, ring_cells := (ring_cells b)[?w := e], ring_size := ring_size b + 1\<rparr>"
    using assms(2) ok(5) by (simp add: enqueue_def Let_def is_full_def)
  show "ring_ok (enqueue e b)"
    using assms ok by (auto simp: eq ring_ok_def is_full_def next_index_add)
  have w: "?w < ring_capacity b" using ok(1) by simp
  have "ring_size b < ring_capacity b" using assms(2) ok(4) by (simp add: is_full_def)
  then have "?w \<noteq> (read_index b + i) mod ring_capacity b" if "i < ring_size b" for i
    using ring_positions_differ [OF that, of "ring_capacity b" "read_index b"] by simp
  then show "ring_contents (enqueue e b) = ring_contents b @ [e]"
    using w ok(2) by (simp add: eq ring_contents_def)
qed

lemma enqueue_full:
  assumes "ring_ok b" and "is_full b"
  shows "ring_ok (enqueue e b)" and "ring_contents (enqueue e b) = tl (ring_contents b) @ [e]"
proof -
  note ok = ring_okD [OF assms(1)]
  let ?n = "ring_capacity b" and ?r = "read_index b"
  have full: "ring_size b = ?n" using assms(2) by (simp add: is_full_def)
  have eq: "enqueue e b = b\<lparr>write_index := ?r, ring_cells := (ring_cells b)[?r := e], read_index := next_index b ?r\<rparr>"
    using assms(2) ok by (simp add: enqueue_def Let_def is_full_def)
  show "ring_ok (enqueue e b)"
    using assms(1) ok full by (auto simp: eq ring_ok_def)
  obtain m where m: "?n = Suc m" using ok(1) by (cases ?n) auto
  have at: "(next_index b ?r + i) mod ?n = (?r + Suc i) mod ?n" for i
    by (simp add: next_index_def mod_add_left_eq)
  have other: "(?r + Suc i) mod ?n \<noteq> ?r" if "i < m" for i
    using ring_positions_differ [of 0 "Suc i" ?n ?r] that m ok(3) by simp
  have last: "(?r + Suc m) mod ?n = ?r" using ok(3) by (metis m mod_add_self2 mod_less)
  have "ring_contents (enqueue e b) =
      map (\<lambda>i. ((ring_cells b)[?r := e]) ! ((?r + Suc i) mod ?n)) [0..<m] @ [e]"
    using last ok(2,3) at by (simp add: eq ring_contents_def full m del: add_Suc_right)
  also have "map (\<lambda>i. ((ring_cells b)[?r := e]) ! ((?r + Suc i) mod ?n)) [0..<m] =
      map (\<lambda>i. ring_cells b ! ((?r + Suc i) mod ?n)) [0..<m]"
    using other by (auto simp add: nth_list_update_neq [OF not_sym] simp del: add_Suc_right)
  also have "\<dots> = tl (ring_contents b)"
    by (simp add: ring_contents_def full m upt_rec [of 0 "Suc m"] map_Suc_upt [symmetric] del: upt_Suc add_Suc_right)
  finally show "ring_contents (enqueue e b) = tl (ring_contents b) @ [e]" .
qed

lemma dequeue_data:
  assumes "ring_ok b" and "has_data b"
  shows "ring_ok (snd (dequeue b))"
    and "ring_contents b = fst (dequeue b) # ring_contents (snd (dequeue b))"
proof -
  note ok = ring_okD [OF assms(1)]
  let ?n = "ring_capacity b" and ?r = "read_index b"
  obtain m where m: "ring_size b = Suc m" using assms(2) by (cases "ring_size b") (auto simp: has_data_def)
  have eq: "dequeue b = (ring_cells b ! ?r,
      b\<lparr>ring_cells := (ring_cells b)[?r := None], read_index := next_index b ?r, ring_size := m\<rparr>)"
    using assms(2) m by (simp add: dequeue_def)
  have at: "(next_index b ?r + i) mod ?n = (?r + Suc i) mod ?n" for i
    by (simp add: next_index_def mod_add_left_eq)
  show "ring_ok (snd (dequeue b))"
    using assms(1) ok m at [of m] by (auto simp: eq ring_ok_def)
  have other: "(?r + Suc i) mod ?n \<noteq> ?r" if "i < m" for i
    using ring_positions_differ [of 0 "Suc i" ?n ?r] that m ok(3,4) by simp
  have "ring_contents (snd (dequeue b)) = map (\<lambda>i. ring_cells b ! ((?r + Suc i) mod ?n)) [0..<m]"
    using other by (auto simp add: eq ring_contents_def at nth_list_update_neq [OF not_sym] simp del: add_Suc_right)
  then show "ring_contents b = fst (dequeue b) # ring_contents (snd (dequeue b))"
    using ok(3)
    by (simp add: eq ring_contents_def m upt_rec [of 0 "Suc m"] map_Suc_upt [symmetric] del: upt_Suc add_Suc_right)
qed

lemma ring_has_data: "has_data b \<longleftrightarrow> ring_contents b \<noteq> []"
  by (simp add: has_data_def ring_contents_def)

lemma ring_frames [simp]:
  "ring_capacity (enqueue e b) = ring_capacity b" "ring_capacity (snd (dequeue b)) = ring_capacity b"
  by (simp_all add: enqueue_def dequeue_def Let_def)

interpretation ring: lossy_fifo enqueue dequeue None ring_ok ring_contents ring_capacity
proof
  fix b :: "'a ring_buffer" and e
  assume ok: "ring_ok b"
  show "0 < ring_capacity b" "length (ring_contents b) \<le> ring_capacity b"
    using ring_okD [OF ok] by simp_all
  show "ring_ok (enqueue e b)" using enqueue_free(1) [OF ok] enqueue_full(1) [OF ok] by blast
  show "ring_contents (enqueue e b) = list_put (ring_capacity b) e (ring_contents b)"
    using enqueue_free(2) [OF ok] enqueue_full(2) [OF ok] by (simp add: list_put_def is_full_def)
  show "ring_ok (snd (dequeue b))"
    using dequeue_data(1) [OF ok] ok by (cases "has_data b") (simp_all add: dequeue_def)
  show "(fst (dequeue b), ring_contents (snd (dequeue b))) = list_get None (ring_contents b)"
  proof (cases "has_data b")
    case True
    then show ?thesis using dequeue_data(2) [OF ok] by (simp add: list_get_def)
  next
    case False
    then show ?thesis using ring_has_data [of b] by (simp add: dequeue_def list_get_def)
  qed
qed simp_all

section \<open>Properties\<close>

lemma new_ring:
  assumes "RingBufferImplementation capacity = Inr b"
  shows "ring_ok b" "ring_contents b = []" "ring_capacity b = unat capacity"
proof -
  from assms have nz: "capacity \<noteq> 0" by (auto simp: RingBufferImplementation_def)
  then have "unat (capacity - 1) = unat capacity - 1" by (rule unat_minus_one)
  moreover from nz have "0 < unat capacity" by (simp add: unat_gt_0)
  ultimately show "ring_ok b" "ring_contents b = []" "ring_capacity b = unat capacity"
    using assms unsigned_less [of capacity]
    by (auto simp: RingBufferImplementation_def ring_ok_def ring_contents_def next_index_def split: if_splits)
qed

text \<open>
  Claim C17.  A ring buffer refines a bounded queue: whatever sequence of enqueue and dequeue operations is
  applied to a new buffer, the dequeue operations return what a list of at most \<open>capacity\<close> elements
  returns that loses its oldest element when an element arrives at a full list, and a null pointer
  when there is nothing.
\<close>

theorem ring_buffer_refines_queue:
  assumes "RingBufferImplementation capacity = Inr b"
  shows "fst (run_fifo enqueue dequeue ops b) =
         fst (run_fifo (list_put (unat capacity)) (list_get None) ops [])"
  using ring.run_refines [OF new_ring(1) [OF assms], of ops] new_ring(2,3) [OF assms] by simp

theorem ring_buffer_refines_queue_witness:
  "fst (run_fifo enqueue dequeue [Put (Some 1), Put (Some 2), Put (Some (3 :: nat)), Get, Get, Get]
     \<lparr>ring_capacity = 2, ring_cells = [None, None], write_index = 1, read_index = 0, ring_size = 0\<rparr>) =
   [Some 2, Some 3, None]"
proof -
  have "RingBufferImplementation 2 = Inr \<lparr>ring_capacity = 2, ring_cells = [None, None :: nat option],
      write_index = 1, read_index = 0, ring_size = 0\<rparr>"
    by code_simp
  note run = ring_buffer_refines_queue [OF this, of "[Put (Some 1), Put (Some 2), Put (Some 3), Get, Get, Get]"]
  show ?thesis unfolding run by (simp add: list_put_def list_get_def)
qed

text \<open>
  Messages that arrive while nobody takes any leave the latest ones in the buffer, in the order of
  their arrival: as many as its capacity, or all of them if there are fewer.
\<close>

theorem ring_buffer_keeps_latest:
  assumes "ring_ok b"
  shows "ring_contents (fold enqueue es b) =
           drop (ring_size b + length es - ring_capacity b) (ring_contents b @ es)"
  using ring.puts_keep_latest [OF assms, of es] by simp

theorem ring_buffer_keeps_latest_witness:
  "\<exists>b :: nat ring_buffer. RingBufferImplementation 2 = Inr b \<and>
     ring_contents (fold enqueue [Some 1, Some 2, Some 3] b) = [Some 2, Some 3]"
proof -
  obtain b :: "nat ring_buffer" where b: "RingBufferImplementation 2 = Inr b"
    by (simp add: RingBufferImplementation_def)
  have "ring_size b = 0" using b by (auto simp: RingBufferImplementation_def)
  with ring_buffer_keeps_latest [OF new_ring(1) [OF b], of "[Some 1, Some 2, Some 3]"] new_ring(2,3) [OF b] b
  show ?thesis by (intro exI [of _ b]) simp
qed

lemma clear_keeps_messages: "ring_contents (clear (enqueue e b)) = ring_contents (enqueue e b)"
  by (simp add: clear_def)

end
