(* ===== verification/Time_Arithmetic.thy ===== *)
theory Time_Arithmetic
  imports Callback_Groups "HOL-Library.Signed_Division"
begin

text \<open>
  Durations and time points (\<open>duration.cpp\<close>, \<open>time.cpp\<close> and the overflow tests of
  \<open>utilities.hpp\<close>).  Values of type \<open>int64_t\<close> are integers kept in range by \<open>in_int64\<close>; every
  operation that can leave the range is written with its wrap-around (\<open>to_int64\<close>, \<open>to_int32\<close>,
  \<open>to_uint64\<close>, \<open>to_uint32\<close>).  Signed overflow, undefined in C++, is given the value of the
  two's complement machine.  Division truncates (\<open>std::div\<close>).  The locale \<open>exact_or_error\<close> is the
  contract of a checked operation: it returns the exact result whenever that is representable, and
  throws otherwise.  Scaling by and conversion to floating-point numbers is not modelled.
\<close>

section \<open>Fixed-width integers\<close>

definition to_int64 :: "int \<Rightarrow> int" where
  "to_int64 x = (x + 2 ^ 63) mod 2 ^ 64 - 2 ^ 63"

definition to_uint64 :: "int \<Rightarrow> int" where
  "to_uint64 x = x mod 2 ^ 64"

definition to_int32 :: "int \<Rightarrow> int" where
  "to_int32 x = (x + 2 ^ 31) mod 2 ^ 32 - 2 ^ 31"

definition to_uint32 :: "int \<Rightarrow> int" where
  "to_uint32 x = x mod 2 ^ 32"

definition int64_min :: int where
  "int64_min = - int64_max - 1"

definition int32_max :: int where
  "int32_max = 2147483647"

definition int32_min :: int where
  "int32_min = - int32_max - 1"

definition uint32_max :: int where
  "uint32_max = 4294967295"

definition RCL_S_TO_NS :: "int \<Rightarrow> int" where
  "RCL_S_TO_NS x = x * 1000000000"

definition RCL_NS_TO_S :: "int \<Rightarrow> int" where
  "RCL_NS_TO_S x = x sdiv 1000000000"

definition add_will_overflow :: "int \<Rightarrow> int \<Rightarrow> bool" where
  "add_will_overflow x y \<longleftrightarrow> y > 0 \<and> x > int64_max - y"

definition add_will_underflow :: "int \<Rightarrow> int \<Rightarrow> bool" where
  "add_will_underflow x y \<longleftrightarrow> y < 0 \<and> x < int64_min - y"

definition sub_will_overflow :: "int \<Rightarrow> int \<Rightarrow> bool" where
  "sub_will_overflow x y \<longleftrightarrow> y < 0 \<and> x > int64_max + y"

definition sub_will_underflow :: "int \<Rightarrow> int \<Rightarrow> bool" where
  "sub_will_underflow x y \<longleftrightarrow> y > 0 \<and> x < int64_min + y"

section \<open>Durations\<close>

text \<open>A duration is its count of nanoseconds.\<close>

type_synonym duration = int

record time_msg =
  msg_sec :: int
  msg_nanosec :: int

record rmw_time =
  rmw_sec :: int
  rmw_nsec :: int

definition Duration :: "int \<Rightarrow> int \<Rightarrow> duration" where
  "Duration seconds nanoseconds = to_int64 (to_int64 (RCL_S_TO_NS seconds) + nanoseconds)"

definition Duration_of_msg :: "time_msg \<Rightarrow> duration" where
  "Duration_of_msg m = to_int64 (to_int64 (RCL_S_TO_NS (msg_sec m)) + msg_nanosec m)"

definition duration_to_msg :: "duration \<Rightarrow> time_msg" where
  "duration_to_msg d =
     (let quot = d sdiv RCL_S_TO_NS 1; rem = d smod RCL_S_TO_NS 1
      in if rem \<ge> 0 then
           if quot > int32_max then \<lparr>msg_sec = int32_max, msg_nanosec = uint32_max\<rparr>
           else \<lparr>msg_sec = to_int32 quot, msg_nanosec = to_uint32 rem\<rparr>
         else
           if quot \<le> int32_min then \<lparr>msg_sec = int32_min, msg_nanosec = 0\<rparr>
           else \<lparr>msg_sec = to_int32 (quot - 1), msg_nanosec = to_uint32 (RCL_S_TO_NS 1 + rem)\<rparr>)"

definition abs_u64 :: "int \<Rightarrow> int" where
  "abs_u64 x = to_uint64 (to_int64 (abs x))"

definition bounds_check_duration_sum :: "int \<Rightarrow> int \<Rightarrow> int \<Rightarrow> rclcpp_exn option" where
  "bounds_check_duration_sum lhsns rhsns mx =
     (if lhsns > 0 \<and> rhsns > 0 then
        if to_uint64 (abs_u64 lhsns + abs_u64 rhsns) > mx
        then Some (OverflowError ''addition leads to int64_t overflow'') else None
      else if lhsns < 0 \<and> rhsns < 0 then
        if to_uint64 (abs_u64 lhsns + abs_u64 rhsns) > mx
        then Some (UnderflowError ''addition leads to int64_t underflow'') else None
      else None)"

definition duration_plus :: "duration \<Rightarrow> duration \<Rightarrow> rclcpp_exn + duration" where
  "duration_plus lhs rhs =
     (case bounds_check_duration_sum lhs rhs int64_max of
        Some e \<Rightarrow> Inl e
      | None \<Rightarrow> Inr (to_int64 (lhs + rhs)))"

definition bounds_check_duration_difference :: "int \<Rightarrow> int \<Rightarrow> int \<Rightarrow> rclcpp_exn option" where
  "bounds_check_duration_difference lhsns rhsns mx =
     (if lhsns > 0 \<and> rhsns < 0 then
        if to_uint64 (abs_u64 lhsns + abs_u64 rhsns) > mx
        then Some (OverflowError ''duration subtraction leads to int64_t overflow'') else None
      else if lhsns < 0 \<and> rhsns > 0 then
        if to_uint64 (abs_u64 lhsns + abs_u64 rhsns) > mx
        then Some (UnderflowError ''duration subtraction leads to int64_t underflow'') else None
      else None)"

definition duration_minus :: "duration \<Rightarrow> duration \<Rightarrow> rclcpp_exn + duration" where
  "duration_minus lhs rhs =
     (case bounds_check_duration_difference lhs rhs int64_max of
        Some e \<Rightarrow> Inl e
      | None \<Rightarrow> Inr (to_int64 (lhs - rhs)))"

definition duration_max :: duration where
  "duration_max = Duration int32_max 999999999"

definition to_rmw_time :: "duration \<Rightarrow> rclcpp_exn + rmw_time" where
  "to_rmw_time d =
     (if d < 0 then Inl (RuntimeError ''rmw_time_t cannot be negative'')
      else Inr \<lparr>rmw_sec = to_uint64 (d sdiv RCL_S_TO_NS 1), rmw_nsec = to_uint64 (d smod RCL_S_TO_NS 1)\<rparr>)"

definition from_rmw_time :: "rmw_time \<Rightarrow> duration" where
  "from_rmw_time r =
     (if rmw_sec r > RCL_NS_TO_S int64_max \<or> rmw_nsec r > int64_max then int64_max
      else
        let total_ns = to_uint64 (to_uint64 (RCL_S_TO_NS (rmw_sec r)) + rmw_nsec r)
        in if total_ns > int64_max then int64_max else to_int64 total_ns)"

section \<open>Time points\<close>

datatype clock_type = RCL_CLOCK_UNINITIALIZED | RCL_ROS_TIME | RCL_SYSTEM_TIME | RCL_STEADY_TIME

fun clock_number :: "clock_type \<Rightarrow> nat" where
  "clock_number RCL_CLOCK_UNINITIALIZED = 0"
| "clock_number RCL_ROS_TIME = 1"
| "clock_number RCL_SYSTEM_TIME = 2"
| "clock_number RCL_STEADY_TIME = 3"

record time =
  nanoseconds :: int
  time_clock :: clock_type

definition Time_of_ns :: "int \<Rightarrow> clock_type \<Rightarrow> time" where
  "Time_of_ns ns c = \<lparr>nanoseconds = ns, time_clock = c\<rparr>"

definition Time :: "int \<Rightarrow> int \<Rightarrow> clock_type \<Rightarrow> rclcpp_exn + time" where
  "Time seconds ns c =
     (if seconds < 0 then Inl (RuntimeError ''cannot store a negative time point in rclcpp::Time'')
      else Inr (Time_of_ns (to_int64 (to_int64 (RCL_S_TO_NS seconds) + ns)) c))"

definition Time_of_msg :: "time_msg \<Rightarrow> clock_type \<Rightarrow> rclcpp_exn + time" where
  "Time_of_msg m c =
     (if msg_sec m < 0 then Inl (RuntimeError ''cannot store a negative time point in rclcpp::Time'')
      else Inr (Time_of_ns (to_int64 (to_int64 (RCL_S_TO_NS (msg_sec m)) + msg_nanosec m)) c))"

definition time_to_msg :: "time \<Rightarrow> time_msg" where
  "time_to_msg t =
     (let quot = nanoseconds t sdiv RCL_S_TO_NS 1; rem = nanoseconds t smod RCL_S_TO_NS 1
      in if rem \<ge> 0 then \<lparr>msg_sec = to_int32 quot, msg_nanosec = to_uint32 rem\<rparr>
         else \<lparr>msg_sec = to_int32 (quot - 1), msg_nanosec = to_uint32 (RCL_S_TO_NS 1 + rem)\<rparr>)"

definition time_compare :: "(int \<Rightarrow> int \<Rightarrow> bool) \<Rightarrow> time \<Rightarrow> time \<Rightarrow> rclcpp_exn + bool" where
  "time_compare cmp t u =
     (if time_clock t \<noteq> time_clock u
      then Inl (RuntimeError ''can't compare times with different time sources'')
      else Inr (cmp (nanoseconds t) (nanoseconds u)))"

definition time_equal :: "time \<Rightarrow> time \<Rightarrow> rclcpp_exn + bool" where
  "time_equal = time_compare (=)"

definition time_not_equal :: "time \<Rightarrow> time \<Rightarrow> rclcpp_exn + bool" where
  "time_not_equal t u = map_sum id Not (time_equal t u)"

definition time_less :: "time \<Rightarrow> time \<Rightarrow> rclcpp_exn + bool" where
  "time_less = time_compare (<)"

definition time_less_eq :: "time \<Rightarrow> time \<Rightarrow> rclcpp_exn + bool" where
  "time_less_eq = time_compare (\<le>)"

definition time_greater_eq :: "time \<Rightarrow> time \<Rightarrow> rclcpp_exn + bool" where
  "time_greater_eq = time_compare (\<ge>)"

definition time_greater :: "time \<Rightarrow> time \<Rightarrow> rclcpp_exn + bool" where
  "time_greater = time_compare (>)"

definition time_plus :: "time \<Rightarrow> duration \<Rightarrow> rclcpp_exn + time" where
  "time_plus t d =
     (if add_will_overflow d (nanoseconds t)
      then Inl (OverflowError ''addition leads to int64_t overflow'')
      else if add_will_underflow d (nanoseconds t)
      then Inl (UnderflowError ''addition leads to int64_t underflow'')
      else Inr (Time_of_ns (to_int64 (nanoseconds t + d)) (time_clock t)))"

definition duration_plus_time :: "duration \<Rightarrow> time \<Rightarrow> rclcpp_exn + time" where
  "duration_plus_time d t =
     (if add_will_overflow (nanoseconds t) d
      then Inl (OverflowError ''addition leads to int64_t overflow'')
      else if add_will_underflow (nanoseconds t) d
      then Inl (UnderflowError ''addition leads to int64_t underflow'')
      else Inr (Time_of_ns (to_int64 (d + nanoseconds t)) (time_clock t)))"

definition time_add_assign :: "time \<Rightarrow> duration \<Rightarrow> rclcpp_exn + time" where
  "time_add_assign t d =
     (if add_will_overflow d (nanoseconds t)
      then Inl (OverflowError ''addition leads to int64_t overflow'')
      else if add_will_underflow d (nanoseconds t)
      then Inl (UnderflowError ''addition leads to int64_t underflow'')
      else Inr (t\<lparr>nanoseconds := to_int64 (nanoseconds t + d)\<rparr>))"

definition time_difference :: "time \<Rightarrow> time \<Rightarrow> rclcpp_exn + duration" where
  "time_difference t u =
     (if time_clock t \<noteq> time_clock u
      then Inl (RuntimeError (''can't subtract times with different time sources ['' @
             to_dec (clock_number (time_clock t)) @ '' != '' @ to_dec (clock_number (time_clock u)) @ '']''))
      else if sub_will_overflow (nanoseconds t) (nanoseconds u)
      then Inl (OverflowError ''time subtraction leads to int64_t overflow'')
      else if sub_will_underflow (nanoseconds t) (nanoseconds u)
      then Inl (UnderflowError ''time subtraction leads to int64_t underflow'')
      else Inr (to_int64 (nanoseconds t - nanoseconds u)))"

definition time_minus :: "time \<Rightarrow> duration \<Rightarrow> rclcpp_exn + time" where
  "time_minus t d =
     (if sub_will_overflow (nanoseconds t) d
      then Inl (OverflowError ''time subtraction leads to int64_t overflow'')
      else if sub_will_underflow (nanoseconds t) d
      then Inl (UnderflowError ''time subtraction leads to int64_t underflow'')
      else Inr (Time_of_ns (to_int64 (nanoseconds t - d)) (time_clock t)))"

definition time_sub_assign :: "time \<Rightarrow> duration \<Rightarrow> rclcpp_exn + time" where
  "time_sub_assign t d =
     (if sub_will_overflow (nanoseconds t) d
      then Inl (OverflowError ''time subtraction leads to int64_t overflow'')
      else if sub_will_underflow (nanoseconds t) d
      then Inl (UnderflowError ''time subtraction leads to int64_t underflow'')
      else Inr (t\<lparr>nanoseconds := to_int64 (nanoseconds t - d)\<rparr>))"

definition time_max :: "rclcpp_exn + time" where
  "time_max = Time int32_max 999999999 RCL_SYSTEM_TIME"

section \<open>Ranges\<close>

lemmas limits = in_int64_def int64_max_def int64_min_def int32_max_def int32_min_def uint32_max_def

lemma to_int64_in_range [simp]: "in_int64 (to_int64 x)"
  by (simp add: to_int64_def limits)

lemma to_int64_id [simp]: "in_int64 x \<Longrightarrow> to_int64 x = x"
  by (simp add: to_int64_def limits mod_pos_pos_trivial)

lemma to_int32_id [simp]: "int32_min \<le> x \<Longrightarrow> x \<le> int32_max \<Longrightarrow> to_int32 x = x"
  by (simp add: to_int32_def limits mod_pos_pos_trivial)

lemma to_uint32_id [simp]: "0 \<le> x \<Longrightarrow> x \<le> uint32_max \<Longrightarrow> to_uint32 x = x"
  by (simp add: to_uint32_def limits mod_pos_pos_trivial)

lemma abs_u64_eq [simp]: "in_int64 x \<Longrightarrow> abs_u64 x = abs x"
proof (cases "x = int64_min")
  case True
  then show ?thesis by (simp add: abs_u64_def to_uint64_def to_int64_def limits)
next
  case False
  assume "in_int64 x"
  with False have "in_int64 (abs x)" "0 \<le> abs x" by (auto simp: limits)
  then show ?thesis by (simp add: abs_u64_def to_uint64_def) (simp add: limits mod_pos_pos_trivial)
qed

lemma will_overflow_iff [simp]:
  assumes "in_int64 x" and "in_int64 y"
  shows "add_will_overflow x y \<longleftrightarrow> x + y > int64_max" "add_will_underflow x y \<longleftrightarrow> x + y < int64_min"
    "sub_will_overflow x y \<longleftrightarrow> x - y > int64_max" "sub_will_underflow x y \<longleftrightarrow> x - y < int64_min"
  using assms
  by (auto simp: add_will_overflow_def add_will_underflow_def sub_will_overflow_def sub_will_underflow_def limits)

lemma in_int64_iff: "in_int64 x \<longleftrightarrow> \<not> x > int64_max \<and> \<not> x < int64_min"
  by (auto simp: limits)

section \<open>Checked operations\<close>

fun checked_run :: "('t \<Rightarrow> int \<Rightarrow> rclcpp_exn + 't) \<Rightarrow> 't \<Rightarrow> int list \<Rightarrow> rclcpp_exn + 't" where
  "checked_run f t [] = Inr t"
| "checked_run f t (d # ds) = (case f t d of Inl e \<Rightarrow> Inl e | Inr u \<Rightarrow> checked_run f u ds)"

locale exact_or_error =
  fixes f :: "'t \<Rightarrow> int \<Rightarrow> rclcpp_exn + 't"
    and reading :: "'t \<Rightarrow> int"
    and exact :: "int \<Rightarrow> int \<Rightarrow> int"
    and same :: "'t \<Rightarrow> 't \<Rightarrow> bool"
  assumes same_refl: "same t t"
    and same_trans: "same t u \<Longrightarrow> same u v \<Longrightarrow> same t v"
    and returns: "in_int64 (reading t) \<Longrightarrow> in_int64 d \<Longrightarrow> in_int64 (exact (reading t) d) \<Longrightarrow>
      \<exists>u. f t d = Inr u \<and> reading u = exact (reading t) d \<and> same t u"
    and throws: "in_int64 (reading t) \<Longrightarrow> in_int64 d \<Longrightarrow> \<not> in_int64 (exact (reading t) d) \<Longrightarrow>
      \<exists>e. f t d = Inl e"
begin

lemma run_exact:
  assumes "in_int64 (reading t)" and "\<forall>d \<in> set ds. in_int64 d"
  shows "(\<forall>u. checked_run f t ds = Inr u \<longrightarrow> reading u = foldl exact (reading t) ds \<and> same t u) \<and>
         ((\<exists>u. checked_run f t ds = Inr u) \<longleftrightarrow>
          (\<forall>n \<le> length ds. in_int64 (foldl exact (reading t) (take n ds))))"
  using assms
proof (induction ds arbitrary: t)
  case Nil
  then show ?case by (simp add: same_refl)
next
  case (Cons d ds)
  have split: "(\<forall>n \<le> length (d # ds). in_int64 (foldl exact (reading t) (take n (d # ds)))) \<longleftrightarrow>
      in_int64 (reading t) \<and> (\<forall>n \<le> length ds. in_int64 (foldl exact (exact (reading t) d) (take n ds)))"
    (is "?all \<longleftrightarrow> _ \<and> ?rest")
    by (simp add: less_Suc_eq_le [symmetric] All_less_Suc2)
  show ?case
  proof (cases "in_int64 (exact (reading t) d)")
    case True
    with Cons.prems returns obtain u where
      u: "f t d = Inr u" "reading u = exact (reading t) d" "same t u" by force
    have "in_int64 (reading u)" "\<forall>d \<in> set ds. in_int64 d" using True u(2) Cons.prems(2) by simp_all
    note IH = Cons.IH [OF this, unfolded u(2)]
    have "checked_run f t (d # ds) = checked_run f u ds" by (simp add: u(1))
    with IH show ?thesis unfolding split foldl_Cons using same_trans [OF u(3)] Cons.prems(1) by metis
  next
    case False
    with Cons.prems throws obtain e where "f t d = Inl e" by force
    moreover from False have "\<not> ?rest" by (auto dest: spec [of _ 0])
    ultimately show ?thesis using split by simp
  qed
qed

end

abbreviation same_clock :: "time \<Rightarrow> time \<Rightarrow> bool" where
  "same_clock t u \<equiv> time_clock t = time_clock u"

lemma will_not_wrap:
  assumes "in_int64 x" and "in_int64 y"
  shows "in_int64 (x + y) \<longleftrightarrow> \<not> add_will_overflow x y \<and> \<not> add_will_underflow x y"
    and "in_int64 (x - y) \<longleftrightarrow> \<not> sub_will_overflow x y \<and> \<not> sub_will_underflow x y"
  using assms by (simp_all add: in_int64_iff)

interpretation plus: exact_or_error time_plus nanoseconds "(+)" same_clock
proof
  fix t :: time and d
  assume ok: "in_int64 (nanoseconds t)" "in_int64 d"
  note w = will_not_wrap(1) [OF ok(2,1), unfolded add.commute [of d]]
  show "in_int64 (nanoseconds t + d) \<Longrightarrow>
      \<exists>u. time_plus t d = Inr u \<and> nanoseconds u = nanoseconds t + d \<and> same_clock t u"
    using w by (simp add: time_plus_def Time_of_ns_def)
  show "\<not> in_int64 (nanoseconds t + d) \<Longrightarrow> \<exists>e. time_plus t d = Inl e"
    using w by (auto simp: time_plus_def)
qed simp_all

interpretation minus: exact_or_error time_minus nanoseconds "(-)" same_clock
proof
  fix t :: time and d
  assume ok: "in_int64 (nanoseconds t)" "in_int64 d"
  note w = will_not_wrap(2) [OF ok]
  show "in_int64 (nanoseconds t - d) \<Longrightarrow>
      \<exists>u. time_minus t d = Inr u \<and> nanoseconds u = nanoseconds t - d \<and> same_clock t u"
    using w by (simp add: time_minus_def Time_of_ns_def)
  show "\<not> in_int64 (nanoseconds t - d) \<Longrightarrow> \<exists>e. time_minus t d = Inl e"
    using w by (auto simp: time_minus_def)
qed simp_all

section \<open>Properties\<close>

lemma foldl_plus: "foldl (+) (x :: int) ds = x + sum_list ds"
  by (induction ds arbitrary: x) simp_all

text \<open>
  Claim C38.  Durations added to a time point one after the other give the exact sum on the same clock, or an
  exception: the run returns exactly when no partial sum leaves the range of \<open>int64_t\<close>.
\<close>

theorem time_sum_exact:
  assumes "in_int64 (nanoseconds t)" and "\<forall>d \<in> set ds. in_int64 d"
  shows "(\<forall>u. checked_run time_plus t ds = Inr u \<longrightarrow>
            nanoseconds u = nanoseconds t + sum_list ds \<and> time_clock t = time_clock u) \<and>
         ((\<exists>u. checked_run time_plus t ds = Inr u) \<longleftrightarrow>
          (\<forall>n \<le> length ds. in_int64 (nanoseconds t + sum_list (take n ds))))"
  by (rule plus.run_exact [OF assms, unfolded foldl_plus])

theorem time_sum_exact_witness:
  "\<exists>u. checked_run time_plus \<lparr>nanoseconds = int64_max - 5, time_clock = RCL_STEADY_TIME\<rparr> [- 3, 8] = Inr u \<and>
     nanoseconds u = int64_max"
proof -
  let ?t = "\<lparr>nanoseconds = int64_max - 5, time_clock = RCL_STEADY_TIME\<rparr>"
  have ok: "in_int64 (nanoseconds ?t)" "\<forall>d \<in> set [- 3, 8]. in_int64 d" by (simp_all add: limits)
  have "\<forall>n \<le> length [- 3, 8 :: int]. in_int64 (nanoseconds ?t + sum_list (take n [- 3, 8]))"
    by (simp add: less_Suc_eq_le [symmetric] All_less_Suc2 limits)
  with time_sum_exact [OF ok] obtain u where "checked_run time_plus ?t [- 3, 8] = Inr u" by blast
  with time_sum_exact [OF ok] show ?thesis by auto
qed

lemma time_assign_ops: "time_add_assign = time_plus" "time_sub_assign = time_minus"
  by (simp_all add: fun_eq_iff time_add_assign_def time_plus_def time_sub_assign_def time_minus_def Time_of_ns_def)

lemma duration_plus_time_comm:
  "in_int64 d \<Longrightarrow> in_int64 (nanoseconds t) \<Longrightarrow> duration_plus_time d t = time_plus t d"
  by (simp add: duration_plus_time_def time_plus_def add.commute)

text \<open>
  The difference of two time points of one clock is exact or an exception, and when it returns,
  adding it to the second time point gives the first one back.
\<close>

theorem time_difference_inverse:
  assumes "in_int64 (nanoseconds t)" and "in_int64 (nanoseconds u)" and "time_clock t = time_clock u"
  shows "((\<exists>d. time_difference t u = Inr d) \<longleftrightarrow> in_int64 (nanoseconds t - nanoseconds u)) \<and>
         (\<forall>d. time_difference t u = Inr d \<longrightarrow>
            d = nanoseconds t - nanoseconds u \<and> time_plus u d = Inr t \<and> duration_plus_time d u = Inr t)"
proof -
  note w = will_not_wrap(2) [OF assms(1,2)]
  have returns: "time_plus u d = Inr t" if "d = nanoseconds t - nanoseconds u" "in_int64 d" for d
    using that assms by (simp add: time_plus_def Time_of_ns_def in_int64_iff)
  have "time_difference t u = Inr d \<longleftrightarrow>
      in_int64 (nanoseconds t - nanoseconds u) \<and> d = nanoseconds t - nanoseconds u" for d
    using w assms(3) by (auto simp: time_difference_def)
  with returns assms(2) show ?thesis by (auto simp: duration_plus_time_comm)
qed

theorem time_difference_inverse_witness:
  "\<exists>d. time_difference \<lparr>nanoseconds = 7, time_clock = RCL_ROS_TIME\<rparr> \<lparr>nanoseconds = 9, time_clock = RCL_ROS_TIME\<rparr> =
      Inr d \<and> d = - 2"
  using time_difference_inverse [of "\<lparr>nanoseconds = 7, time_clock = RCL_ROS_TIME\<rparr>"
      "\<lparr>nanoseconds = 9, time_clock = RCL_ROS_TIME\<rparr>"]
  by (auto simp: limits)

lemma sum_magnitude:
  assumes "in_int64 a" and "in_int64 b"
  shows "to_uint64 (abs_u64 a + abs_u64 b) = (if a = int64_min \<and> b = int64_min then 0 else \<bar>a\<bar> + \<bar>b\<bar>)"
  using assms by (auto simp: to_uint64_def limits abs_if)

text \<open>
  The sum of two durations, unless both are the least \<open>int64_t\<close>, is exact or an exception; the sum
  of two negative durations is refused already when it is the least \<open>int64_t\<close> itself.
\<close>

theorem duration_plus_exact:
  assumes "in_int64 a" and "in_int64 b" and "a \<noteq> int64_min \<or> b \<noteq> int64_min"
  shows "duration_plus a b = Inr c \<longleftrightarrow> c = a + b \<and> in_int64 c \<and> (c = int64_min \<longrightarrow> a = 0 \<or> b = 0)"
proof -
  have "bounds_check_duration_sum a b int64_max = None \<longleftrightarrow>
      in_int64 (a + b) \<and> (a + b = int64_min \<longrightarrow> a = 0 \<or> b = 0)"
    unfolding bounds_check_duration_sum_def sum_magnitude [OF assms(1,2)]
    using assms(3) assms(1,2) by (auto simp: limits)
  then show ?thesis by (auto simp: duration_plus_def split: option.splits)
qed

theorem duration_plus_exact_witness:
  "duration_plus (- 4) 9 = Inr 5 \<and> duration_plus (- int64_max) (- 1) \<noteq> Inr int64_min"
  using duration_plus_exact [of "- 4" 9 5] duration_plus_exact [of "- int64_max" "- 1" int64_min]
  by (simp add: limits)

text \<open>
  The difference of two durations, unless it is zero minus the least \<open>int64_t\<close>, is exact or an
  exception.
\<close>

theorem duration_minus_exact:
  assumes "in_int64 a" and "in_int64 b" and "a \<noteq> 0 \<or> b \<noteq> int64_min"
  shows "duration_minus a b = Inr c \<longleftrightarrow> c = a - b \<and> in_int64 c \<and> (c = int64_min \<longrightarrow> b = 0)"
proof -
  have "bounds_check_duration_difference a b int64_max = None \<longleftrightarrow>
      in_int64 (a - b) \<and> (a - b = int64_min \<longrightarrow> b = 0)"
    unfolding bounds_check_duration_difference_def sum_magnitude [OF assms(1,2)]
    using assms(3) assms(1,2) by (auto simp: limits)
  then show ?thesis by (auto simp: duration_minus_def split: option.splits)
qed

theorem duration_minus_exact_witness: "duration_minus (- 4) 9 = Inr (- 13)"
  using duration_minus_exact [of "- 4" 9 "- 13"] by (simp add: limits)

text \<open>
  The two cases that the checks of durations miss: twice the least \<open>int64_t\<close> is accepted and gives
  zero, and zero minus the least \<open>int64_t\<close> is accepted and gives the least \<open>int64_t\<close> again.
\<close>

theorem duration_checks_miss:
  "duration_plus int64_min int64_min = Inr 0 \<and> duration_minus 0 int64_min = Inr int64_min"
  by code_simp

lemma sdiv_smod_second:
  fixes d :: int
  shows "d sdiv RCL_S_TO_NS 1 * 1000000000 + d smod RCL_S_TO_NS 1 = d"
    and "0 \<le> d \<Longrightarrow> 0 \<le> d smod RCL_S_TO_NS 1 \<and> d smod RCL_S_TO_NS 1 < 1000000000"
    and "d < 0 \<Longrightarrow> - 1000000000 < d smod RCL_S_TO_NS 1 \<and> d smod RCL_S_TO_NS 1 \<le> 0"
proof -
  show "d sdiv RCL_S_TO_NS 1 * 1000000000 + d smod RCL_S_TO_NS 1 = d"
    using mult_sdiv_smod_eq [of 1000000000 d] by (simp add: RCL_S_TO_NS_def)
  show "0 \<le> d \<Longrightarrow> 0 \<le> d smod RCL_S_TO_NS 1 \<and> d smod RCL_S_TO_NS 1 < 1000000000"
    "d < 0 \<Longrightarrow> - 1000000000 < d smod RCL_S_TO_NS 1 \<and> d smod RCL_S_TO_NS 1 \<le> 0"
    using smod_int_compares(1-4) [of d 1000000000] by (simp_all add: RCL_S_TO_NS_def)
qed

lemma of_seconds_in_range:
  assumes "int32_min \<le> s" and "s \<le> int32_max" and "0 \<le> n" and "n \<le> uint32_max"
  shows "to_int64 (to_int64 (RCL_S_TO_NS s) + n) = s * 1000000000 + n"
  using assms by (simp add: RCL_S_TO_NS_def limits)

text \<open>The seconds and nanoseconds of a count of nanoseconds, as both conversions to messages compute them.\<close>

lemma split_seconds:
  fixes d :: int
  assumes "int32_min * 1000000000 \<le> d" and "d < (int32_max + 1) * 1000000000"
  defines "quot \<equiv> d sdiv RCL_S_TO_NS 1" and "rem \<equiv> d smod RCL_S_TO_NS 1"
  shows "0 \<le> rem \<Longrightarrow> int32_min \<le> quot \<and> quot \<le> int32_max \<and> rem < 1000000000"
    and "rem < 0 \<Longrightarrow> int32_min < quot \<and> quot \<le> 0 \<and> - 1000000000 < rem"
    and "quot * 1000000000 + rem = d"
proof -
  note parts = sdiv_smod_second [of d, folded quot_def rem_def]
  show eq: "quot * 1000000000 + rem = d" by (rule parts(1))
  show "0 \<le> rem \<Longrightarrow> int32_min \<le> quot \<and> quot \<le> int32_max \<and> rem < 1000000000"
    using assms(1,2) eq parts(2,3) by (cases "0 \<le> d") (auto simp: limits)
  show "rem < 0 \<Longrightarrow> int32_min < quot \<and> quot \<le> 0 \<and> - 1000000000 < rem"
    using assms(1,2) eq parts(2,3) by (cases "0 \<le> d") (auto simp: limits)
qed

text \<open>
  A duration whose seconds fit 32 bits survives the conversion to a message and back, and the
  nanoseconds of the message are normalised; a duration above is saturated.
\<close>

theorem duration_msg_roundtrip:
  assumes "in_int64 d" and "int32_min * 1000000000 \<le> d"
  shows "(d < (int32_max + 1) * 1000000000 \<longrightarrow>
            Duration_of_msg (duration_to_msg d) = d \<and>
            0 \<le> msg_nanosec (duration_to_msg d) \<and> msg_nanosec (duration_to_msg d) < 1000000000) \<and>
         (\<not> d < (int32_max + 1) * 1000000000 \<longrightarrow>
            duration_to_msg d = \<lparr>msg_sec = int32_max, msg_nanosec = uint32_max\<rparr>)"
proof (cases "d < (int32_max + 1) * 1000000000")
  case True
  note parts = split_seconds [OF assms(2) True]
  show ?thesis
  proof (cases "0 \<le> d smod RCL_S_TO_NS 1")
    case True
    note r = parts(1) [OF True] parts(3)
    with True have "duration_to_msg d =
        \<lparr>msg_sec = d sdiv RCL_S_TO_NS 1, msg_nanosec = d smod RCL_S_TO_NS 1\<rparr>"
      by (auto simp: duration_to_msg_def Let_def) (auto simp: limits to_uint32_def)
    with True r \<open>d < _\<close> show ?thesis
      by (auto simp: Duration_of_msg_def) (subst of_seconds_in_range, auto simp: limits)
  next
    case False
    then have neg: "d smod RCL_S_TO_NS 1 < 0" by simp
    note r = parts(2) [OF neg] parts(3)
    with neg have "duration_to_msg d =
        \<lparr>msg_sec = d sdiv RCL_S_TO_NS 1 - 1, msg_nanosec = 1000000000 + d smod RCL_S_TO_NS 1\<rparr>"
      by (auto simp: duration_to_msg_def Let_def RCL_S_TO_NS_def) (auto simp: limits to_uint32_def to_int32_def)
    with neg r \<open>d < _\<close> show ?thesis
      by (auto simp: Duration_of_msg_def) (subst of_seconds_in_range, auto simp: limits)
  qed
next
  case False
  with sdiv_smod_second [of d] have "0 \<le> d smod RCL_S_TO_NS 1" "int32_max < d sdiv RCL_S_TO_NS 1"
    by (auto simp: limits)
  with False show ?thesis by (simp add: duration_to_msg_def Let_def)
qed

theorem duration_msg_roundtrip_witness:
  "Duration_of_msg (duration_to_msg (- 1)) = - 1 \<and> msg_nanosec (duration_to_msg (- 1)) < 1000000000"
  using duration_msg_roundtrip [of "- 1"] by (simp add: limits)

text \<open>
  A duration of a whole number of seconds below the range of the message is not saturated: its
  seconds wrap around, so that a long negative duration becomes a long positive one.
\<close>

theorem duration_msg_wraps_below:
  "duration_to_msg (RCL_S_TO_NS (int32_min - 1)) = \<lparr>msg_sec = int32_max, msg_nanosec = 0\<rparr>"
  by code_simp

text \<open>
  A time point of at least zero and below \<open>2 ^ 31\<close> seconds survives the conversion to a message and
  back; the next one is converted to a message that no time point can be made of.
\<close>

theorem time_msg_roundtrip:
  assumes "0 \<le> nanoseconds t" and "nanoseconds t < (int32_max + 1) * 1000000000"
  shows "Time_of_msg (time_to_msg t) (time_clock t) = Inr t"
proof -
  have "int32_min * 1000000000 \<le> nanoseconds t" using assms(1) by (simp add: limits)
  note parts = split_seconds [OF this assms(2)]
  have rem: "0 \<le> nanoseconds t smod RCL_S_TO_NS 1" using sdiv_smod_second(2) assms(1) by blast
  note r = parts(1) [OF this] parts(3)
  have q: "0 \<le> nanoseconds t sdiv RCL_S_TO_NS 1" using assms(1) r by linarith
  from r rem have "time_to_msg t =
      \<lparr>msg_sec = nanoseconds t sdiv RCL_S_TO_NS 1, msg_nanosec = nanoseconds t smod RCL_S_TO_NS 1\<rparr>"
    by (auto simp: time_to_msg_def Let_def) (auto simp: limits to_uint32_def)
  with q r rem show ?thesis
    by (auto simp: Time_of_msg_def Time_of_ns_def) (subst of_seconds_in_range, auto simp: limits)
qed

theorem time_msg_roundtrip_witness:
  "Time_of_msg (time_to_msg \<lparr>nanoseconds = 1234567890123, time_clock = RCL_SYSTEM_TIME\<rparr>) RCL_SYSTEM_TIME =
     Inr \<lparr>nanoseconds = 1234567890123, time_clock = RCL_SYSTEM_TIME\<rparr>"
  using time_msg_roundtrip [of "\<lparr>nanoseconds = 1234567890123, time_clock = RCL_SYSTEM_TIME\<rparr>"]
  by (simp add: limits)

lemma time_msg_wraps:
  "time_to_msg (Time_of_ns (RCL_S_TO_NS (int32_max + 1)) c) = \<lparr>msg_sec = int32_min, msg_nanosec = 0\<rparr>"
  by (simp add: time_to_msg_def Time_of_ns_def RCL_S_TO_NS_def to_int32_def to_uint32_def limits)

lemma from_rmw_time_eq:
  assumes "0 \<le> rmw_sec q" and "0 \<le> rmw_nsec q"
  shows "from_rmw_time q = min (rmw_sec q * 1000000000 + rmw_nsec q) int64_max"
proof -
  have limit: "RCL_NS_TO_S int64_max = 9223372036" by (simp add: RCL_NS_TO_S_def limits)
  show ?thesis
  proof (cases "rmw_sec q > 9223372036 \<or> rmw_nsec q > int64_max")
    case True
    then have "int64_max \<le> rmw_sec q * 1000000000 + rmw_nsec q" using assms by (auto simp: limits)
    with True limit show ?thesis by (auto simp: from_rmw_time_def)
  next
    case False
    then have "to_uint64 (to_uint64 (RCL_S_TO_NS (rmw_sec q)) + rmw_nsec q) =
        rmw_sec q * 1000000000 + rmw_nsec q"
      using assms by (simp add: to_uint64_def RCL_S_TO_NS_def limits)
    with False limit assms show ?thesis by (auto simp: from_rmw_time_def Let_def in_int64_def int64_max_def)
  qed
qed

lemma to_rmw_time_back:
  assumes "in_int64 d" and "to_rmw_time d = Inr q"
  shows "0 \<le> d" and "from_rmw_time q = d"
proof -
  show pos: "0 \<le> d" using assms(2) by (auto simp: to_rmw_time_def split: if_splits)
  note parts = sdiv_smod_second(1) [of d] sdiv_smod_second(2) [OF pos]
  then have range: "0 \<le> d sdiv RCL_S_TO_NS 1" "d sdiv RCL_S_TO_NS 1 \<le> d" using pos by linarith+
  then have q: "rmw_sec q = d sdiv RCL_S_TO_NS 1" "rmw_nsec q = d smod RCL_S_TO_NS 1"
    using assms pos parts(2) by (auto simp: to_rmw_time_def to_uint64_def limits)
  with from_rmw_time_eq [of q] parts range assms(1) show "from_rmw_time q = d" by (simp add: in_int64_def)
qed

text \<open>
  A middleware time is read as its exact value or, beyond the range of a duration, as the longest
  duration; a duration of at least zero survives the way to the middleware and back, and a negative
  one is refused.
\<close>

theorem rmw_time_conversion:
  assumes "0 \<le> rmw_sec r" and "rmw_sec r < 2 ^ 64" and "0 \<le> rmw_nsec r" and "rmw_nsec r < 2 ^ 64"
    and "in_int64 d"
  shows "from_rmw_time r = min (rmw_sec r * 1000000000 + rmw_nsec r) int64_max \<and>
         (case to_rmw_time d of Inl _ \<Rightarrow> d < 0 | Inr q \<Rightarrow> 0 \<le> d \<and> from_rmw_time q = d)"
  using from_rmw_time_eq [OF assms(1,3)] to_rmw_time_back [OF assms(5)]
  by (auto simp: to_rmw_time_def split: sum.splits if_splits)

theorem rmw_time_conversion_witness:
  "from_rmw_time \<lparr>rmw_sec = 9223372036, rmw_nsec = 854775808\<rparr> = int64_max"
  using rmw_time_conversion [of "\<lparr>rmw_sec = 9223372036, rmw_nsec = 854775808\<rparr>" 0] by (simp add: limits)

lemma duration_max_not_maximal: "duration_max < from_rmw_time \<lparr>rmw_sec = 9000000000, rmw_nsec = 0\<rparr>"
  by code_simp

end
