(* ===== verification/QoS_Profile.thy ===== *)
theory QoS_Profile
  imports Time_Arithmetic
begin

text \<open>
  Quality of service settings (\<open>qos.cpp\<close>).  A profile is the structure \<open>rmw_qos_profile_t\<close> of the
  middleware; the setters that take a duration may throw.  The compatibility check of the
  middleware, \<open>rmw_qos_profile_check_compatible\<close>, is a parameter.
\<close>

section \<open>Profiles\<close>

datatype history_policy = KEEP_LAST | KEEP_ALL | HISTORY_SYSTEM_DEFAULT | HISTORY_UNKNOWN

datatype reliability_policy =
  BEST_EFFORT | RELIABLE | RELIABILITY_SYSTEM_DEFAULT | RELIABILITY_UNKNOWN

datatype durability_policy =
  VOLATILE | TRANSIENT_LOCAL | DURABILITY_SYSTEM_DEFAULT | DURABILITY_UNKNOWN

datatype liveliness_policy =
  AUTOMATIC | MANUAL_BY_TOPIC | LIVELINESS_SYSTEM_DEFAULT | LIVELINESS_UNKNOWN

record qos =
  history :: history_policy
  depth :: u64
  reliability :: reliability_policy
  durability :: durability_policy
  qos_deadline :: rmw_time
  qos_lifespan :: rmw_time
  liveliness :: liveliness_policy
  qos_lease :: rmw_time
  avoid_ros_namespace_conventions :: bool

datatype policy_kind =
    POLICY_DURABILITY | POLICY_DEADLINE | POLICY_LIVELINESS | POLICY_RELIABILITY
  | POLICY_HISTORY | POLICY_LIFESPAN | POLICY_OTHER

fun qos_policy_name_from_kind :: "policy_kind \<Rightarrow> string" where
  "qos_policy_name_from_kind POLICY_DURABILITY = ''DURABILITY_QOS_POLICY''"
| "qos_policy_name_from_kind POLICY_DEADLINE = ''DEADLINE_QOS_POLICY''"
| "qos_policy_name_from_kind POLICY_LIVELINESS = ''LIVELINESS_QOS_POLICY''"
| "qos_policy_name_from_kind POLICY_RELIABILITY = ''RELIABILITY_QOS_POLICY''"
| "qos_policy_name_from_kind POLICY_HISTORY = ''HISTORY_QOS_POLICY''"
| "qos_policy_name_from_kind POLICY_LIFESPAN = ''LIFESPAN_QOS_POLICY''"
| "qos_policy_name_from_kind POLICY_OTHER = ''INVALID_QOS_POLICY''"

section \<open>Construction\<close>

type_synonym qos_initialization = "history_policy \<times> u64"

definition KeepAll :: qos_initialization where
  "KeepAll = (KEEP_ALL, 0)"

definition KeepLast :: "u64 \<Rightarrow> qos_initialization" where
  "KeepLast d = (KEEP_LAST, d)"

definition from_rmw :: "qos \<Rightarrow> qos_initialization" where
  "from_rmw q = (case history q of KEEP_ALL \<Rightarrow> KeepAll | _ \<Rightarrow> KeepLast (depth q))"

definition QoS :: "qos_initialization \<Rightarrow> qos \<Rightarrow> qos" where
  "QoS initialization initial_profile =
     initial_profile\<lparr>history := fst initialization, depth := snd initialization\<rparr>"

definition QoS_of_depth :: "qos \<Rightarrow> u64 \<Rightarrow> qos" where
  "QoS_of_depth rmw_qos_profile_default history_depth = QoS (KeepLast history_depth) rmw_qos_profile_default"

section \<open>Setters and getters\<close>

definition set_history :: "history_policy \<Rightarrow> qos \<Rightarrow> qos" where
  "set_history h q = q\<lparr>history := h\<rparr>"

definition keep_last :: "u64 \<Rightarrow> qos \<Rightarrow> qos" where
  "keep_last d q = q\<lparr>history := KEEP_LAST, depth := d\<rparr>"

definition keep_all :: "qos \<Rightarrow> qos" where
  "keep_all q = q\<lparr>history := KEEP_ALL, depth := 0\<rparr>"

definition set_reliability :: "reliability_policy \<Rightarrow> qos \<Rightarrow> qos" where
  "set_reliability r q = q\<lparr>reliability := r\<rparr>"

definition reliable :: "qos \<Rightarrow> qos" where
  "reliable q = set_reliability RELIABLE q"

definition best_effort :: "qos \<Rightarrow> qos" where
  "best_effort q = set_reliability BEST_EFFORT q"

definition set_durability :: "durability_policy \<Rightarrow> qos \<Rightarrow> qos" where
  "set_durability d q = q\<lparr>durability := d\<rparr>"

definition durability_volatile :: "qos \<Rightarrow> qos" where
  "durability_volatile q = set_durability VOLATILE q"

definition transient_local :: "qos \<Rightarrow> qos" where
  "transient_local q = set_durability TRANSIENT_LOCAL q"

definition set_deadline :: "duration \<Rightarrow> qos \<Rightarrow> rclcpp_exn + qos" where
  "set_deadline d q = map_sum id (\<lambda>t. q\<lparr>qos_deadline := t\<rparr>) (to_rmw_time d)"

definition set_lifespan :: "duration \<Rightarrow> qos \<Rightarrow> rclcpp_exn + qos" where
  "set_lifespan d q = map_sum id (\<lambda>t. q\<lparr>qos_lifespan := t\<rparr>) (to_rmw_time d)"

definition set_liveliness :: "liveliness_policy \<Rightarrow> qos \<Rightarrow> qos" where
  "set_liveliness l q = q\<lparr>liveliness := l\<rparr>"

definition set_liveliness_lease_duration :: "duration \<Rightarrow> qos \<Rightarrow> rclcpp_exn + qos" where
  "set_liveliness_lease_duration d q = map_sum id (\<lambda>t. q\<lparr>qos_lease := t\<rparr>) (to_rmw_time d)"

definition set_avoid_ros_namespace_conventions :: "bool \<Rightarrow> qos \<Rightarrow> qos" where
  "set_avoid_ros_namespace_conventions b q = q\<lparr>avoid_ros_namespace_conventions := b\<rparr>"

definition deadline :: "qos \<Rightarrow> duration" where
  "deadline q = from_rmw_time (qos_deadline q)"

definition lifespan :: "qos \<Rightarrow> duration" where
  "lifespan q = from_rmw_time (qos_lifespan q)"

definition liveliness_lease_duration :: "qos \<Rightarrow> duration" where
  "liveliness_lease_duration q = from_rmw_time (qos_lease q)"

definition rmw_time_equal :: "rmw_time \<Rightarrow> rmw_time \<Rightarrow> bool" where
  "rmw_time_equal left right \<longleftrightarrow> rmw_sec left = rmw_sec right \<and> rmw_nsec left = rmw_nsec right"

definition qos_equal :: "qos \<Rightarrow> qos \<Rightarrow> bool" where
  "qos_equal pl pr \<longleftrightarrow>
     history pl = history pr \<and> depth pl = depth pr \<and> reliability pl = reliability pr \<and>
     durability pl = durability pr \<and> rmw_time_equal (qos_deadline pl) (qos_deadline pr) \<and>
     rmw_time_equal (qos_lifespan pl) (qos_lifespan pr) \<and> liveliness pl = liveliness pr \<and>
     rmw_time_equal (qos_lease pl) (qos_lease pr) \<and>
     avoid_ros_namespace_conventions pl = avoid_ros_namespace_conventions pr"

section \<open>Compatibility\<close>

text \<open>
  The answer of \<open>rmw_qos_profile_check_compatible\<close>: a failure with its message, or a verdict with a
  reason; \<open>RMW_COMPATIBILITY_OTHER\<close> stands for a value outside the enumeration.
\<close>

datatype rmw_compatibility =
    RMW_COMPATIBILITY_OK | RMW_COMPATIBILITY_WARNING | RMW_COMPATIBILITY_ERROR
  | RMW_COMPATIBILITY_OTHER nat

datatype qos_compatibility = Compatible_Ok | Compatible_Warning | Compatible_Error

type_synonym rmw_check = "qos \<Rightarrow> qos \<Rightarrow> string + (rmw_compatibility \<times> string)"

definition qos_check_compatible ::
    "rmw_check \<Rightarrow> qos \<Rightarrow> qos \<Rightarrow> rclcpp_exn + (qos_compatibility \<times> string)" where
  "qos_check_compatible rmw_check publisher_qos subscription_qos =
     (case rmw_check publisher_qos subscription_qos of
        Inl error_str \<Rightarrow> Inl (QoSCheckCompatibleException error_str)
      | Inr (compatible, reason) \<Rightarrow>
          (case compatible of
             RMW_COMPATIBILITY_OK \<Rightarrow> Inr (Compatible_Ok, reason)
           | RMW_COMPATIBILITY_WARNING \<Rightarrow> Inr (Compatible_Warning, reason)
           | RMW_COMPATIBILITY_ERROR \<Rightarrow> Inr (Compatible_Error, reason)
           | RMW_COMPATIBILITY_OTHER n \<Rightarrow>
               Inl (QoSCheckCompatibleException
                 (''Unexpected compatibility value returned by rmw '' @ [CHR 0x27] @ to_dec n @ [CHR 0x27]))))"

section \<open>Properties\<close>

lemma qos_equal_iff: "qos_equal p q \<longleftrightarrow> p = q"
  by (cases p; cases q) (auto simp: qos_equal_def rmw_time_equal_def intro!: rmw_time.equality)

text \<open>
  A deadline, lifespan or lease duration that was set is the one that is read back, the other
  settings stay; only a negative duration is refused.
\<close>

theorem qos_durations_kept:
  assumes "in_int64 d"
  shows "(case set_deadline d q of
            Inl _ \<Rightarrow> d < 0
          | Inr q' \<Rightarrow> 0 \<le> d \<and> deadline q' = d \<and> qos_equal (q'\<lparr>qos_deadline := qos_deadline q\<rparr>) q) \<and>
         (case set_lifespan d q of
            Inl _ \<Rightarrow> d < 0
          | Inr q' \<Rightarrow> 0 \<le> d \<and> lifespan q' = d \<and> qos_equal (q'\<lparr>qos_lifespan := qos_lifespan q\<rparr>) q) \<and>
         (case set_liveliness_lease_duration d q of
            Inl _ \<Rightarrow> d < 0
          | Inr q' \<Rightarrow> 0 \<le> d \<and> liveliness_lease_duration q' = d \<and> qos_equal (q'\<lparr>qos_lease := qos_lease q\<rparr>) q)"
proof (cases "to_rmw_time d")
  case (Inl e)
  then show ?thesis
    by (auto simp: set_deadline_def set_lifespan_def set_liveliness_lease_duration_def to_rmw_time_def split: if_splits)
next
  case (Inr r)
  with to_rmw_time_back [OF assms Inr] show ?thesis
    by (simp add: set_deadline_def set_lifespan_def set_liveliness_lease_duration_def deadline_def
        lifespan_def liveliness_lease_duration_def qos_equal_iff)
qed

theorem qos_durations_kept_witness: "\<exists>q'. set_deadline 1500000000 q = Inr q' \<and> deadline q' = 1500000000"
  using qos_durations_kept [of 1500000000 q] by (auto simp: limits set_deadline_def split: sum.splits)

text \<open>
  The constructor keeps what the initialization says: a profile rebuilt from the initialization of
  another one has its history and, unless it keeps everything, its depth.
\<close>

lemma from_rmw_rebuilds:
  "history q \<in> {KEEP_ALL, KEEP_LAST} \<Longrightarrow>
     history (QoS (from_rmw q) p) = history q \<and> depth (QoS (from_rmw q) p) = (if history q = KEEP_ALL then 0 else depth q)"
  by (auto simp: QoS_def from_rmw_def KeepAll_def KeepLast_def)

end
