(* ===== verification/Intra_Process.thy ===== *)
theory Intra_Process
  imports Ring_Buffer QoS_Profile
begin

text \<open>
  Intra-process subscriptions: the typed buffers of
  \<open>experimental/buffers/intra_process_buffer.hpp\<close> and \<open>experimental/create_intra_process_buffer.hpp\<close>,
  and the subscription side of \<open>experimental/subscription_intra_process_base.hpp\<close>,
  \<open>experimental/subscription_intra_process_buffer.hpp\<close> and
  \<open>experimental/subscription_intra_process.hpp\<close>.

  Messages live in a store; a pointer is an address, the position of the message in the store, and
  copying a message allocates the next address.  Storage is not reused, which is what the aliasing
  claims need: two live objects never share an address.  The buffers hold shared or unique pointers;
  the instantiation modelled is the one with \<open>SubscribedType = ROSMessageType\<close>, without a type
  adapter.  Dereferencing a null pointer is the value \<open>Null_dereference\<close>.
\<close>

section \<open>Buffers\<close>

type_synonym 'm store = "'m list"

definition copy_message :: "nat \<Rightarrow> 'm store \<Rightarrow> nat \<times> 'm store" where
  "copy_message p h = (length h, h @ [h ! p])"

datatype buffer_type = SharedPtr | UniquePtr | CallbackDefault

datatype undefined_behaviour = Null_dereference

record ip_buffer =
  holds_shared :: bool
  ring :: "nat ring_buffer"

definition resolve_intra_process_buffer_type :: "buffer_type \<Rightarrow> bool \<Rightarrow> buffer_type" where
  "resolve_intra_process_buffer_type t callback_takes_shared =
     (if t = CallbackDefault then if callback_takes_shared then SharedPtr else UniquePtr else t)"

definition create_intra_process_buffer :: "buffer_type \<Rightarrow> qos \<Rightarrow> rclcpp_exn + ip_buffer" where
  "create_intra_process_buffer t q =
     (case t of
        SharedPtr \<Rightarrow>
          map_sum id (\<lambda>r. \<lparr>holds_shared = True, ring = r\<rparr>) (RingBufferImplementation (depth q))
      | UniquePtr \<Rightarrow>
          map_sum id (\<lambda>r. \<lparr>holds_shared = False, ring = r\<rparr>) (RingBufferImplementation (depth q))
      | CallbackDefault \<Rightarrow> Inl (RuntimeError ''Unrecognized IntraProcessBufferType value''))"

definition add_shared :: "nat \<Rightarrow> ip_buffer \<times> 'm store \<Rightarrow> ip_buffer \<times> 'm store" where
  "add_shared p = (\<lambda>(b, h).
     if holds_shared b then (b\<lparr>ring := enqueue (Some p) (ring b)\<rparr>, h)
     else let (q, h') = copy_message p h in (b\<lparr>ring := enqueue (Some q) (ring b)\<rparr>, h'))"

definition add_unique :: "nat \<Rightarrow> ip_buffer \<Rightarrow> ip_buffer" where
  "add_unique p b = b\<lparr>ring := enqueue (Some p) (ring b)\<rparr>"

definition consume_shared :: "ip_buffer \<Rightarrow> nat option \<times> ip_buffer" where
  "consume_shared b = (let (p, r) = dequeue (ring b) in (p, b\<lparr>ring := r\<rparr>))"

definition consume_unique ::
    "ip_buffer \<times> 'm store \<Rightarrow> undefined_behaviour + nat option \<times> ip_buffer \<times> 'm store" where
  "consume_unique = (\<lambda>(b, h).
     let (p, r) = dequeue (ring b); b' = b\<lparr>ring := r\<rparr>
     in if holds_shared b then
          (case p of
             None \<Rightarrow> Inl Null_dereference
           | Some a \<Rightarrow> let (q, h') = copy_message a h in Inr (Some q, b', h'))
        else Inr (p, b', h))"

definition buffer_has_data :: "ip_buffer \<Rightarrow> bool" where
  "buffer_has_data b = has_data (ring b)"

definition buffer_clear :: "ip_buffer \<Rightarrow> ip_buffer" where
  "buffer_clear b = b\<lparr>ring := clear (ring b)\<rparr>"

definition use_take_shared_method :: "ip_buffer \<Rightarrow> bool" where
  "use_take_shared_method b = holds_shared b"

section \<open>Subscriptions\<close>

text \<open>
  \<open>callback_takes_shared\<close> is what the user callback asks for, \<open>triggers\<close> counts the triggers of the
  guard condition, \<open>notified\<close> lists the numbers the on-ready callback was called with, and
  \<open>same_types\<close> says whether the dynamic cast of a publisher's manager to this subscription succeeds.
\<close>

record ip_subscription =
  sub_topic :: string
  sub_qos :: qos
  sub_buffer :: ip_buffer
  callback_takes_shared :: bool
  same_types :: bool
  triggers :: nat
  has_on_ready :: bool
  notified :: "u64 list"
  unread_count :: u64

definition check_intra_process_qos :: "qos \<Rightarrow> rclcpp_exn option" where
  "check_intra_process_qos q =
     (if history q \<noteq> KEEP_LAST
      then Some (InvalidArgument ''intraprocess communication allowed only with keep last history qos policy'')
      else if depth q = 0
      then Some (InvalidArgument ''intraprocess communication is not allowed with 0 depth qos policy'')
      else if durability q \<noteq> VOLATILE
      then Some (InvalidArgument ''intraprocess communication allowed only with volatile durability'')
      else None)"

definition SubscriptionIntraProcess ::
    "bool \<Rightarrow> bool \<Rightarrow> string \<Rightarrow> qos \<Rightarrow> buffer_type \<Rightarrow> rclcpp_exn + ip_subscription" where
  "SubscriptionIntraProcess types takes_shared topic q t =
     map_sum id
       (\<lambda>b. \<lparr>sub_topic = topic, sub_qos = q, sub_buffer = b, callback_takes_shared = takes_shared,
             same_types = types, triggers = 0, has_on_ready = False, notified = [], unread_count = 0\<rparr>)
       (create_intra_process_buffer t q)"

definition setup_subscription ::
    "bool \<Rightarrow> bool \<Rightarrow> string \<Rightarrow> qos \<Rightarrow> buffer_type \<Rightarrow> rclcpp_exn + ip_subscription" where
  "setup_subscription types takes_shared topic q t =
     (case check_intra_process_qos q of
        Some e \<Rightarrow> Inl e
      | None \<Rightarrow>
          SubscriptionIntraProcess types takes_shared topic q (resolve_intra_process_buffer_type t takes_shared))"

definition trigger_guard_condition :: "ip_subscription \<Rightarrow> ip_subscription" where
  "trigger_guard_condition s = s\<lparr>triggers := triggers s + 1\<rparr>"

definition invoke_on_new_message :: "ip_subscription \<Rightarrow> ip_subscription" where
  "invoke_on_new_message s =
     (if has_on_ready s then s\<lparr>notified := notified s @ [1]\<rparr>
      else s\<lparr>unread_count := unread_count s + 1\<rparr>)"

definition set_on_ready_callback :: "bool \<Rightarrow> ip_subscription \<Rightarrow> ip_subscription outcome" where
  "set_on_ready_callback callable s =
     (if \<not> callable
      then (Some (InvalidArgument ''The callback passed to set_on_ready_callback is not callable.''), s)
      else
        let s1 = s\<lparr>has_on_ready := True\<rparr>
        in if unread_count s1 > 0 then
             let n = (if history (sub_qos s1) = KEEP_ALL then unread_count s1
                      else min (unread_count s1) (depth (sub_qos s1)))
             in (None, s1\<lparr>notified := notified s1 @ [n], unread_count := 0\<rparr>)
           else (None, s1))"

definition clear_on_ready_callback :: "ip_subscription \<Rightarrow> ip_subscription" where
  "clear_on_ready_callback s = s\<lparr>has_on_ready := False\<rparr>"

definition provide_shared_data :: "nat \<Rightarrow> ip_subscription \<times> 'm store \<Rightarrow> ip_subscription \<times> 'm store" where
  "provide_shared_data p = (\<lambda>(s, h).
     let (b, h') = add_shared p (sub_buffer s, h)
     in (invoke_on_new_message (trigger_guard_condition (s\<lparr>sub_buffer := b\<rparr>)), h'))"

definition provide_unique_data :: "nat \<Rightarrow> ip_subscription \<Rightarrow> ip_subscription" where
  "provide_unique_data p s =
     invoke_on_new_message (trigger_guard_condition (s\<lparr>sub_buffer := add_unique p (sub_buffer s)\<rparr>))"

definition is_ready :: "ip_subscription \<Rightarrow> bool" where
  "is_ready s = buffer_has_data (sub_buffer s)"

definition take_message ::
    "ip_subscription \<times> 'm store \<Rightarrow> undefined_behaviour + nat option \<times> ip_subscription \<times> 'm store" where
  "take_message = (\<lambda>(s, h).
     case (if callback_takes_shared s
           then let (p, b) = consume_shared (sub_buffer s) in Inr (p, b, h)
           else consume_unique (sub_buffer s, h)) of
       Inl u \<Rightarrow> Inl u
     | Inr (None, b, h') \<Rightarrow> Inr (None, s\<lparr>sub_buffer := b\<rparr>, h')
     | Inr (Some p, b, h') \<Rightarrow>
         let s1 = s\<lparr>sub_buffer := b\<rparr>
         in Inr (Some p, if is_ready s1 then trigger_guard_condition s1 else s1, h'))"

section \<open>What a subscription delivers\<close>

text \<open>The messages waiting in a subscription, by their addresses and by their contents.\<close>

definition waiting :: "ip_subscription \<Rightarrow> nat option list" where
  "waiting s = ring_contents (ring (sub_buffer s))"

definition sub_ok :: "nat \<Rightarrow> ip_subscription \<Rightarrow> bool" where
  "sub_ok n s \<longleftrightarrow>
     ring_ok (ring (sub_buffer s)) \<and> (\<forall>e \<in> set (waiting s). \<exists>p < n. e = Some p)"

lemma sub_ok_mono: "sub_ok n s \<Longrightarrow> n \<le> m \<Longrightarrow> sub_ok m s"
  unfolding sub_ok_def by (meson less_le_trans)

lemma provide_unique_simps [simp]:
  "sub_buffer (provide_unique_data p s) = add_unique p (sub_buffer s)"
  "sub_topic (provide_unique_data p s) = sub_topic s" "sub_qos (provide_unique_data p s) = sub_qos s"
  "callback_takes_shared (provide_unique_data p s) = callback_takes_shared s"
  "same_types (provide_unique_data p s) = same_types s"
  "triggers (provide_unique_data p s) = triggers s + 1"
  by (simp_all add: provide_unique_data_def trigger_guard_condition_def invoke_on_new_message_def)

lemma provide_shared_to_shared:
  "holds_shared (sub_buffer s) \<Longrightarrow> provide_shared_data p (s, h) = (provide_unique_data p s, h)"
  by (simp add: provide_shared_data_def provide_unique_data_def add_shared_def add_unique_def)

lemma waiting_provide:
  "ring_ok (ring (sub_buffer s)) \<Longrightarrow>
     waiting (provide_unique_data p s) = list_put (ring_capacity (ring (sub_buffer s))) (Some p) (waiting s)"
  by (simp add: waiting_def add_unique_def ring.contents_put)

lemma set_list_put: "set (list_put n e q) \<subseteq> insert e (set q)"
  by (cases q) (auto simp: list_put_def)

lemma sub_ok_provide:
  assumes "sub_ok n s" and "p < n"
  shows "sub_ok n (provide_unique_data p s)"
proof -
  have ok: "ring_ok (ring (sub_buffer s))" using assms(1) by (simp add: sub_ok_def)
  then have "ring_ok (ring (sub_buffer (provide_unique_data p s)))"
    by (simp add: add_unique_def ring.valid_put)
  moreover have "\<forall>e \<in> set (waiting (provide_unique_data p s)). \<exists>p < n. e = Some p"
    unfolding waiting_provide [OF ok]
    using assms set_list_put [of _ "Some p" "waiting s"] by (auto simp: sub_ok_def)
  ultimately show ?thesis by (simp add: sub_ok_def)
qed

lemma dequeue_oldest:
  assumes "ring_ok r" and "ring_contents r = e # es"
  shows "\<exists>r'. dequeue r = (e, r') \<and> ring_ok r' \<and> ring_contents r' = es"
  using ring.get_refines [OF assms(1)] ring.valid_get [OF assms(1)] assms(2)
  by (cases "dequeue r") (simp add: list_get_def)

text \<open>
  A subscription hands out its messages oldest first and unchanged: taking from a subscription with
  waiting messages never fails, returns an object with the contents of the oldest one, leaves the
  others waiting, and triggers the guard condition again when some are left.  A callback that wants
  to own a message that is shared gets a copy of its own.
\<close>

lemma take_message_takes:
  assumes "sub_ok (length h) s" and "waiting s = Some p # rest"
  shows "\<exists>q s' h'. take_message (s, h) = Inr (Some q, s', h') \<and> h' ! q = h ! p \<and>
           take (length h) h' = h \<and> waiting s' = rest \<and> sub_ok (length h') s' \<and>
           triggers s' = triggers s + (if rest = [] then 0 else 1) \<and>
           (if \<not> callback_takes_shared s \<and> holds_shared (sub_buffer s) then q = length h else q = p) \<and>
           q < length h'"
proof -
  have ok: "ring_ok (ring (sub_buffer s))" and p: "p < length h"
    and valid: "\<forall>e \<in> set rest. \<exists>p < length h. e = Some p" using assms by (auto simp: sub_ok_def)
  from dequeue_oldest [OF ok assms(2) [unfolded waiting_def]] obtain r where
    d: "dequeue (ring (sub_buffer s)) = (Some p, r)" "ring_ok r" "ring_contents r = rest" by blast
  let ?s = "s\<lparr>sub_buffer := (sub_buffer s)\<lparr>ring := r\<rparr>\<rparr>"
  let ?s' = "if rest = [] then ?s else trigger_guard_condition ?s"
  have ready: "is_ready ?s \<longleftrightarrow> rest \<noteq> []"
    by (simp add: is_ready_def buffer_has_data_def ring_has_data d(3))
  have s': "waiting ?s' = rest" "triggers ?s' = triggers s + (if rest = [] then 0 else 1)"
    "\<And>n. length h \<le> n \<Longrightarrow> sub_ok n ?s'"
    using d(2,3) valid by (auto simp: waiting_def trigger_guard_condition_def sub_ok_def intro: less_le_trans)
  show ?thesis
  proof (cases "\<not> callback_takes_shared s \<and> holds_shared (sub_buffer s)")
    case True
    then have "take_message (s, h) = Inr (Some (length h), ?s', h @ [h ! p])"
      using ready by (simp add: take_message_def consume_unique_def copy_message_def d(1))
    with True s' show ?thesis by (intro exI [of _ "length h"] exI [of _ ?s'] exI [of _ "h @ [h ! p]"]) simp
  next
    case False
    then have "take_message (s, h) = Inr (Some p, ?s', h)"
      using ready by (auto simp: take_message_def consume_unique_def consume_shared_def d(1))
    with False s' p show ?thesis by (intro exI [of _ p] exI [of _ ?s'] exI [of _ h]) auto
  qed
qed

definition example_qos :: qos where
  "example_qos = \<lparr>history = KEEP_LAST, depth = 2, reliability = RELIABLE, durability = VOLATILE,
     qos_deadline = \<lparr>rmw_sec = 0, rmw_nsec = 0\<rparr>, qos_lifespan = \<lparr>rmw_sec = 0, rmw_nsec = 0\<rparr>,
     liveliness = AUTOMATIC, qos_lease = \<lparr>rmw_sec = 0, rmw_nsec = 0\<rparr>,
     avoid_ros_namespace_conventions = False\<rparr>"

definition example_subscription :: "bool \<Rightarrow> bool \<Rightarrow> ip_subscription" where
  "example_subscription takes_shared shared =
     projr (setup_subscription True takes_shared ''topic'' example_qos (if shared then SharedPtr else UniquePtr))"

lemma example_subscription_new:
  "sub_ok n (example_subscription b c) \<and> waiting (example_subscription b c) = [] \<and>
   holds_shared (sub_buffer (example_subscription b c)) = c \<and>
   callback_takes_shared (example_subscription b c) = b \<and> same_types (example_subscription b c) \<and>
   sub_topic (example_subscription b c) = ''topic'' \<and> sub_qos (example_subscription b c) = example_qos \<and>
   ring_capacity (ring (sub_buffer (example_subscription b c))) = 2"
proof -
  obtain r :: "nat ring_buffer" where r: "RingBufferImplementation 2 = Inr r"
    by (simp add: RingBufferImplementation_def)
  then have "example_subscription b c =
      \<lparr>sub_topic = ''topic'', sub_qos = example_qos, sub_buffer = \<lparr>holds_shared = c, ring = r\<rparr>,
       callback_takes_shared = b, same_types = True, triggers = 0, has_on_ready = False, notified = [],
       unread_count = 0\<rparr>"
    by (simp add: example_subscription_def setup_subscription_def check_intra_process_qos_def example_qos_def
        SubscriptionIntraProcess_def create_intra_process_buffer_def resolve_intra_process_buffer_type_def)
  with new_ring [OF r] show ?thesis by (simp add: sub_ok_def waiting_def)
qed

text \<open>
  A callback that owns its messages and a buffer of shared pointers: taking from the empty buffer
  dereferences the null pointer that the ring buffer returns, before it is tested.
\<close>

theorem take_from_empty_undefined:
  "take_message (example_subscription False True, []) = Inl Null_dereference \<and>
   (\<exists>s. take_message (example_subscription True True, [] :: string list) = Inr (None, s, []))"
proof -
  have "dequeue (ring (sub_buffer (example_subscription b c))) = (None, ring (sub_buffer (example_subscription b c)))"
    for b c
    using example_subscription_new [of 0 b c] ring_has_data by (auto simp: dequeue_def waiting_def)
  with example_subscription_new show ?thesis
    by (simp add: take_message_def consume_unique_def consume_shared_def)
qed

end
