(* ===== verification/Intra_Process_Manager.thy ===== *)
theory Intra_Process_Manager
  imports Intra_Process
begin

text \<open>
  The manager that connects publishers and subscriptions of one process
  (\<open>experimental/intra_process_manager.hpp\<close> and \<open>intra_process_manager.cpp\<close>), and the publishers
  that use it (\<open>publisher.hpp\<close>).  Publishers and subscriptions are objects of the record
  \<open>ip_world\<close>, named by numbers; an object that no longer exists is absent, as a weak pointer to it
  would find.  The hash tables of the manager are maps; a loop over one of them takes the order of
  its keys, which is unspecified, as an argument.  The instantiation modelled is the one for a
  message type without a type adapter, where a publisher's message type is the ROS message type.
  The shared mutex makes every operation atomic.
\<close>

section \<open>State\<close>

record ip_publisher =
  pub_topic :: string
  pub_qos :: qos

record splitted_subscriptions =
  take_shared_subscriptions :: "u64 list"
  take_ownership_subscriptions :: "u64 list"

record 'm ip_world =
  the_sub :: "nat \<Rightarrow> ip_subscription option"
  the_pub :: "nat \<Rightarrow> ip_publisher option"
  store :: "'m store"
  next_unique_id :: u64

record ip_manager =
  pub_to_subs :: "u64 \<Rightarrow> splitted_subscriptions option"
  subscriptions :: "u64 \<Rightarrow> nat option"
  publishers :: "u64 \<Rightarrow> nat option"

type_synonym 'm ip_state = "'m ip_world \<times> ip_manager"

definition IntraProcessManager :: ip_manager where
  "IntraProcessManager = \<lparr>pub_to_subs = Map.empty, subscriptions = Map.empty, publishers = Map.empty\<rparr>"

definition SplittedSubscriptions :: splitted_subscriptions where
  "SplittedSubscriptions = \<lparr>take_shared_subscriptions = [], take_ownership_subscriptions = []\<rparr>"

definition get_next_unique_id :: "'m ip_world \<Rightarrow> (rclcpp_exn + u64) \<times> 'm ip_world" where
  "get_next_unique_id w =
     (let next_id = next_unique_id w; w' = w\<lparr>next_unique_id := next_id + 1\<rparr>
      in if next_id = 0
         then (Inl (OverflowError (''exhausted the unique id's for publishers and subscribers in this process '' @
                 ''(congratulations your computer is either extremely fast or extremely old)'')), w')
         else (Inr next_id, w'))"

section \<open>Registration\<close>

definition can_communicate :: "rmw_check \<Rightarrow> ip_publisher \<Rightarrow> ip_subscription \<Rightarrow> rclcpp_exn + bool" where
  "can_communicate rmw_check pub sub =
     (if pub_topic pub \<noteq> sub_topic sub then Inr False
      else
        (case qos_check_compatible rmw_check (pub_qos pub) (sub_qos sub) of
           Inl e \<Rightarrow> Inl e
         | Inr (compatibility, _) \<Rightarrow> Inr (compatibility \<noteq> Compatible_Error)))"

definition insert_sub_id_for_pub :: "u64 \<Rightarrow> u64 \<Rightarrow> bool \<Rightarrow> ip_manager \<Rightarrow> ip_manager" where
  "insert_sub_id_for_pub sub_id pub_id takes_shared m =
     (let split = (case pub_to_subs m pub_id of None \<Rightarrow> SplittedSubscriptions | Some s \<Rightarrow> s);
          split' =
            (if takes_shared
             then split\<lparr>take_shared_subscriptions := take_shared_subscriptions split @ [sub_id]\<rparr>
             else split\<lparr>take_ownership_subscriptions := take_ownership_subscriptions split @ [sub_id]\<rparr>)
      in m\<lparr>pub_to_subs := (pub_to_subs m)(pub_id \<mapsto> split')\<rparr>)"

fun match_subscriptions ::
    "rmw_check \<Rightarrow> 'm ip_world \<Rightarrow> u64 \<Rightarrow> ip_publisher \<Rightarrow> u64 list \<Rightarrow> ip_manager \<Rightarrow> ip_manager outcome" where
  "match_subscriptions rmw_check w pub_id pub [] m = (None, m)"
| "match_subscriptions rmw_check w pub_id pub (sub_id # ids) m =
     (case Option.bind (subscriptions m sub_id) (the_sub w) of
        None \<Rightarrow> match_subscriptions rmw_check w pub_id pub ids m
      | Some sub \<Rightarrow>
          (case can_communicate rmw_check pub sub of
             Inl e \<Rightarrow> (Some e, m)
           | Inr matched \<Rightarrow>
               match_subscriptions rmw_check w pub_id pub ids
                 (if matched
                  then insert_sub_id_for_pub sub_id pub_id (use_take_shared_method (sub_buffer sub)) m
                  else m)))"

fun match_publishers ::
    "rmw_check \<Rightarrow> 'm ip_world \<Rightarrow> u64 \<Rightarrow> ip_subscription \<Rightarrow> u64 list \<Rightarrow> ip_manager \<Rightarrow> ip_manager outcome" where
  "match_publishers rmw_check w sub_id sub [] m = (None, m)"
| "match_publishers rmw_check w sub_id sub (pub_id # ids) m =
     (case Option.bind (publishers m pub_id) (the_pub w) of
        None \<Rightarrow> match_publishers rmw_check w sub_id sub ids m
      | Some pub \<Rightarrow>
          (case can_communicate rmw_check pub sub of
             Inl e \<Rightarrow> (Some e, m)
           | Inr matched \<Rightarrow>
               match_publishers rmw_check w sub_id sub ids
                 (if matched
                  then insert_sub_id_for_pub sub_id pub_id (use_take_shared_method (sub_buffer sub)) m
                  else m)))"

definition add_publisher ::
    "rmw_check \<Rightarrow> u64 list \<Rightarrow> nat \<Rightarrow> ip_publisher \<Rightarrow> 'm ip_state \<Rightarrow> (rclcpp_exn + u64) \<times> 'm ip_state" where
  "add_publisher rmw_check order np publisher = (\<lambda>(w, m).
     case get_next_unique_id w of
       (Inl e, w1) \<Rightarrow> (Inl e, (w1, m))
     | (Inr pub_id, w1) \<Rightarrow>
         let m1 = m\<lparr>publishers := (publishers m)(pub_id \<mapsto> np)\<rparr>;
             m2 = m1\<lparr>pub_to_subs := (pub_to_subs m1)(pub_id \<mapsto> SplittedSubscriptions)\<rparr>
         in (case match_subscriptions rmw_check w1 pub_id publisher order m2 of
               (Some e, m3) \<Rightarrow> (Inl e, (w1, m3))
             | (None, m3) \<Rightarrow> (Inr pub_id, (w1, m3))))"

definition add_ip_subscription ::
    "rmw_check \<Rightarrow> u64 list \<Rightarrow> nat \<Rightarrow> ip_subscription \<Rightarrow> 'm ip_state \<Rightarrow> (rclcpp_exn + u64) \<times> 'm ip_state" where
  "add_ip_subscription rmw_check order ns subscription = (\<lambda>(w, m).
     case get_next_unique_id w of
       (Inl e, w1) \<Rightarrow> (Inl e, (w1, m))
     | (Inr sub_id, w1) \<Rightarrow>
         let m1 = m\<lparr>subscriptions := (subscriptions m)(sub_id \<mapsto> ns)\<rparr>
         in (case match_publishers rmw_check w1 sub_id subscription order m1 of
               (Some e, m2) \<Rightarrow> (Inl e, (w1, m2))
             | (None, m2) \<Rightarrow> (Inr sub_id, (w1, m2))))"

definition check_publisher_qos :: "qos \<Rightarrow> rclcpp_exn option" where
  "check_publisher_qos q =
     (if history q \<noteq> KEEP_LAST
      then Some (InvalidArgument ''intraprocess communication allowed only with keep last history qos policy'')
      else if depth q = 0
      then Some (InvalidArgument ''intraprocess communication is not allowed with a zero qos history depth value'')
      else if durability q \<noteq> VOLATILE
      then Some (InvalidArgument ''intraprocess communication allowed only with volatile durability'')
      else None)"

definition post_init_setup ::
    "bool \<Rightarrow> rmw_check \<Rightarrow> u64 list \<Rightarrow> nat \<Rightarrow> ip_publisher \<Rightarrow> qos \<Rightarrow> 'm ip_state \<Rightarrow>
     (rclcpp_exn + u64 option) \<times> 'm ip_state" where
  "post_init_setup use_intra_process rmw_check order np publisher q s =
     (if \<not> use_intra_process then (Inr None, s)
      else
        (case check_publisher_qos q of
           Some e \<Rightarrow> (Inl e, s)
         | None \<Rightarrow>
             (case add_publisher rmw_check order np publisher s of
                (Inl e, s1) \<Rightarrow> (Inl e, s1)
              | (Inr pub_id, s1) \<Rightarrow> (Inr (Some pub_id), s1))))"

definition remove_ids :: "u64 \<Rightarrow> splitted_subscriptions \<Rightarrow> splitted_subscriptions" where
  "remove_ids sub_id split =
     split\<lparr>take_shared_subscriptions := filter (\<lambda>i. i \<noteq> sub_id) (take_shared_subscriptions split),
           take_ownership_subscriptions := filter (\<lambda>i. i \<noteq> sub_id) (take_ownership_subscriptions split)\<rparr>"

definition remove_subscription :: "u64 \<Rightarrow> ip_manager \<Rightarrow> ip_manager" where
  "remove_subscription sub_id m =
     m\<lparr>subscriptions := (subscriptions m)(sub_id := None),
       pub_to_subs := (\<lambda>p. map_option (remove_ids sub_id) (pub_to_subs m p))\<rparr>"

definition remove_publisher :: "u64 \<Rightarrow> ip_manager \<Rightarrow> ip_manager" where
  "remove_publisher pub_id m =
     m\<lparr>publishers := (publishers m)(pub_id := None), pub_to_subs := (pub_to_subs m)(pub_id := None)\<rparr>"

definition get_subscription_count :: "u64 \<Rightarrow> ip_manager \<Rightarrow> nat" where
  "get_subscription_count pub_id m =
     (case pub_to_subs m pub_id of
        None \<Rightarrow> 0
      | Some split \<Rightarrow>
          length (take_shared_subscriptions split) + length (take_ownership_subscriptions split))"

definition get_subscription_intra_process :: "u64 \<Rightarrow> 'm ip_state \<Rightarrow> nat option \<times> 'm ip_state" where
  "get_subscription_intra_process sub_id = (\<lambda>(w, m).
     case subscriptions m sub_id of
       None \<Rightarrow> (None, (w, m))
     | Some ns \<Rightarrow>
         if the_sub w ns \<noteq> None then (Some ns, (w, m))
         else (None, (w, m\<lparr>subscriptions := (subscriptions m)(sub_id := None)\<rparr>)))"

definition matches_any_publishers :: "(ip_publisher \<Rightarrow> bool) \<Rightarrow> u64 list \<Rightarrow> 'm ip_state \<Rightarrow> bool" where
  "matches_any_publishers has_gid order = (\<lambda>(w, m).
     list_ex (\<lambda>pub_id. case Option.bind (publishers m pub_id) (the_pub w) of
                         None \<Rightarrow> False | Some pub \<Rightarrow> has_gid pub) order)"

section \<open>Publishing\<close>

definition gone_out_of_scope :: rclcpp_exn where
  "gone_out_of_scope = RuntimeError ''subscription has unexpectedly gone out of scope''"

definition cast_failed :: rclcpp_exn where
  "cast_failed = RuntimeError
     (''failed to dynamic cast SubscriptionIntraProcessBase to '' @
      ''SubscriptionIntraProcessBuffer<MessageT, Alloc, Deleter>, or to '' @
      ''SubscriptionROSMsgIntraProcessBuffer<ROSMessageType,ROSMessageTypeAllocator,'' @
      ''ROSMessageTypeDeleter> which can happen when the publisher and '' @
      ''subscription use different allocator types, which is not supported'')"

fun add_shared_msg_to_buffers :: "nat \<Rightarrow> u64 list \<Rightarrow> 'm ip_state \<Rightarrow> 'm ip_state outcome" where
  "add_shared_msg_to_buffers message [] s = (None, s)"
| "add_shared_msg_to_buffers message (sub_id # ids) (w, m) =
     (case subscriptions m sub_id of
        None \<Rightarrow> (Some gone_out_of_scope, (w, m))
      | Some ns \<Rightarrow>
          (case the_sub w ns of
             None \<Rightarrow>
               add_shared_msg_to_buffers message ids (w, m\<lparr>subscriptions := (subscriptions m)(sub_id := None)\<rparr>)
           | Some sub \<Rightarrow>
               if \<not> same_types sub then (Some cast_failed, (w, m))
               else
                 let (sub', h) = provide_shared_data message (sub, store w)
                 in add_shared_msg_to_buffers message ids
                      (w\<lparr>the_sub := (the_sub w)(ns \<mapsto> sub'), store := h\<rparr>, m)))"

fun add_owned_msg_to_buffers :: "nat \<Rightarrow> u64 list \<Rightarrow> 'm ip_state \<Rightarrow> 'm ip_state outcome" where
  "add_owned_msg_to_buffers message [] s = (None, s)"
| "add_owned_msg_to_buffers message (sub_id # ids) (w, m) =
     (case subscriptions m sub_id of
        None \<Rightarrow> (Some gone_out_of_scope, (w, m))
      | Some ns \<Rightarrow>
          (case the_sub w ns of
             None \<Rightarrow>
               add_owned_msg_to_buffers message ids (w, m\<lparr>subscriptions := (subscriptions m)(sub_id := None)\<rparr>)
           | Some sub \<Rightarrow>
               if \<not> same_types sub then (Some cast_failed, (w, m))
               else
                 let (p, h) = (if ids = [] then (message, store w) else copy_message message (store w))
                 in add_owned_msg_to_buffers message ids
                      (w\<lparr>the_sub := (the_sub w)(ns \<mapsto> provide_unique_data p sub), store := h\<rparr>, m)))"

definition do_intra_process_publish :: "u64 \<Rightarrow> nat \<Rightarrow> 'm ip_state \<Rightarrow> 'm ip_state outcome" where
  "do_intra_process_publish pub_id message = (\<lambda>(w, m).
     case pub_to_subs m pub_id of
       None \<Rightarrow> (None, (w, m))
     | Some sub_ids \<Rightarrow>
         if take_ownership_subscriptions sub_ids = []
         then add_shared_msg_to_buffers message (take_shared_subscriptions sub_ids) (w, m)
         else if length (take_shared_subscriptions sub_ids) \<le> 1
         then add_owned_msg_to_buffers message
                (take_shared_subscriptions sub_ids @ take_ownership_subscriptions sub_ids) (w, m)
         else
           let (shared_msg, h) = copy_message message (store w)
           in and_then
                (add_shared_msg_to_buffers shared_msg (take_shared_subscriptions sub_ids) (w\<lparr>store := h\<rparr>, m))
                (add_owned_msg_to_buffers message (take_ownership_subscriptions sub_ids)))"

definition do_intra_process_publish_and_return_shared ::
    "u64 \<Rightarrow> nat \<Rightarrow> 'm ip_state \<Rightarrow> nat option \<times> 'm ip_state outcome" where
  "do_intra_process_publish_and_return_shared pub_id message = (\<lambda>(w, m).
     case pub_to_subs m pub_id of
       None \<Rightarrow> (None, (None, (w, m)))
     | Some sub_ids \<Rightarrow>
         if take_ownership_subscriptions sub_ids = []
         then (Some message, add_shared_msg_to_buffers message (take_shared_subscriptions sub_ids) (w, m))
         else
           let (shared_msg, h) = copy_message message (store w)
           in (Some shared_msg,
               and_then
                 (add_shared_msg_to_buffers shared_msg (take_shared_subscriptions sub_ids) (w\<lparr>store := h\<rparr>, m))
                 (add_owned_msg_to_buffers message (take_ownership_subscriptions sub_ids))))"

text \<open>
  \<open>Publisher::publish\<close>.  \<open>rmw_count\<close> is the number of subscriptions the middleware knows of;
  \<open>rcl_publish\<close> answers a message with its status, whether the publisher is valid except for its
  context, and whether the context, if any, is valid.  The messages given to the middleware are
  listed in the second component of the result.
\<close>

datatype publish_status = Publish_ok | Publisher_invalid | Publish_failed

type_synonym 'm rcl_publish = "'m \<Rightarrow> publish_status \<times> bool \<times> bool option"

definition do_inter_process_publish :: "'m rcl_publish \<Rightarrow> 'm \<Rightarrow> rclcpp_exn option" where
  "do_inter_process_publish rcl_publish x =
     (case rcl_publish x of (status, valid_except_context, ctx_valid) \<Rightarrow>
        if status = Publisher_invalid \<and> valid_except_context \<and> ctx_valid = Some False then None
        else if status \<noteq> Publish_ok then Some (RCLError ''failed to publish message'')
        else None)"

definition publish ::
    "bool \<Rightarrow> u64 \<Rightarrow> nat \<Rightarrow> 'm rcl_publish \<Rightarrow> nat option \<Rightarrow> 'm ip_state \<Rightarrow>
     undefined_behaviour + 'm ip_state outcome \<times> 'm list" where
  "publish intra_process_is_enabled pub_id rmw_count rcl_publish msg s =
     (if \<not> intra_process_is_enabled then
        (case msg of
           None \<Rightarrow> Inl Null_dereference
         | Some p \<Rightarrow> let x = store (fst s) ! p in Inr ((do_inter_process_publish rcl_publish x, s), [x]))
      else
        (case msg of
           None \<Rightarrow> Inr ((Some (RuntimeError ''cannot publish msg which is a null pointer''), s), [])
         | Some p \<Rightarrow>
             if rmw_count > get_subscription_count pub_id (snd s) then
               (case do_intra_process_publish_and_return_shared pub_id p s of
                  (_, (Some e, s1)) \<Rightarrow> Inr ((Some e, s1), [])
                | (None, (None, s1)) \<Rightarrow> Inl Null_dereference
                | (Some q, (None, s1)) \<Rightarrow>
                    let x = store (fst s1) ! q in Inr ((do_inter_process_publish rcl_publish x, s1), [x]))
             else Inr (do_intra_process_publish pub_id p s, [])))"

definition publish_copy ::
    "bool \<Rightarrow> u64 \<Rightarrow> nat \<Rightarrow> 'm rcl_publish \<Rightarrow> 'm \<Rightarrow> 'm ip_state \<Rightarrow>
     undefined_behaviour + 'm ip_state outcome \<times> 'm list" where
  "publish_copy intra_process_is_enabled pub_id rmw_count rcl_publish x s =
     (if \<not> intra_process_is_enabled then Inr ((do_inter_process_publish rcl_publish x, s), [x])
      else publish True pub_id rmw_count rcl_publish (Some (length (store (fst s))))
             ((fst s)\<lparr>store := store (fst s) @ [x]\<rparr>, snd s))"

end
