(* ===== verification/Intra_Process_Delivery.thy ===== *)
theory Intra_Process_Delivery
  imports Intra_Process_Manager
begin

text \<open>
  What publishing inside a process guarantees: every matched subscription receives the message
  once, owning subscriptions receive objects of their own, and no more copies are made than that
  needs; and what the manager's tables say about publishers and subscriptions.
\<close>

section \<open>Deliveries\<close>

definition deliver ::
    "(nat \<times> nat) list \<Rightarrow> (nat \<Rightarrow> ip_subscription option) \<Rightarrow> nat \<Rightarrow> ip_subscription option" where
  "deliver ds subs = fold (\<lambda>(ns, p) f. f(ns := map_option (provide_unique_data p) (f ns))) ds subs"

definition receivers :: "ip_manager \<Rightarrow> u64 list \<Rightarrow> nat list" where
  "receivers m ids = map (\<lambda>i. the (subscriptions m i)) ids"

definition receives :: "'m ip_state \<Rightarrow> bool \<Rightarrow> u64 \<Rightarrow> bool" where
  "receives s shared i \<longleftrightarrow>
     (\<exists>ns sub. subscriptions (snd s) i = Some ns \<and> the_sub (fst s) ns = Some sub \<and> same_types sub \<and>
        (shared \<longrightarrow> holds_shared (sub_buffer sub)))"

lemma deliver_simps [simp]:
  "deliver [] f = f"
  "deliver ((ns, p) # ds) f = deliver ds (f(ns := map_option (provide_unique_data p) (f ns)))"
  by (simp_all add: deliver_def)

lemma deliver_append: "deliver (ds @ es) f = deliver es (deliver ds f)"
  by (simp add: deliver_def)

lemma deliver_other: "ns \<notin> fst ` set ds \<Longrightarrow> deliver ds f ns = f ns"
  by (induction ds arbitrary: f) auto

lemma deliver_at:
  "distinct (map fst ds) \<Longrightarrow> (ns, p) \<in> set ds \<Longrightarrow> deliver ds f ns = map_option (provide_unique_data p) (f ns)"
proof (induction ds arbitrary: f)
  case Nil
  then show ?case by simp
next
  case (Cons d ds)
  show ?case
  proof (cases "d = (ns, p)")
    case True
    with Cons.prems have "ns \<notin> fst ` set ds" by (auto simp: image_iff)
    with True show ?thesis by (simp add: deliver_other)
  next
    case False
    with Cons.prems have "(ns, p) \<in> set ds" "fst d \<noteq> ns" by (auto simp: image_iff)
    with Cons.IH Cons.prems(1) show ?thesis by (cases d) simp
  qed
qed

lemma add_unique_kind [simp]: "holds_shared (add_unique p b) = holds_shared b"
  by (simp add: add_unique_def)

lemma receives_upd:
  assumes "receives (w, m) b i" and "the_sub w ns = Some sub"
  shows "receives (w\<lparr>the_sub := (the_sub w)(ns \<mapsto> provide_unique_data p sub), store := h\<rparr>, m) b i"
proof -
  from assms(1) obtain ns' sub' where i: "subscriptions m i = Some ns'" "the_sub w ns' = Some sub'"
    "same_types sub'" "b \<longrightarrow> holds_shared (sub_buffer sub')" by (auto simp: receives_def)
  show ?thesis
  proof (cases "ns' = ns")
    case True
    with i assms(2) show ?thesis by (auto simp: receives_def)
  next
    case False
    with i show ?thesis by (auto simp: receives_def)
  qed
qed

lemma receives_deliver:
  "receives (w, m) b i \<Longrightarrow> receives (w\<lparr>the_sub := deliver ds (the_sub w), store := h\<rparr>, m) b i"
proof (induction ds arbitrary: w)
  case Nil
  then show ?case by (auto simp: receives_def)
next
  case (Cons d ds)
  obtain ns p where d: "d = (ns, p)" by force
  let ?w = "w\<lparr>the_sub := (the_sub w)(ns := map_option (provide_unique_data p) (the_sub w ns))\<rparr>"
  have "receives (?w, m) b i"
  proof (cases "the_sub w ns")
    case None
    then have "(the_sub w)(ns := None) = the_sub w" by auto
    with None Cons.prems show ?thesis by (simp add: receives_def)
  next
    case (Some sub)
    with receives_upd [OF Cons.prems Some, where p = p and h = "store w"] show ?thesis by simp
  qed
  from Cons.IH [OF this] d show ?case by (simp add: fun_upd_def)
qed

lemma add_shared_delivers:
  "\<forall>i \<in> set ids. receives (w, m) True i \<Longrightarrow>
     add_shared_msg_to_buffers p ids (w, m) =
       (None, (w\<lparr>the_sub := deliver (zip (receivers m ids) (replicate (length ids) p)) (the_sub w)\<rparr>, m))"
proof (induction ids arbitrary: w)
  case Nil
  then show ?case by (simp add: receivers_def)
next
  case (Cons i ids)
  then obtain ns sub where i: "subscriptions m i = Some ns" "the_sub w ns = Some sub" "same_types sub"
    "holds_shared (sub_buffer sub)" by (auto simp: receives_def)
  let ?w = "w\<lparr>the_sub := (the_sub w)(ns \<mapsto> provide_unique_data p sub), store := store w\<rparr>"
  have "\<forall>i \<in> set ids. receives (?w, m) True i"
    using Cons.prems receives_upd [OF _ i(2), where h = "store w"] by (simp only: list.set ball_simps) blast
  from Cons.IH [OF this] i show ?case
    by (simp add: provide_shared_to_shared receivers_def fun_upd_def)
qed

definition owned_pointers :: "nat \<Rightarrow> nat \<Rightarrow> nat \<Rightarrow> nat list" where
  "owned_pointers p n k = (if k = 0 then [] else [n..<n + (k - 1)] @ [p])"

lemma owned_pointers_Suc: "k \<noteq> 0 \<Longrightarrow> owned_pointers p n (Suc k) = n # owned_pointers p (Suc n) k"
  by (cases k) (simp_all add: owned_pointers_def upt_conv_Cons)

lemma owned_pointers_length [simp]: "length (owned_pointers p n k) = k"
  by (simp add: owned_pointers_def)

lemma add_owned_delivers:
  "\<forall>i \<in> set ids. receives (w, m) False i \<Longrightarrow> p < length (store w) \<Longrightarrow>
     add_owned_msg_to_buffers p ids (w, m) =
       (None, (w\<lparr>the_sub := deliver (zip (receivers m ids) (owned_pointers p (length (store w)) (length ids))) (the_sub w),
                 store := store w @ replicate (length ids - 1) (store w ! p)\<rparr>, m))"
proof (induction ids arbitrary: w)
  case Nil
  then show ?case by (simp add: receivers_def)
next
  case (Cons i ids)
  then obtain ns sub where i: "subscriptions m i = Some ns" "the_sub w ns = Some sub" "same_types sub"
    by (auto simp: receives_def)
  show ?case
  proof (cases "ids = []")
    case True
    with i show ?thesis by (simp add: receivers_def owned_pointers_def fun_upd_def)
  next
    case False
    let ?h = "store w @ [store w ! p]"
    let ?w = "w\<lparr>the_sub := (the_sub w)(ns \<mapsto> provide_unique_data (length (store w)) sub), store := ?h\<rparr>"
    have r: "\<forall>i \<in> set ids. receives (?w, m) False i" using Cons.prems receives_upd [OF _ i(2)] by auto
    have p: "p < length (store ?w)" "store ?w ! p = store w ! p" using Cons.prems(2) by (simp_all add: nth_append)
    obtain k where k: "length ids = Suc k" using False by (cases "length ids") auto
    have "add_owned_msg_to_buffers p (i # ids) (w, m) = add_owned_msg_to_buffers p ids (?w, m)"
      using False i by (simp add: copy_message_def)
    also note Cons.IH [OF r p(1), unfolded p(2)]
    finally show ?thesis
      using i by (simp add: receivers_def owned_pointers_Suc k fun_upd_def)
  qed
qed

section \<open>Publishing\<close>

definition connected :: "'m ip_state \<Rightarrow> splitted_subscriptions \<Rightarrow> bool" where
  "connected s split \<longleftrightarrow>
     distinct (receivers (snd s) (take_shared_subscriptions split @ take_ownership_subscriptions split)) \<and>
     (\<forall>i \<in> set (take_shared_subscriptions split). receives s True i) \<and>
     (\<forall>i \<in> set (take_ownership_subscriptions split). receives s False i)"

definition copies :: "splitted_subscriptions \<Rightarrow> nat" where
  "copies split =
     (let shared = length (take_shared_subscriptions split); own = length (take_ownership_subscriptions split)
      in if own = 0 then 0 else if shared \<le> 1 then shared + own - 1 else own)"

lemma receives_weaken: "receives s b i \<Longrightarrow> receives s False i"
  by (auto simp: receives_def)

lemma owned_pointers_distinct: "p < n \<Longrightarrow> distinct (owned_pointers p n k)"
  by (simp add: owned_pointers_def)

lemma owned_pointers_range: "set (owned_pointers p n k) \<subseteq> insert p {n..<n + (k - 1)}"
  by (simp add: owned_pointers_def)

lemma receivers_append: "receivers m (is @ js) = receivers m is @ receivers m js"
  by (simp add: receivers_def)

lemma receivers_length [simp]: "length (receivers m ids) = length ids"
  by (simp add: receivers_def)

text \<open>The addresses that the three branches of publishing hand out.\<close>

definition pointers :: "nat \<Rightarrow> nat \<Rightarrow> splitted_subscriptions \<Rightarrow> nat list" where
  "pointers p n split =
     (let shared = length (take_shared_subscriptions split); own = length (take_ownership_subscriptions split)
      in if own = 0 then replicate shared p
         else if shared \<le> 1 then owned_pointers p n (shared + own)
         else replicate shared n @ owned_pointers p (n + 1) own)"

lemma pointers_length [simp]:
  "length (pointers p n split) =
     length (take_shared_subscriptions split @ take_ownership_subscriptions split)"
  by (simp add: pointers_def Let_def)

lemma pointers_range:
  "set (pointers p n split) \<subseteq> insert p {n..<n + copies split}"
  using owned_pointers_range [of p n] owned_pointers_range [of p "n + 1"]
  by (auto simp: pointers_def copies_def Let_def) fastforce+

lemma pointers_owned:
  assumes "p < n" and "length (take_shared_subscriptions split) \<le> k"
    and "k < length (pointers p n split)" and "l < length (pointers p n split)" and "k \<noteq> l"
  shows "pointers p n split ! k \<noteq> pointers p n split ! l"
proof -
  let ?a = "length (take_shared_subscriptions split)" and ?b = "length (take_ownership_subscriptions split)"
  have b: "?b \<noteq> 0" using assms(2,3) by auto
  show ?thesis
  proof (cases "?a \<le> 1")
    case True
    with b have "pointers p n split = owned_pointers p n (?a + ?b)" by (simp add: pointers_def Let_def)
    with assms owned_pointers_distinct [OF assms(1)] show ?thesis by (simp add: nth_eq_iff_index_eq)
  next
    case False
    with b have eq: "pointers p n split = replicate ?a n @ owned_pointers p (n + 1) ?b"
      by (simp add: pointers_def Let_def)
    have k: "pointers p n split ! k = owned_pointers p (n + 1) ?b ! (k - ?a)" "k - ?a < ?b"
      using assms(2,3) by (auto simp: eq nth_append)
    have "distinct (owned_pointers p (n + 1) ?b)" using assms(1) by (intro owned_pointers_distinct) simp
    moreover have "owned_pointers p (n + 1) ?b ! (k - ?a) \<noteq> n"
      using owned_pointers_range [of p "n + 1" ?b] nth_mem [of "k - ?a" "owned_pointers p (n + 1) ?b"] k(2) assms(1)
      by fastforce
    ultimately show ?thesis
      using assms k by (auto simp: k(1)) (auto simp: eq nth_append nth_eq_iff_index_eq split: if_splits)
  qed
qed

lemma publish_state:
  assumes "pub_to_subs m pub_id = Some split" and "connected (w, m) split" and "p < length (store w)"
  defines "ids \<equiv> take_shared_subscriptions split @ take_ownership_subscriptions split"
  shows "do_intra_process_publish pub_id p (w, m) =
           (None, (w\<lparr>the_sub := deliver (zip (receivers m ids) (pointers p (length (store w)) split)) (the_sub w),
                     store := store w @ replicate (copies split) (store w ! p)\<rparr>, m))"
proof -
  let ?S = "take_shared_subscriptions split" and ?O = "take_ownership_subscriptions split"
  have r: "\<forall>i \<in> set ?S. receives (w, m) True i" "\<forall>i \<in> set ?O. receives (w, m) False i"
    using assms(2) by (simp_all add: connected_def)
  then have all: "\<forall>i \<in> set ids. receives (w, m) False i" unfolding ids_def set_append using receives_weaken by blast
  consider "?O = []" | "?O \<noteq> []" "length ?S \<le> 1" | "?O \<noteq> []" "\<not> length ?S \<le> 1" by blast
  then show ?thesis
  proof cases
    case 1
    with add_shared_delivers [OF r(1)] assms(1) show ?thesis
      by (simp add: do_intra_process_publish_def ids_def pointers_def copies_def)
  next
    case 2
    with add_owned_delivers [OF all assms(3)] assms(1) show ?thesis
      by (simp add: do_intra_process_publish_def ids_def pointers_def copies_def)
  next
    case 3
    let ?x = "store w ! p" and ?n = "length (store w)"
    let ?ds = "zip (receivers m ?S) (replicate (length ?S) ?n)"
    have "\<forall>i \<in> set ?S. receives (w\<lparr>store := store w @ [?x]\<rparr>, m) True i" using r(1) by (simp add: receives_def)
    moreover have "w\<lparr>store := h, the_sub := f\<rparr> = w\<lparr>the_sub := f, store := h\<rparr>" for h f by simp
    ultimately have one: "add_shared_msg_to_buffers ?n ?S (w\<lparr>store := store w @ [?x]\<rparr>, m) =
        (None, (w\<lparr>the_sub := deliver ?ds (the_sub w), store := store w @ [?x]\<rparr>, m))"
      using add_shared_delivers [of ?S "w\<lparr>store := store w @ [?x]\<rparr>" m ?n] by simp
    let ?w = "w\<lparr>the_sub := deliver ?ds (the_sub w), store := store w @ [?x]\<rparr>"
    have "\<forall>i \<in> set ?O. receives (?w, m) False i" using r(2) receives_deliver by blast
    moreover have "p < length (store ?w)" "store ?w ! p = ?x" using assms(3) by (simp_all add: nth_append)
    ultimately have two: "add_owned_msg_to_buffers p ?O (?w, m) =
        (None, (?w\<lparr>the_sub := deliver (zip (receivers m ?O) (owned_pointers p (length (store ?w)) (length ?O))) (the_sub ?w),
                   store := store ?w @ replicate (length ?O - 1) ?x\<rparr>, m))"
      using add_owned_delivers [of ?O ?w m p] by metis
    obtain k where k: "length ?O = Suc k" using 3(1) by (cases "length ?O") auto
    show ?thesis
      using 3 one two assms(1)
      by (simp add: do_intra_process_publish_def copy_message_def ids_def pointers_def copies_def receivers_append
          deliver_append k)
  qed
qed

text \<open>
  Publishing to the matched subscriptions of a publisher, all of them alive, succeeds: every
  subscription's buffer is given one pointer to a message equal to the published one, a subscription
  that owns its messages is given an object that no other subscription is given, the other
  subscriptions and the existing messages stay as they are, and the number of copies is zero when
  nobody owns the message, and otherwise one less than the number of objects needed.
\<close>

lemma publish_delivers:
  assumes "pub_to_subs m pub_id = Some split" and "connected (w, m) split" and "p < length (store w)"
  defines "ids \<equiv> take_shared_subscriptions split @ take_ownership_subscriptions split"
  obtains w' ptr where "do_intra_process_publish pub_id p (w, m) = (None, (w', m))"
    and "\<And>k. k < length ids \<Longrightarrow> the_sub w' (receivers m ids ! k) =
           map_option (provide_unique_data (ptr k)) (the_sub w (receivers m ids ! k))"
    and "\<And>k. k < length ids \<Longrightarrow> store w' ! ptr k = store w ! p"
    and "\<And>k. k < length ids \<Longrightarrow> ptr k = p \<or> length (store w) \<le> ptr k"
    and "\<And>k l. length (take_shared_subscriptions split) \<le> k \<Longrightarrow> k < length ids \<Longrightarrow> l < length ids \<Longrightarrow>
           k \<noteq> l \<Longrightarrow> ptr k \<noteq> ptr l"
    and "\<And>ns. ns \<notin> set (receivers m ids) \<Longrightarrow> the_sub w' ns = the_sub w ns"
    and "take (length (store w)) (store w') = store w"
    and "length (store w') = length (store w) + copies split"
proof -
  let ?ps = "pointers p (length (store w)) split" and ?rs = "receivers m ids"
  let ?w = "w\<lparr>the_sub := deliver (zip ?rs ?ps) (the_sub w), store := store w @ replicate (copies split) (store w ! p)\<rparr>"
  have len: "length ?ps = length ids" "length ?rs = length ids" by (simp_all add: ids_def)
  have dist: "distinct (map fst (zip ?rs ?ps))" using assms(2) by (simp add: connected_def ids_def)
  have here: "the_sub ?w (?rs ! k) = map_option (provide_unique_data (?ps ! k)) (the_sub w (?rs ! k)) \<and>
      store ?w ! (?ps ! k) = store w ! p \<and> (?ps ! k = p \<or> length (store w) \<le> ?ps ! k)" if "k < length ids" for k
  proof -
    have "(?rs ! k, ?ps ! k) \<in> set (zip ?rs ?ps)" using that len by (auto simp: in_set_zip)
    from deliver_at [OF dist this] have 1: "the_sub ?w (?rs ! k) =
        map_option (provide_unique_data (?ps ! k)) (the_sub w (?rs ! k))" by simp
    have "?ps ! k \<in> insert p {length (store w)..<length (store w) + copies split}"
      using that len(1) by (intro subsetD [OF pointers_range] nth_mem) simp
    then have "store ?w ! (?ps ! k) = store w ! p \<and> (?ps ! k = p \<or> length (store w) \<le> ?ps ! k)"
      using assms(3) by (auto simp: nth_append)
    with 1 show ?thesis by blast
  qed
  have other: "the_sub ?w ns = the_sub w ns" if "ns \<notin> set ?rs" for ns
  proof -
    have "ns \<notin> fst ` set (zip ?rs ?ps)" using that by (auto dest: set_zip_leftD)
    then show ?thesis by (simp add: deliver_other)
  qed
  have own: "?ps ! k \<noteq> ?ps ! l"
    if "length (take_shared_subscriptions split) \<le> k" "k < length ids" "l < length ids" "k \<noteq> l" for k l
    by (rule pointers_owned [OF assms(3) that(1)]) (use that len(1) in simp_all)
  have run: "do_intra_process_publish pub_id p (w, m) = (None, (?w, m))"
    by (rule publish_state [OF assms(1-3), folded ids_def])
  have size: "take (length (store w)) (store ?w) = store w" "length (store ?w) = length (store w) + copies split"
    by simp_all
  show thesis
    by (rule that [of ?w "\<lambda>k. ?ps ! k", OF run _ _ _ own other size]) (use here in blast)+
qed

end
