(* ===== verification/Intra_Process_Matching.thy ===== *)
theory Intra_Process_Matching
  imports Intra_Process_Delivery
begin

text \<open>
  The tables of the intra-process manager: the lists kept for a publisher name exactly the
  registered subscriptions it can communicate with, each once and in the list its buffer asks for,
  whatever is registered and removed.
\<close>

section \<open>The tables\<close>

definition wants :: "rmw_check \<Rightarrow> ip_publisher \<Rightarrow> bool \<Rightarrow> ip_subscription \<Rightarrow> bool" where
  "wants rmw_check pub shared sub \<longleftrightarrow>
     can_communicate rmw_check pub sub = Inr True \<and> holds_shared (sub_buffer sub) = shared"

definition picks :: "rmw_check \<Rightarrow> 'm ip_world \<Rightarrow> ip_manager \<Rightarrow> ip_publisher \<Rightarrow> bool \<Rightarrow> u64 \<Rightarrow> bool" where
  "picks rmw_check w m pub shared i \<longleftrightarrow>
     (case Option.bind (subscriptions m i) (the_sub w) of
        None \<Rightarrow> False | Some sub \<Rightarrow> wants rmw_check pub shared sub)"

definition lists_ok ::
    "rmw_check \<Rightarrow> 'm ip_world \<Rightarrow> ip_manager \<Rightarrow> ip_publisher \<Rightarrow> splitted_subscriptions \<Rightarrow> bool" where
  "lists_ok rmw_check w m pub split \<longleftrightarrow>
     distinct (take_shared_subscriptions split) \<and> distinct (take_ownership_subscriptions split) \<and>
     (\<forall>i. i \<in> set (take_shared_subscriptions split) \<longleftrightarrow> picks rmw_check w m pub True i) \<and>
     (\<forall>i. i \<in> set (take_ownership_subscriptions split) \<longleftrightarrow> picks rmw_check w m pub False i)"

definition id_used :: "'m ip_world \<Rightarrow> u64 \<Rightarrow> bool" where
  "id_used w i \<longleftrightarrow> next_unique_id w = 0 \<or> i < next_unique_id w"

definition tables_ok :: "rmw_check \<Rightarrow> 'm ip_state \<Rightarrow> bool" where
  "tables_ok rmw_check s \<longleftrightarrow> (case s of (w, m) \<Rightarrow>
     (\<forall>p. pub_to_subs m p = None \<longleftrightarrow> publishers m p = None) \<and>
     (\<forall>i. publishers m i \<noteq> None \<or> subscriptions m i \<noteq> None \<longrightarrow> id_used w i) \<and>
     (\<forall>p np pub split. publishers m p = Some np \<and> the_pub w np = Some pub \<and> pub_to_subs m p = Some split \<longrightarrow>
        lists_ok rmw_check w m pub split))"

lemma tables_okI:
  assumes "\<And>p. pub_to_subs m p = None \<longleftrightarrow> publishers m p = None"
    and "\<And>i. publishers m i \<noteq> None \<Longrightarrow> id_used w i" and "\<And>i. subscriptions m i \<noteq> None \<Longrightarrow> id_used w i"
    and "\<And>p np pub split. publishers m p = Some np \<Longrightarrow> the_pub w np = Some pub \<Longrightarrow>
      pub_to_subs m p = Some split \<Longrightarrow> lists_ok rmw_check w m pub split"
  shows "tables_ok rmw_check (w, m)"
  using assms unfolding tables_ok_def by blast

lemma tables_okD:
  assumes "tables_ok rmw_check (w, m)"
  shows "pub_to_subs m p = None \<longleftrightarrow> publishers m p = None"
    and "publishers m i \<noteq> None \<Longrightarrow> id_used w i" and "subscriptions m i \<noteq> None \<Longrightarrow> id_used w i"
    and "publishers m p = Some np \<Longrightarrow> the_pub w np = Some pub \<Longrightarrow> pub_to_subs m p = Some split \<Longrightarrow>
      lists_ok rmw_check w m pub split"
  using assms unfolding tables_ok_def by blast+

section \<open>Fresh identifiers\<close>

lemma next_id:
  assumes "get_next_unique_id w = (Inr i, w')"
  shows "i = next_unique_id w" "w' = w\<lparr>next_unique_id := i + 1\<rparr>" "\<not> id_used w i" "id_used w' i"
    "id_used w j \<Longrightarrow> id_used w' j"
proof -
  from assms have i: "i = next_unique_id w" "i \<noteq> 0" and w': "w' = w\<lparr>next_unique_id := i + 1\<rparr>"
    by (auto simp: get_next_unique_id_def Let_def split: if_splits)
  have step: "j \<le> i \<Longrightarrow> i + 1 = 0 \<or> j < i + 1" for j
    by (cases "i + 1 = 0") (simp_all add: word_less_nat_alt word_le_nat_alt unatSuc add.commute [of i])
  show "i = next_unique_id w" "w' = w\<lparr>next_unique_id := i + 1\<rparr>" by (fact i(1), fact w')
  show "\<not> id_used w i" using i by (simp add: id_used_def)
  show "id_used w' i" using step [of i] by (simp add: id_used_def w')
  show "id_used w j \<Longrightarrow> id_used w' j" using step [of j] i by (auto simp: id_used_def w')
qed

section \<open>The loops of the registration\<close>

lemma can_communicate_total:
  assumes "\<And>p q. \<exists>c r. qos_check_compatible rmw_check p q = Inr (c, r)"
  shows "\<exists>b. can_communicate rmw_check pub sub = Inr b"
  using assms [of "pub_qos pub" "sub_qos sub"] by (auto simp: can_communicate_def)

lemma twice:
  "m\<lparr>pub_to_subs := (pub_to_subs m)(p \<mapsto> a)\<rparr>\<lparr>pub_to_subs :=
     (pub_to_subs (m\<lparr>pub_to_subs := (pub_to_subs m)(p \<mapsto> a)\<rparr>))(p \<mapsto> b)\<rparr> =
   m\<lparr>pub_to_subs := (pub_to_subs m)(p \<mapsto> b)\<rparr>"
  by (simp add: fun_upd_def) (rule ip_manager.equality, auto)

lemma match_subscriptions_eq:
  assumes "match_subscriptions rmw_check w pub_id pub ids m = (None, m')" and "pub_to_subs m pub_id = Some split"
  shows "m' = m\<lparr>pub_to_subs := (pub_to_subs m)(pub_id \<mapsto>
           split\<lparr>take_shared_subscriptions := take_shared_subscriptions split @
                    filter (picks rmw_check w m pub True) ids,
                 take_ownership_subscriptions := take_ownership_subscriptions split @
                    filter (picks rmw_check w m pub False) ids\<rparr>)\<rparr>"
  using assms
proof (induction ids arbitrary: m split)
  case Nil
  then show ?case by (auto simp: fun_upd_idem)
next
  case (Cons i ids)
  show ?case
  proof (cases "Option.bind (subscriptions m i) (the_sub w)")
    case None
    with Cons.prems Cons.IH [of m split] show ?thesis by (simp add: picks_def)
  next
    case (Some sub)
    with Cons.prems(1) obtain b where b: "can_communicate rmw_check pub sub = Inr b"
      by (auto split: sum.splits)
    show ?thesis
    proof (cases b)
      case False
      with b Some have "\<not> picks rmw_check w m pub c i" for c by (simp add: picks_def wants_def)
      with False b Some Cons.prems Cons.IH [of m split] show ?thesis by simp
    next
      case True
      let ?m = "insert_sub_id_for_pub i pub_id (use_take_shared_method (sub_buffer sub)) m"
      have p: "picks rmw_check w m pub c i \<longleftrightarrow> c = holds_shared (sub_buffer sub)" for c
        using True b Some by (auto simp: picks_def wants_def)
      have same: "picks rmw_check w ?m = picks rmw_check w m"
        by (simp add: fun_eq_iff picks_def insert_sub_id_for_pub_def Let_def)
      have "match_subscriptions rmw_check w pub_id pub ids ?m = (None, m')"
        using Cons.prems(1) Some b True by simp
      moreover have "\<exists>split1. ?m = m\<lparr>pub_to_subs := (pub_to_subs m)(pub_id \<mapsto> split1)\<rparr> \<and>
          split1 = (if holds_shared (sub_buffer sub)
            then split\<lparr>take_shared_subscriptions := take_shared_subscriptions split @ [i]\<rparr>
            else split\<lparr>take_ownership_subscriptions := take_ownership_subscriptions split @ [i]\<rparr>)"
        by (rule exI, rule conjI [OF _ refl])
          (simp add: insert_sub_id_for_pub_def Let_def use_take_shared_method_def Cons.prems(2))
      ultimately obtain split1 where m1: "match_subscriptions rmw_check w pub_id pub ids ?m = (None, m')"
        "?m = m\<lparr>pub_to_subs := (pub_to_subs m)(pub_id \<mapsto> split1)\<rparr>"
        "split1 = (if holds_shared (sub_buffer sub)
            then split\<lparr>take_shared_subscriptions := take_shared_subscriptions split @ [i]\<rparr>
            else split\<lparr>take_ownership_subscriptions := take_ownership_subscriptions split @ [i]\<rparr>)" by blast
      have "pub_to_subs ?m pub_id = Some split1" by (simp add: m1(2))
      from Cons.IH [OF m1(1) this, unfolded same] show ?thesis
        unfolding m1(2) twice by (cases "holds_shared (sub_buffer sub)", simp_all add: m1(3) p, simp_all add: fun_upd_def)
    qed
  qed
qed

definition add_id :: "u64 \<Rightarrow> bool \<Rightarrow> splitted_subscriptions \<Rightarrow> splitted_subscriptions" where
  "add_id i shared split =
     (if shared then split\<lparr>take_shared_subscriptions := take_shared_subscriptions split @ [i]\<rparr>
      else split\<lparr>take_ownership_subscriptions := take_ownership_subscriptions split @ [i]\<rparr>)"

lemma insert_sub_id_frame [simp]:
  "publishers (insert_sub_id_for_pub i p b m) = publishers m"
  "subscriptions (insert_sub_id_for_pub i p b m) = subscriptions m"
  "pub_to_subs m p = Some split \<Longrightarrow>
     pub_to_subs (insert_sub_id_for_pub i p b m) = (pub_to_subs m)(p \<mapsto> add_id i b split)"
  by (simp_all add: insert_sub_id_for_pub_def add_id_def Let_def)

lemma match_publishers_eq:
  assumes "match_publishers rmw_check w i sub ids m = (None, m')"
    and "distinct ids" and "\<forall>p \<in> set ids. pub_to_subs m p \<noteq> None"
  shows "publishers m' = publishers m \<and> subscriptions m' = subscriptions m \<and>
         (\<forall>p. pub_to_subs m' p =
            (if p \<in> set ids \<and>
                (\<exists>pub. Option.bind (publishers m p) (the_pub w) = Some pub \<and> can_communicate rmw_check pub sub = Inr True)
             then map_option (add_id i (holds_shared (sub_buffer sub))) (pub_to_subs m p)
             else pub_to_subs m p))"
  using assms
proof (induction ids arbitrary: m)
  case Nil
  then show ?case by simp
next
  case (Cons p ids)
  show ?case
  proof (cases "Option.bind (publishers m p) (the_pub w)")
    case None
    with Cons.prems Cons.IH [of m] show ?thesis by auto
  next
    case (Some pub)
    with Cons.prems(1) obtain b where b: "can_communicate rmw_check pub sub = Inr b"
      by (auto split: sum.splits)
    show ?thesis
    proof (cases b)
      case False
      with b Some Cons.prems Cons.IH [of m] show ?thesis by auto
    next
      case True
      let ?m = "insert_sub_id_for_pub i p (use_take_shared_method (sub_buffer sub)) m"
      from Cons.prems(3) obtain split where sp: "pub_to_subs m p = Some split" by auto
      have m1: "match_publishers rmw_check w i sub ids ?m = (None, m')" using Cons.prems(1) Some b True by simp
      have "distinct ids" "\<forall>q \<in> set ids. pub_to_subs ?m q \<noteq> None" using Cons.prems(2,3) sp by auto
      note IH = Cons.IH [OF m1 this]
      from Cons.prems(2) have "p \<notin> set ids" by simp
      with IH Some b True sp show ?thesis by (simp add: use_take_shared_method_def) blast
    qed
  qed
qed

lemma add_publisher_parts:
  assumes "add_publisher rmw_check order np publisher (w, m) = (Inr pub_id, (w', m'))"
  shows "get_next_unique_id w = (Inr pub_id, w')"
    and "publishers m' = (publishers m)(pub_id \<mapsto> np)" and "subscriptions m' = subscriptions m"
    and "pub_to_subs m' = (pub_to_subs m)(pub_id \<mapsto>
           \<lparr>take_shared_subscriptions = filter (picks rmw_check w m publisher True) order,
            take_ownership_subscriptions = filter (picks rmw_check w m publisher False) order\<rparr>)"
proof -
  let ?m = "m\<lparr>publishers := (publishers m)(pub_id \<mapsto> np), pub_to_subs := (pub_to_subs m)(pub_id \<mapsto> SplittedSubscriptions)\<rparr>"
  from assms show id: "get_next_unique_id w = (Inr pub_id, w')"
    by (auto simp: add_publisher_def Let_def split: prod.splits sum.splits option.splits)
  with assms have run: "match_subscriptions rmw_check w' pub_id publisher order ?m = (None, m')"
    by (auto simp: add_publisher_def Let_def split: prod.splits option.splits)
  have "pub_to_subs ?m pub_id = Some SplittedSubscriptions" by simp
  note m' = match_subscriptions_eq [OF run this]
  have same: "picks rmw_check w' ?m = picks rmw_check w m"
    by (simp add: fun_eq_iff picks_def next_id(2) [OF id])
  show "publishers m' = (publishers m)(pub_id \<mapsto> np)" "subscriptions m' = subscriptions m" by (simp_all add: m')
  show "pub_to_subs m' = (pub_to_subs m)(pub_id \<mapsto>
           \<lparr>take_shared_subscriptions = filter (picks rmw_check w m publisher True) order,
            take_ownership_subscriptions = filter (picks rmw_check w m publisher False) order\<rparr>)"
    unfolding m' same by (simp add: SplittedSubscriptions_def fun_eq_iff)
qed

lemma add_ip_subscription_parts:
  assumes "add_ip_subscription rmw_check order ns sub (w, m) = (Inr sub_id, (w', m'))"
  shows "get_next_unique_id w = (Inr sub_id, w')"
    and "match_publishers rmw_check w' sub_id sub order (m\<lparr>subscriptions := (subscriptions m)(sub_id \<mapsto> ns)\<rparr>) = (None, m')"
proof -
  from assms show id: "get_next_unique_id w = (Inr sub_id, w')"
    by (auto simp: add_ip_subscription_def Let_def split: prod.splits sum.splits option.splits)
  with assms show "match_publishers rmw_check w' sub_id sub order
      (m\<lparr>subscriptions := (subscriptions m)(sub_id \<mapsto> ns)\<rparr>) = (None, m')"
    by (auto simp: add_ip_subscription_def Let_def split: prod.splits option.splits)
qed

section \<open>Every operation keeps the tables\<close>

lemma lists_ok_cong:
  "the_sub w' = the_sub w \<Longrightarrow> subscriptions m' = subscriptions m \<Longrightarrow>
     lists_ok rmw_check w' m' pub split = lists_ok rmw_check w m pub split"
  by (simp add: lists_ok_def picks_def)

lemma picks_registered: "picks rmw_check w m pub b i \<Longrightarrow> subscriptions m i \<noteq> None"
  by (auto simp: picks_def bind_eq_Some_conv split: option.splits)

lemma add_publisher_tables:
  assumes "tables_ok rmw_check (w, m)" and "the_pub w np = Some publisher"
    and "set order = dom (subscriptions m)" and "distinct order"
    and "add_publisher rmw_check order np publisher (w, m) = (Inr pub_id, (w', m'))"
  shows "tables_ok rmw_check (w', m')"
proof -
  note ok = tables_okD [OF assms(1)]
  note parts = add_publisher_parts [OF assms(5)]
  note fresh = next_id [OF parts(1)]
  have w': "the_sub w' = the_sub w" "the_pub w' = the_pub w" by (simp_all add: fresh(2))
  show ?thesis
  proof (rule tables_okI)
    show "pub_to_subs m' p = None \<longleftrightarrow> publishers m' p = None" for p using ok(1) by (simp add: parts)
    show "publishers m' i \<noteq> None \<Longrightarrow> id_used w' i" for i
      using ok(2) fresh(4,5) by (auto simp: parts split: if_splits)
    show "subscriptions m' i \<noteq> None \<Longrightarrow> id_used w' i" for i using ok(3) fresh(5) by (auto simp: parts)
    show "lists_ok rmw_check w' m' pub split"
      if "publishers m' p = Some np'" "the_pub w' np' = Some pub" "pub_to_subs m' p = Some split" for p np' pub split
    proof (cases "p = pub_id")
      case False
      with that ok(4) show ?thesis by (simp add: parts w' lists_ok_cong [OF w'(1) parts(3)])
    next
      case True
      with that assms(2-4) have "lists_ok rmw_check w m pub split"
        by (auto simp: parts w' lists_ok_def dom_def dest: picks_registered)
      then show ?thesis by (simp add: lists_ok_cong [OF w'(1) parts(3)])
    qed
  qed
qed

lemma add_ip_subscription_tables:
  assumes "tables_ok rmw_check (w, m)" and "the_sub w ns = Some sub"
    and "set order = dom (publishers m)" and "distinct order"
    and "add_ip_subscription rmw_check order ns sub (w, m) = (Inr sub_id, (w', m'))"
  shows "tables_ok rmw_check (w', m')"
proof -
  note ok = tables_okD [OF assms(1)]
  let ?m = "m\<lparr>subscriptions := (subscriptions m)(sub_id \<mapsto> ns)\<rparr>"
  note parts = add_ip_subscription_parts [OF assms(5)]
  note fresh = next_id [OF parts(1)]
  have w': "the_sub w' = the_sub w" "the_pub w' = the_pub w" by (simp_all add: fresh(2))
  have "\<forall>p \<in> set order. pub_to_subs ?m p \<noteq> None" using assms(3) ok(1) by auto
  note m' = match_publishers_eq [OF parts(2) assms(4) this]
  have unused: "subscriptions m sub_id = None" using ok(3) fresh(3) by blast
  have picks': "picks rmw_check w' m' pub b i \<longleftrightarrow>
      (if i = sub_id then wants rmw_check pub b sub else picks rmw_check w m pub b i)" for pub b i
    using m' assms(2) by (simp add: picks_def w')
  have new: "\<not> picks rmw_check w m pub b sub_id" for pub b using unused picks_registered by blast
  show ?thesis
  proof (rule tables_okI)
    show "pub_to_subs m' p = None \<longleftrightarrow> publishers m' p = None" for p using ok(1) m' by auto
    show "publishers m' i \<noteq> None \<Longrightarrow> id_used w' i" for i using ok(2) fresh(5) m' by auto
    show "subscriptions m' i \<noteq> None \<Longrightarrow> id_used w' i" for i
      using ok(3) fresh(4,5) m' by (auto split: if_splits)
    show "lists_ok rmw_check w' m' pub split"
      if p: "publishers m' p = Some np" "the_pub w' np = Some pub" "pub_to_subs m' p = Some split" for p np pub split
    proof -
      from p m' w' have np: "publishers m p = Some np" "the_pub w np = Some pub" by auto
      then obtain old where old: "pub_to_subs m p = Some old" using ok(1) by (cases "pub_to_subs m p") auto
      have "p \<in> set order" using np(1) assms(3) by auto
      with np m' p(3) old w' have split: "split =
          (if can_communicate rmw_check pub sub = Inr True then add_id sub_id (holds_shared (sub_buffer sub)) old else old)"
        by (auto split: if_splits)
      from ok(4) [OF np old] new show ?thesis
        unfolding lists_ok_def picks' by (auto simp: split add_id_def wants_def)
    qed
  qed
qed

lemma remove_subscription_tables:
  assumes "tables_ok rmw_check (w, m)"
  shows "tables_ok rmw_check (w, remove_subscription sub_id m)"
proof -
  note ok = tables_okD [OF assms]
  have picks': "picks rmw_check w (remove_subscription sub_id m) pub b i \<longleftrightarrow>
      i \<noteq> sub_id \<and> picks rmw_check w m pub b i" for pub b i
    by (simp add: picks_def remove_subscription_def)
  show ?thesis
  proof (rule tables_okI)
    show "lists_ok rmw_check w (remove_subscription sub_id m) pub split"
      if "publishers (remove_subscription sub_id m) p = Some np" "the_pub w np = Some pub"
        "pub_to_subs (remove_subscription sub_id m) p = Some split" for p np pub split
    proof -
      from that obtain old where old: "pub_to_subs m p = Some old" "split = remove_ids sub_id old"
        by (auto simp: remove_subscription_def)
      from that(1) have "publishers m p = Some np" by (simp add: remove_subscription_def)
      from ok(4) [OF this that(2) old(1)] show ?thesis
        unfolding lists_ok_def picks' by (auto simp: old(2) remove_ids_def)
    qed
  qed (use ok(1-3) in \<open>auto simp: remove_subscription_def split: if_splits\<close>)
qed

lemma remove_publisher_tables:
  assumes "tables_ok rmw_check (w, m)"
  shows "tables_ok rmw_check (w, remove_publisher pub_id m)"
proof -
  note ok = tables_okD [OF assms]
  have "subscriptions (remove_publisher pub_id m) = subscriptions m" by (simp add: remove_publisher_def)
  note same = lists_ok_cong [OF refl this]
  show ?thesis
  proof (rule tables_okI)
    show "lists_ok rmw_check w (remove_publisher pub_id m) pub split"
      if "publishers (remove_publisher pub_id m) p = Some np" "the_pub w np = Some pub"
        "pub_to_subs (remove_publisher pub_id m) p = Some split" for p np pub split
      unfolding same
      by (rule ok(4) [of p np]) (use that in \<open>auto simp: remove_publisher_def split: if_splits\<close>)
  qed (use ok(1-3) in \<open>auto simp: remove_publisher_def split: if_splits\<close>)
qed

section \<open>Objects that come and go\<close>

text \<open>What the matching sees of a subscription does not change while messages pass through it.\<close>

definition face :: "ip_subscription \<Rightarrow> string \<times> qos \<times> bool \<times> bool" where
  "face sub = (sub_topic sub, sub_qos sub, holds_shared (sub_buffer sub), same_types sub)"

definition faces :: "'m ip_world \<Rightarrow> nat \<Rightarrow> (string \<times> qos \<times> bool \<times> bool) option" where
  "faces w ns = map_option face (the_sub w ns)"

lemma wants_face: "face sub = face sub' \<Longrightarrow> wants rmw_check pub b sub = wants rmw_check pub b sub'"
  by (simp add: face_def wants_def can_communicate_def)

lemma picks_faces:
  assumes "faces w' = faces w"
  shows "picks rmw_check w' = picks rmw_check w"
proof -
  have "picks rmw_check w' m pub b i = picks rmw_check w m pub b i" for m pub b i
  proof (cases "subscriptions m i")
    case None
    then show ?thesis by (simp add: picks_def)
  next
    case (Some ns)
    from assms have "map_option face (the_sub w' ns) = map_option face (the_sub w ns)"
      by (simp add: faces_def fun_eq_iff)
    then consider "the_sub w' ns = None" "the_sub w ns = None"
      | sub' sub where "the_sub w' ns = Some sub'" "the_sub w ns = Some sub" "face sub' = face sub"
      by (cases "the_sub w' ns"; cases "the_sub w ns") auto
    then show ?thesis
    proof cases
      case 1
      with Some show ?thesis by (simp add: picks_def)
    next
      case (2 sub' sub)
      from 2(1,2) Some wants_face [OF 2(3)] show ?thesis by (simp add: picks_def)
    qed
  qed
  then show ?thesis by (simp add: fun_eq_iff)
qed

lemma tables_same_picks:
  assumes "tables_ok rmw_check (w, m)" and "\<And>pub b i. picks rmw_check w' m pub b i = picks rmw_check w m pub b i"
    and "\<And>p np. publishers m p = Some np \<Longrightarrow> the_pub w' np = the_pub w np"
    and "next_unique_id w' = next_unique_id w"
  shows "tables_ok rmw_check (w', m)"
proof -
  note ok = tables_okD [OF assms(1)]
  have lists: "lists_ok rmw_check w' m pub split = lists_ok rmw_check w m pub split" for pub split
    by (simp add: lists_ok_def assms(2))
  have used: "id_used w' = id_used w" by (simp add: fun_eq_iff id_used_def assms(4))
  show ?thesis
  proof (rule tables_okI)
    show "lists_ok rmw_check w' m pub split"
      if "publishers m p = Some np" "the_pub w' np = Some pub" "pub_to_subs m p = Some split" for p np pub split
      unfolding lists using ok(4) [OF that(1) _ that(3)] that(2) assms(3) [OF that(1)] by simp
    show "publishers m i \<noteq> None \<Longrightarrow> id_used w' i" "subscriptions m i \<noteq> None \<Longrightarrow> id_used w' i" for i
      unfolding used by (fact ok(2), fact ok(3))
  qed (rule ok(1))
qed

lemma tables_faces:
  assumes "tables_ok rmw_check (w, m)" and "faces w' = faces w" and "the_pub w' = the_pub w"
    and "next_unique_id w' = next_unique_id w"
  shows "tables_ok rmw_check (w', m)"
  by (rule tables_same_picks [OF assms(1) _ _ assms(4)]) (simp_all only: picks_faces [OF assms(2)] assms(3))

lemma face_provide [simp]: "face (provide_unique_data p sub) = face sub"
  by (simp add: face_def)

lemma faces_deliver: "faces (w\<lparr>the_sub := deliver ds (the_sub w), store := h\<rparr>) = faces w"
proof (induction ds arbitrary: w)
  case Nil
  then show ?case by (simp add: faces_def fun_eq_iff)
next
  case (Cons d ds)
  obtain ns p where d: "d = (ns, p)" by force
  let ?w = "w\<lparr>the_sub := (the_sub w)(ns := map_option (provide_unique_data p) (the_sub w ns))\<rparr>"
  have "faces ?w = faces w"
    by (auto simp: faces_def fun_eq_iff option.map_comp comp_def)
  with Cons.IH [of ?w] d show ?case by (simp add: fun_upd_def)
qed

lemma take_message_face:
  "take_message (sub, h) = Inr (r, sub', h') \<Longrightarrow> face sub' = face sub"
  by (auto simp: take_message_def consume_unique_def consume_shared_def face_def trigger_guard_condition_def
      copy_message_def Let_def split: prod.splits option.splits sum.splits if_splits)

end
