(* ===== verification/Intra_Process_System.thy ===== *)
theory Intra_Process_System
  imports Intra_Process_Matching
begin

text \<open>
  A process with its publishers, its subscriptions and their manager as a state machine.  In every
  reachable state publishing succeeds and reaches exactly the subscriptions the publisher can
  communicate with; the two ways out of these states that the code leaves open are shown at the end.
\<close>

section \<open>Reachable states\<close>

text \<open>
  The life of a process: publishers and subscriptions are created and registered, removed before
  they are destroyed (as the destructors of \<open>PublisherBase\<close> and \<open>SubscriptionBase\<close> do), messages
  are created and published, and subscriptions take messages.
\<close>

inductive ip_step :: "rmw_check \<Rightarrow> 'm ip_state \<Rightarrow> 'm ip_state \<Rightarrow> bool" for rmw_check :: rmw_check where
  create_publisher:
    "the_pub w np = None \<Longrightarrow> set order = dom (subscriptions m) \<Longrightarrow> distinct order \<Longrightarrow>
     add_publisher rmw_check order np pub (w\<lparr>the_pub := (the_pub w)(np \<mapsto> pub)\<rparr>, m) = (Inr pub_id, s) \<Longrightarrow>
     ip_step rmw_check (w, m) s"
| create_subscription:
    "the_sub w ns = None \<Longrightarrow> same_types sub \<Longrightarrow> set order = dom (publishers m) \<Longrightarrow> distinct order \<Longrightarrow>
     add_ip_subscription rmw_check order ns sub (w\<lparr>the_sub := (the_sub w)(ns \<mapsto> sub)\<rparr>, m) = (Inr sub_id, s) \<Longrightarrow>
     ip_step rmw_check (w, m) s"
| destroy_subscription:
    "subscriptions m sub_id = Some ns \<Longrightarrow>
     ip_step rmw_check (w, m) (w\<lparr>the_sub := (the_sub w)(ns := None)\<rparr>, remove_subscription sub_id m)"
| destroy_publisher:
    "publishers m pub_id = Some np \<Longrightarrow>
     ip_step rmw_check (w, m) (w\<lparr>the_pub := (the_pub w)(np := None)\<rparr>, remove_publisher pub_id m)"
| publish_message:
    "publishers m pub_id = Some np \<Longrightarrow>
     do_intra_process_publish pub_id (length (store w)) (w\<lparr>store := store w @ [x]\<rparr>, m) = (None, s) \<Longrightarrow>
     ip_step rmw_check (w, m) s"
| take_from_subscription:
    "subscriptions m sub_id = Some ns \<Longrightarrow> the_sub w ns = Some sub \<Longrightarrow>
     take_message (sub, store w) = Inr (r, sub', h) \<Longrightarrow>
     ip_step rmw_check (w, m) (w\<lparr>the_sub := (the_sub w)(ns \<mapsto> sub'), store := h\<rparr>, m)"

inductive_cases ip_stepE: "ip_step rmw_check s s'"

definition ip_start :: "'m ip_state" where
  "ip_start = (\<lparr>the_sub = Map.empty, the_pub = Map.empty, store = [], next_unique_id = 1\<rparr>, IntraProcessManager)"

definition ip_reachable :: "rmw_check \<Rightarrow> 'm ip_state \<Rightarrow> bool" where
  "ip_reachable rmw_check s \<longleftrightarrow> (ip_step rmw_check)\<^sup>*\<^sup>* ip_start s"

definition objects_ok :: "'m ip_state \<Rightarrow> bool" where
  "objects_ok s \<longleftrightarrow> (case s of (w, m) \<Rightarrow>
     (\<forall>p np. publishers m p = Some np \<longrightarrow> the_pub w np \<noteq> None) \<and>
     (\<forall>p q np. publishers m p = Some np \<and> publishers m q = Some np \<longrightarrow> p = q) \<and>
     (\<forall>i ns. subscriptions m i = Some ns \<longrightarrow> (\<exists>t q b. faces w ns = Some (t, q, b, True))) \<and>
     (\<forall>i j ns. subscriptions m i = Some ns \<and> subscriptions m j = Some ns \<longrightarrow> i = j))"

lemma objects_okI:
  assumes "\<And>p np. publishers m p = Some np \<Longrightarrow> the_pub w np \<noteq> None"
    and "\<And>p q np. publishers m p = Some np \<Longrightarrow> publishers m q = Some np \<Longrightarrow> p = q"
    and "\<And>i ns. subscriptions m i = Some ns \<Longrightarrow> \<exists>t q b. faces w ns = Some (t, q, b, True)"
    and "\<And>i j ns. subscriptions m i = Some ns \<Longrightarrow> subscriptions m j = Some ns \<Longrightarrow> i = j"
  shows "objects_ok (w, m)"
  using assms unfolding objects_ok_def by blast

lemma objects_okD:
  assumes "objects_ok (w, m)"
  shows "publishers m p = Some np \<Longrightarrow> the_pub w np \<noteq> None"
    and "publishers m p = Some np \<Longrightarrow> publishers m q = Some np \<Longrightarrow> p = q"
    and "subscriptions m i = Some ns \<Longrightarrow> \<exists>t q b. faces w ns = Some (t, q, b, True)"
    and "subscriptions m i = Some ns \<Longrightarrow> subscriptions m j = Some ns \<Longrightarrow> i = j"
  using assms unfolding objects_ok_def by blast+

lemma objects_faces:
  "objects_ok (w, m) \<Longrightarrow> faces w' = faces w \<Longrightarrow> the_pub w' = the_pub w \<Longrightarrow> objects_ok (w', m)"
  by (simp add: objects_ok_def)

lemma tables_connected:
  assumes "tables_ok rmw_check (w, m)" and "objects_ok (w, m)"
    and "publishers m pub_id = Some np" and "the_pub w np = Some pub" and "pub_to_subs m pub_id = Some split"
  shows "connected (w, m) split"
proof -
  note lists = tables_okD(4) [OF assms(1,3-5), unfolded lists_ok_def]
  have r: "receives (w, m) b i" if "picks rmw_check w m pub b i" for b i
  proof -
    from that obtain ns sub where i: "subscriptions m i = Some ns" "the_sub w ns = Some sub" "wants rmw_check pub b sub"
      by (auto simp: picks_def bind_eq_Some_conv split: option.splits)
    with objects_okD(3) [OF assms(2) i(1)] have "same_types sub" by (auto simp: faces_def face_def)
    with i show ?thesis by (auto simp: receives_def wants_def)
  qed
  have "distinct (take_shared_subscriptions split @ take_ownership_subscriptions split)"
    using lists by (auto simp: picks_def wants_def split: option.splits)
  moreover have "inj_on (\<lambda>i. the (subscriptions m i)) (set (take_shared_subscriptions split @ take_ownership_subscriptions split))"
  proof (rule inj_onI)
    fix i j
    assume ij: "i \<in> set (take_shared_subscriptions split @ take_ownership_subscriptions split)"
      "j \<in> set (take_shared_subscriptions split @ take_ownership_subscriptions split)"
      "the (subscriptions m i) = the (subscriptions m j)"
    with lists picks_registered have "subscriptions m i \<noteq> None" "subscriptions m j \<noteq> None" by auto
    with ij(3) objects_okD(4) [OF assms(2)] show "i = j" by auto
  qed
  ultimately have "distinct (receivers m (take_shared_subscriptions split @ take_ownership_subscriptions split))"
    unfolding receivers_def distinct_map by blast
  with lists r show ?thesis by (simp add: connected_def)
qed

lemma inv_create_publisher:
  assumes "tables_ok rmw_check (w, m)" and "objects_ok (w, m)" and "the_pub w np = None"
    and "set order = dom (subscriptions m)" and "distinct order"
    and "add_publisher rmw_check order np pub (w\<lparr>the_pub := (the_pub w)(np \<mapsto> pub)\<rparr>, m) = (Inr pub_id, (w', m'))"
  shows "tables_ok rmw_check (w', m') \<and> objects_ok (w', m')"
proof
  let ?w = "w\<lparr>the_pub := (the_pub w)(np \<mapsto> pub)\<rparr>"
  note obj = objects_okD [OF assms(2)]
  have free: "publishers m p \<noteq> Some np" for p using obj(1) assms(3) by blast
  have "tables_ok rmw_check (?w, m)"
    by (rule tables_same_picks [OF assms(1)]) (use free in \<open>auto simp: picks_def\<close>)
  from add_publisher_tables [OF this _ assms(4-6)] show "tables_ok rmw_check (w', m')" by simp
  note parts = add_publisher_parts [OF assms(6)]
  have w': "the_pub w' = (the_pub w)(np \<mapsto> pub)" "faces w' = faces w"
    by (simp_all add: next_id(2) [OF parts(1)] faces_def fun_eq_iff)
  show "objects_ok (w', m')"
  proof (rule objects_okI)
    show "publishers m' p = Some np' \<Longrightarrow> the_pub w' np' \<noteq> None" for p np'
      using obj(1) by (auto simp: parts w' split: if_splits)
    show "publishers m' p = Some np' \<Longrightarrow> publishers m' q = Some np' \<Longrightarrow> p = q" for p q np'
      using obj(2) free by (auto simp: parts split: if_splits)
  qed (use obj(3,4) in \<open>auto simp: parts w'\<close>)
qed

lemma inv_create_subscription:
  assumes "tables_ok rmw_check (w, m)" and "objects_ok (w, m)" and "the_sub w ns = None" and "same_types sub"
    and "set order = dom (publishers m)" and "distinct order"
    and "add_ip_subscription rmw_check order ns sub (w\<lparr>the_sub := (the_sub w)(ns \<mapsto> sub)\<rparr>, m) = (Inr sub_id, (w', m'))"
  shows "tables_ok rmw_check (w', m') \<and> objects_ok (w', m')"
proof
  let ?w = "w\<lparr>the_sub := (the_sub w)(ns \<mapsto> sub)\<rparr>"
  note obj = objects_okD [OF assms(2)]
  have free: "subscriptions m i \<noteq> Some ns" for i using obj(3) [of i ns] assms(3) by (auto simp: faces_def)
  have pick: "picks rmw_check ?w m p b i = picks rmw_check w m p b i" for p b i
    using free [of i] by (cases "subscriptions m i") (auto simp: picks_def)
  have tab: "tables_ok rmw_check (?w, m)" by (rule tables_same_picks [OF assms(1) pick]) simp_all
  from add_ip_subscription_tables [OF this _ assms(5-7)] show "tables_ok rmw_check (w', m')" by simp
  note parts = add_ip_subscription_parts [OF assms(7)]
  have "\<forall>p \<in> set order. pub_to_subs (m\<lparr>subscriptions := (subscriptions m)(sub_id \<mapsto> ns)\<rparr>) p \<noteq> None"
    using assms(5) tables_okD(1) [OF assms(1)] by auto
  from match_publishers_eq [OF parts(2) assms(6) this]
  have m': "publishers m' = publishers m" "subscriptions m' = (subscriptions m)(sub_id \<mapsto> ns)" by auto
  have w': "the_pub w' = the_pub w" "faces w' = (faces w)(ns \<mapsto> face sub)"
    by (simp_all add: next_id(2) [OF parts(1)] faces_def fun_eq_iff)
  show "objects_ok (w', m')"
  proof (rule objects_okI)
    show "subscriptions m' i = Some ns' \<Longrightarrow> \<exists>t q b. faces w' ns' = Some (t, q, b, True)" for i ns'
      using obj(3) [of i ns'] free [of i] assms(4) by (auto simp: m' w' face_def split: if_splits)
    show "subscriptions m' i = Some ns' \<Longrightarrow> subscriptions m' j = Some ns' \<Longrightarrow> i = j" for i j ns'
      using obj(4) free by (auto simp: m' split: if_splits)
  qed (use obj(1,2) in \<open>auto simp: m' w'\<close>)
qed

lemma inv_destroy_subscription:
  assumes "tables_ok rmw_check (w, m)" and "objects_ok (w, m)" and "subscriptions m sub_id = Some ns"
  defines "w' \<equiv> w\<lparr>the_sub := (the_sub w)(ns := None)\<rparr>" and "m' \<equiv> remove_subscription sub_id m"
  shows "tables_ok rmw_check (w', m') \<and> objects_ok (w', m')"
proof
  note obj = objects_okD [OF assms(2)]
  have subs: "subscriptions m' = (subscriptions m)(sub_id := None)" "publishers m' = publishers m"
    by (simp_all add: m'_def remove_subscription_def)
  have other: "subscriptions m' i = Some ns' \<Longrightarrow> ns' \<noteq> ns" for i ns'
    using obj(4) [of i ns' sub_id] assms(3) by (auto simp: subs split: if_splits)
  have pick: "picks rmw_check w' m' p b i = picks rmw_check w m' p b i" for p b i
    using other [of i] by (cases "subscriptions m' i") (auto simp: picks_def w'_def)
  have "tables_ok rmw_check (w, m')" unfolding m'_def by (rule remove_subscription_tables [OF assms(1)])
  then show "tables_ok rmw_check (w', m')" by (rule tables_same_picks [OF _ pick]) (simp_all add: w'_def)
  have face': "ns' \<noteq> ns \<Longrightarrow> faces w' ns' = faces w ns'" for ns' by (simp add: faces_def w'_def)
  show "objects_ok (w', m')"
  proof (rule objects_okI)
    show "subscriptions m' i = Some ns' \<Longrightarrow> \<exists>t q b. faces w' ns' = Some (t, q, b, True)" for i ns'
      using obj(3) [of i ns'] other [of i ns'] face' [of ns'] by (auto simp: subs split: if_splits)
    show "subscriptions m' i = Some ns' \<Longrightarrow> subscriptions m' j = Some ns' \<Longrightarrow> i = j" for i j ns'
      using obj(4) by (auto simp: subs split: if_splits)
  qed (use obj(1,2) in \<open>auto simp: subs w'_def\<close>)
qed

lemma inv_destroy_publisher:
  assumes "tables_ok rmw_check (w, m)" and "objects_ok (w, m)" and "publishers m pub_id = Some np"
  defines "w' \<equiv> w\<lparr>the_pub := (the_pub w)(np := None)\<rparr>" and "m' \<equiv> remove_publisher pub_id m"
  shows "tables_ok rmw_check (w', m') \<and> objects_ok (w', m')"
proof
  note obj = objects_okD [OF assms(2)]
  have pubs: "publishers m' = (publishers m)(pub_id := None)" "subscriptions m' = subscriptions m"
    by (simp_all add: m'_def remove_publisher_def)
  have other: "publishers m' p = Some np' \<Longrightarrow> np' \<noteq> np" for p np'
    using obj(2) [of p np' pub_id] assms(3) by (auto simp: pubs split: if_splits)
  have "tables_ok rmw_check (w, m')" unfolding m'_def by (rule remove_publisher_tables [OF assms(1)])
  then show "tables_ok rmw_check (w', m')"
    by (rule tables_same_picks) (use other in \<open>auto simp: w'_def picks_def\<close>)
  have faces': "faces w' = faces w" by (simp add: faces_def w'_def fun_eq_iff)
  show "objects_ok (w', m')"
  proof (rule objects_okI)
    show "publishers m' p = Some np' \<Longrightarrow> the_pub w' np' \<noteq> None" for p np'
      using obj(1) [of p np'] other [of p np'] by (auto simp: pubs w'_def split: if_splits)
    show "publishers m' p = Some np' \<Longrightarrow> publishers m' q = Some np' \<Longrightarrow> p = q" for p q np'
      using obj(2) by (auto simp: pubs split: if_splits)
  qed (use obj(3,4) in \<open>auto simp: pubs faces'\<close>)
qed

lemma registered_lists:
  assumes "tables_ok rmw_check (w, m)" and "objects_ok (w, m)" and "publishers m pub_id = Some np"
  obtains pub split where "the_pub w np = Some pub" and "pub_to_subs m pub_id = Some split"
    and "connected (w, m) split" and "lists_ok rmw_check w m pub split"
proof -
  from objects_okD(1) [OF assms(2,3)] obtain pub where pub: "the_pub w np = Some pub" by blast
  moreover from tables_okD(1) [OF assms(1), of pub_id] assms(3) obtain split where
    split: "pub_to_subs m pub_id = Some split" by (cases "pub_to_subs m pub_id") auto
  ultimately show thesis
    using that tables_connected [OF assms pub split] tables_okD(4) [OF assms(1,3) pub split] by blast
qed

lemma connected_store: "connected (w\<lparr>store := h\<rparr>, m) split = connected (w, m) split"
  by (simp add: connected_def receives_def)

lemma inv_publish:
  assumes "tables_ok rmw_check (w, m)" and "objects_ok (w, m)" and "publishers m pub_id = Some np"
    and "do_intra_process_publish pub_id (length (store w)) (w\<lparr>store := store w @ [x]\<rparr>, m) = (None, (w', m'))"
  shows "tables_ok rmw_check (w', m') \<and> objects_ok (w', m')"
proof -
  from registered_lists [OF assms(1-3)] obtain split where
    split: "pub_to_subs m pub_id = Some split" "connected (w, m) split" by metis
  let ?w = "w\<lparr>store := store w @ [x]\<rparr>"
  from split(2) have "connected (?w, m) split" by (simp add: connected_store)
  from publish_state [OF split(1) this, of "length (store w)"] assms(4) obtain ds h where
    w': "w' = ?w\<lparr>the_sub := deliver ds (the_sub ?w), store := h\<rparr>" "m' = m" by auto
  have "faces w' = faces ?w" unfolding w'(1) by (rule faces_deliver)
  moreover have "faces ?w = faces w" by (simp add: faces_def fun_eq_iff)
  ultimately have f: "faces w' = faces w" by simp
  have p: "the_pub w' = the_pub w" "next_unique_id w' = next_unique_id w" by (simp_all add: w')
  show ?thesis unfolding w'(2)
    using tables_faces [OF assms(1) f p] objects_faces [OF assms(2) f p(1)] by blast
qed

lemma inv_take:
  assumes "tables_ok rmw_check (w, m)" and "objects_ok (w, m)" and "the_sub w ns = Some sub"
    and "take_message (sub, store w) = Inr (r, sub', h)"
  defines "w' \<equiv> w\<lparr>the_sub := (the_sub w)(ns \<mapsto> sub'), store := h\<rparr>"
  shows "tables_ok rmw_check (w', m) \<and> objects_ok (w', m)"
proof -
  have f: "faces w' = faces w"
    using take_message_face [OF assms(4)] assms(3) by (auto simp: faces_def w'_def fun_eq_iff)
  have p: "the_pub w' = the_pub w" "next_unique_id w' = next_unique_id w" by (simp_all add: w'_def)
  show ?thesis using tables_faces [OF assms(1) f p] objects_faces [OF assms(2) f p(1)] by blast
qed

lemma inv_step:
  assumes "ip_step rmw_check s s'" and "tables_ok rmw_check s \<and> objects_ok s"
  shows "tables_ok rmw_check s' \<and> objects_ok s'"
  using assms(1)
proof cases
  case (create_publisher w np order m pub pub_id)
  obtain w' m' where s': "s' = (w', m')" by force
  show ?thesis unfolding s'
    by (rule inv_create_publisher [OF _ _ create_publisher(2-5) [unfolded s']])
      (use assms(2) create_publisher(1) in simp_all)
next
  case (create_subscription w ns sub order m sub_id)
  obtain w' m' where s': "s' = (w', m')" by force
  show ?thesis unfolding s'
    by (rule inv_create_subscription [OF _ _ create_subscription(2-6) [unfolded s']])
      (use assms(2) create_subscription(1) in simp_all)
next
  case (destroy_subscription m sub_id ns w)
  with assms(2) inv_destroy_subscription show ?thesis by blast
next
  case (destroy_publisher m pub_id np w)
  with assms(2) inv_destroy_publisher show ?thesis by blast
next
  case (publish_message m pub_id np w x)
  obtain w' m' where s': "s' = (w', m')" by force
  show ?thesis unfolding s'
    by (rule inv_publish [OF _ _ publish_message(2,3) [unfolded s']]) (use assms(2) publish_message(1) in simp_all)
next
  case (take_from_subscription m sub_id ns w sub r sub' h)
  with assms(2) inv_take show ?thesis by blast
qed

lemma inv_reachable: "ip_reachable rmw_check s \<Longrightarrow> tables_ok rmw_check s \<and> objects_ok s"
  unfolding ip_reachable_def
proof (induction rule: rtranclp_induct)
  case base
  show ?case
    by (simp add: ip_start_def IntraProcessManager_def tables_ok_def objects_ok_def)
next
  case (step s s')
  then show ?case using inv_step by blast
qed

section \<open>Publishing in a reachable state\<close>

lemma owned_index:
  assumes "i \<in> set own"
  obtains k where "length shared \<le> k" and "k < length (shared @ own)" and "(shared @ own) ! k = i"
proof -
  from assms obtain j where "j < length own" "own ! j = i" by (auto simp: in_set_conv_nth)
  then show thesis using that [of "length shared + j"] by simp
qed

lemma receivers_nth: "k < length ids \<Longrightarrow> receivers m ids ! k = the (subscriptions m (ids ! k))"
  by (simp add: receivers_def)

lemma listed_index:
  assumes "lists_ok rmw_check w m pub split" and "subscriptions m i = Some ns" and "the_sub w ns = Some sub"
    and "can_communicate rmw_check pub sub = Inr True"
  defines "ids \<equiv> take_shared_subscriptions split @ take_ownership_subscriptions split"
  obtains k where "k < length ids" and "receivers m ids ! k = ns"
    and "\<not> holds_shared (sub_buffer sub) \<Longrightarrow> length (take_shared_subscriptions split) \<le> k"
proof (cases "holds_shared (sub_buffer sub)")
  case True
  with assms(1-4) have "i \<in> set (take_shared_subscriptions split)" by (simp add: lists_ok_def picks_def wants_def)
  then obtain k where "k < length (take_shared_subscriptions split)" "take_shared_subscriptions split ! k = i"
    by (auto simp: in_set_conv_nth)
  with True assms(2) that [of k] show thesis by (simp add: ids_def receivers_nth nth_append)
next
  case False
  with assms(1-4) have "i \<in> set (take_ownership_subscriptions split)" by (simp add: lists_ok_def picks_def wants_def)
  then obtain k where "length (take_shared_subscriptions split) \<le> k" "k < length ids" "ids ! k = i"
    unfolding ids_def by (rule owned_index)
  with assms(2) that [of k] show thesis by (simp add: receivers_nth)
qed

lemma unlisted:
  assumes "lists_ok rmw_check w m pub split" and "the_sub w ns = Some sub"
    and "can_communicate rmw_check pub sub \<noteq> Inr True"
  shows "ns \<notin> set (receivers m (take_shared_subscriptions split @ take_ownership_subscriptions split))"
proof
  assume "ns \<in> set (receivers m (take_shared_subscriptions split @ take_ownership_subscriptions split))"
  then obtain j where j: "j \<in> set (take_shared_subscriptions split @ take_ownership_subscriptions split)"
    "the (subscriptions m j) = ns" by (auto simp: receivers_def)
  with assms(1) obtain b where "picks rmw_check w m pub b j" by (auto simp: lists_ok_def)
  with j(2) assms(2) have "wants rmw_check pub b sub"
    by (auto simp: picks_def bind_eq_Some_conv split: option.splits)
  with assms(3) show False by (simp add: wants_def)
qed

text \<open>
  Claim C13.  In every reachable state, publishing a message with a registered publisher succeeds.  Exactly the
  registered subscriptions the publisher can communicate with receive it: one pointer each, to a
  message with the published contents; all others are left alone.  A subscription that owns its
  messages receives an object that no other subscription receives.
\<close>

theorem publish_reaches_matched:
  assumes "ip_reachable rmw_check (w, m)" and "publishers m pub_id = Some np"
  shows "\<exists>pub w' ptr.
    the_pub w np = Some pub \<and>
    do_intra_process_publish pub_id (length (store w)) (w\<lparr>store := store w @ [x]\<rparr>, m) = (None, (w', m)) \<and>
    (\<forall>i ns sub. subscriptions m i = Some ns \<and> the_sub w ns = Some sub \<longrightarrow>
       (if can_communicate rmw_check pub sub = Inr True
        then the_sub w' ns = Some (provide_unique_data (ptr ns) sub) \<and> store w' ! ptr ns = x \<and>
             length (store w) \<le> ptr ns
        else the_sub w' ns = Some sub)) \<and>
    (\<forall>i j ns ns' sub sub'. subscriptions m i = Some ns \<and> the_sub w ns = Some sub \<and>
       subscriptions m j = Some ns' \<and> the_sub w ns' = Some sub' \<and> i \<noteq> j \<and>
       can_communicate rmw_check pub sub = Inr True \<and> can_communicate rmw_check pub sub' = Inr True \<and>
       \<not> holds_shared (sub_buffer sub) \<longrightarrow> ptr ns \<noteq> ptr ns')"
proof -
  let ?w = "w\<lparr>store := store w @ [x]\<rparr>"
  from inv_reachable [OF assms(1)] have inv: "tables_ok rmw_check (w, m)" "objects_ok (w, m)" by simp_all
  from registered_lists [OF inv assms(2)] obtain pub split where
    pub: "the_pub w np = Some pub" and split: "pub_to_subs m pub_id = Some split"
    and con: "connected (w, m) split" and lists: "lists_ok rmw_check w m pub split" .
  let ?S = "take_shared_subscriptions split" and ?O = "take_ownership_subscriptions split"
  let ?ids = "?S @ ?O" and ?rs = "receivers m (?S @ ?O)"
  from con have "connected (?w, m) split" by (simp add: connected_store)
  moreover have "length (store w) < length (store ?w)" by simp
  ultimately obtain w' f where
    run: "do_intra_process_publish pub_id (length (store w)) (?w, m) = (None, (w', m))"
    and to: "\<And>k. k < length ?ids \<Longrightarrow>
       the_sub w' (?rs ! k) = map_option (provide_unique_data (f k)) (the_sub ?w (?rs ! k))"
    and eq: "\<And>k. k < length ?ids \<Longrightarrow> store w' ! f k = store ?w ! length (store w)"
    and new: "\<And>k. k < length ?ids \<Longrightarrow> f k = length (store w) \<or> length (store ?w) \<le> f k"
    and own: "\<And>k l. length ?S \<le> k \<Longrightarrow> k < length ?ids \<Longrightarrow> l < length ?ids \<Longrightarrow> k \<noteq> l \<Longrightarrow> f k \<noteq> f l"
    and other: "\<And>ns. ns \<notin> set ?rs \<Longrightarrow> the_sub w' ns = the_sub ?w ns"
    by (rule publish_delivers [OF split]) blast
  have "distinct ?rs" using con by (simp add: connected_def)
  then have "the_inv_into {..<length ?ids} ((!) ?rs) (?rs ! k) = k" if "k < length ?ids" for k
    using that by (subst the_inv_into_f_f) (auto simp: inj_on_nth)
  then obtain g where ptr: "\<And>k. k < length ?ids \<Longrightarrow> g (?rs ! k) = f k"
    using that [of "\<lambda>ns. f (the_inv_into {..<length ?ids} ((!) ?rs) ns)"] by auto
  have outcome: "if can_communicate rmw_check pub sub = Inr True
      then the_sub w' ns = Some (provide_unique_data (g ns) sub) \<and> store w' ! g ns = x \<and> length (store w) \<le> g ns
      else the_sub w' ns = Some sub"
    if sub: "subscriptions m i = Some ns" "the_sub w ns = Some sub" for i ns sub
  proof (cases "can_communicate rmw_check pub sub = Inr True")
    case True
    from listed_index [OF lists sub True] obtain k where k: "k < length ?ids" "?rs ! k = ns" by metis
    from to [OF k(1)] eq [OF k(1)] new [OF k(1)] k(2) ptr [OF k(1)] sub(2) True show ?thesis by auto
  next
    case False
    then show ?thesis using other [OF unlisted [OF lists sub(2) False]] sub(2) by simp
  qed
  have exclusive: "g ns \<noteq> g ns'"
    if sub: "subscriptions m i = Some ns" "the_sub w ns = Some sub" "subscriptions m j = Some ns'" "the_sub w ns' = Some sub'"
      "i \<noteq> j" "can_communicate rmw_check pub sub = Inr True" "can_communicate rmw_check pub sub' = Inr True"
      "\<not> holds_shared (sub_buffer sub)" for i j ns ns' sub sub'
  proof -
    from listed_index [OF lists sub(1,2,6)] sub(8) obtain k where
      k: "k < length ?ids" "?rs ! k = ns" "length ?S \<le> k" by metis
    from listed_index [OF lists sub(3,4,7)] obtain l where l: "l < length ?ids" "?rs ! l = ns'" by metis
    have "ns \<noteq> ns'" using objects_okD(4) [OF inv(2) sub(1)] sub(3,5) by blast
    with k l have "k \<noteq> l" by blast
    with own [OF k(3,1) l(1)] ptr [OF k(1)] ptr [OF l(1)] k(2) l(2) show ?thesis by simp
  qed
  show ?thesis
    by (rule exI [of _ pub], rule exI [of _ w'], rule exI [of _ g], intro conjI allI impI pub run)
      (rule outcome exclusive, blast+)+
qed

definition always_compatible :: rmw_check where
  "always_compatible _ _ = Inr (RMW_COMPATIBILITY_OK, [])"

definition example_publisher :: ip_publisher where
  "example_publisher = \<lparr>pub_topic = ''topic'', pub_qos = example_qos\<rparr>"

definition example_registered :: "string ip_state" where
  "example_registered =
     (let (w0, m0) = ip_start; sub = example_subscription False False;
          (_, (w1, m1)) = add_ip_subscription always_compatible [] 0 sub (w0\<lparr>the_sub := [0 \<mapsto> sub]\<rparr>, m0);
          (_, s) = add_publisher always_compatible [1] 0 example_publisher
                     (w1\<lparr>the_pub := [0 \<mapsto> example_publisher]\<rparr>, m1)
      in s)"

lemma example_registered_reachable:
  "ip_reachable always_compatible example_registered \<and> publishers (snd example_registered) 2 = Some 0 \<and>
   subscriptions (snd example_registered) 1 = Some 0 \<and>
   the_sub (fst example_registered) 0 = Some (example_subscription False False) \<and>
   the_pub (fst example_registered) 0 = Some example_publisher \<and> store (fst example_registered) = []"
proof -
  let ?sub = "example_subscription False False"
  let ?wa = "\<lparr>the_sub = [0 \<mapsto> ?sub], the_pub = Map.empty, store = [] :: string list, next_unique_id = 2\<rparr>"
  let ?ma = "\<lparr>pub_to_subs = Map.empty, subscriptions = [1 \<mapsto> 0], publishers = Map.empty\<rparr>"
  have one: "add_ip_subscription always_compatible [] 0 ?sub ((fst ip_start)\<lparr>the_sub := [0 \<mapsto> ?sub]\<rparr>, snd ip_start) =
      (Inr 1, (?wa, ?ma))"
    by (simp add: ip_start_def IntraProcessManager_def add_ip_subscription_def get_next_unique_id_def)
  have "ip_step always_compatible ip_start (?wa, ?ma)"
    using ip_step.create_subscription [of "fst ip_start" 0 ?sub "[]" "snd ip_start" always_compatible 1 "(?wa, ?ma)"]
      one example_subscription_new by (simp add: ip_start_def IntraProcessManager_def)
  moreover
  let ?s = "snd (add_publisher always_compatible [1] 0 example_publisher (?wa\<lparr>the_pub := [0 \<mapsto> example_publisher]\<rparr>, ?ma))"
  have two: "add_publisher always_compatible [1] 0 example_publisher (?wa\<lparr>the_pub := [0 \<mapsto> example_publisher]\<rparr>, ?ma) = (Inr 2, ?s)"
    using example_subscription_new
    by (simp add: add_publisher_def get_next_unique_id_def can_communicate_def always_compatible_def
        qos_check_compatible_def example_publisher_def)
  have "ip_step always_compatible (?wa, ?ma) ?s"
    by (rule ip_step.create_publisher [where np = 0 and order = "[1]" and pub = example_publisher and pub_id = 2])
      (use two in auto)
  moreover have eq: "example_registered = ?s"
    using one by (simp add: example_registered_def ip_start_def Let_def case_prod_beta)
  ultimately have "ip_reachable always_compatible example_registered"
    unfolding ip_reachable_def by (metis (no_types, lifting) r_into_rtranclp rtranclp.rtrancl_into_rtrancl)
  moreover obtain w m where s: "?s = (w, m)" by force
  note parts = add_publisher_parts [OF two [unfolded s]]
  note e = trans [OF eq s]
  moreover have "publishers m 2 = Some 0" "subscriptions m 1 = Some 0"
    "the_sub w 0 = Some ?sub" "the_pub w 0 = Some example_publisher" "store w = []"
    by (simp_all add: parts(2,3) next_id(2) [OF parts(1)])
  ultimately show ?thesis unfolding e by simp
qed

theorem publish_reaches_matched_witness:
  "\<exists>w' ptr. do_intra_process_publish 2 0 ((fst example_registered)\<lparr>store := [''hello'']\<rparr>, snd example_registered) =
      (None, (w', snd example_registered)) \<and>
     the_sub w' 0 = Some (provide_unique_data (ptr 0) (example_subscription False False)) \<and> store w' ! ptr 0 = ''hello''"
proof -
  obtain w m where s: "example_registered = (w, m)" by force
  have r: "ip_reachable always_compatible (w, m)" "publishers m 2 = Some 0" "subscriptions m 1 = Some 0"
    "the_sub w 0 = Some (example_subscription False False)" "the_pub w 0 = Some example_publisher" "store w = []"
    using example_registered_reachable by (simp_all add: s)
  have match: "can_communicate always_compatible example_publisher (example_subscription False False) = Inr True"
    using example_subscription_new
    by (simp add: can_communicate_def always_compatible_def qos_check_compatible_def example_publisher_def)
  from publish_reaches_matched [OF r(1,2), of "''hello''"] obtain pub w' ptr where
    p: "the_pub w 0 = Some pub"
    and run: "do_intra_process_publish 2 (length (store w)) (w\<lparr>store := store w @ [''hello'']\<rparr>, m) = (None, (w', m))"
    and got: "\<forall>i ns sub. subscriptions m i = Some ns \<and> the_sub w ns = Some sub \<longrightarrow>
       (if can_communicate always_compatible pub sub = Inr True
        then the_sub w' ns = Some (provide_unique_data (ptr ns) sub) \<and> store w' ! ptr ns = ''hello'' \<and>
             length (store w) \<le> ptr ns
        else the_sub w' ns = Some sub)" by blast
  from p r(5) have "pub = example_publisher" by simp
  with spec [OF spec [OF spec [OF got, of 1], of 0], of "example_subscription False False"] r(3,4) match run r(6)
  show ?thesis by (auto simp: s)
qed

section \<open>Outside the reachable states\<close>

text \<open>
  A subscription that is destroyed without being removed: the first message published after that is
  delivered to nobody and erases the subscription, but leaves it in the list of the publisher, so
  that every later message is answered with an exception.
\<close>

lemma expired_subscription_blocks:
  assumes "pub_to_subs m pub_id = Some \<lparr>take_shared_subscriptions = [i], take_ownership_subscriptions = []\<rparr>"
    and "subscriptions m i = Some ns" and "the_sub w ns = None"
  shows "\<exists>s. do_intra_process_publish pub_id p (w, m) = (None, s) \<and>
           fst (do_intra_process_publish pub_id q s) = Some gone_out_of_scope"
  using assms by (simp add: do_intra_process_publish_def)

text \<open>
  The exception that reports the exhaustion of identifiers is thrown once; the next identifier
  handed out is the first one again.
\<close>

lemma identifiers_restart:
  "next_unique_id w = 0 \<Longrightarrow>
     (\<exists>e. fst (get_next_unique_id w) = Inl e) \<and> fst (get_next_unique_id (snd (get_next_unique_id w))) = Inr 1"
  by (simp add: get_next_unique_id_def Let_def)

end
