(* ===== verification/Parameter_Values.thy ===== *)
theory Parameter_Values
  imports Prelude
begin

text \<open>
  Parameter values, parameters, descriptors and ranges of \<open>src/ros2-picas/rclcpp\<close>:
  \<open>parameter_value.hpp\<close>, \<open>parameter_value.cpp\<close>, \<open>parameter.cpp\<close> and the range and type checks of
  \<open>node_interfaces/node_parameters.cpp\<close>.  Floating-point numbers are a type \<open>'d\<close> with the
  operations the code uses as the record \<open>doubles\<close>, so that no rounding is presumed.
\<close>

section \<open>Values\<close>

datatype parameter_type =
    PARAMETER_NOT_SET | PARAMETER_BOOL | PARAMETER_INTEGER | PARAMETER_DOUBLE | PARAMETER_STRING
  | PARAMETER_BYTE_ARRAY | PARAMETER_BOOL_ARRAY | PARAMETER_INTEGER_ARRAY | PARAMETER_DOUBLE_ARRAY
  | PARAMETER_STRING_ARRAY

text \<open>
  A value keeps the field of the message that its type selects; integers are those of \<open>int64_t\<close>.
\<close>

datatype 'd parameter_value =
    NotSet | BoolValue bool | IntegerValue int | DoubleValue 'd | StringValue string
  | ByteArray "8 word list" | BoolArray "bool list" | IntegerArray "int list" | DoubleArray "'d list"
  | StringArray "string list"

datatype param_exn =
    InvalidParametersException string | ParameterAlreadyDeclaredException string
  | InvalidParameterTypeException string string | InvalidParameterValueException string
  | ParameterNotDeclaredException string | ParameterImmutableException string
  | ParameterModifiedInCallbackException | ParameterUninitializedException string
  | ParameterTypeException parameter_type parameter_type
  | StdRuntimeError string | StdInvalidArgument string

fun get_type :: "'d parameter_value \<Rightarrow> parameter_type" where
  "get_type NotSet = PARAMETER_NOT_SET"
| "get_type (BoolValue b) = PARAMETER_BOOL"
| "get_type (IntegerValue i) = PARAMETER_INTEGER"
| "get_type (DoubleValue d) = PARAMETER_DOUBLE"
| "get_type (StringValue s) = PARAMETER_STRING"
| "get_type (ByteArray bs) = PARAMETER_BYTE_ARRAY"
| "get_type (BoolArray bs) = PARAMETER_BOOL_ARRAY"
| "get_type (IntegerArray xs) = PARAMETER_INTEGER_ARRAY"
| "get_type (DoubleArray ds) = PARAMETER_DOUBLE_ARRAY"
| "get_type (StringArray ss) = PARAMETER_STRING_ARRAY"

fun type_to_string :: "parameter_type \<Rightarrow> string" where
  "type_to_string PARAMETER_NOT_SET = ''not set''"
| "type_to_string PARAMETER_BOOL = ''bool''"
| "type_to_string PARAMETER_INTEGER = ''integer''"
| "type_to_string PARAMETER_DOUBLE = ''double''"
| "type_to_string PARAMETER_STRING = ''string''"
| "type_to_string PARAMETER_BYTE_ARRAY = ''byte_array''"
| "type_to_string PARAMETER_BOOL_ARRAY = ''bool_array''"
| "type_to_string PARAMETER_INTEGER_ARRAY = ''integer_array''"
| "type_to_string PARAMETER_DOUBLE_ARRAY = ''double_array''"
| "type_to_string PARAMETER_STRING_ARRAY = ''string_array''"

lemma get_type_not_set [simp]: "get_type v = PARAMETER_NOT_SET \<longleftrightarrow> v = NotSet"
  by (cases v) simp_all

section \<open>Messages\<close>

text \<open>
  The message has a field for every type and a number that selects one of them; the constructor
  from a message refuses an unknown number.
\<close>

record 'd value_msg =
  vm_type :: "8 word"
  vm_bool :: bool
  vm_integer :: int
  vm_double :: 'd
  vm_string :: string
  vm_byte_array :: "8 word list"
  vm_bool_array :: "bool list"
  vm_integer_array :: "int list"
  vm_double_array :: "'d list"
  vm_string_array :: "string list"

definition ParameterValue_of_msg :: "'d value_msg \<Rightarrow> param_exn + 'd parameter_value" where
  "ParameterValue_of_msg m =
     (if vm_type m = 1 then Inr (BoolValue (vm_bool m))
      else if vm_type m = 2 then Inr (IntegerValue (vm_integer m))
      else if vm_type m = 3 then Inr (DoubleValue (vm_double m))
      else if vm_type m = 4 then Inr (StringValue (vm_string m))
      else if vm_type m = 5 then Inr (ByteArray (vm_byte_array m))
      else if vm_type m = 6 then Inr (BoolArray (vm_bool_array m))
      else if vm_type m = 7 then Inr (IntegerArray (vm_integer_array m))
      else if vm_type m = 8 then Inr (DoubleArray (vm_double_array m))
      else if vm_type m = 9 then Inr (StringArray (vm_string_array m))
      else if vm_type m = 0 then Inr NotSet
      else Inl (StdRuntimeError (''Unknown type: '' @ to_dec (unat (vm_type m)))))"

definition empty_value_msg :: "'d \<Rightarrow> 'd value_msg" where
  "empty_value_msg zero =
     \<lparr>vm_type = 0, vm_bool = False, vm_integer = 0, vm_double = zero, vm_string = [], vm_byte_array = [],
      vm_bool_array = [], vm_integer_array = [], vm_double_array = [], vm_string_array = []\<rparr>"

fun to_value_msg :: "'d \<Rightarrow> 'd parameter_value \<Rightarrow> 'd value_msg" where
  "to_value_msg zero NotSet = empty_value_msg zero"
| "to_value_msg zero (BoolValue b) = (empty_value_msg zero)\<lparr>vm_type := 1, vm_bool := b\<rparr>"
| "to_value_msg zero (IntegerValue i) = (empty_value_msg zero)\<lparr>vm_type := 2, vm_integer := i\<rparr>"
| "to_value_msg zero (DoubleValue d) = (empty_value_msg zero)\<lparr>vm_type := 3, vm_double := d\<rparr>"
| "to_value_msg zero (StringValue s) = (empty_value_msg zero)\<lparr>vm_type := 4, vm_string := s\<rparr>"
| "to_value_msg zero (ByteArray bs) = (empty_value_msg zero)\<lparr>vm_type := 5, vm_byte_array := bs\<rparr>"
| "to_value_msg zero (BoolArray bs) = (empty_value_msg zero)\<lparr>vm_type := 6, vm_bool_array := bs\<rparr>"
| "to_value_msg zero (IntegerArray xs) = (empty_value_msg zero)\<lparr>vm_type := 7, vm_integer_array := xs\<rparr>"
| "to_value_msg zero (DoubleArray ds) = (empty_value_msg zero)\<lparr>vm_type := 8, vm_double_array := ds\<rparr>"
| "to_value_msg zero (StringArray ss) = (empty_value_msg zero)\<lparr>vm_type := 9, vm_string_array := ss\<rparr>"

lemma value_msg_roundtrip: "ParameterValue_of_msg (to_value_msg zero v) = Inr v"
  by (cases v) (simp_all add: ParameterValue_of_msg_def empty_value_msg_def)

section \<open>Parameters\<close>

record 'd parameter =
  param_name :: string
  param_value :: "'d parameter_value"

definition Parameter :: "string \<Rightarrow> 'd parameter_value \<Rightarrow> 'd parameter" where
  "Parameter n v = \<lparr>param_name = n, param_value = v\<rparr>"

lemma Parameter_simps [simp]:
  "param_name (Parameter n v) = n" "param_value (Parameter n v) = v"
  by (simp_all add: Parameter_def)

lemma Parameter_collapse [simp]: "Parameter (param_name p) (param_value p) = p"
  by (simp add: Parameter_def)

definition param_type :: "'d parameter \<Rightarrow> parameter_type" where
  "param_type p = get_type (param_value p)"

text \<open>\<open>get_value\<close> for the requested type; \<open>as_bool\<close>, \<open>as_int\<close> and the others are instances.\<close>

definition get_value :: "parameter_type \<Rightarrow> 'd parameter \<Rightarrow> param_exn + 'd parameter_value" where
  "get_value ty p =
     (if param_type p = ty then Inr (param_value p) else Inl (ParameterTypeException ty (param_type p)))"

definition from_parameter_msg :: "string \<times> 'd value_msg \<Rightarrow> param_exn + 'd parameter" where
  "from_parameter_msg = (\<lambda>(n, m). map_sum id (Parameter n) (ParameterValue_of_msg m))"

definition to_parameter_msg :: "'d \<Rightarrow> 'd parameter \<Rightarrow> string \<times> 'd value_msg" where
  "to_parameter_msg zero p = (param_name p, to_value_msg zero (param_value p))"

lemma parameter_msg_roundtrip: "from_parameter_msg (to_parameter_msg zero p) = Inr p"
  by (simp add: from_parameter_msg_def to_parameter_msg_def value_msg_roundtrip)

section \<open>Descriptors\<close>

record integer_range =
  int_from :: int
  int_to :: int
  int_step :: u64

record 'd floating_point_range =
  fp_from :: 'd
  fp_to :: 'd
  fp_step :: 'd

record 'd parameter_descriptor =
  desc_name :: string
  desc_type :: parameter_type
  description :: string
  additional_constraints :: string
  read_only :: bool
  dynamic_typing :: bool
  floating_point_range :: "'d floating_point_range list"
  integer_range :: "integer_range list"

definition ParameterDescriptor :: "'d parameter_descriptor" where
  "ParameterDescriptor =
     \<lparr>desc_name = [], desc_type = PARAMETER_NOT_SET, description = [], additional_constraints = [],
      read_only = False, dynamic_typing = False, floating_point_range = [], integer_range = []\<rparr>"

record 'd parameter_info =
  info_value :: "'d parameter_value"
  info_descriptor :: "'d parameter_descriptor"

definition ParameterInfo :: "'d parameter_info" where
  "ParameterInfo = \<lparr>info_value = NotSet, info_descriptor = ParameterDescriptor\<rparr>"

record set_result =
  successful :: bool
  reason :: string

abbreviation accepted :: set_result where
  "accepted \<equiv> \<lparr>successful = True, reason = []\<rparr>"

section \<open>Ranges\<close>

record 'd doubles =
  d_add :: "'d \<Rightarrow> 'd \<Rightarrow> 'd"
  d_sub :: "'d \<Rightarrow> 'd \<Rightarrow> 'd"
  d_mul :: "'d \<Rightarrow> 'd \<Rightarrow> 'd"
  d_div :: "'d \<Rightarrow> 'd \<Rightarrow> 'd"
  d_abs :: "'d \<Rightarrow> 'd"
  d_round :: "'d \<Rightarrow> 'd"
  d_less :: "'d \<Rightarrow> 'd \<Rightarrow> bool"
  d_leq :: "'d \<Rightarrow> 'd \<Rightarrow> bool"
  d_eq :: "'d \<Rightarrow> 'd \<Rightarrow> bool"
  d_zero :: 'd
  d_epsilon :: 'd
  d_hundred :: 'd

definition are_doubles_equal :: "'d doubles \<Rightarrow> 'd \<Rightarrow> 'd \<Rightarrow> bool" where
  "are_doubles_equal D x y \<longleftrightarrow>
     d_leq D (d_abs D (d_sub D x y)) (d_mul D (d_mul D (d_epsilon D) (d_abs D (d_add D x y))) (d_hundred D))"

definition format_range_reason :: "string \<Rightarrow> string \<Rightarrow> string" where
  "format_range_reason name range_type =
     ''Parameter {'' @ name @ ''} doesn't comply with '' @ range_type @ '' range.''"

text \<open>
  The difference of two signed numbers is taken modulo \<open>2 ^ 64\<close> when it meets the unsigned step.
\<close>

definition integer_in_range :: "integer_range \<Rightarrow> int \<Rightarrow> bool" where
  "integer_in_range r v \<longleftrightarrow>
     v = int_from r \<or> v = int_to r \<or>
     \<not> (v < int_from r \<or> v > int_to r) \<and>
     (int_step r = 0 \<or> (word_of_int (v - int_from r) :: u64) mod int_step r = 0)"

definition double_in_range :: "'d doubles \<Rightarrow> 'd floating_point_range \<Rightarrow> 'd \<Rightarrow> bool" where
  "double_in_range D r v \<longleftrightarrow>
     are_doubles_equal D v (fp_from r) \<or> are_doubles_equal D v (fp_to r) \<or>
     \<not> (d_less D v (fp_from r) \<or> d_less D (fp_to r) v) \<and>
     (d_eq D (fp_step r) (d_zero D) \<or>
      are_doubles_equal D v
        (d_add D (fp_from r)
          (d_mul D (d_round D (d_div D (d_sub D v (fp_from r)) (fp_step r))) (fp_step r))))"

definition check_parameter_value_in_range ::
    "'d doubles \<Rightarrow> 'd parameter_descriptor \<Rightarrow> 'd parameter_value \<Rightarrow> set_result" where
  "check_parameter_value_in_range D desc v =
     (case (v, integer_range desc, floating_point_range desc) of
        (IntegerValue i, r # _, _) \<Rightarrow>
          if integer_in_range r i then accepted
          else \<lparr>successful = False, reason = format_range_reason (desc_name desc) ''integer''\<rparr>
      | (DoubleValue d, _, r # _) \<Rightarrow>
          if double_in_range D r d then accepted
          else \<lparr>successful = False, reason = format_range_reason (desc_name desc) ''floating point''\<rparr>
      | _ \<Rightarrow> accepted)"

text \<open>
  The check of an integer against a range with a step is exact, although the difference from the
  lower end need not fit a signed 64-bit number.
\<close>

theorem integer_range_exact:
  assumes "in_int64 (int_from r)" and "in_int64 (int_to r)" and "in_int64 v"
    and "integer_range desc = r # rs"
  shows "successful (check_parameter_value_in_range D desc (IntegerValue v)) \<longleftrightarrow>
    v = int_from r \<or> v = int_to r \<or>
    int_from r < v \<and> v < int_to r \<and> (int_step r = 0 \<or> int (unat (int_step r)) dvd v - int_from r)"
proof -
  define M where "M \<longleftrightarrow> (word_of_int (v - int_from r) :: u64) mod int_step r = 0"
  have key: "M \<longleftrightarrow> int (unat (int_step r)) dvd v - int_from r"
    if "int_from r \<le> v" "v \<le> int_to r"
  proof -
    define d where "d = v - int_from r"
    have "0 \<le> d" "d < 2 ^ 64"
      using that assms by (auto simp: d_def in_int64_def int64_max_def)
    then have "uint (word_of_int d :: u64) = d"
      by (simp add: uint_word_of_int_eq take_bit_int_eq_self)
    then have "uint ((word_of_int d :: u64) mod int_step r) = d mod uint (int_step r)"
      by (simp add: uint_mod_distrib)
    then show ?thesis
      unfolding M_def d_def [symmetric] by (metis dvd_eq_mod_eq_0 uint_0_iff uint_nat)
  qed
  have "integer_in_range r v \<longleftrightarrow> v = int_from r \<or> v = int_to r \<or>
      int_from r < v \<and> v < int_to r \<and> (int_step r = 0 \<or> int (unat (int_step r)) dvd v - int_from r)"
    unfolding integer_in_range_def M_def [symmetric] using key by (auto simp del: nat_uint_eq of_nat_unat)
  then show ?thesis
    using assms(4) by (simp add: check_parameter_value_in_range_def)
qed

definition int_doubles :: "int doubles" where
  "int_doubles =
     \<lparr>d_add = (+), d_sub = (-), d_mul = (*), d_div = (div), d_abs = abs, d_round = (\<lambda>x. x), d_less = (<),
      d_leq = (\<le>), d_eq = (=), d_zero = 0, d_epsilon = 0, d_hundred = 100\<rparr>"

definition wide_range :: integer_range where
  "wide_range = \<lparr>int_from = - 9223372036854775808, int_to = 9223372036854775807, int_step = 3\<rparr>"

theorem integer_range_exact_witness:
  "let desc = ParameterDescriptor\<lparr>integer_range := [wide_range]\<rparr>
   in successful (check_parameter_value_in_range int_doubles desc (IntegerValue 9223372036854775804)) \<and>
      \<not> successful (check_parameter_value_in_range int_doubles desc (IntegerValue 9223372036854775805))"
  using integer_range_exact [of wide_range _ "ParameterDescriptor\<lparr>integer_range := [wide_range]\<rparr>" "[]" int_doubles]
  by (simp add: wide_range_def in_int64_def int64_max_def)

end
