(* ===== verification/Node_Parameters.thy ===== *)
theory Node_Parameters
  imports Parameter_Values
begin

text \<open>
  The parameters of a node: \<open>NodeParameters\<close> of \<open>node_interfaces/node_parameters.cpp\<close> (and
  \<open>node_parameters.hpp\<close>), with the resolution of overrides of \<open>detail/resolve_parameter_overrides.cpp\<close>.
  The recursive mutex is modelled by the atomicity of each operation.  Callbacks are functions from
  the parameters to be set to a verdict; they are known by the handles that the user holds, and an
  expired handle has no callback any more.  Published events are recorded without their time stamp.
\<close>

section \<open>State\<close>

record 'd parameter_event =
  event_node :: string
  new_parameters :: "'d parameter list"
  changed_parameters :: "'d parameter list"
  deleted_parameters :: "'d parameter list"

type_synonym 'd on_set = "'d parameter list \<Rightarrow> set_result"

record 'd node_parameters =
  parameters :: "(string, 'd parameter_info) omap"
  parameter_overrides :: "(string, 'd parameter_value) omap"
  allow_undeclared :: bool
  parameter_modification_enabled :: bool
  callback_container :: "nat list"
  live_callback :: "nat \<Rightarrow> 'd on_set option"
  on_set_callback :: "'d on_set option"
  publishes_events :: bool
  combined_name :: string
  events :: "'d parameter_event list"

definition has_parameter :: "string \<Rightarrow> 'd node_parameters \<Rightarrow> bool" where
  "has_parameter name np \<longleftrightarrow> map_of (parameters np) name \<noteq> None"

text \<open>\<open>parameter_infos[name]\<close>: a missing entry is created with default contents.\<close>

definition info_at :: "(string, 'd parameter_info) omap \<Rightarrow> string \<Rightarrow> 'd parameter_info" where
  "info_at infos name = (case map_of infos name of None \<Rightarrow> ParameterInfo | Some i \<Rightarrow> i)"

section \<open>Checking and setting\<close>

definition format_type_reason :: "string \<Rightarrow> parameter_type \<Rightarrow> parameter_type \<Rightarrow> string" where
  "format_type_reason name old_type new_type =
     ''Wrong parameter type, parameter {'' @ name @ ''} is of type {'' @ type_to_string old_type @
     ''}, setting it to {'' @ type_to_string new_type @ ''} is not allowed.''"

text \<open>The descriptor a parameter is checked against.\<close>

definition descriptor_for ::
    "bool \<Rightarrow> (string, 'd parameter_info) omap \<Rightarrow> string \<Rightarrow> 'd parameter_descriptor" where
  "descriptor_for allow infos name =
     (let d = (if allow
               then (case map_of infos name of
                       Some i \<Rightarrow> info_descriptor i
                     | None \<Rightarrow> ParameterDescriptor\<lparr>dynamic_typing := True\<rparr>)
               else info_descriptor (info_at infos name))
      in if desc_name d = [] then d\<lparr>desc_name := name\<rparr> else d)"

definition check_parameter ::
    "'d doubles \<Rightarrow> bool \<Rightarrow> (string, 'd parameter_info) omap \<Rightarrow> 'd parameter \<Rightarrow> set_result" where
  "check_parameter D allow infos p =
     (let d = descriptor_for allow infos (param_name p)
      in if \<not> (dynamic_typing d \<or> desc_type d = param_type p)
         then \<lparr>successful = False, reason = format_type_reason (param_name p) (desc_type d) (param_type p)\<rparr>
         else check_parameter_value_in_range D d (param_value p))"

fun check_parameters ::
    "'d doubles \<Rightarrow> bool \<Rightarrow> 'd parameter list \<Rightarrow> (string, 'd parameter_info) omap \<Rightarrow>
     set_result \<times> (string, 'd parameter_info) omap" where
  "check_parameters D allow [] infos = (accepted, infos)"
| "check_parameters D allow (p # ps) infos =
     (let infos1 = (if allow then infos else omap_set (param_name p) (info_at infos (param_name p)) infos);
          r = check_parameter D allow infos p
      in if \<not> successful r then (r, infos1) else check_parameters D allow ps infos1)"

fun call_callbacks ::
    "(nat \<Rightarrow> 'd on_set option) \<Rightarrow> 'd parameter list \<Rightarrow> nat list \<Rightarrow> set_result \<Rightarrow> set_result \<times> nat list" where
  "call_callbacks live ps [] r = (r, [])"
| "call_callbacks live ps (h # hs) r =
     (case live h of
        None \<Rightarrow> call_callbacks live ps hs r
      | Some f \<Rightarrow>
          if \<not> successful (f ps) then (f ps, h # hs)
          else (case call_callbacks live ps hs (f ps) of (r', hs') \<Rightarrow> (r', h # hs')))"

definition call_on_parameters_set_callbacks ::
    "(nat \<Rightarrow> 'd on_set option) \<Rightarrow> 'd on_set option \<Rightarrow> 'd parameter list \<Rightarrow> nat list \<Rightarrow> set_result \<times> nat list" where
  "call_on_parameters_set_callbacks live callback ps hs =
     (case call_callbacks live ps hs accepted of
        (r, hs') \<Rightarrow>
          if \<not> successful r then (r, hs')
          else ((case callback of None \<Rightarrow> r | Some f \<Rightarrow> f ps), hs'))"

definition set_value :: "'d parameter \<Rightarrow> (string, 'd parameter_info) omap \<Rightarrow> (string, 'd parameter_info) omap" where
  "set_value p infos =
     (let i = info_at infos (param_name p)
      in omap_set (param_name p)
           \<lparr>info_value = param_value p,
            info_descriptor = (info_descriptor i)\<lparr>desc_name := param_name p, desc_type := param_type p\<rparr>\<rparr> infos)"

definition set_parameters_atomically_common ::
    "'d doubles \<Rightarrow> (nat \<Rightarrow> 'd on_set option) \<Rightarrow> 'd on_set option \<Rightarrow> bool \<Rightarrow> 'd parameter list \<Rightarrow>
     (string, 'd parameter_info) omap \<times> nat list \<Rightarrow>
     set_result \<times> (string, 'd parameter_info) omap \<times> nat list" where
  "set_parameters_atomically_common D live callback allow ps = (\<lambda>(infos, hs).
     case check_parameters D allow ps infos of
       (r, infos1) \<Rightarrow>
         if \<not> successful r then (r, (infos1, hs))
         else
           (case call_on_parameters_set_callbacks live callback ps hs of
              (r', hs') \<Rightarrow>
                if \<not> successful r' then (r', (infos1, hs'))
                else (r', (fold set_value ps infos1, hs'))))"

section \<open>Declaring\<close>

text \<open>
  The result, the declared parameters, the remaining handles and the new parameters of the event.
  The code checks and sets in a map of its own that holds the one parameter.
\<close>

definition declare_parameter_common ::
    "'d doubles \<Rightarrow> (nat \<Rightarrow> 'd on_set option) \<Rightarrow> 'd on_set option \<Rightarrow> string \<Rightarrow> 'd parameter_value \<Rightarrow>
     'd parameter_descriptor \<Rightarrow> (string, 'd parameter_value) omap \<Rightarrow> bool \<Rightarrow>
     (string, 'd parameter_info) omap \<times> nat list \<times> 'd parameter list \<Rightarrow>
     set_result \<times> (string, 'd parameter_info) omap \<times> nat list \<times> 'd parameter list" where
  "declare_parameter_common D live callback name default_value desc overrides ignore_override = (\<lambda>(out, hs, new).
     let infos = [(name, \<lparr>info_value = NotSet, info_descriptor = desc\<rparr>)];
         initial = (if ignore_override then default_value
                    else case map_of overrides name of None \<Rightarrow> default_value | Some v \<Rightarrow> v)
     in if get_type initial = PARAMETER_NOT_SET
        then
          let d = desc\<lparr>desc_name := name,
                       desc_type := (if dynamic_typing desc then PARAMETER_NOT_SET else desc_type desc)\<rparr>
          in (accepted, (omap_set name \<lparr>info_value = NotSet, info_descriptor = d\<rparr> out, hs, new))
        else
          (case set_parameters_atomically_common D live callback False [Parameter name initial] (infos, hs) of
             (r, (infos', hs')) \<Rightarrow>
               if \<not> successful r then (r, (out, hs', new))
               else (r, (omap_set name (info_at infos' name) out, hs', new @ [Parameter name initial]))))"

definition declare_parameter_helper ::
    "'d doubles \<Rightarrow> string \<Rightarrow> parameter_type \<Rightarrow> 'd parameter_value \<Rightarrow> 'd parameter_descriptor \<Rightarrow> bool \<Rightarrow>
     'd node_parameters \<Rightarrow> (param_exn + 'd parameter_value) \<times> 'd node_parameters" where
  "declare_parameter_helper D name ty default_value desc ignore_override np =
     (let ty1 = (if ty = PARAMETER_NOT_SET then get_type default_value else ty)
      in if name = [] then (Inl (InvalidParametersException ''parameter name must not be empty''), np)
         else if has_parameter name np
         then (Inl (ParameterAlreadyDeclaredException
                 (''parameter '' @ [CHR 0x27] @ name @ [CHR 0x27] @ '' has already been declared'')), np)
         else if \<not> dynamic_typing desc \<and> ty1 = PARAMETER_NOT_SET
         then (Inl (InvalidParameterTypeException name
                 ''cannot declare a statically typed parameter with an uninitialized value''), np)
         else
           let desc1 = (if dynamic_typing desc then desc else desc\<lparr>desc_type := ty1\<rparr>)
           in (case declare_parameter_common D (live_callback np) (on_set_callback np) name default_value desc1
                      (parameter_overrides np) ignore_override (parameters np, callback_container np, []) of
                 (r, (ps, hs, new)) \<Rightarrow>
                   let np1 = np\<lparr>parameters := ps, callback_container := hs\<rparr>
                   in if \<not> successful r
                      then
                        (if take 20 (reason r) = ''Wrong parameter type''
                         then (Inl (InvalidParameterTypeException name (reason r)), np1)
                         else (Inl (InvalidParameterValueException
                                 (''parameter '' @ [CHR 0x27] @ name @ [CHR 0x27] @ '' could not be set: '' @ reason r)), np1))
                      else
                        (Inr (info_value (info_at ps name)),
                         if publishes_events np1
                         then np1\<lparr>events := events np1 @
                                [\<lparr>event_node = combined_name np1, new_parameters = new, changed_parameters = [],
                                  deleted_parameters = []\<rparr>]\<rparr>
                         else np1)))"

text \<open>The guard against changes from within a callback.\<close>

definition guarded ::
    "'d node_parameters \<Rightarrow> (param_exn + 'r) \<times> 'd node_parameters \<Rightarrow> (param_exn + 'r) \<times> 'd node_parameters" where
  "guarded np r = (if \<not> parameter_modification_enabled np then (Inl ParameterModifiedInCallbackException, np) else r)"

definition declare_parameter ::
    "'d doubles \<Rightarrow> string \<Rightarrow> 'd parameter_value \<Rightarrow> 'd parameter_descriptor \<Rightarrow> bool \<Rightarrow>
     'd node_parameters \<Rightarrow> (param_exn + 'd parameter_value) \<times> 'd node_parameters" where
  "declare_parameter D name default_value desc ignore_override np =
     guarded np (declare_parameter_helper D name PARAMETER_NOT_SET default_value desc ignore_override np)"

definition declare_typed_parameter ::
    "'d doubles \<Rightarrow> string \<Rightarrow> parameter_type \<Rightarrow> 'd parameter_descriptor \<Rightarrow> bool \<Rightarrow>
     'd node_parameters \<Rightarrow> (param_exn + 'd parameter_value) \<times> 'd node_parameters" where
  "declare_typed_parameter D name ty desc ignore_override np =
     guarded np
       (if ty = PARAMETER_NOT_SET
        then (Inl (StdInvalidArgument
                ''declare_parameter(): the provided parameter type cannot be rclcpp::PARAMETER_NOT_SET''), np)
        else if dynamic_typing desc
        then (Inl (StdInvalidArgument
                ''declare_parameter(): cannot declare parameter of specific type and pass descriptorwith `dynamic_typing=true`''), np)
        else declare_parameter_helper D name ty NotSet desc ignore_override np)"

definition undeclare_parameter :: "string \<Rightarrow> 'd node_parameters \<Rightarrow> (param_exn + unit) \<times> 'd node_parameters" where
  "undeclare_parameter name np =
     guarded np
       (case map_of (parameters np) name of
          None \<Rightarrow> (Inl (ParameterNotDeclaredException
                    (''cannot undeclare parameter '' @ [CHR 0x27] @ name @ [CHR 0x27] @ '' which has not yet been declared'')), np)
        | Some i \<Rightarrow>
            if read_only (info_descriptor i)
            then (Inl (ParameterImmutableException
                    (''cannot undeclare parameter '' @ [CHR 0x27] @ name @ [CHR 0x27] @ '' because it is read-only'')), np)
            else if \<not> dynamic_typing (info_descriptor i)
            then (Inl (InvalidParameterTypeException name ''cannot undeclare an statically typed parameter''), np)
            else (Inr (), np\<lparr>parameters := omap_erase name (parameters np)\<rparr>))"

section \<open>Setting atomically\<close>

datatype 'd scan = Scan_throws param_exn | Scan_refuses set_result | Scan_declares "'d parameter list"

text \<open>The first loop: names, undeclared and read-only parameters.\<close>

fun scan_parameters :: "'d node_parameters \<Rightarrow> 'd parameter list \<Rightarrow> 'd scan" where
  "scan_parameters np [] = Scan_declares []"
| "scan_parameters np (p # ps) =
     (if param_name p = [] then Scan_throws (InvalidParametersException ''parameter name must not be empty'')
      else
        (case map_of (parameters np) (param_name p) of
           None \<Rightarrow>
             if allow_undeclared np
             then (case scan_parameters np ps of Scan_declares qs \<Rightarrow> Scan_declares (p # qs) | r \<Rightarrow> r)
             else Scan_throws (ParameterNotDeclaredException
                    (''parameter '' @ [CHR 0x27] @ param_name p @ [CHR 0x27] @ '' cannot be set because it was not declared''))
         | Some i \<Rightarrow>
             if read_only (info_descriptor i)
             then Scan_refuses \<lparr>successful = False,
                    reason = ''parameter '' @ [CHR 0x27] @ param_name p @ [CHR 0x27] @ '' cannot be set because it is read-only''\<rparr>
             else scan_parameters np ps))"

text \<open>The staging area: implicit declarations, without overrides and without callbacks.\<close>

fun stage_declarations ::
    "'d doubles \<Rightarrow> (string, 'd parameter_value) omap \<Rightarrow> 'd parameter list \<Rightarrow>
     (string, 'd parameter_info) omap \<times> 'd parameter list \<Rightarrow>
     set_result \<times> (string, 'd parameter_info) omap \<times> 'd parameter list" where
  "stage_declarations D overrides [] s = (accepted, s)"
| "stage_declarations D overrides (p # ps) (staged, new) =
     (case declare_parameter_common D (\<lambda>_. None) None (param_name p) (param_value p)
             (ParameterDescriptor\<lparr>dynamic_typing := True\<rparr>) overrides True (staged, [], new) of
        (r, (staged1, _, new1)) \<Rightarrow>
          if \<not> successful r then (r, (staged1, new1)) else stage_declarations D overrides ps (staged1, new1))"

text \<open>Replacing the first parameter of a name, as \<open>__find_parameter_by_name\<close> finds it.\<close>

fun replace_first :: "string \<Rightarrow> 'd parameter_value \<Rightarrow> 'd parameter list \<Rightarrow> 'd parameter list" where
  "replace_first n v [] = []"
| "replace_first n v (p # ps) = (if param_name p = n then Parameter n v # ps else p # replace_first n v ps)"

text \<open>
  \<open>differs\<close> stands for \<open>operator!=\<close> of two values, which for floating-point numbers is not the
  equality of the logic.
\<close>

definition any_initial_values_used ::
    "('d parameter_value \<Rightarrow> 'd parameter_value \<Rightarrow> bool) \<Rightarrow> 'd parameter list \<Rightarrow> (string, 'd parameter_info) omap \<Rightarrow> bool" where
  "any_initial_values_used differs ps staged \<longleftrightarrow>
     (\<exists>(n, i) \<in> set staged. case find (\<lambda>p. param_name p = n) ps of
        None \<Rightarrow> False | Some p \<Rightarrow> differs (param_value p) (info_value i))"

definition parameters_to_be_set ::
    "('d parameter_value \<Rightarrow> 'd parameter_value \<Rightarrow> bool) \<Rightarrow> 'd parameter list \<Rightarrow> (string, 'd parameter_info) omap \<Rightarrow>
     'd parameter list" where
  "parameters_to_be_set differs ps staged =
     (if any_initial_values_used differs ps staged
      then fold (\<lambda>(n, i) qs. replace_first n (info_value i) qs) staged ps else ps)"

text \<open>The parameters whose type becomes \<open>PARAMETER_NOT_SET\<close>; a statically typed one refuses.\<close>

fun parameters_to_be_undeclared :: "'d node_parameters \<Rightarrow> 'd parameter list \<Rightarrow> set_result + 'd parameter list" where
  "parameters_to_be_undeclared np [] = Inr []"
| "parameters_to_be_undeclared np (p # ps) =
     (case map_of (parameters np) (param_name p) of
        Some i \<Rightarrow>
          if param_type p = PARAMETER_NOT_SET \<and> get_type (info_value i) \<noteq> PARAMETER_NOT_SET
          then
            (if \<not> dynamic_typing (info_descriptor i)
             then Inl \<lparr>successful = False, reason = ''cannot undeclare an statically typed parameter''\<rparr>
             else map_sum (\<lambda>r. r) ((#) p) (parameters_to_be_undeclared np ps))
          else parameters_to_be_undeclared np ps
      | None \<Rightarrow> parameters_to_be_undeclared np ps)"

definition merge_staged ::
    "(string, 'd parameter_info) omap \<Rightarrow> (string, 'd parameter_info) omap \<Rightarrow> (string, 'd parameter_info) omap" where
  "merge_staged staged infos = fold (\<lambda>(n, i). omap_set n i) staged infos"

fun erase_undeclared ::
    "'d parameter list \<Rightarrow> (string, 'd parameter_info) omap \<times> 'd parameter list \<Rightarrow>
     (string, 'd parameter_info) omap \<times> 'd parameter list" where
  "erase_undeclared [] s = s"
| "erase_undeclared (p # ps) (infos, deleted) =
     (case map_of infos (param_name p) of
        None \<Rightarrow> erase_undeclared ps (infos, deleted)
      | Some i \<Rightarrow>
          erase_undeclared ps (omap_erase (param_name p) infos, deleted @ [Parameter (param_name p) (info_value i)]))"

definition only_changed ::
    "(string, 'd parameter_info) omap \<Rightarrow> 'd parameter list \<Rightarrow> 'd parameter list \<Rightarrow> 'd parameter list" where
  "only_changed staged undeclared ps =
     filter (\<lambda>p. map_of staged (param_name p) = None \<and> param_name p \<notin> param_name ` set undeclared) ps"

definition set_parameters_atomically ::
    "'d doubles \<Rightarrow> ('d parameter_value \<Rightarrow> 'd parameter_value \<Rightarrow> bool) \<Rightarrow> 'd parameter list \<Rightarrow>
     'd node_parameters \<Rightarrow> (param_exn + set_result) \<times> 'd node_parameters" where
  "set_parameters_atomically D differs ps np =
     guarded np
       (case scan_parameters np ps of
          Scan_throws e \<Rightarrow> (Inl e, np)
        | Scan_refuses r \<Rightarrow> (Inr r, np)
        | Scan_declares qs \<Rightarrow>
            (case stage_declarations D (parameter_overrides np) qs ([], []) of
               (r, (staged, new)) \<Rightarrow>
                 if \<not> successful r then (Inr r, np)
                 else
                   let ps' = parameters_to_be_set differs ps staged
                   in (case parameters_to_be_undeclared np ps' of
                         Inl r \<Rightarrow> (Inr r, np)
                       | Inr undeclared \<Rightarrow>
                           (case set_parameters_atomically_common D (live_callback np) (on_set_callback np)
                                   (allow_undeclared np) ps' (parameters np, callback_container np) of
                              (r, (infos, hs)) \<Rightarrow>
                                if \<not> successful r
                                then (Inr r, np\<lparr>parameters := infos, callback_container := hs\<rparr>)
                                else
                                  (case erase_undeclared undeclared (merge_staged staged infos, []) of
                                     (infos', deleted) \<Rightarrow>
                                       let np1 = np\<lparr>parameters := infos', callback_container := hs\<rparr>
                                       in (Inr r,
                                           if publishes_events np1
                                           then np1\<lparr>events := events np1 @
                                                  [\<lparr>event_node = combined_name np1, new_parameters = new,
                                                    changed_parameters = only_changed staged undeclared ps',
                                                    deleted_parameters = deleted\<rparr>]\<rparr>
                                           else np1))))))"

fun set_parameters ::
    "'d doubles \<Rightarrow> ('d parameter_value \<Rightarrow> 'd parameter_value \<Rightarrow> bool) \<Rightarrow> 'd parameter list \<Rightarrow>
     'd node_parameters \<Rightarrow> (param_exn + set_result list) \<times> 'd node_parameters" where
  "set_parameters D differs [] np = (Inr [], np)"
| "set_parameters D differs (p # ps) np =
     (case set_parameters_atomically D differs [p] np of
        (Inl e, np1) \<Rightarrow> (Inl e, np1)
      | (Inr r, np1) \<Rightarrow>
          (case set_parameters D differs ps np1 of
             (Inl e, np2) \<Rightarrow> (Inl e, np2)
           | (Inr rs, np2) \<Rightarrow> (Inr (r # rs), np2)))"

section \<open>Callbacks\<close>

definition add_on_set_parameters_callback ::
    "nat \<Rightarrow> 'd on_set \<Rightarrow> 'd node_parameters \<Rightarrow> (param_exn + unit) \<times> 'd node_parameters" where
  "add_on_set_parameters_callback h f np =
     guarded np (Inr (), np\<lparr>live_callback := (live_callback np)(h \<mapsto> f),
                             callback_container := h # callback_container np\<rparr>)"

definition remove_on_set_parameters_callback ::
    "nat \<Rightarrow> 'd node_parameters \<Rightarrow> (param_exn + unit) \<times> 'd node_parameters" where
  "remove_on_set_parameters_callback h np =
     guarded np
       (if live_callback np h \<noteq> None \<and> h \<in> set (callback_container np)
        then (Inr (), np\<lparr>callback_container := remove1 h (callback_container np)\<rparr>)
        else (Inl (StdRuntimeError ''Callback doesn't exist''), np))"

text \<open>The user drops the handle of a callback.\<close>

definition drop_callback_handle :: "nat \<Rightarrow> 'd node_parameters \<Rightarrow> 'd node_parameters" where
  "drop_callback_handle h np = np\<lparr>live_callback := (live_callback np)(h := None)\<rparr>"

section \<open>Reading\<close>

fun get_parameters :: "string list \<Rightarrow> 'd node_parameters \<Rightarrow> param_exn + 'd parameter list" where
  "get_parameters [] np = Inr []"
| "get_parameters (n # ns) np =
     (case map_of (parameters np) n of
        Some i \<Rightarrow> map_sum (\<lambda>e. e) ((#) (Parameter n (info_value i))) (get_parameters ns np)
      | None \<Rightarrow>
          if allow_undeclared np then map_sum (\<lambda>e. e) ((#) (Parameter n NotSet)) (get_parameters ns np)
          else Inl (ParameterNotDeclaredException n))"

definition get_parameter :: "string \<Rightarrow> 'd node_parameters \<Rightarrow> param_exn + 'd parameter" where
  "get_parameter n np =
     (case map_of (parameters np) n of
        Some i \<Rightarrow>
          if get_type (info_value i) \<noteq> PARAMETER_NOT_SET \<or> dynamic_typing (info_descriptor i)
          then Inr (Parameter n (info_value i))
          else if allow_undeclared np then Inr (Parameter [] NotSet)
          else Inl (ParameterUninitializedException n)
      | None \<Rightarrow> if allow_undeclared np then Inr (Parameter [] NotSet) else Inl (ParameterNotDeclaredException n))"

definition get_parameter_if_set :: "string \<Rightarrow> 'd node_parameters \<Rightarrow> 'd parameter option" where
  "get_parameter_if_set n np =
     (case map_of (parameters np) n of
        Some i \<Rightarrow> if get_type (info_value i) \<noteq> PARAMETER_NOT_SET then Some (Parameter n (info_value i)) else None
      | None \<Rightarrow> None)"

definition get_parameters_by_prefix ::
    "string \<Rightarrow> 'd node_parameters \<Rightarrow> (string, 'd parameter) omap \<Rightarrow> bool \<times> (string, 'd parameter) omap" where
  "get_parameters_by_prefix prefix np out =
     (let dotted = (if prefix = [] then prefix else prefix @ ''.'');
          found = filter (\<lambda>(n, i). take (length dotted) n = dotted \<and> length n > length dotted) (parameters np)
      in (found \<noteq> [],
          fold (\<lambda>(n, i). omap_set (drop (length dotted) n) (Parameter (desc_name (info_descriptor i)) (info_value i)))
            found out))"

fun describe_parameters :: "string list \<Rightarrow> 'd node_parameters \<Rightarrow> param_exn + 'd parameter_descriptor list" where
  "describe_parameters [] np = Inr []"
| "describe_parameters (n # ns) np =
     (case map_of (parameters np) n of
        Some i \<Rightarrow> map_sum (\<lambda>e. e) ((#) (info_descriptor i)) (describe_parameters ns np)
      | None \<Rightarrow>
          if allow_undeclared np
          then map_sum (\<lambda>e. e) ((#) (ParameterDescriptor\<lparr>desc_name := n\<rparr>)) (describe_parameters ns np)
          else Inl (ParameterNotDeclaredException n))"

fun get_parameter_types :: "string list \<Rightarrow> 'd node_parameters \<Rightarrow> param_exn + parameter_type list" where
  "get_parameter_types [] np = Inr []"
| "get_parameter_types (n # ns) np =
     (case map_of (parameters np) n of
        Some i \<Rightarrow> map_sum (\<lambda>e. e) ((#) (get_type (info_value i))) (get_parameter_types ns np)
      | None \<Rightarrow>
          if allow_undeclared np then map_sum (\<lambda>e. e) ((#) PARAMETER_NOT_SET) (get_parameter_types ns np)
          else Inl (ParameterNotDeclaredException n))"

text \<open>
  Listing.  Depth 0 is \<open>DEPTH_RECURSIVE\<close>; the separator is a dot.
\<close>

definition separators :: "string \<Rightarrow> nat" where
  "separators s = length (filter (\<lambda>c. c = CHR ''.'') s)"

definition is_listed :: "string list \<Rightarrow> nat \<Rightarrow> string \<Rightarrow> bool" where
  "is_listed prefixes depth n \<longleftrightarrow>
     prefixes = [] \<and> (depth = 0 \<or> separators n < depth) \<or>
     (\<exists>prefix \<in> set prefixes.
        n = prefix \<or>
        take (length prefix + 1) n = prefix @ ''.'' \<and>
        (depth = 0 \<or> separators (drop (length prefix) n) < depth))"

text \<open>\<open>find_last_of\<close>: the part before the last dot, if there is a dot.\<close>

definition prefix_of_name :: "string \<Rightarrow> string option" where
  "prefix_of_name n =
     (if separators n = 0 then None else Some (rev (tl (dropWhile (\<lambda>c. c \<noteq> CHR ''.'') (rev n)))))"

definition add_listed :: "string \<Rightarrow> string list \<times> string list \<Rightarrow> string list \<times> string list" where
  "add_listed n = (\<lambda>(ns, prefixes).
     (ns @ [n],
      case prefix_of_name n of
        None \<Rightarrow> prefixes
      | Some p \<Rightarrow> if p \<in> set prefixes then prefixes else prefixes @ [p]))"

definition list_parameters :: "string list \<Rightarrow> nat \<Rightarrow> 'd node_parameters \<Rightarrow> string list \<times> string list" where
  "list_parameters prefixes depth np =
     fold (\<lambda>(n, i) r. if is_listed prefixes depth n then add_listed n r else r) (parameters np) ([], [])"

section \<open>Construction\<close>

text \<open>
  \<open>sources\<close> are the parameters that \<open>rcl\<close> and the parser of parameter files give for this node
  from the global and the local arguments, in this order.
\<close>

definition resolve_parameter_overrides ::
    "'d parameter list list \<Rightarrow> 'd parameter list \<Rightarrow> (string, 'd parameter_value) omap" where
  "resolve_parameter_overrides sources overrides =
     fold (\<lambda>p. omap_set (param_name p) (param_value p)) (concat sources @ overrides) []"

fun declare_from_overrides ::
    "'d doubles \<Rightarrow> (string \<times> 'd parameter_value) list \<Rightarrow> 'd node_parameters \<Rightarrow> (param_exn + unit) \<times> 'd node_parameters" where
  "declare_from_overrides D [] np = (Inr (), np)"
| "declare_from_overrides D ((n, v) # ovs) np =
     (if has_parameter n np then declare_from_overrides D ovs np
      else
        (case declare_parameter D n v (ParameterDescriptor\<lparr>dynamic_typing := True\<rparr>) True np of
           (Inl e, np1) \<Rightarrow> (Inl e, np1)
         | (Inr _, np1) \<Rightarrow> declare_from_overrides D ovs np1))"

definition NodeParameters ::
    "'d doubles \<Rightarrow> string \<Rightarrow> 'd parameter list list \<Rightarrow> 'd parameter list \<Rightarrow> bool \<Rightarrow> bool \<Rightarrow> bool \<Rightarrow>
     (param_exn + unit) \<times> 'd node_parameters" where
  "NodeParameters D name sources overrides start_event_publisher allow automatically_declare =
     (let np = \<lparr>parameters = [], parameter_overrides = resolve_parameter_overrides sources overrides,
               allow_undeclared = allow, parameter_modification_enabled = True, callback_container = [],
               live_callback = (\<lambda>_. None), on_set_callback = None, publishes_events = start_event_publisher,
               combined_name = name, events = []\<rparr>
      in if automatically_declare then declare_from_overrides D (parameter_overrides np) np else (Inr (), np))"

end
