(* ===== verification/Parameter_Safety.thy ===== *)
theory Parameter_Safety
  imports Node_Parameters
begin

text \<open>
  What the operations of \<open>Node_Parameters\<close> guarantee: types, names and ranges stay consistent,
  read-only and statically typed parameters cannot be changed or removed, and setting several
  parameters takes effect as a whole or not at all.
\<close>

section \<open>The loops\<close>

lemma omap_set_same: "omap_ok m \<Longrightarrow> map_of m k = Some v \<Longrightarrow> omap_set k v m = m"
proof (induction m)
  case Nil
  then show ?case by simp
next
  case (Cons p m)
  then have "omap_ok m" by (simp add: omap_ok_def)
  moreover have "fst p < k" if "fst p \<noteq> k" "map_of m k = Some v"
    using Cons.prems(1) that by (auto simp: omap_ok_def dest!: map_of_SomeD)
  ultimately show ?case using Cons by (cases p) auto
qed

lemma check_parameters_declared:
  assumes "omap_ok infos" and "allow \<or> (\<forall>p \<in> set ps. map_of infos (param_name p) \<noteq> None)"
  shows "snd (check_parameters D allow ps infos) = infos \<and>
    (successful (fst (check_parameters D allow ps infos)) \<longleftrightarrow>
       (\<forall>p \<in> set ps. successful (check_parameter D allow infos p)))"
  using assms(2)
proof (induction ps)
  case Nil
  then show ?case by simp
next
  case (Cons p ps)
  then have "allow \<or> omap_set (param_name p) (info_at infos (param_name p)) infos = infos"
    using assms(1) by (auto simp: info_at_def intro: omap_set_same)
  with Cons show ?case by (auto simp: Let_def)
qed

text \<open>The last parameter of a name decides.\<close>

definition last_of :: "string \<Rightarrow> 'd parameter list \<Rightarrow> 'd parameter option" where
  "last_of n ps = find (\<lambda>p. param_name p = n) (rev ps)"

lemma last_of_Nil [simp]: "last_of n [] = None"
  by (simp add: last_of_def)

lemma last_of_snoc [simp]: "last_of n (ps @ [p]) = (if param_name p = n then Some p else last_of n ps)"
  by (simp add: last_of_def)

lemma last_of_None: "last_of n ps = None \<longleftrightarrow> n \<notin> param_name ` set ps"
  by (auto simp: last_of_def find_None_iff)

lemma last_of_Some: "last_of n ps = Some p \<Longrightarrow> p \<in> set ps \<and> param_name p = n"
  by (auto simp: last_of_def find_Some_iff) (metis nth_mem set_rev length_rev)

lemma last_of_distinct: "distinct (map param_name ps) \<Longrightarrow> p \<in> set ps \<Longrightarrow> last_of (param_name p) ps = Some p"
  by (induction ps rule: rev_induct) auto

lemma lookup_set_value:
  "map_of (set_value p infos) n =
     (if n = param_name p
      then Some \<lparr>info_value = param_value p,
                 info_descriptor = (info_descriptor (info_at infos n))\<lparr>desc_name := n, desc_type := param_type p\<rparr>\<rparr>
      else map_of infos n)"
  by (simp add: set_value_def Let_def)

lemma lookup_set_values:
  "map_of (fold set_value ps infos) n =
     (case last_of n ps of
        None \<Rightarrow> map_of infos n
      | Some p \<Rightarrow> Some \<lparr>info_value = param_value p,
                       info_descriptor = (info_descriptor (info_at infos n))\<lparr>desc_name := n, desc_type := param_type p\<rparr>\<rparr>)"
proof (induction ps rule: rev_induct)
  case Nil
  then show ?case by simp
next
  case (snoc p ps)
  show ?case
  proof (cases "param_name p = n")
    case False
    with snoc show ?thesis by (simp add: lookup_set_value)
  next
    case True
    with snoc have "info_descriptor (info_at (fold set_value ps infos) n) =
        (case last_of n ps of None \<Rightarrow> info_descriptor (info_at infos n)
         | Some q \<Rightarrow> (info_descriptor (info_at infos n))\<lparr>desc_name := n, desc_type := param_type q\<rparr>)"
      by (auto simp: info_at_def split: option.splits)
    with True show ?thesis by (auto simp: lookup_set_value split: option.splits)
  qed
qed

lemma omap_ok_set_values: "omap_ok infos \<Longrightarrow> omap_ok (fold set_value ps infos)"
  by (induction ps arbitrary: infos) (auto simp: set_value_def Let_def)

text \<open>Implicit declarations always succeed; they are dynamically typed.\<close>

definition implicit_info :: "'d parameter \<Rightarrow> 'd parameter_info" where
  "implicit_info p =
     \<lparr>info_value = param_value p,
      info_descriptor = ParameterDescriptor\<lparr>dynamic_typing := True, desc_name := param_name p, desc_type := param_type p\<rparr>\<rparr>"

lemma check_range_without_ranges [simp]:
  "integer_range d = [] \<Longrightarrow> floating_point_range d = [] \<Longrightarrow> check_parameter_value_in_range D d v = accepted"
  by (simp add: check_parameter_value_in_range_def split: parameter_value.splits)

lemma declare_implicitly:
  "declare_parameter_common D live None (param_name p) (param_value p)
     (ParameterDescriptor\<lparr>dynamic_typing := True\<rparr>) ovs True (out, [], new) =
   (accepted, (omap_set (param_name p) (implicit_info p) out, [],
     new @ (if param_type p = PARAMETER_NOT_SET then [] else [p])))"
  by (simp add: declare_parameter_common_def set_parameters_atomically_common_def check_parameter_def
      descriptor_for_def info_at_def call_on_parameters_set_callbacks_def set_value_def Let_def
      implicit_info_def param_type_def ParameterDescriptor_def split: prod.splits)

lemma stage_declarations_eq:
  "stage_declarations D ovs qs (staged, new) =
     (accepted, (fold (\<lambda>p. omap_set (param_name p) (implicit_info p)) qs staged,
       new @ filter (\<lambda>p. param_type p \<noteq> PARAMETER_NOT_SET) qs))"
  by (induction qs arbitrary: staged new) (simp_all add: declare_implicitly)

lemma lookup_staged:
  "map_of (fold (\<lambda>p. omap_set (param_name p) (implicit_info p)) qs []) n = map_option implicit_info (last_of n qs)"
  by (induction qs rule: rev_induct) auto

lemma omap_ok_staged:
  "omap_ok m \<Longrightarrow> omap_ok (fold (\<lambda>p. omap_set (param_name p) (implicit_info p)) qs m)"
  by (induction qs arbitrary: m) auto

lemma scan_declares:
  "scan_parameters np ps = Scan_declares qs \<Longrightarrow>
     qs = filter (\<lambda>p. \<not> has_parameter (param_name p) np) ps \<and>
     (\<forall>p \<in> set ps. param_name p \<noteq> [] \<and>
        (case map_of (parameters np) (param_name p) of
           None \<Rightarrow> allow_undeclared np | Some i \<Rightarrow> \<not> read_only (info_descriptor i)))"
  by (induction ps arbitrary: qs)
    (auto simp: has_parameter_def split: option.splits if_splits scan.splits)

definition is_undeclared :: "'d node_parameters \<Rightarrow> 'd parameter \<Rightarrow> bool" where
  "is_undeclared np p \<longleftrightarrow> param_type p = PARAMETER_NOT_SET \<and>
     (case map_of (parameters np) (param_name p) of None \<Rightarrow> False | Some i \<Rightarrow> info_value i \<noteq> NotSet)"

lemma to_be_undeclared:
  "parameters_to_be_undeclared np ps = Inr us \<Longrightarrow>
     us = filter (is_undeclared np) ps \<and>
     (\<forall>p \<in> set us. dynamic_typing (info_descriptor (info_at (parameters np) (param_name p))))"
proof (induction ps arbitrary: us)
  case Nil
  then show ?case by simp
next
  case (Cons p ps)
  show ?case
  proof (cases "is_undeclared np p")
    case False
    with Cons show ?thesis by (auto simp: is_undeclared_def split: option.splits if_splits)
  next
    case True
    then obtain i where i: "map_of (parameters np) (param_name p) = Some i" "info_value i \<noteq> NotSet"
      and t: "param_type p = PARAMETER_NOT_SET"
      by (auto simp: is_undeclared_def split: option.splits)
    with Cons.prems obtain vs where "parameters_to_be_undeclared np ps = Inr vs" "us = p # vs"
      "dynamic_typing (info_descriptor i)"
      by (auto simp: map_sum_def split: if_splits sum.splits)
    with Cons.IH [of vs] True i show ?thesis by (simp add: info_at_def)
  qed
qed

lemma lookup_erase_undeclared:
  "map_of (fst (erase_undeclared us (infos, del))) n = (if n \<in> param_name ` set us then None else map_of infos n)"
  by (induction us arbitrary: infos del) (auto split: option.splits)

lemma omap_ok_erase_undeclared: "omap_ok infos \<Longrightarrow> omap_ok (fst (erase_undeclared us (infos, del)))"
  by (induction us arbitrary: infos del) (auto split: option.splits)

lemma lookup_merge_staged:
  "distinct (map fst staged) \<Longrightarrow>
     map_of (merge_staged staged infos) n = (case map_of staged n of None \<Rightarrow> map_of infos n | Some i \<Rightarrow> Some i)"
proof (induction staged arbitrary: infos)
  case Nil
  then show ?case by (simp add: merge_staged_def)
next
  case (Cons a staged)
  obtain m i where a: "a = (m, i)" by force
  have "merge_staged (a # staged) infos = merge_staged staged (omap_set m i infos)"
    by (simp add: merge_staged_def a)
  moreover have "map_of staged m = None" using Cons.prems a by (simp add: map_of_eq_None_iff)
  ultimately show ?case using Cons a by (cases "n = m") (simp_all split: option.split)
qed

lemma omap_ok_merge_staged: "omap_ok infos \<Longrightarrow> omap_ok (merge_staged staged infos)"
  unfolding merge_staged_def by (induction staged arbitrary: infos) auto

lemma replace_first_names [simp]: "map param_name (replace_first n v ps) = map param_name ps"
  by (induction ps) auto

lemma replace_first_other: "p \<in> set (replace_first n v ps) \<Longrightarrow> p \<in> set ps \<or> param_name p = n"
  by (induction ps) (auto split: if_splits)

lemma to_be_set_names [simp]: "map param_name (parameters_to_be_set differs ps staged) = map param_name ps"
proof -
  have "map param_name (fold (\<lambda>(n, i). replace_first n (info_value i)) staged qs) = map param_name qs" for qs :: "'a parameter list"
    by (induction staged arbitrary: qs) auto
  then show ?thesis by (simp add: parameters_to_be_set_def)
qed

lemma to_be_set_other:
  "p \<in> set (parameters_to_be_set differs ps staged) \<Longrightarrow> p \<in> set ps \<or> map_of staged (param_name p) \<noteq> None"
proof -
  have "p \<in> set (fold (\<lambda>(n, i). replace_first n (info_value i)) staged qs) \<Longrightarrow>
      p \<in> set qs \<or> param_name p \<in> fst ` set staged" for qs
  proof (induction staged arbitrary: qs)
    case Nil
    then show ?case by simp
  next
    case (Cons a staged)
    from Cons.IH [of "replace_first (fst a) (info_value (snd a)) qs"] Cons.prems
    show ?case by (auto simp: case_prod_beta dest: replace_first_other)
  qed
  then show "p \<in> set (parameters_to_be_set differs ps staged) \<Longrightarrow> ?thesis"
    by (auto simp: parameters_to_be_set_def map_of_eq_None_iff split: if_splits)
qed

section \<open>Setting several parameters\<close>

definition staged_for :: "'d node_parameters \<Rightarrow> 'd parameter list \<Rightarrow> (string, 'd parameter_info) omap" where
  "staged_for np ps =
     fold (\<lambda>p. omap_set (param_name p) (implicit_info p)) (filter (\<lambda>p. \<not> has_parameter (param_name p) np) ps) []"

lemma staged_for_ok: "omap_ok (staged_for np ps)"
  by (simp add: staged_for_def omap_ok_staged)

lemma lookup_staged_for:
  "map_of (staged_for np ps) n =
     map_option implicit_info (last_of n (filter (\<lambda>p. \<not> has_parameter (param_name p) np) ps))"
  by (simp add: staged_for_def lookup_staged)

lemma staged_for_None: "map_of (staged_for np ps) n = None \<longleftrightarrow> has_parameter n np \<or> n \<notin> param_name ` set ps"
  by (auto simp: lookup_staged_for last_of_None)

text \<open>The state after a successful call, and what is known when it succeeds.\<close>

definition new_infos ::
    "'d node_parameters \<Rightarrow> 'd parameter list \<Rightarrow> 'd parameter list \<Rightarrow> (string, 'd parameter_info) omap \<times> 'd parameter list" where
  "new_infos np ps ps' =
     erase_undeclared (filter (is_undeclared np) ps')
       (merge_staged (staged_for np ps) (fold set_value ps' (parameters np)), [])"

definition set_event :: "'d node_parameters \<Rightarrow> 'd parameter list \<Rightarrow> 'd parameter list \<Rightarrow> 'd parameter_event" where
  "set_event np ps ps' =
     \<lparr>event_node = combined_name np,
      new_parameters =
        filter (\<lambda>p. param_type p \<noteq> PARAMETER_NOT_SET) (filter (\<lambda>p. \<not> has_parameter (param_name p) np) ps),
      changed_parameters = only_changed (staged_for np ps) (filter (is_undeclared np) ps') ps',
      deleted_parameters = snd (new_infos np ps ps')\<rparr>"

definition set_applied ::
    "'d node_parameters \<Rightarrow> 'd parameter list \<Rightarrow> 'd parameter list \<Rightarrow> 'd node_parameters" where
  "set_applied np ps ps' =
     (let np1 = np\<lparr>parameters := fst (new_infos np ps ps')\<rparr>
      in if publishes_events np then np1\<lparr>events := events np @ [set_event np ps ps']\<rparr> else np1)"

definition may_set :: "'d doubles \<Rightarrow> 'd node_parameters \<Rightarrow> 'd parameter \<Rightarrow> bool" where
  "may_set D np p \<longleftrightarrow>
     param_name p \<noteq> [] \<and> successful (check_parameter D (allow_undeclared np) (parameters np) p) \<and>
     (case map_of (parameters np) (param_name p) of
        None \<Rightarrow> allow_undeclared np
      | Some i \<Rightarrow> \<not> read_only (info_descriptor i) \<and> (is_undeclared np p \<longrightarrow> dynamic_typing (info_descriptor i)))"

lemma may_setI:
  assumes "scan_parameters np ps = Scan_declares qs"
    and "parameters_to_be_undeclared np ps' = Inr us"
    and "map param_name ps' = map param_name ps"
    and "\<forall>p \<in> set ps'. successful (check_parameter D (allow_undeclared np) (parameters np) p)"
    and "p \<in> set ps'"
  shows "may_set D np p"
proof -
  from assms(3,5) obtain q where q: "q \<in> set ps" "param_name q = param_name p"
    by (metis imageE image_eqI list.set_map)
  with scan_declares [OF assms(1)] have "param_name p \<noteq> []"
    "case map_of (parameters np) (param_name p) of
       None \<Rightarrow> allow_undeclared np | Some i \<Rightarrow> \<not> read_only (info_descriptor i)"
    by force+
  with to_be_undeclared [OF assms(2)] assms(4,5) show ?thesis
    by (auto simp: may_set_def info_at_def split: option.splits)
qed

lemma set_common_result:
  assumes "omap_ok infos" and "allow \<or> (\<forall>p \<in> set ps. map_of infos (param_name p) \<noteq> None)"
    and "set_parameters_atomically_common D live callback allow ps (infos, hs) = (r, (infos', hs'))"
  shows "if successful r
         then infos' = fold set_value ps infos \<and> (\<forall>p \<in> set ps. successful (check_parameter D allow infos p))
         else infos' = infos"
proof -
  obtain r1 where "check_parameters D allow ps infos = (r1, infos)"
    "successful r1 \<longleftrightarrow> (\<forall>p \<in> set ps. successful (check_parameter D allow infos p))"
    using check_parameters_declared [OF assms(1,2), of D] by (metis prod.collapse)
  with assms(3) show ?thesis
    by (auto simp: set_parameters_atomically_common_def split: if_splits prod.splits)
qed

lemma scan_refuses_fails: "scan_parameters np ps = Scan_refuses r \<Longrightarrow> \<not> successful r"
  by (induction ps) (auto split: option.splits if_splits scan.splits)

lemma undeclared_refuses_fails: "parameters_to_be_undeclared np ps = Inl r \<Longrightarrow> \<not> successful r"
  by (induction ps) (auto simp: map_sum_def split: option.splits if_splits sum.splits)

lemma set_atomically_run:
  assumes "parameter_modification_enabled np" and "scan_parameters np ps = Scan_declares qs"
    and "ps' = parameters_to_be_set differs ps (staged_for np ps)"
    and "parameters_to_be_undeclared np ps' = Inr us"
    and "set_parameters_atomically_common D (live_callback np) (on_set_callback np)
        (allow_undeclared np) ps' (parameters np, callback_container np) = (r, (infos, hs))"
  shows "set_parameters_atomically D differs ps np =
    (if \<not> successful r then (Inr r, np\<lparr>parameters := infos, callback_container := hs\<rparr>)
     else case erase_undeclared us (merge_staged (staged_for np ps) infos, []) of
            (infos', deleted) \<Rightarrow>
              let np1 = np\<lparr>parameters := infos', callback_container := hs\<rparr>
              in (Inr r,
                  if publishes_events np1
                  then np1\<lparr>events := events np1 @
                         [\<lparr>event_node = combined_name np1,
                           new_parameters = filter (\<lambda>p. param_type p \<noteq> PARAMETER_NOT_SET) qs,
                           changed_parameters = only_changed (staged_for np ps) us ps',
                           deleted_parameters = deleted\<rparr>]\<rparr>
                  else np1))"
proof -
  have "fold (\<lambda>p. omap_set (param_name p) (implicit_info p)) qs [] = staged_for np ps"
    using scan_declares [OF assms(2)] by (simp add: staged_for_def)
  with assms(1,2,4,5) show ?thesis
    by (simp add: set_parameters_atomically_def guarded_def stage_declarations_eq Let_def
        flip: assms(3) split: prod.split)
qed

lemma set_atomically_cases:
  assumes "omap_ok (parameters np)"
    and "set_parameters_atomically D differs ps np = (res, np')"
  obtains (refused) "\<And>r. res = Inr r \<Longrightarrow> \<not> successful r" and "np' = np\<lparr>callback_container := callback_container np'\<rparr>"
    | (applied) r ps' hs where "res = Inr r" and "successful r"
      and "ps' = parameters_to_be_set differs ps (staged_for np ps)"
      and "\<And>p. p \<in> set ps' \<Longrightarrow> may_set D np p"
      and "np' = (set_applied np ps ps')\<lparr>callback_container := hs\<rparr>"
proof (cases "parameter_modification_enabled np \<and> (\<exists>qs. scan_parameters np ps = Scan_declares qs)")
  case False
  with assms(2) show thesis
    by (intro refused) (auto simp: set_parameters_atomically_def guarded_def split: if_splits scan.splits
        dest: scan_refuses_fails)
next
  case True
  then obtain qs where scan: "scan_parameters np ps = Scan_declares qs" by blast
  have qs: "qs = filter (\<lambda>p. \<not> has_parameter (param_name p) np) ps" using scan_declares [OF scan] by blast
  define ps' where "ps' = parameters_to_be_set differs ps (staged_for np ps)"
  show thesis
  proof (cases "parameters_to_be_undeclared np ps'")
    case (Inl r)
    then have "\<not> successful r" by (rule undeclared_refuses_fails)
    with Inl assms(2) True show thesis
      by (intro refused) (auto simp: set_parameters_atomically_def guarded_def scan stage_declarations_eq qs
          ps'_def staged_for_def Let_def)
  next
    case (Inr us)
    obtain r infos hs where common: "set_parameters_atomically_common D (live_callback np) (on_set_callback np)
        (allow_undeclared np) ps' (parameters np, callback_container np) = (r, (infos, hs))"
      using prod_cases3 by blast
    have names: "map param_name ps' = map param_name ps" by (simp add: ps'_def)
    have "allow_undeclared np \<or> (\<forall>p \<in> set ps. map_of (parameters np) (param_name p) \<noteq> None)"
      using scan_declares [OF scan] by (auto split: option.splits)
    then have "allow_undeclared np \<or> (\<forall>n \<in> set (map param_name ps'). map_of (parameters np) n \<noteq> None)"
      unfolding names by simp
    then have res: "if successful r
        then infos = fold set_value ps' (parameters np) \<and>
          (\<forall>p \<in> set ps'. successful (check_parameter D (allow_undeclared np) (parameters np) p))
        else infos = parameters np"
      by (intro set_common_result [OF assms(1) _ common]) auto
    have us: "us = filter (is_undeclared np) ps'" using to_be_undeclared [OF Inr] by blast
    note run = set_atomically_run [OF conjunct1 [OF True] scan ps'_def Inr common]
    show thesis
    proof (cases "successful r")
      case False
      with run res assms(2) show thesis by (intro refused) auto
    next
      case ok: True
      show thesis
      proof (rule applied [of r ps' hs])
        show "res = Inr r" "np' = (set_applied np ps ps')\<lparr>callback_container := hs\<rparr>"
          using assms(2) run ok res
          by (auto simp: set_applied_def set_event_def new_infos_def us qs Let_def split: prod.splits)
        show "may_set D np p" if "p \<in> set ps'" for p
          using may_setI [OF scan Inr names _ that] res ok by simp
      qed (simp_all add: ok ps'_def)
    qed
  qed
qed

section \<open>Consistency\<close>

text \<open>
  A declared parameter carries its name; a dynamically typed one has the type of its value; a
  statically typed one has a type, and its value has this type or is not set; the value complies
  with the ranges of the descriptor.
\<close>

definition info_ok :: "'d doubles \<Rightarrow> string \<Rightarrow> 'd parameter_info \<Rightarrow> bool" where
  "info_ok D n i \<longleftrightarrow>
     (let d = info_descriptor i; t = get_type (info_value i)
      in n \<noteq> [] \<and> desc_name d = n \<and>
         (if dynamic_typing d then desc_type d = t
          else desc_type d \<noteq> PARAMETER_NOT_SET \<and> t \<in> {PARAMETER_NOT_SET, desc_type d}) \<and>
         successful (check_parameter_value_in_range D d (info_value i)))"

definition params_ok :: "'d doubles \<Rightarrow> 'd node_parameters \<Rightarrow> bool" where
  "params_ok D np \<longleftrightarrow>
     omap_ok (parameters np) \<and> (\<forall>n i. map_of (parameters np) n = Some i \<longrightarrow> info_ok D n i)"

lemma check_range_irrelevant [simp]:
  "successful (check_parameter_value_in_range D (d\<lparr>desc_name := n, desc_type := t\<rparr>) v) \<longleftrightarrow>
     successful (check_parameter_value_in_range D d v)"
  "successful (check_parameter_value_in_range D (d\<lparr>desc_type := t\<rparr>) v) \<longleftrightarrow>
     successful (check_parameter_value_in_range D d v)"
  "successful (check_parameter_value_in_range D (d\<lparr>desc_name := n\<rparr>) v) \<longleftrightarrow>
     successful (check_parameter_value_in_range D d v)"
  by (simp_all add: check_parameter_value_in_range_def split: parameter_value.splits list.splits)

lemma check_range_NotSet [simp]: "check_parameter_value_in_range D d NotSet = accepted"
  by (simp add: check_parameter_value_in_range_def)

lemma implicit_info_ok: "param_name p \<noteq> [] \<Longrightarrow> info_ok D (param_name p) (implicit_info p)"
  by (simp add: info_ok_def implicit_info_def param_type_def ParameterDescriptor_def)

text \<open>The contents of the map after a successful call.\<close>

lemma lookup_new_infos:
  "map_of (fst (new_infos np ps ps')) n =
     (if n \<in> param_name ` set (filter (is_undeclared np) ps') then None
      else case map_of (staged_for np ps) n of
             Some i \<Rightarrow> Some i
           | None \<Rightarrow>
               (case last_of n ps' of
                  None \<Rightarrow> map_of (parameters np) n
                | Some p \<Rightarrow> Some \<lparr>info_value = param_value p, info_descriptor =
                    (info_descriptor (info_at (parameters np) n))\<lparr>desc_name := n, desc_type := param_type p\<rparr>\<rparr>))"
  by (simp add: new_infos_def lookup_erase_undeclared lookup_merge_staged omap_ok_distinct [OF staged_for_ok]
      lookup_set_values split: option.splits)

lemma may_set_keeps_ok:
  assumes "may_set D np p" and "map_of (parameters np) (param_name p) = Some i"
    and "info_ok D (param_name p) i" and "\<not> is_undeclared np p"
  shows "info_ok D (param_name p)
    \<lparr>info_value = param_value p,
     info_descriptor = (info_descriptor i)\<lparr>desc_name := param_name p, desc_type := param_type p\<rparr>\<rparr>"
  using assms
  by (auto simp: info_ok_def may_set_def check_parameter_def descriptor_for_def info_at_def Let_def param_type_def
      split: if_splits)

lemma set_applied_ok:
  assumes ok: "params_ok D np"
    and ps': "ps' = parameters_to_be_set differs ps (staged_for np ps)"
    and may: "\<And>p. p \<in> set ps' \<Longrightarrow> may_set D np p"
  shows "omap_ok (fst (new_infos np ps ps')) \<and>
    (\<forall>n i. map_of (fst (new_infos np ps ps')) n = Some i \<longrightarrow> info_ok D n i)"
proof (intro conjI allI impI)
  show "omap_ok (fst (new_infos np ps ps'))"
    using ok unfolding new_infos_def params_ok_def
    by (intro omap_ok_erase_undeclared omap_ok_merge_staged omap_ok_set_values) simp
  fix n i
  assume i: "map_of (fst (new_infos np ps ps')) n = Some i"
  have names: "set (map param_name ps') = set (map param_name ps)" by (simp add: ps')
  show "info_ok D n i"
  proof (cases "map_of (staged_for np ps) n")
    case (Some j)
    then obtain p where p: "p \<in> set ps" "param_name p = n" "j = implicit_info p"
      by (auto simp: lookup_staged_for dest!: last_of_Some)
    then have "n \<noteq> []" using may names by (auto simp: may_set_def dest!: equalityD2)
    with p i Some show ?thesis
      using implicit_info_ok [of p D] by (auto simp: lookup_new_infos split: if_splits)
  next
    case None
    show ?thesis
    proof (cases "last_of n ps'")
      case None': None
      with None i ok show ?thesis by (auto simp: lookup_new_infos params_ok_def split: if_splits)
    next
      case (Some p)
      then have p: "p \<in> set ps'" "param_name p = n" by (auto dest: last_of_Some)
      moreover have "n \<in> param_name ` set ps" using p names by (metis image_eqI list.set_map)
      ultimately obtain j where j: "map_of (parameters np) n = Some j"
        using None by (auto simp: staged_for_None has_parameter_def)
      have "\<not> is_undeclared np p" using i p by (auto simp: lookup_new_infos split: if_splits)
      moreover have "info_ok D n j" using ok j by (simp add: params_ok_def)
      ultimately show ?thesis
        using may_set_keeps_ok [OF may [OF p(1)]] i p j None Some
        by (auto simp: lookup_new_infos info_at_def split: if_splits)
    qed
  qed
qed

lemma container_only:
  "np' = np\<lparr>callback_container := hs\<rparr> \<Longrightarrow> parameters np' = parameters np"
  "np' = np\<lparr>callback_container := hs\<rparr> \<Longrightarrow> events np' = events np"
  by simp_all

lemma set_atomically_ok:
  assumes "params_ok D np"
  shows "params_ok D (snd (set_parameters_atomically D differs ps np))"
proof -
  obtain res np' where run: "set_parameters_atomically D differs ps np = (res, np')" by force
  have "omap_ok (parameters np)" using assms by (simp add: params_ok_def)
  then show ?thesis using run
  proof (cases rule: set_atomically_cases)
    case refused
    then have "parameters np' = parameters np" by (intro container_only)
    with assms run show ?thesis by (simp add: params_ok_def)
  next
    case (applied r ps' hs)
    then have "parameters np' = fst (new_infos np ps ps')" by (simp add: set_applied_def Let_def)
    with set_applied_ok [OF assms applied(3,4)] run show ?thesis by (simp add: params_ok_def)
  qed
qed

text \<open>Declaring.\<close>

lemma declare_common_result:
  assumes "name \<noteq> []" and "dynamic_typing desc \<or> desc_type desc \<noteq> PARAMETER_NOT_SET"
    and "declare_parameter_common D live callback name v desc ovs ign (out, hs, new) = (r, (out', hs', new'))"
  shows "if successful r
    then \<exists>i. out' = omap_set name i out \<and> info_ok D name i \<and>
           dynamic_typing (info_descriptor i) = dynamic_typing desc \<and> read_only (info_descriptor i) = read_only desc
    else out' = out"
proof -
  define v' where "v' = (if ign then v else case map_of ovs name of None \<Rightarrow> v | Some v \<Rightarrow> v)"
  show ?thesis
  proof (cases "get_type v' = PARAMETER_NOT_SET")
    case True
    with assms show ?thesis
      by (auto simp: declare_parameter_common_def info_ok_def Let_def simp flip: v'_def)
  next
    case False
    define infos where "infos = [(name, \<lparr>info_value = NotSet, info_descriptor = desc\<rparr>)]"
    obtain infos' hs'' where common:
      "set_parameters_atomically_common D live callback False [Parameter name v'] (infos, hs) = (r, (infos', hs''))"
      and out': "out' = (if successful r then omap_set name (info_at infos' name) out else out)"
      using assms(3) False
      by (auto simp: declare_parameter_common_def infos_def Let_def simp flip: v'_def split: prod.splits if_splits)
    have "omap_ok infos" "\<forall>p \<in> set [Parameter name v']. map_of infos (param_name p) \<noteq> None"
      by (simp_all add: infos_def omap_ok_def)
    from set_common_result [OF this(1) disjI2 [OF this(2)] common]
    have "successful r \<Longrightarrow> infos' = fold set_value [Parameter name v'] infos \<and>
        successful (check_parameter D False infos (Parameter name v'))"
      by simp
    then have "successful r \<Longrightarrow> info_ok D name (info_at infos' name) \<and>
        dynamic_typing (info_descriptor (info_at infos' name)) = dynamic_typing desc \<and>
        read_only (info_descriptor (info_at infos' name)) = read_only desc"
      using assms(1,2) False
      by (auto simp: infos_def info_at_def lookup_set_value info_ok_def check_parameter_def descriptor_for_def
          param_type_def Let_def split: if_splits)
    with out' show ?thesis by auto
  qed
qed

section \<open>Runs\<close>

text \<open>
  \<open>evolves\<close> is what every operation may do to consistent parameters: keep them consistent, keep
  read-only parameters as they are, and keep statically typed parameters declared with their type.
\<close>

definition same_declaration :: "'d parameter_info \<Rightarrow> 'd parameter_info \<Rightarrow> bool" where
  "same_declaration i j \<longleftrightarrow>
     (read_only (info_descriptor i) \<longrightarrow> j = i) \<and>
     \<not> dynamic_typing (info_descriptor j) \<and> desc_type (info_descriptor j) = desc_type (info_descriptor i) \<and>
     read_only (info_descriptor j) = read_only (info_descriptor i)"

definition evolves :: "'d doubles \<Rightarrow> 'd node_parameters \<Rightarrow> 'd node_parameters \<Rightarrow> bool" where
  "evolves D np np' \<longleftrightarrow>
     (params_ok D np \<longrightarrow>
        params_ok D np' \<and>
        (\<forall>n i. map_of (parameters np) n = Some i \<longrightarrow>
           (read_only (info_descriptor i) \<longrightarrow> map_of (parameters np') n = Some i) \<and>
           (\<not> dynamic_typing (info_descriptor i) \<longrightarrow>
              (\<exists>j. map_of (parameters np') n = Some j \<and> same_declaration i j))))"

lemma evolves_ok: "evolves D np np' \<Longrightarrow> params_ok D np \<Longrightarrow> params_ok D np'"
  by (simp add: evolves_def)

lemma params_okD: "params_ok D np \<Longrightarrow> map_of (parameters np) n = Some i \<Longrightarrow> info_ok D n i"
  by (simp add: params_ok_def)

lemma evolves_same: "parameters np' = parameters np \<Longrightarrow> evolves D np np'"
  by (auto simp: evolves_def params_ok_def same_declaration_def)

lemma evolves_trans: "evolves D np np1 \<Longrightarrow> evolves D np1 np2 \<Longrightarrow> evolves D np np2"
proof -
  assume 1: "evolves D np np1" and 2: "evolves D np1 np2"
  have "\<exists>k. map_of (parameters np2) n = Some k \<and> same_declaration i k"
    if "params_ok D np" "map_of (parameters np) n = Some i" "\<not> dynamic_typing (info_descriptor i)" for n i
  proof -
    from 1 that obtain j where j: "map_of (parameters np1) n = Some j" "same_declaration i j"
      unfolding evolves_def by blast
    with 1 2 that obtain k where k: "map_of (parameters np2) n = Some k" "same_declaration j k"
      unfolding evolves_def same_declaration_def by blast
    with j have "same_declaration i k" by (auto simp: same_declaration_def)
    with k show ?thesis by blast
  qed
  with 1 2 show ?thesis unfolding evolves_def by blast
qed

lemma evolves_erase:
  assumes "map_of (parameters np) name = Some i" and "\<not> read_only (info_descriptor i)" and "dynamic_typing (info_descriptor i)"
  shows "evolves D np (np\<lparr>parameters := omap_erase name (parameters np)\<rparr>)"
  using assms by (auto simp: evolves_def params_ok_def same_declaration_def)

lemma evolves_declare:
  assumes "map_of (parameters np) name = None" and "info_ok D name i"
    and "parameters np' = omap_set name i (parameters np)"
  shows "evolves D np np'"
  using assms by (auto simp: evolves_def params_ok_def same_declaration_def)

lemma evolves_guarded:
  "evolves D np (snd r) \<Longrightarrow> evolves D np (snd (guarded np r))"
  by (simp add: guarded_def evolves_same)

lemma declare_helper_evolves [invariant_rules]:
  "evolves D np (snd (declare_parameter_helper D name ty v desc ign np))"
proof (cases "name = [] \<or> has_parameter name np \<or>
    \<not> dynamic_typing desc \<and> (if ty = PARAMETER_NOT_SET then get_type v else ty) = PARAMETER_NOT_SET")
  case True
  then have "snd (declare_parameter_helper D name ty v desc ign np) = np"
    by (auto simp: declare_parameter_helper_def Let_def)
  then show ?thesis by (simp add: evolves_same)
next
  case False
  define desc1 where "desc1 = (if dynamic_typing desc then desc
      else desc\<lparr>desc_type := if ty = PARAMETER_NOT_SET then get_type v else ty\<rparr>)"
  obtain r ps hs new where common: "declare_parameter_common D (live_callback np) (on_set_callback np) name v desc1
      (parameter_overrides np) ign (parameters np, callback_container np, []) = (r, (ps, hs, new))"
    using prod_cases4 by blast
  have "dynamic_typing desc1 \<or> desc_type desc1 \<noteq> PARAMETER_NOT_SET"
    using False by (auto simp: desc1_def)
  from declare_common_result [OF _ this common] False
  have "if successful r then \<exists>i. ps = omap_set name i (parameters np) \<and> info_ok D name i else ps = parameters np"
    by (auto split: if_splits)
  moreover have "parameters (snd (declare_parameter_helper D name ty v desc ign np)) = ps"
    using False common unfolding declare_parameter_helper_def Let_def desc1_def by (auto split: if_splits)
  moreover have "map_of (parameters np) name = None" using False by (simp add: has_parameter_def)
  ultimately show ?thesis by (auto intro: evolves_declare evolves_same split: if_splits)
qed

lemma declare_parameter_evolves [invariant_rules]:
  "evolves D np (snd (declare_parameter D name v desc ign np))"
  unfolding declare_parameter_def by (intro evolves_guarded declare_helper_evolves)

lemma declare_typed_evolves [invariant_rules]:
  "evolves D np (snd (declare_typed_parameter D name ty desc ign np))"
  unfolding declare_typed_parameter_def
  by (rule evolves_guarded) (simp add: evolves_same declare_helper_evolves)

lemma undeclare_evolves [invariant_rules]: "evolves D np (snd (undeclare_parameter name np))"
  unfolding undeclare_parameter_def
  by (rule evolves_guarded) (auto intro: evolves_same evolves_erase split: option.split)

text \<open>A successful call of \<open>set_parameters_atomically\<close> leaves read-only and static declarations alone.\<close>

lemma new_infos_keep:
  assumes ok: "params_ok D np"
    and ps': "ps' = parameters_to_be_set differs ps (staged_for np ps)"
    and may: "\<And>p. p \<in> set ps' \<Longrightarrow> may_set D np p"
    and i: "map_of (parameters np) n = Some i"
  shows "(read_only (info_descriptor i) \<longrightarrow> map_of (fst (new_infos np ps ps')) n = Some i) \<and>
    (\<not> dynamic_typing (info_descriptor i) \<longrightarrow>
       (\<exists>j. map_of (fst (new_infos np ps ps')) n = Some j \<and> same_declaration i j))"
proof -
  have staged: "map_of (staged_for np ps) n = None" using i by (simp add: staged_for_None has_parameter_def)
  show ?thesis
  proof (cases "last_of n ps'")
    case None
    then have "n \<notin> param_name ` set ps'" by (simp add: last_of_None)
    with None staged i show ?thesis by (auto simp: lookup_new_infos same_declaration_def)
  next
    case (Some p)
    then have p: "p \<in> set ps'" "param_name p = n" by (auto dest: last_of_Some)
    then have writable: "\<not> read_only (info_descriptor i)" using may [of p] i by (auto simp: may_set_def)
    have kept1: "n \<notin> param_name ` set (filter (is_undeclared np) ps')" if "\<not> dynamic_typing (info_descriptor i)"
    proof
      assume "n \<in> param_name ` set (filter (is_undeclared np) ps')"
      then obtain q where "q \<in> set ps'" "param_name q = n" "is_undeclared np q" by auto
      with may [of q] i that show False by (simp add: may_set_def)
    qed
    have kept2: "desc_type (info_descriptor i) = param_type p" if "\<not> dynamic_typing (info_descriptor i)"
      using may [OF p(1)] p(2) i that
      by (auto simp: may_set_def check_parameter_def descriptor_for_def info_at_def Let_def split: if_splits)
    have "map_of (fst (new_infos np ps ps')) n = Some \<lparr>info_value = param_value p, info_descriptor =
        (info_descriptor i)\<lparr>desc_name := n, desc_type := param_type p\<rparr>\<rparr>" if "\<not> dynamic_typing (info_descriptor i)"
      using kept1 [OF that] Some staged i by (simp add: lookup_new_infos info_at_def)
    with writable kept2 show ?thesis by (auto simp: same_declaration_def)
  qed
qed

lemma set_atomically_evolves [invariant_rules]:
  "evolves D np (snd (set_parameters_atomically D differs ps np))"
proof (cases "params_ok D np")
  case False
  then show ?thesis by (simp add: evolves_def)
next
  case ok: True
  obtain res np' where run: "set_parameters_atomically D differs ps np = (res, np')" by force
  have "omap_ok (parameters np)" using ok by (simp add: params_ok_def)
  then show ?thesis using run
  proof (cases rule: set_atomically_cases)
    case refused
    then have "parameters np' = parameters np" by (intro container_only)
    with run show ?thesis by (simp add: evolves_same)
  next
    case (applied r ps' hs)
    have ps: "parameters np' = fst (new_infos np ps ps')" using applied by (simp add: set_applied_def Let_def)
    have kept: "(read_only (info_descriptor i) \<longrightarrow> map_of (parameters np') n = Some i) \<and>
        (\<not> dynamic_typing (info_descriptor i) \<longrightarrow> (\<exists>j. map_of (parameters np') n = Some j \<and> same_declaration i j))"
      if i: "map_of (parameters np) n = Some i" for n i
      using new_infos_keep [OF ok applied(3,4) i] by (simp add: ps)
    with set_atomically_ok [OF ok, of differs ps] run show ?thesis by (simp add: evolves_def)
  qed
qed

lemma set_parameters_evolves [invariant_rules]: "evolves D np (snd (set_parameters D differs ps np))"
proof (induction ps arbitrary: np)
  case Nil
  then show ?case by (simp add: evolves_same)
next
  case (Cons p ps)
  obtain res np1 where run: "set_parameters_atomically D differs [p] np = (res, np1)" by force
  then have "evolves D np np1" using set_atomically_evolves [of D np differs "[p]"] by simp
  with Cons.IH [of np1] run show ?case
    by (auto split: sum.splits prod.splits intro: evolves_trans)
qed

lemma callbacks_evolve [invariant_rules]:
  "evolves D np (snd (add_on_set_parameters_callback h f np))"
  "evolves D np (snd (remove_on_set_parameters_callback h np))"
  "evolves D np (drop_callback_handle h np)"
  by (auto simp: add_on_set_parameters_callback_def remove_on_set_parameters_callback_def
      drop_callback_handle_def guarded_def intro: evolves_same)

text \<open>The life of the parameters of a node: any sequence of operations after construction.\<close>

inductive param_step ::
    "'d doubles \<Rightarrow> ('d parameter_value \<Rightarrow> 'd parameter_value \<Rightarrow> bool) \<Rightarrow> 'd node_parameters \<Rightarrow> 'd node_parameters \<Rightarrow> bool"
  for D differs where
  step_declare: "param_step D differs np (snd (declare_parameter D name v desc ign np))"
| step_declare_typed: "param_step D differs np (snd (declare_typed_parameter D name ty desc ign np))"
| step_undeclare: "param_step D differs np (snd (undeclare_parameter name np))"
| step_set_atomically: "param_step D differs np (snd (set_parameters_atomically D differs ps np))"
| step_set: "param_step D differs np (snd (set_parameters D differs ps np))"
| step_add_callback: "param_step D differs np (snd (add_on_set_parameters_callback h f np))"
| step_remove_callback: "param_step D differs np (snd (remove_on_set_parameters_callback h np))"
| step_drop_handle: "param_step D differs np (drop_callback_handle h np)"

lemma param_step_evolves: "param_step D differs np np' \<Longrightarrow> evolves D np np'"
  by (induction rule: param_step.induct) (rule invariant_rules)+

lemma param_steps_evolve: "(param_step D differs)\<^sup>*\<^sup>* np np' \<Longrightarrow> evolves D np np'"
  by (induction rule: rtranclp_induct) (auto intro: evolves_same evolves_trans param_step_evolves)

lemma declare_from_overrides_evolves: "evolves D np (snd (declare_from_overrides D ovs np))"
proof (induction D ovs np rule: declare_from_overrides.induct)
  case (1 D np)
  then show ?case by (simp add: evolves_same)
next
  case (2 D n v ovs np)
  obtain r np1 where run: "declare_parameter D n v (ParameterDescriptor\<lparr>dynamic_typing := True\<rparr>) True np = (r, np1)"
    by force
  then have "evolves D np np1"
    using declare_parameter_evolves [of D np n v "ParameterDescriptor\<lparr>dynamic_typing := True\<rparr>" True] by simp
  with 2 run show ?case by (cases r) (auto intro: evolves_trans)
qed

text \<open>
  Claim C12.  Throughout the life of a node its parameters are consistent: every parameter is kept under its
  own name, a statically typed parameter has its declared type or is not set, a dynamically typed
  one is described with the type of its value, and every value complies with the ranges of its
  descriptor.
\<close>

theorem node_parameters_consistent:
  assumes "NodeParameters D name sources overrides publish allow automatic = (r, np0)"
    and "(param_step D differs)\<^sup>*\<^sup>* np0 np"
    and "map_of (parameters np) n = Some i"
  shows "n \<noteq> [] \<and> desc_name (info_descriptor i) = n \<and>
    (if dynamic_typing (info_descriptor i) then desc_type (info_descriptor i) = get_type (info_value i)
     else info_value i = NotSet \<or> get_type (info_value i) = desc_type (info_descriptor i)) \<and>
    successful (check_parameter_value_in_range D (info_descriptor i) (info_value i))"
proof -
  define start where "start = \<lparr>parameters = [], parameter_overrides = resolve_parameter_overrides sources overrides,
      allow_undeclared = allow, parameter_modification_enabled = True, callback_container = [],
      live_callback = (\<lambda>_. None), on_set_callback = None, publishes_events = publish,
      combined_name = name, events = []\<rparr>"
  have "params_ok D start" by (simp add: params_ok_def start_def)
  moreover have "evolves D start np0"
    using assms(1) declare_from_overrides_evolves [of D start "parameter_overrides start"]
    unfolding NodeParameters_def Let_def start_def [symmetric] by (auto simp: evolves_same split: if_splits)
  ultimately have "params_ok D np"
    using param_steps_evolve [OF assms(2)] by (blast intro: evolves_ok)
  then have "info_ok D n i" using assms(3) by (rule params_okD)
  then show ?thesis by (auto simp: info_ok_def Let_def split: if_splits)
qed

text \<open>
  Claim C28.  From consistent parameters on, no sequence of operations changes or removes a read-only
  parameter, and a statically typed parameter stays declared with its type.
\<close>

theorem read_only_and_static_kept:
  assumes "params_ok D np" and "(param_step D differs)\<^sup>*\<^sup>* np np'"
    and "map_of (parameters np) n = Some i"
  shows "(read_only (info_descriptor i) \<longrightarrow> map_of (parameters np') n = Some i) \<and>
    (\<not> dynamic_typing (info_descriptor i) \<longrightarrow>
       (\<exists>j. map_of (parameters np') n = Some j \<and> \<not> dynamic_typing (info_descriptor j) \<and>
            desc_type (info_descriptor j) = desc_type (info_descriptor i) \<and>
            (info_value j = NotSet \<or> get_type (info_value j) = desc_type (info_descriptor i))))"
proof -
  have e: "evolves D np np'" using assms(2) by (rule param_steps_evolve)
  have "\<exists>j. map_of (parameters np') n = Some j \<and> \<not> dynamic_typing (info_descriptor j) \<and>
      desc_type (info_descriptor j) = desc_type (info_descriptor i) \<and>
      (info_value j = NotSet \<or> get_type (info_value j) = desc_type (info_descriptor i))"
    if static: "\<not> dynamic_typing (info_descriptor i)"
  proof -
    from e static assms(1,3) obtain j where j: "map_of (parameters np') n = Some j" "same_declaration i j"
      unfolding evolves_def by blast
    moreover have "info_ok D n j" using evolves_ok [OF e assms(1)] j(1) by (rule params_okD)
    ultimately show ?thesis by (auto simp: same_declaration_def info_ok_def Let_def)
  qed
  moreover have "read_only (info_descriptor i) \<longrightarrow> map_of (parameters np') n = Some i"
    using e assms(1,3) by (auto simp: evolves_def)
  ultimately show ?thesis by blast
qed


section \<open>The effect of setting\<close>

lemma replace_first_same:
  "distinct (map param_name ps) \<Longrightarrow> p \<in> set ps \<Longrightarrow> replace_first (param_name p) (param_value p) ps = ps"
  by (induction ps) force+

lemma to_be_set_distinct:
  assumes "distinct (map param_name ps)"
  shows "parameters_to_be_set differs ps (staged_for np ps) = ps"
proof -
  have "replace_first n (info_value i) ps = ps" if "(n, i) \<in> set (staged_for np ps)" for n i
  proof -
    from that have "map_of (staged_for np ps) n = Some i"
      by (simp add: omap_find_iff [OF staged_for_ok])
    then obtain p where "p \<in> set ps" "param_name p = n" "param_value p = info_value i"
      by (auto simp: lookup_staged_for implicit_info_def dest!: last_of_Some)
    with replace_first_same [OF assms] show ?thesis by metis
  qed
  moreover have "fold (\<lambda>(n, i). replace_first n (info_value i)) xs ps = ps"
    if "set xs \<subseteq> set (staged_for np ps)" for xs
    using that calculation by (induction xs) auto
  ultimately show ?thesis by (simp add: parameters_to_be_set_def)
qed

lemma erase_undeclared_deleted:
  "distinct (map param_name us) \<Longrightarrow> \<forall>p \<in> set us. map_of infos (param_name p) = Some (f p) \<Longrightarrow>
     snd (erase_undeclared us (infos, del)) = del @ map (\<lambda>p. Parameter (param_name p) (info_value (f p))) us"
proof (induction us arbitrary: infos del)
  case Nil
  then show ?case by simp
next
  case (Cons p us)
  then have "map_of infos (param_name p) = Some (f p)"
    "\<forall>q \<in> set us. map_of (omap_erase (param_name p) infos) (param_name q) = Some (f q)"
    by (auto simp: image_iff)
  with Cons show ?case by simp
qed

lemma undeclared_distinct:
  "distinct (map param_name ps) \<Longrightarrow> p \<in> set ps \<Longrightarrow>
     param_name p \<in> param_name ` set (filter (is_undeclared np) ps) \<longleftrightarrow> is_undeclared np p"
  by (auto simp: distinct_map inj_on_def)

lemma staged_distinct:
  "distinct (map param_name ps) \<Longrightarrow> p \<in> set ps \<Longrightarrow>
     map_of (staged_for np ps) (param_name p) =
       (if has_parameter (param_name p) np then None else Some (implicit_info p))"
  using last_of_distinct [of "filter (\<lambda>p. \<not> has_parameter (param_name p) np) ps" p]
  by (auto simp: lookup_staged_for last_of_None distinct_map_filter)

definition expected_event :: "'d node_parameters \<Rightarrow> 'd parameter list \<Rightarrow> 'd parameter_event" where
  "expected_event np ps =
     \<lparr>event_node = combined_name np,
      new_parameters = filter (\<lambda>p. \<not> has_parameter (param_name p) np \<and> param_value p \<noteq> NotSet) ps,
      changed_parameters = filter (\<lambda>p. has_parameter (param_name p) np \<and> \<not> is_undeclared np p) ps,
      deleted_parameters = map (\<lambda>p. Parameter (param_name p) NotSet) (filter (is_undeclared np) ps)\<rparr>"

lemma set_event_distinct:
  assumes "distinct (map param_name ps)"
  shows "set_event np ps ps = expected_event np ps"
proof -
  define f where "f p = \<lparr>info_value = NotSet, info_descriptor =
      (info_descriptor (info_at (parameters np) (param_name p)))\<lparr>desc_name := param_name p, desc_type := param_type p\<rparr>\<rparr>"
    for p :: "'a parameter"
  have "map_of (merge_staged (staged_for np ps) (fold set_value ps (parameters np))) (param_name p) = Some (f p)"
    if "p \<in> set (filter (is_undeclared np) ps)" for p
    using that staged_distinct [OF assms, of p np] last_of_distinct [OF assms, of p]
    by (auto simp: lookup_merge_staged omap_ok_distinct [OF staged_for_ok] lookup_set_values
        is_undeclared_def has_parameter_def param_type_def f_def split: option.splits)
  then have "snd (new_infos np ps ps) = map (\<lambda>p. Parameter (param_name p) NotSet) (filter (is_undeclared np) ps)"
    using erase_undeclared_deleted [of "filter (is_undeclared np) ps" _ f "[]"] assms
    by (simp add: new_infos_def distinct_map_filter f_def)
  moreover have "only_changed (staged_for np ps) (filter (is_undeclared np) ps) ps =
      filter (\<lambda>p. has_parameter (param_name p) np \<and> \<not> is_undeclared np p) ps"
    unfolding only_changed_def using undeclared_distinct [OF assms]
    by (intro filter_cong) (simp_all add: staged_distinct [OF assms] del: set_filter)
  ultimately show ?thesis by (simp add: set_event_def expected_event_def param_type_def conj_commute)
qed

lemma set_effect_applied:
  assumes "params_ok D np"
    and "set_parameters_atomically D differs ps np = (Inr r, np')" and "successful r"
    and "distinct (map param_name ps)"
  obtains hs where "np' = (set_applied np ps ps)\<lparr>callback_container := hs\<rparr>"
proof -
  have "omap_ok (parameters np)" using assms(1) by (simp add: params_ok_def)
  then show thesis using assms(2)
  proof (cases rule: set_atomically_cases)
    case refused
    with assms(3) show thesis by simp
  next
    case (applied r' ps' hs)
    with to_be_set_distinct [OF assms(4), of differs np] that show thesis by simp
  qed
qed

lemma set_applied_events:
  "events ((set_applied np ps ps')\<lparr>callback_container := hs\<rparr>) =
     events np @ (if publishes_events np then [set_event np ps ps'] else [])"
  by (simp add: set_applied_def Let_def)

lemma set_effect_events:
  assumes "params_ok D np"
    and "set_parameters_atomically D differs ps np = (Inr r, np')" and "successful r"
    and "distinct (map param_name ps)"
  shows "events np' = events np @ (if publishes_events np then [expected_event np ps] else [])"
proof -
  obtain hs where "np' = (set_applied np ps ps)\<lparr>callback_container := hs\<rparr>"
    using set_effect_applied [OF assms] .
  then show ?thesis
    using set_applied_events [where np = np and ps = ps and ps' = ps and hs = hs] by (simp add: set_event_distinct [OF assms(4)])
qed

text \<open>
  A successful call with distinct names sets every parameter to its value, removes those set to
  the empty value, leaves all others alone, and publishes one event that names the new, the
  changed and the deleted parameters.
\<close>

theorem set_parameters_atomically_effect:
  assumes "params_ok D np"
    and "set_parameters_atomically D differs ps np = (Inr r, np')" and "successful r"
    and "distinct (map param_name ps)"
  shows "(\<forall>p \<in> set ps. map_option info_value (map_of (parameters np') (param_name p)) =
            (if is_undeclared np p then None else Some (param_value p))) \<and>
    (\<forall>n. n \<notin> param_name ` set ps \<longrightarrow> map_of (parameters np') n = map_of (parameters np) n) \<and>
    events np' = events np @ (if publishes_events np then [expected_event np ps] else [])"
proof -
  obtain hs where np': "np' = (set_applied np ps ps)\<lparr>callback_container := hs\<rparr>"
    using set_effect_applied [OF assms] .
  have "map_option info_value (map_of (parameters np') (param_name p)) =
      (if is_undeclared np p then None else Some (param_value p))" if "p \<in> set ps" for p
    using that by (simp add: np' set_applied_def lookup_new_infos undeclared_distinct [OF assms(4)] implicit_info_def
        staged_distinct [OF assms(4)] last_of_distinct [OF assms(4)] Let_def del: set_filter)
  moreover have "map_of (parameters np') n = map_of (parameters np) n" if "n \<notin> param_name ` set ps" for n
    using that by (auto simp: np' set_applied_def lookup_new_infos staged_for_None [THEN iffD2] last_of_None [THEN iffD2] Let_def)
  ultimately show ?thesis using set_effect_events [OF assms] by blast
qed

section \<open>An example\<close>

text \<open>
  A node with the override 10 for \<open>rate\<close>, whose range is 0 to 20 in steps of 5, and a read-only
  parameter \<open>frame\<close>.
\<close>

definition rate_descriptor :: "int parameter_descriptor" where
  "rate_descriptor = ParameterDescriptor\<lparr>integer_range := [\<lparr>int_from = 0, int_to = 20, int_step = 5\<rparr>]\<rparr>"

definition frame_descriptor :: "int parameter_descriptor" where
  "frame_descriptor = ParameterDescriptor\<lparr>read_only := True\<rparr>"

definition example_node :: "int node_parameters" where
  "example_node = snd (NodeParameters int_doubles ''/n'' [] [Parameter ''rate'' (IntegerValue 10)] True True False)"

definition example_declared :: "int node_parameters" where
  "example_declared =
     snd (declare_parameter int_doubles ''frame'' (StringValue ''map'') frame_descriptor False
       (snd (declare_parameter int_doubles ''rate'' (IntegerValue 5) rate_descriptor False example_node)))"

lemma example_steps: "(param_step int_doubles (\<noteq>))\<^sup>*\<^sup>* example_node example_declared"
  unfolding example_declared_def by (blast intro: step_declare rtranclp.rtrancl_into_rtrancl)

lemma example_ok: "params_ok int_doubles example_declared"
proof -
  have "params_ok int_doubles example_node"
    by (simp add: example_node_def NodeParameters_def params_ok_def)
  then show ?thesis using param_steps_evolve [OF example_steps] by (blast intro: evolves_ok)
qed

lemma example_values:
  "map_of (parameters example_declared) ''rate'' =
     Some \<lparr>info_value = IntegerValue 10,
           info_descriptor = rate_descriptor\<lparr>desc_name := ''rate'', desc_type := PARAMETER_INTEGER\<rparr>\<rparr>"
  "map_of (parameters example_declared) ''frame'' =
     Some \<lparr>info_value = StringValue ''map'',
           info_descriptor = frame_descriptor\<lparr>desc_name := ''frame'', desc_type := PARAMETER_STRING\<rparr>\<rparr>"
  by code_simp+

theorem node_parameters_consistent_witness:
  "successful (check_parameter_value_in_range int_doubles
     (info_descriptor (the (map_of (parameters example_declared) ''rate'')))
     (info_value (the (map_of (parameters example_declared) ''rate''))))"
proof -
  have "NodeParameters int_doubles ''/n'' [] [Parameter ''rate'' (IntegerValue 10)] True True False = (Inr (), example_node)"
    by (simp add: example_node_def NodeParameters_def)
  from node_parameters_consistent [OF this example_steps example_values(1)] show ?thesis
    by (simp add: example_values)
qed

text \<open>Setting the read-only parameter together with another one is refused, and nothing changes.\<close>

definition example_refused :: "(param_exn + set_result) \<times> int node_parameters" where
  "example_refused = set_parameters_atomically int_doubles (\<noteq>)
     [Parameter ''rate'' (IntegerValue 15), Parameter ''frame'' (StringValue ''odom'')] example_declared"

theorem read_only_and_static_kept_witness:
  "map_of (parameters (snd example_refused)) ''frame'' = map_of (parameters example_declared) ''frame''"
proof -
  have "(param_step int_doubles (\<noteq>))\<^sup>*\<^sup>* example_declared (snd example_refused)"
    unfolding example_refused_def by (blast intro: step_set_atomically)
  from read_only_and_static_kept [OF example_ok this example_values(2)] show ?thesis
    by (simp add: example_values frame_descriptor_def)
qed


definition example_set :: "(param_exn + set_result) \<times> int node_parameters" where
  "example_set = set_parameters_atomically int_doubles (\<noteq>) [Parameter ''rate'' (IntegerValue 15)] example_declared"

theorem set_parameters_atomically_effect_witness:
  "map_option info_value (map_of (parameters (snd example_set)) ''rate'') = Some (IntegerValue 15) \<and>
   map_of (parameters (snd example_set)) ''frame'' = map_of (parameters example_declared) ''frame''"
proof -
  have "fst example_set = Inr accepted" by code_simp
  then have "set_parameters_atomically int_doubles (\<noteq>) [Parameter ''rate'' (IntegerValue 15)] example_declared =
      (Inr accepted, snd example_set)"
    by (metis example_set_def prod.collapse)
  from set_parameters_atomically_effect [OF example_ok this] show ?thesis
    by (simp add: is_undeclared_def param_type_def)
qed

end
