(* ===== verification/Parameter_Events.thy ===== *)
theory Parameter_Events
  imports Parameter_Safety
begin

text \<open>
  What happens to parameters outside their node: the event filter (\<open>parameter_events_filter.cpp\<close>),
  the event handler with its callbacks (\<open>parameter_event_handler.cpp\<close>), the services
  (\<open>parameter_service.cpp\<close>) and the reading of parameter files into overrides
  (\<open>parameter_map.cpp\<close>, \<open>detail/resolve_parameter_overrides.cpp\<close>).
\<close>

section \<open>Filtering events\<close>

datatype event_type = NEW | DELETED | CHANGED

definition named :: "string list \<Rightarrow> event_type \<Rightarrow> 'd parameter list \<Rightarrow> (event_type \<times> 'd parameter) list" where
  "named names t ps = map (Pair t) (filter (\<lambda>p. param_name p \<in> set names) ps)"

definition ParameterEventsFilter ::
    "'d parameter_event \<Rightarrow> string list \<Rightarrow> event_type list \<Rightarrow> (event_type \<times> 'd parameter) list" where
  "ParameterEventsFilter event names types =
     (if NEW \<in> set types then named names NEW (new_parameters event) else []) @
     (if CHANGED \<in> set types then named names CHANGED (changed_parameters event) else []) @
     (if DELETED \<in> set types then named names DELETED (deleted_parameters event) else [])"

section \<open>Handling events\<close>

definition find_named :: "string \<Rightarrow> 'd parameter list \<Rightarrow> 'd parameter option" where
  "find_named n ps = find (\<lambda>p. param_name p = n) ps"

definition get_parameter_from_event :: "'d parameter_event \<Rightarrow> string \<Rightarrow> string \<Rightarrow> 'd parameter option" where
  "get_parameter_from_event event parameter_name node_name =
     (if event_node event \<noteq> node_name then None
      else case find_named parameter_name (new_parameters event) of
             Some p \<Rightarrow> Some p
           | None \<Rightarrow> find_named parameter_name (changed_parameters event))"

definition require_parameter_from_event ::
    "'d parameter_event \<Rightarrow> string \<Rightarrow> string \<Rightarrow> param_exn + 'd parameter" where
  "require_parameter_from_event event parameter_name node_name =
     (case get_parameter_from_event event parameter_name node_name of
        Some p \<Rightarrow> Inr p
      | None \<Rightarrow> Inl (StdRuntimeError
                 (''Parameter '' @ [CHR 0x27] @ parameter_name @ [CHR 0x27] @ '' of node '' @ [CHR 0x27] @ node_name @
                  [CHR 0x27] @ '' is not part of parameter event'')))"

definition get_parameters_from_event :: "'d parameter_event \<Rightarrow> 'd parameter list" where
  "get_parameters_from_event event = new_parameters event @ changed_parameters event"

text \<open>
  The handler knows callbacks by their handles; a handle is live as long as the user keeps it.  The
  callbacks of parameters are in a hash map keyed by the names of the parameter and of its node,
  whose order of traversal is an argument of the operation that traverses it.
\<close>

record event_handler =
  parameter_callbacks :: "string \<times> string \<Rightarrow> nat list option"
  event_callbacks :: "nat list"
  handle_live :: "nat \<Rightarrow> bool"
  handle_key :: "nat \<Rightarrow> string \<times> string"
  handler_node :: string
  handler_namespace :: string

definition resolve_path :: "string \<Rightarrow> event_handler \<Rightarrow> string" where
  "resolve_path path eh =
     (if path = [] then handler_node eh
      else if hd path = CHR ''/'' then path
      else if handler_namespace eh = ''/'' then handler_namespace eh @ path
      else handler_namespace eh @ ''/'' @ path)"

definition add_parameter_event_callback :: "nat \<Rightarrow> event_handler \<Rightarrow> event_handler" where
  "add_parameter_event_callback h eh =
     eh\<lparr>event_callbacks := h # event_callbacks eh, handle_live := (handle_live eh)(h := True)\<rparr>"

definition remove_parameter_event_callback :: "nat \<Rightarrow> event_handler \<Rightarrow> (param_exn + unit) \<times> event_handler" where
  "remove_parameter_event_callback h eh =
     (if handle_live eh h \<and> h \<in> set (event_callbacks eh)
      then (Inr (), eh\<lparr>event_callbacks := remove1 h (event_callbacks eh)\<rparr>)
      else (Inl (StdRuntimeError ''Callback doesn't exist''), eh))"

definition callbacks_at :: "event_handler \<Rightarrow> string \<times> string \<Rightarrow> nat list" where
  "callbacks_at eh key = (case parameter_callbacks eh key of None \<Rightarrow> [] | Some hs \<Rightarrow> hs)"

definition add_parameter_callback :: "nat \<Rightarrow> string \<Rightarrow> string \<Rightarrow> event_handler \<Rightarrow> event_handler" where
  "add_parameter_callback h parameter_name node_name eh =
     (let key = (parameter_name, resolve_path node_name eh)
      in eh\<lparr>parameter_callbacks := (parameter_callbacks eh)(key \<mapsto> h # callbacks_at eh key),
            handle_live := (handle_live eh)(h := True), handle_key := (handle_key eh)(h := key)\<rparr>)"

definition remove_parameter_callback :: "nat \<Rightarrow> event_handler \<Rightarrow> (param_exn + unit) \<times> event_handler" where
  "remove_parameter_callback h eh =
     (let key = handle_key eh h; hs = callbacks_at eh key
      in if handle_live eh h \<and> h \<in> set hs
         then (Inr (), eh\<lparr>parameter_callbacks := (parameter_callbacks eh)
                 (key := (if remove1 h hs = [] then None else Some (remove1 h hs)))\<rparr>)
         else (Inl (StdRuntimeError ''Callback doesn't exist''),
               eh\<lparr>parameter_callbacks := (parameter_callbacks eh)(key \<mapsto> hs)\<rparr>))"

text \<open>
  The loop over a list of handles: a live one is called; an expired one is erased, and the
  increment of the loop then passes over the one behind it.  When there is none behind it, the end
  iterator is incremented, which is undefined (\<open>None\<close>).  The result is what was called and what
  remains in the list.
\<close>

fun notify_handles :: "(nat \<Rightarrow> bool) \<Rightarrow> nat list \<Rightarrow> (nat list \<times> nat list) option" where
  "notify_handles live [] = Some ([], [])"
| "notify_handles live (h # hs) =
     (if live h then map_option (map_prod ((#) h) ((#) h)) (notify_handles live hs)
      else case hs of
             [] \<Rightarrow> None
           | h' # hs' \<Rightarrow> map_option (map_prod (\<lambda>called. called) ((#) h')) (notify_handles live hs'))"

datatype 'd handler_call = ParameterCall nat "'d parameter" | EventCall nat

fun notify_parameters ::
    "'d parameter_event \<Rightarrow> (string \<times> string) list \<Rightarrow> event_handler \<Rightarrow> ('d handler_call list \<times> event_handler) option" where
  "notify_parameters event [] eh = Some ([], eh)"
| "notify_parameters event (key # order) eh =
     (case (parameter_callbacks eh key, get_parameter_from_event event (fst key) (snd key)) of
        (Some hs, Some p) \<Rightarrow>
          (case notify_handles (handle_live eh) hs of
             None \<Rightarrow> None
           | Some (called, hs') \<Rightarrow>
               map_option (map_prod ((@) (map (\<lambda>h. ParameterCall h p) called)) (\<lambda>eh. eh))
                 (notify_parameters event order
                   (eh\<lparr>parameter_callbacks := (parameter_callbacks eh)(key \<mapsto> hs')\<rparr>)))
      | _ \<Rightarrow> notify_parameters event order eh)"

definition event_callback ::
    "'d parameter_event \<Rightarrow> (string \<times> string) list \<Rightarrow> event_handler \<Rightarrow> ('d handler_call list \<times> event_handler) option" where
  "event_callback event order eh =
     (case notify_parameters event order eh of
        None \<Rightarrow> None
      | Some (calls, eh1) \<Rightarrow>
          (case notify_handles (handle_live eh1) (event_callbacks eh1) of
             None \<Rightarrow> None
           | Some (called, hs') \<Rightarrow> Some (calls @ map EventCall called, eh1\<lparr>event_callbacks := hs'\<rparr>)))"

section \<open>What is notified\<close>

lemma notify_handles_live: "\<forall>h \<in> set hs. live h \<Longrightarrow> notify_handles live hs = Some (hs, hs)"
  by (induction hs) auto

definition all_live :: "event_handler \<Rightarrow> bool" where
  "all_live eh \<longleftrightarrow>
     (\<forall>key h. h \<in> set (callbacks_at eh key) \<longrightarrow> handle_live eh h) \<and> (\<forall>h \<in> set (event_callbacks eh). handle_live eh h)"

definition calls_for :: "'d parameter_event \<Rightarrow> event_handler \<Rightarrow> string \<times> string \<Rightarrow> 'd handler_call list" where
  "calls_for event eh key =
     (case get_parameter_from_event event (fst key) (snd key) of
        None \<Rightarrow> [] | Some p \<Rightarrow> map (\<lambda>h. ParameterCall h p) (callbacks_at eh key))"

lemma notify_parameters_live:
  "all_live eh \<Longrightarrow> notify_parameters event order eh = Some (concat (map (calls_for event eh) order), eh)"
proof (induction order)
  case Nil
  then show ?case by simp
next
  case (Cons key order)
  show ?case
  proof (cases "parameter_callbacks eh key")
    case None
    with Cons show ?thesis by (simp add: calls_for_def callbacks_at_def split: option.split)
  next
    case (Some hs)
    then have "callbacks_at eh key = hs" by (simp add: callbacks_at_def)
    then have "\<forall>h \<in> set hs. handle_live eh h" using Cons.prems unfolding all_live_def by blast
    moreover have "eh\<lparr>parameter_callbacks := (parameter_callbacks eh)(key \<mapsto> hs)\<rparr> = eh"
      using Some by (simp add: fun_upd_idem)
    ultimately show ?thesis
      using Cons Some by (simp add: notify_handles_live calls_for_def callbacks_at_def split: option.split)
  qed
qed

text \<open>
  As long as no handle has expired, an event reaches every callback registered for one of its new
  or changed parameters, with the value the event has for it, and every event callback, each once.
\<close>

lemma event_reaches_callbacks:
  assumes "all_live eh"
  shows "event_callback event order eh =
    Some (concat (map (calls_for event eh) order) @ map EventCall (event_callbacks eh), eh)"
proof -
  have "notify_handles (handle_live eh) (event_callbacks eh) = Some (event_callbacks eh, event_callbacks eh)"
    using assms by (intro notify_handles_live) (simp add: all_live_def)
  then show ?thesis
    by (simp add: event_callback_def notify_parameters_live [OF assms])
qed

lemma find_named_distinct:
  "distinct (map param_name ps) \<Longrightarrow> p \<in> set ps \<Longrightarrow>
     find_named (param_name p) (filter P ps) = (if P p then Some p else None)"
  unfolding find_named_def
proof (induction ps)
  case Nil
  then show ?case by simp
next
  case (Cons q ps)
  have "find (\<lambda>r. param_name r = param_name p) (filter P ps) = None" if "param_name p \<notin> param_name ` set ps"
    using that by (auto simp: find_None_iff image_iff)
  with Cons show ?case by (auto simp: image_iff)
qed

definition example_handler :: event_handler where
  "example_handler =
     add_parameter_callback 2 ''rate'' [] (add_parameter_callback 1 ''rate'' [] (add_parameter_event_callback 3
       \<lparr>parameter_callbacks = (\<lambda>_. None), event_callbacks = [], handle_live = (\<lambda>_. False),
        handle_key = (\<lambda>_. ([], [])), handler_node = ''/n'', handler_namespace = ''/''\<rparr>))"

definition example_event :: "int parameter_event" where
  "example_event =
     \<lparr>event_node = ''/n'', new_parameters = [], changed_parameters = [Parameter ''rate'' (IntegerValue 15)],
      deleted_parameters = []\<rparr>"

lemma example_handler_live: "all_live example_handler"
  by (auto simp: all_live_def example_handler_def add_parameter_callback_def add_parameter_event_callback_def
      resolve_path_def callbacks_at_def Let_def split: if_splits)



text \<open>
  When the handle registered last has been dropped, the callback behind it is not called; when the
  only remaining handle has been dropped, the loop runs past the end of the list.
\<close>

lemma expired_handle_skips:
  "map_option fst (event_callback example_event [(''rate'', ''/n'')]
     (example_handler\<lparr>handle_live := (handle_live example_handler)(2 := False)\<rparr>)) = Some [EventCall 3]"
  by code_simp

lemma expired_last_handle_undefined:
  "event_callback example_event [(''rate'', ''/n'')]
     (example_handler\<lparr>handle_live := (handle_live example_handler)(1 := False)\<rparr>) = None"
  by code_simp

section \<open>Services\<close>

text \<open>
  The callbacks of the six services.  An exception that the callback does not catch leaves it and
  is the result \<open>Inl\<close>; the service sends no response then.
\<close>

definition get_parameters_service :: "string list \<Rightarrow> 'd node_parameters \<Rightarrow> 'd parameter_value list" where
  "get_parameters_service names np =
     (case get_parameters names np of Inl e \<Rightarrow> [] | Inr ps \<Rightarrow> map param_value ps)"

definition get_parameter_types_service :: "string list \<Rightarrow> 'd node_parameters \<Rightarrow> parameter_type list" where
  "get_parameter_types_service names np =
     (case get_parameter_types names np of Inl e \<Rightarrow> [] | Inr ts \<Rightarrow> ts)"

definition describe_parameters_service :: "string list \<Rightarrow> 'd node_parameters \<Rightarrow> 'd parameter_descriptor list" where
  "describe_parameters_service names np =
     (case describe_parameters names np of Inl e \<Rightarrow> [] | Inr ds \<Rightarrow> ds)"

definition list_parameters_service :: "string list \<Rightarrow> nat \<Rightarrow> 'd node_parameters \<Rightarrow> string list \<times> string list" where
  "list_parameters_service = list_parameters"

fun from_parameter_msgs :: "(string \<times> 'd value_msg) list \<Rightarrow> param_exn + 'd parameter list" where
  "from_parameter_msgs [] = Inr []"
| "from_parameter_msgs (m # ms) =
     (case from_parameter_msg m of
        Inl e \<Rightarrow> Inl e
      | Inr p \<Rightarrow> map_sum (\<lambda>e. e) ((#) p) (from_parameter_msgs ms))"

fun set_parameters_service ::
    "'d doubles \<Rightarrow> ('d parameter_value \<Rightarrow> 'd parameter_value \<Rightarrow> bool) \<Rightarrow> (string \<times> 'd value_msg) list \<Rightarrow>
     'd node_parameters \<Rightarrow> (param_exn + set_result list) \<times> 'd node_parameters" where
  "set_parameters_service D differs [] np = (Inr [], np)"
| "set_parameters_service D differs (m # ms) np =
     (case from_parameter_msg m of
        Inl e \<Rightarrow> (Inl e, np)
      | Inr p \<Rightarrow>
          (case set_parameters_atomically D differs [p] np of
             (r, np1) \<Rightarrow>
               (case (case r of
                        Inl (ParameterNotDeclaredException what) \<Rightarrow> Inr \<lparr>successful = False, reason = what\<rparr>
                      | r \<Rightarrow> r) of
                  Inl e \<Rightarrow> (Inl e, np1)
                | Inr result \<Rightarrow>
                    (case set_parameters_service D differs ms np1 of
                       (Inl e, np2) \<Rightarrow> (Inl e, np2)
                     | (Inr results, np2) \<Rightarrow> (Inr (result # results), np2)))))"

definition set_parameters_atomically_service ::
    "'d doubles \<Rightarrow> ('d parameter_value \<Rightarrow> 'd parameter_value \<Rightarrow> bool) \<Rightarrow> (string \<times> 'd value_msg) list \<Rightarrow>
     'd node_parameters \<Rightarrow> (param_exn + set_result) \<times> 'd node_parameters" where
  "set_parameters_atomically_service D differs ms np =
     (case from_parameter_msgs ms of
        Inl e \<Rightarrow> (Inl e, np)
      | Inr ps \<Rightarrow>
          (case set_parameters_atomically D differs ps np of
             (Inl (ParameterNotDeclaredException what), np1) \<Rightarrow>
               (Inr \<lparr>successful = False, reason = ''One or more parameters were not declared before setting''\<rparr>, np1)
           | r \<Rightarrow> r))"

text \<open>
  A request that names no parameter is not answered: the exception leaves the callback of the
  service, and with it the executor that runs it.
\<close>

lemma empty_name_escapes_service:
  "fst (set_parameters_service int_doubles (\<noteq>) [([], to_value_msg 0 (IntegerValue 1))] example_declared) =
   Inl (InvalidParametersException ''parameter name must not be empty'')"
  by code_simp

section \<open>Parameter files\<close>

record 'd rcl_variant =
  rv_bool :: "bool option"
  rv_integer :: "int option"
  rv_double :: "'d option"
  rv_string :: "string option"
  rv_byte_array :: "8 word list option"
  rv_bool_array :: "bool list option"
  rv_integer_array :: "int list option"
  rv_double_array :: "'d list option"
  rv_string_array :: "string list option"

definition parameter_value_from :: "'d rcl_variant option \<Rightarrow> param_exn + 'd parameter_value" where
  "parameter_value_from c =
     (case c of
        None \<Rightarrow> Inl (InvalidParameterValueException ''Passed argument is NULL'')
      | Some v \<Rightarrow>
          (case rv_bool v of Some x \<Rightarrow> Inr (BoolValue x) | None \<Rightarrow>
          (case rv_integer v of Some x \<Rightarrow> Inr (IntegerValue x) | None \<Rightarrow>
          (case rv_double v of Some x \<Rightarrow> Inr (DoubleValue x) | None \<Rightarrow>
          (case rv_string v of Some x \<Rightarrow> Inr (StringValue x) | None \<Rightarrow>
          (case rv_byte_array v of Some x \<Rightarrow> Inr (ByteArray x) | None \<Rightarrow>
          (case rv_bool_array v of Some x \<Rightarrow> Inr (BoolArray x) | None \<Rightarrow>
          (case rv_integer_array v of Some x \<Rightarrow> Inr (IntegerArray x) | None \<Rightarrow>
          (case rv_double_array v of Some x \<Rightarrow> Inr (DoubleArray x) | None \<Rightarrow>
          (case rv_string_array v of Some x \<Rightarrow> Inr (StringArray x) | None \<Rightarrow>
             Inl (InvalidParameterValueException ''No parameter value set'')))))))))))"

text \<open>
  The parser's result: node names and, for each node, the names and values of its parameters; a
  null pointer is \<open>None\<close>.
\<close>

record 'd rcl_params =
  node_names :: "string option list option"
  node_params :: "(string option \<times> 'd rcl_variant) list list option"

fun parameters_from :: "nat \<Rightarrow> nat \<Rightarrow> (string option \<times> 'd rcl_variant) list \<Rightarrow> param_exn + 'd parameter list" where
  "parameters_from n p [] = Inr []"
| "parameters_from n p ((name, v) # rest) =
     (case name of
        None \<Rightarrow> Inl (InvalidParametersException
                 (''At node '' @ to_dec n @ '' parameter '' @ to_dec p @ '' name is NULL''))
      | Some x \<Rightarrow>
          (case parameter_value_from (Some v) of
             Inl e \<Rightarrow> Inl e
           | Inr y \<Rightarrow> map_sum (\<lambda>e. e) ((#) (Parameter x y)) (parameters_from n (Suc p) rest)))"

text \<open>
  \<open>matches\<close> decides whether the name of the node complies with the pattern of a file, in which
  \<open>/*\<close> stands for one and \<open>/**\<close> for any number of names.
\<close>

definition absolute_name :: "string \<Rightarrow> string" where
  "absolute_name n = (if n \<noteq> [] \<and> hd n = CHR ''/'' then n else CHR ''/'' # n)"

fun parameter_map_loop ::
    "(string \<Rightarrow> string \<Rightarrow> bool) \<Rightarrow> string option \<Rightarrow> nat \<Rightarrow> (string option \<times> (string option \<times> 'd rcl_variant) list) list \<Rightarrow>
     (string, 'd parameter list) omap \<Rightarrow> param_exn + (string, 'd parameter list) omap" where
  "parameter_map_loop matches fqn n [] m = Inr m"
| "parameter_map_loop matches fqn n ((name, vs) # rest) m =
     (case name of
        None \<Rightarrow> Inl (InvalidParametersException (''Node name at index '' @ to_dec n @ '' is NULL''))
      | Some x \<Rightarrow>
          if (case fqn of None \<Rightarrow> False | Some f \<Rightarrow> \<not> matches f (absolute_name x))
          then parameter_map_loop matches fqn (Suc n) rest m
          else
            let node = (case fqn of None \<Rightarrow> absolute_name x | Some f \<Rightarrow> f)
            in (case parameters_from n 0 vs of
                  Inl e \<Rightarrow> Inl e
                | Inr ps \<Rightarrow>
                    parameter_map_loop matches fqn (Suc n) rest
                      (omap_set node ((case map_of m node of None \<Rightarrow> [] | Some qs \<Rightarrow> qs) @ ps) m)))"

definition parameter_map_from ::
    "(string \<Rightarrow> string \<Rightarrow> bool) \<Rightarrow> string option \<Rightarrow> 'd rcl_params option \<Rightarrow> param_exn + (string, 'd parameter list) omap" where
  "parameter_map_from matches fqn c =
     (case c of
        None \<Rightarrow> Inl (InvalidParametersException ''parameters struct is NULL'')
      | Some s \<Rightarrow>
          (case node_names s of
             None \<Rightarrow> Inl (InvalidParametersException ''node names array is NULL'')
           | Some names \<Rightarrow>
               (case node_params s of
                  None \<Rightarrow> Inl (InvalidParametersException ''node params array is NULL'')
                | Some ps \<Rightarrow> parameter_map_loop matches fqn 0 (zip names ps) [])))"

text \<open>
  The parameters one source of arguments contributes to the overrides of a node.
\<close>

definition source_parameters ::
    "(string \<Rightarrow> string \<Rightarrow> bool) \<Rightarrow> string \<Rightarrow> 'd rcl_params option \<Rightarrow> param_exn + 'd parameter list" where
  "source_parameters matches fqn params =
     (case params of
        None \<Rightarrow> Inr []
      | Some s \<Rightarrow>
          map_sum (\<lambda>e. e) (\<lambda>m. case map_of m fqn of None \<Rightarrow> [] | Some ps \<Rightarrow> ps)
            (parameter_map_from matches (Some fqn) (Some s)))"

text \<open>The last one given wins: local over global arguments, the constructor over both.\<close>

lemma resolve_parameter_overrides_last:
  "map_of (resolve_parameter_overrides sources overrides) n =
     map_option param_value (last_of n (concat sources @ overrides))"
proof -
  have "map_of (fold (\<lambda>p. omap_set (param_name p) (param_value p)) ps []) n = map_option param_value (last_of n ps)" for ps :: "'a parameter list"
    by (induction ps rule: rev_induct) auto
  from this [of "concat sources @ overrides"] show ?thesis
    unfolding resolve_parameter_overrides_def .
qed

text \<open>A node receives every parameter of every matching entry, in the order of the file.\<close>

definition values_of :: "(string option \<times> 'd rcl_variant) list \<Rightarrow> 'd parameter list \<Rightarrow> bool" where
  "values_of vs ps \<longleftrightarrow>
     map (\<lambda>(x, v). (x, parameter_value_from (Some v))) vs = map (\<lambda>p. (Some (param_name p), Inr (param_value p))) ps"

lemma parameters_from_values: "parameters_from n i vs = Inr ps \<Longrightarrow> values_of vs ps"
  unfolding values_of_def
  by (induction n i vs arbitrary: ps rule: parameters_from.induct)
    (auto simp: map_sum_def split: option.splits sum.splits)

lemma parameter_map_loop_appends:
  assumes "parameter_map_loop matches (Some f) n nodes m = Inr m'"
  shows "\<exists>pss. map_of m' f = (if map_of m f = None \<and> pss = [] then None
            else Some ((case map_of m f of None \<Rightarrow> [] | Some qs \<Rightarrow> qs) @ concat pss)) \<and>
      list_all2 values_of (map snd (filter (\<lambda>(x, vs). matches f (absolute_name (the x))) nodes)) pss"
  using assms
proof (induction matches "Some f" n nodes m rule: parameter_map_loop.induct)
  case (1 matches n m)
  then show ?case by (intro exI [of _ "[]"]) auto
next
  case (2 matches n name vs rest m)
  obtain x where x: "name = Some x" using "2.prems" by (cases name) auto
  show ?case
  proof (cases "matches f (absolute_name x)")
    case False
    with 2 x show ?thesis by simp
  next
    case True
    with "2.prems" x obtain ps where ps: "parameters_from n 0 vs = Inr ps"
      and rest: "parameter_map_loop matches (Some f) (Suc n) rest
        (omap_set f ((case map_of m f of None \<Rightarrow> [] | Some qs \<Rightarrow> qs) @ ps) m) = Inr m'"
      by (auto simp: Let_def split: sum.splits)
    from "2.hyps"(2) [OF x _ refl ps] True rest obtain pss where
      "map_of m' f = Some ((case map_of m f of None \<Rightarrow> [] | Some qs \<Rightarrow> qs) @ ps @ concat pss)"
      "list_all2 values_of (map snd (filter (\<lambda>(x, vs). matches f (absolute_name (the x))) rest)) pss"
      by auto
    with parameters_from_values [OF ps] True x show ?thesis by (intro exI [of _ "ps # pss"]) simp
  qed
qed

end
