(* ===== verification/Subscription_Callback.thy ===== *)
theory Subscription_Callback
  imports Intra_Process
begin

text \<open>
  The way of a message into the callback of a subscription: \<open>AnySubscriptionCallback\<close> of
  \<open>any_subscription_callback.hpp\<close>, the handlers of \<open>subscription.hpp\<close>, taking and executing in
  \<open>executor.cpp\<close> and in \<open>experimental/subscription_intra_process.hpp\<close>.

  The thirty signatures of callbacks are the combinations of how the message is passed, what it
  is, and whether the callback is told about its origin.  Messages live in the store of
  \<open>Intra_Process\<close>; a type adapter is a pair of conversions.
\<close>

section \<open>Callbacks\<close>

datatype passing =
    By_const_ref | By_unique_ptr | By_shared_const_ptr | By_const_ref_shared_const_ptr | By_shared_ptr

datatype content = Subscribed_type | ROS_message | Serialized_message

record subscription_callback =
  cb_passing :: passing
  cb_content :: content
  cb_with_info :: bool
  cb_callable :: bool

datatype ('c, 'r) any_message = Custom 'c | Ros 'r | Bytes "8 word list"

text \<open>The type adapter: whether there is one, and its conversions.\<close>

record ('c, 'r) type_adapter =
  is_specialized :: bool
  convert_to_custom :: "'r \<Rightarrow> 'c"
  convert_to_ros_message :: "'c \<Rightarrow> 'r"

text \<open>
  Without an adapter the subscribed type is the type of the ROS message, and the signatures of the
  two coincide.
\<close>

definition subscribed_signature :: "('c, 'r) type_adapter \<Rightarrow> subscription_callback \<Rightarrow> bool" where
  "subscribed_signature A cb \<longleftrightarrow>
     cb_content cb = Subscribed_type \<or> \<not> is_specialized A \<and> cb_content cb = ROS_message"

definition takes_custom :: "('c, 'r) type_adapter \<Rightarrow> subscription_callback \<Rightarrow> bool" where
  "takes_custom A cb \<longleftrightarrow> is_specialized A \<and> cb_content cb = Subscribed_type"

definition callback_use_take_shared_method :: "('c, 'r) type_adapter \<Rightarrow> subscription_callback \<Rightarrow> bool" where
  "callback_use_take_shared_method A cb \<longleftrightarrow>
     subscribed_signature A cb \<and> cb_passing cb \<in> {By_shared_const_ptr, By_const_ref_shared_const_ptr}"

definition is_serialized_message_callback :: "subscription_callback \<Rightarrow> bool" where
  "is_serialized_message_callback cb \<longleftrightarrow> cb_content cb = Serialized_message \<and> \<not> cb_with_info cb"

fun to_custom_value :: "('c, 'r) type_adapter \<Rightarrow> ('c, 'r) any_message \<Rightarrow> ('c, 'r) any_message" where
  "to_custom_value A (Ros r) = Custom (convert_to_custom A r)"
| "to_custom_value A m = m"

fun to_ros_value :: "('c, 'r) type_adapter \<Rightarrow> ('c, 'r) any_message \<Rightarrow> ('c, 'r) any_message" where
  "to_ros_value A (Custom c) = Ros (convert_to_ros_message A c)"
| "to_ros_value A m = m"

section \<open>Dispatching\<close>

text \<open>What the callback is called with: the object, how it is passed, and the origin.\<close>

record 'i delivery =
  delivered :: nat
  passed :: passing
  passed_info :: "'i option"

definition deliver :: "subscription_callback \<Rightarrow> 'i \<Rightarrow> nat \<Rightarrow> 'i delivery" where
  "deliver cb info p =
     \<lparr>delivered = p, passed = cb_passing cb, passed_info = (if cb_with_info cb then Some info else None)\<rparr>"

definition converted :: "('m \<Rightarrow> 'm) \<Rightarrow> nat \<Rightarrow> 'm store \<Rightarrow> nat \<times> 'm store" where
  "converted f p h = (length h, h @ [f (h ! p)])"

text \<open>
  The test for an unset callback looks at the first alternative of the variant only; an empty
  callback of another signature is called, which throws.
\<close>

definition unset :: "('c, 'r) type_adapter \<Rightarrow> subscription_callback \<Rightarrow> bool" where
  "unset A cb \<longleftrightarrow>
     \<not> cb_callable cb \<and> cb_passing cb = By_const_ref \<and> subscribed_signature A cb \<and> \<not> cb_with_info cb"

type_synonym ('i, 'm) dispatched = "(rclcpp_exn + 'i delivery) \<times> 'm store"

definition call_back :: "subscription_callback \<Rightarrow> 'i \<Rightarrow> nat \<times> 'm store \<Rightarrow> ('i, 'm) dispatched" where
  "call_back cb info = (\<lambda>(p, h).
     (if cb_callable cb then Inr (deliver cb info p) else Inl (RuntimeError ''bad_function_call''), h))"

definition dispatch ::
    "('c, 'r) type_adapter \<Rightarrow> subscription_callback \<Rightarrow> 'i \<Rightarrow> nat \<Rightarrow> ('c, 'r) any_message store \<Rightarrow>
     ('i, ('c, 'r) any_message) dispatched" where
  "dispatch A cb info p h =
     (if unset A cb then (Inl (RuntimeError ''dispatch called on an unset AnySubscriptionCallback''), h)
      else if takes_custom A cb then call_back cb info (converted (to_custom_value A) p h)
      else if cb_content cb = Serialized_message
      then (Inl (RuntimeError ''Cannot dispatch std::shared_ptr<ROSMessageType> message to rclcpp::SerializedMessage''), h)
      else if cb_passing cb = By_unique_ptr then call_back cb info (copy_message p h)
      else call_back cb info (p, h))"

definition dispatch_serialized ::
    "('c, 'r) type_adapter \<Rightarrow> subscription_callback \<Rightarrow> 'i \<Rightarrow> nat \<Rightarrow> ('c, 'r) any_message store \<Rightarrow>
     ('i, ('c, 'r) any_message) dispatched" where
  "dispatch_serialized A cb info p h =
     (if unset A cb then (Inl (RuntimeError ''dispatch called on an unset AnySubscriptionCallback''), h)
      else if cb_content cb \<noteq> Serialized_message
      then (Inl (RuntimeError ''cannot dispatch rclcpp::SerializedMessage to non-rclcpp::SerializedMessage callbacks''), h)
      else if cb_passing cb = By_const_ref then call_back cb info (p, h)
      else call_back cb info (copy_message p h))"

definition dispatch_intra_process_shared ::
    "('c, 'r) type_adapter \<Rightarrow> subscription_callback \<Rightarrow> 'i \<Rightarrow> nat \<Rightarrow> ('c, 'r) any_message store \<Rightarrow>
     ('i, ('c, 'r) any_message) dispatched" where
  "dispatch_intra_process_shared A cb info p h =
     (if unset A cb then (Inl (RuntimeError ''dispatch called on an unset AnySubscriptionCallback''), h)
      else if cb_content cb = Serialized_message
      then (Inl (RuntimeError ''Cannot dispatch std::shared_ptr<const ROSMessageType> message to rclcpp::SerializedMessage''), h)
      else if \<not> subscribed_signature A cb then call_back cb info (converted (to_ros_value A) p h)
      else if cb_passing cb \<in> {By_unique_ptr, By_shared_ptr} then call_back cb info (copy_message p h)
      else call_back cb info (p, h))"

definition dispatch_intra_process_unique ::
    "('c, 'r) type_adapter \<Rightarrow> subscription_callback \<Rightarrow> 'i \<Rightarrow> nat \<Rightarrow> ('c, 'r) any_message store \<Rightarrow>
     ('i, ('c, 'r) any_message) dispatched" where
  "dispatch_intra_process_unique A cb info p h =
     (if unset A cb then (Inl (RuntimeError ''dispatch called on an unset AnySubscriptionCallback''), h)
      else if cb_content cb = Serialized_message
      then (Inl (RuntimeError ''Cannot dispatch std::unique_ptr<ROSMessageType, ROSMessageTypeDeleter> message to rclcpp::SerializedMessage''), h)
      else if \<not> subscribed_signature A cb then call_back cb info (converted (to_ros_value A) p h)
      else call_back cb info (p, h))"

section \<open>Taking messages from the middleware\<close>

text \<open>
  The answer of the middleware: a message with its origin, nothing, an \<open>RCLError\<close>, which is
  logged, or another exception, which is not caught.  \<open>own_publisher\<close> says that the message came
  from a publisher of this process, whose messages are delivered inside the process.
\<close>

datatype ('m, 'i) taken = Taken 'm 'i | Nothing_taken | Take_failed string | Take_threw rclcpp_exn

type_synonym ('i, 's) executed_sub = "(rclcpp_exn + 'i delivery option) \<times> 's"

definition take_and_do_error_handling ::
    "('m, 'i) taken \<Rightarrow> 's \<Rightarrow> ('m \<Rightarrow> 'i \<Rightarrow> 's \<Rightarrow> (rclcpp_exn + 'a option) \<times> 's) \<Rightarrow> (rclcpp_exn + 'a option) \<times> 's" where
  "take_and_do_error_handling take_action s handle_action =
     (case take_action of
        Taken m info \<Rightarrow> handle_action m info s
      | Nothing_taken \<Rightarrow> (Inr None, s)
      | Take_failed _ \<Rightarrow> (Inr None, s)
      | Take_threw e \<Rightarrow> (Inl e, s))"

definition in_new_object :: "(nat \<Rightarrow> 'i \<Rightarrow> 'm store \<Rightarrow> 'a) \<Rightarrow> 'm \<Rightarrow> 'i \<Rightarrow> 'm store \<Rightarrow> 'a" where
  "in_new_object handle_object m info h = handle_object (length h) info (h @ [m])"

definition handle_message ::
    "('c, 'r) type_adapter \<Rightarrow> ('i \<Rightarrow> bool) \<Rightarrow> subscription_callback \<Rightarrow> nat \<Rightarrow> 'i \<Rightarrow> ('c, 'r) any_message store \<Rightarrow>
     ('i, ('c, 'r) any_message store) executed_sub" where
  "handle_message A own_publisher cb p info h =
     (if own_publisher info then (Inr None, h)
      else case dispatch A cb info p h of (r, h') \<Rightarrow> (map_sum id Some r, h'))"

definition handle_serialized_message ::
    "('c, 'r) type_adapter \<Rightarrow> subscription_callback \<Rightarrow> nat \<Rightarrow> 'i \<Rightarrow> ('c, 'r) any_message store \<Rightarrow>
     ('i, ('c, 'r) any_message store) executed_sub" where
  "handle_serialized_message A cb p info h =
     (case dispatch_serialized A cb info p h of (r, h') \<Rightarrow> (map_sum id Some r, h'))"

text \<open>
  A loaned message is wrapped into a shared pointer that does not own it, and handled as any other
  (\<open>handle_loaned_message\<close>).  \<open>execute_subscription\<close> takes into a new object; the loaned one
  is given back once the handler has returned, whatever the callback keeps of it, and is not given
  back when the handler throws.  The last component says which object was given back.
\<close>

definition handle_loaned_message ::
    "('c, 'r) type_adapter \<Rightarrow> ('i \<Rightarrow> bool) \<Rightarrow> subscription_callback \<Rightarrow> nat \<Rightarrow> 'i \<Rightarrow> ('c, 'r) any_message store \<Rightarrow>
     ('i, ('c, 'r) any_message store) executed_sub" where
  "handle_loaned_message A own_publisher cb loaned info h =
     (if own_publisher info then (Inr None, h)
      else case dispatch A cb info loaned h of (r, h') \<Rightarrow> (map_sum id Some r, h'))"

fun given_back :: "('m, 'i) taken \<Rightarrow> 'm store \<Rightarrow> ('i, 'm store) executed_sub \<Rightarrow> nat option" where
  "given_back (Taken m info) h (Inr _, _) = Some (length h)"
| "given_back _ _ _ = None"

definition execute_subscription ::
    "('c, 'r) type_adapter \<Rightarrow> ('i \<Rightarrow> bool) \<Rightarrow> bool \<Rightarrow> (bool \<Rightarrow> (('c, 'r) any_message, 'i) taken) \<Rightarrow>
     subscription_callback \<Rightarrow> ('c, 'r) any_message store \<Rightarrow>
     ('i, ('c, 'r) any_message store) executed_sub \<times> nat option" where
  "execute_subscription A own_publisher can_loan_messages rcl_take cb h =
     (if is_serialized_message_callback cb
      then (take_and_do_error_handling (rcl_take True) h (in_new_object (handle_serialized_message A cb)), None)
      else if can_loan_messages
      then let r = take_and_do_error_handling (rcl_take False) h (in_new_object (handle_loaned_message A own_publisher cb))
           in (r, given_back (rcl_take False) h r)
      else (take_and_do_error_handling (rcl_take False) h (in_new_object (handle_message A own_publisher cb)), None))"

section \<open>Executing an intra-process subscription\<close>

definition intra_process_execute ::
    "('c, 'r) type_adapter \<Rightarrow> subscription_callback \<Rightarrow> 'i \<Rightarrow> ip_subscription \<times> ('c, 'r) any_message store \<Rightarrow>
     undefined_behaviour + ('i, ip_subscription \<times> ('c, 'r) any_message store) executed_sub" where
  "intra_process_execute A cb info = (\<lambda>(s, h).
     case take_message (s, h) of
       Inl u \<Rightarrow> Inl u
     | Inr (None, s', h') \<Rightarrow> Inr (Inr None, (s', h'))
     | Inr (Some p, s', h') \<Rightarrow>
         (case (if callback_use_take_shared_method A cb then dispatch_intra_process_shared A cb info p h'
                else dispatch_intra_process_unique A cb info p h') of
            (r, h'') \<Rightarrow> Inr (map_sum id Some r, (s', h''))))"

section \<open>What a callback receives\<close>

text \<open>The message in the form the callback asks for.\<close>

definition as_asked :: "('c, 'r) type_adapter \<Rightarrow> subscription_callback \<Rightarrow> ('c, 'r) any_message \<Rightarrow> ('c, 'r) any_message" where
  "as_asked A cb m =
     (if \<not> is_specialized A then m
      else if cb_content cb = Subscribed_type then to_custom_value A m else to_ros_value A m)"

definition may_modify :: "subscription_callback \<Rightarrow> bool" where
  "may_modify cb \<longleftrightarrow> cb_passing cb \<in> {By_unique_ptr, By_shared_ptr}"

lemmas dispatch_defs = dispatch_def dispatch_serialized_def dispatch_intra_process_shared_def
  dispatch_intra_process_unique_def subscribed_signature_def unset_def call_back_def deliver_def converted_def copy_message_def Let_def

lemma to_custom_idem [simp]: "to_custom_value A (Custom c) = Custom c" "to_ros_value A (Ros r) = Ros r"
  by simp_all

lemma dispatch_shared_delivers:
  assumes "cb_callable cb" and "cb_content cb \<noteq> Serialized_message" and "p < length h"
    and "is_specialized A \<longrightarrow> (\<exists>c. h ! p = Custom c)"
  shows "\<exists>q h'. dispatch_intra_process_shared A cb info p h = (Inr (deliver cb info q), h') \<and>
    h' ! q = as_asked A cb (h ! p) \<and> take (length h) h' = h \<and> (may_modify cb \<longrightarrow> length h \<le> q)"
  using assms by (cases "cb_content cb") (auto simp: dispatch_defs as_asked_def may_modify_def nth_append)

lemma dispatch_unique_delivers:
  assumes "cb_callable cb" and "cb_content cb \<noteq> Serialized_message" and "p < length h"
    and "is_specialized A \<longrightarrow> (\<exists>c. h ! p = Custom c)"
  shows "\<exists>q h'. dispatch_intra_process_unique A cb info p h = (Inr (deliver cb info q), h') \<and>
    h' ! q = as_asked A cb (h ! p) \<and> take (length h) h' = h \<and> (q = p \<or> length h \<le> q)"
  using assms by (cases "cb_content cb") (auto simp: dispatch_defs as_asked_def nth_append)


definition no_adapter :: "(string, string) type_adapter" where
  "no_adapter = \<lparr>is_specialized = False, convert_to_custom = id, convert_to_ros_message = id\<rparr>"

definition owning_callback :: subscription_callback where
  "owning_callback = \<lparr>cb_passing = By_unique_ptr, cb_content = Subscribed_type, cb_with_info = False, cb_callable = True\<rparr>"


lemmas execute_subscription_defs = execute_subscription_def is_serialized_message_callback_def
  take_and_do_error_handling_def in_new_object_def handle_message_def handle_loaned_message_def handle_serialized_message_def

text \<open>From another process the callback receives the message the middleware delivered.\<close>

lemma inter_process_delivery:
  assumes "cb_callable cb" and "\<not> own_publisher info"
    and "cb_content cb \<noteq> Serialized_message" and "rcl_take False = Taken (Ros r) info"
  shows "\<exists>q h'. fst (execute_subscription A own_publisher can_loan rcl_take cb h) = (Inr (Some (deliver cb info q)), h') \<and>
    h' ! q = as_asked A cb (Ros r) \<and> take (length h) h' = h \<and> length h \<le> q"
  using assms
  by (cases "cb_content cb")
    (auto simp: execute_subscription_defs takes_custom_def as_asked_def dispatch_defs nth_append)

lemma serialized_delivery:
  assumes "cb_callable cb" and "cb_content cb = Serialized_message" and "\<not> cb_with_info cb"
    and "rcl_take True = Taken m info"
  shows "\<exists>q h'. fst (execute_subscription A own_publisher can_loan rcl_take cb h) = (Inr (Some (deliver cb info q)), h') \<and>
    h' ! q = m \<and> length h \<le> q"
  using assms
  by (auto simp: execute_subscription_defs dispatch_defs nth_append)

text \<open>
  A callback for serialized messages that asks for the origin is not recognised as one: the
  message is taken in its ordinary form, every message makes the executor throw, and a loaned
  message is never given back.
\<close>

lemma serialized_with_info_fails:
  assumes "cb_callable cb" and "cb_content cb = Serialized_message" and "cb_with_info cb"
    and "rcl_take False = Taken m info" and "\<not> own_publisher info"
  shows "fst (fst (execute_subscription A own_publisher can_loan rcl_take cb h)) =
      Inl (RuntimeError ''Cannot dispatch std::shared_ptr<ROSMessageType> message to rclcpp::SerializedMessage'') \<and>
    snd (execute_subscription A own_publisher can_loan rcl_take cb h) = None"
  using assms
  by (auto simp: execute_subscription_defs takes_custom_def dispatch_defs)

text \<open>
  A loaned message is given back after the callback, which may have kept the shared pointer to it.
\<close>

lemma loaned_message_given_back:
  assumes "cb_callable cb" and "cb_content cb = ROS_message" and "cb_passing cb = By_shared_const_ptr"
    and "rcl_take False = Taken m info" and "\<not> own_publisher info"
  shows "\<exists>q h'. execute_subscription A own_publisher True rcl_take cb h = ((Inr (Some (deliver cb info q)), h'), Some q)"
  using assms
  by (auto simp: execute_subscription_defs takes_custom_def dispatch_defs)

end
