(* ===== verification/Services.thy ===== *)
theory Services
  imports Subscription_Callback
begin

text \<open>
  Services and their clients: the pending requests of \<open>client.hpp\<close>, the callbacks of
  \<open>any_service_callback.hpp\<close> and \<open>service.hpp\<close>, their execution in \<open>executor.cpp\<close>, and the wait for
  a service in \<open>client.cpp\<close>.  The step relation \<open>svc_step\<close> puts clients and a service together over
  a middleware that may delay, lose, repeat and reorder what is sent.
\<close>

section \<open>Clients\<close>

text \<open>
  The shared states of futures are numbered by the order of their creation.  Callbacks are
  numbered, \<open>called\<close> lists the ones that ran with the future they received.  A promise that is
  destroyed before it has a value leaves \<open>Broken_promise\<close> behind.
\<close>

datatype ('q, 'r) future_state =
  Not_ready | Value 'r | Value_with_request 'q 'r | Broken_promise

datatype 'q callback_info =
  Promise nat | With_callback nat nat | With_request_callback nat 'q nat

fun shared_state :: "'q callback_info \<Rightarrow> nat" where
  "shared_state (Promise i) = i"
| "shared_state (With_callback f i) = i"
| "shared_state (With_request_callback f q i) = i"

type_synonym 'q pending_request = "int \<times> int \<times> 'q callback_info"

record ('q, 'r) client =
  pending_requests :: "'q pending_request list"
  futures :: "('q, 'r) future_state list"
  called :: "(nat \<times> nat) list"

definition Client_new :: "('q, 'r) client" where
  "Client_new = \<lparr>pending_requests = [], futures = [], called = []\<rparr>"

definition set_value_at :: "nat \<Rightarrow> ('q, 'r) future_state \<Rightarrow> ('q, 'r) client \<Rightarrow> ('q, 'r) client" where
  "set_value_at i v c = c\<lparr>futures := (futures c)[i := v]\<rparr>"

definition destroy_promise :: "'q callback_info \<Rightarrow> ('q, 'r) client \<Rightarrow> ('q, 'r) client" where
  "destroy_promise v = set_value_at (shared_state v) Broken_promise"

text \<open>
  \<open>sent\<close> is the result of \<open>rcl_send_request\<close>: an error or the sequence number of the request.  A
  number that is still pending keeps its old entry, as \<open>try_emplace\<close> does, and the new promise is
  destroyed.
\<close>

definition async_send_request_impl ::
    "rclcpp_exn + int \<Rightarrow> int \<Rightarrow> 'q callback_info \<Rightarrow> ('q, 'r) client \<Rightarrow> (rclcpp_exn + int) \<times> ('q, 'r) client" where
  "async_send_request_impl sent now value c =
     (case sent of
        Inl e \<Rightarrow> (Inl e, destroy_promise value c)
      | Inr sequence_number \<Rightarrow>
          (Inr sequence_number,
           if sequence_number \<in> fst ` set (pending_requests c) then destroy_promise value c
           else c\<lparr>pending_requests := (sequence_number, now, value) # pending_requests c\<rparr>))"

text \<open>The three overloads: the future alone, a callback, a callback that receives the request too.\<close>

datatype send_kind = Future_only | Call_back nat | Call_back_with_request nat

fun callback_info_of :: "send_kind \<Rightarrow> 'q \<Rightarrow> nat \<Rightarrow> 'q callback_info" where
  "callback_info_of Future_only request i = Promise i"
| "callback_info_of (Call_back f) request i = With_callback f i"
| "callback_info_of (Call_back_with_request f) request i = With_request_callback f request i"

definition async_send_request ::
    "send_kind \<Rightarrow> rclcpp_exn + int \<Rightarrow> int \<Rightarrow> 'q \<Rightarrow> ('q, 'r) client \<Rightarrow> (rclcpp_exn + nat \<times> int) \<times> ('q, 'r) client" where
  "async_send_request kind sent now request c =
     (let i = length (futures c)
      in case async_send_request_impl sent now (callback_info_of kind request i)
                (c\<lparr>futures := futures c @ [Not_ready]\<rparr>) of
           (r, c') \<Rightarrow> (map_sum id (Pair i) r, c'))"

definition get_and_erase_pending_request ::
    "int \<Rightarrow> ('q, 'r) client \<Rightarrow> 'q callback_info option \<times> ('q, 'r) client" where
  "get_and_erase_pending_request request_number c =
     (case map_of (pending_requests c) request_number of
        None \<Rightarrow> (None, c)
      | Some (_, value) \<Rightarrow>
          (Some value, c\<lparr>pending_requests := filter (\<lambda>p. fst p \<noteq> request_number) (pending_requests c)\<rparr>))"

definition run_callback :: "nat \<Rightarrow> nat \<Rightarrow> ('q, 'r) client \<Rightarrow> ('q, 'r) client" where
  "run_callback f i c = c\<lparr>called := called c @ [(f, i)]\<rparr>"

definition handle_response :: "int \<Rightarrow> 'r \<Rightarrow> ('q, 'r) client \<Rightarrow> ('q, 'r) client" where
  "handle_response sequence_number response c =
     (case get_and_erase_pending_request sequence_number c of
        (None, c') \<Rightarrow> c'
      | (Some (Promise i), c') \<Rightarrow> set_value_at i (Value response) c'
      | (Some (With_callback f i), c') \<Rightarrow> run_callback f i (set_value_at i (Value response) c')
      | (Some (With_request_callback f q i), c') \<Rightarrow>
          run_callback f i (set_value_at i (Value_with_request q response) c'))"

definition erase_requests :: "('q pending_request \<Rightarrow> bool) \<Rightarrow> ('q, 'r) client \<Rightarrow> ('q, 'r) client" where
  "erase_requests gone c =
     fold (\<lambda>(_, _, value). destroy_promise value) (filter gone (pending_requests c))
       (c\<lparr>pending_requests := filter (Not \<circ> gone) (pending_requests c)\<rparr>)"

definition remove_pending_request :: "int \<Rightarrow> ('q, 'r) client \<Rightarrow> bool \<times> ('q, 'r) client" where
  "remove_pending_request request_id c =
     (request_id \<in> fst ` set (pending_requests c), erase_requests (\<lambda>p. fst p = request_id) c)"

definition prune_pending_requests :: "('q, 'r) client \<Rightarrow> nat \<times> ('q, 'r) client" where
  "prune_pending_requests c = (length (pending_requests c), erase_requests (\<lambda>_. True) c)"

text \<open>The loop over the table: the numbers pushed to \<open>pruned_requests\<close>, and the client.\<close>

fun prune_loop :: "int \<Rightarrow> 'q pending_request list \<Rightarrow> ('q, 'r) client \<Rightarrow> int list \<times> ('q, 'r) client" where
  "prune_loop time_point [] c = ([], c)"
| "prune_loop time_point ((n, sent_at, value) # ps) c =
     (if sent_at < time_point
      then case prune_loop time_point ps
                  (destroy_promise value (c\<lparr>pending_requests := filter (\<lambda>p. fst p \<noteq> n) (pending_requests c)\<rparr>)) of
             (pruned, c') \<Rightarrow> (n # pruned, c')
      else prune_loop time_point ps c)"

definition prune_requests_older_than :: "int \<Rightarrow> ('q, 'r) client \<Rightarrow> (nat \<times> int list) \<times> ('q, 'r) client" where
  "prune_requests_older_than time_point c =
     (case prune_loop time_point (pending_requests c) c of
        (pruned, c') \<Rightarrow> ((length (pending_requests c) - length (pending_requests c'), pruned), c'))"

section \<open>Services\<close>

text \<open>
  A request is identified by the client that sent it and the sequence number.  A deferred callback
  keeps the request and answers it later with \<open>send_response\<close>.
\<close>

type_synonym request_header = "nat \<times> int"

datatype ('q, 'r) service_callback =
    No_callback
  | Shared_ptr_callback "'q \<Rightarrow> 'r"
  | With_request_header "request_header \<Rightarrow> 'q \<Rightarrow> 'r"
  | Defer_response
  | Defer_response_with_handle

datatype trace_event = Callback_start | Callback_end

record ('q, 'r) service =
  service_callback :: "('q, 'r) service_callback"
  kept :: "(request_header \<times> 'q) list"
  traced :: "trace_event list"

definition trace :: "trace_event \<Rightarrow> ('q, 'r) service \<Rightarrow> ('q, 'r) service" where
  "trace e s = s\<lparr>traced := traced s @ [e]\<rparr>"

definition keep_request :: "request_header \<Rightarrow> 'q \<Rightarrow> ('q, 'r) service \<Rightarrow> ('q, 'r) service" where
  "keep_request header request s = s\<lparr>kept := kept s @ [(header, request)]\<rparr>"

definition dispatch_request ::
    "request_header \<Rightarrow> 'q \<Rightarrow> ('q, 'r) service \<Rightarrow> (rclcpp_exn + 'r option) \<times> ('q, 'r) service" where
  "dispatch_request header request s =
     (let s' = trace Callback_start s
      in case service_callback s of
           No_callback \<Rightarrow> (Inl (RuntimeError ''unexpected request without any callback set''), s')
         | Defer_response \<Rightarrow> (Inr None, keep_request header request s')
         | Defer_response_with_handle \<Rightarrow> (Inr None, keep_request header request s')
         | Shared_ptr_callback cb \<Rightarrow> (Inr (Some (cb request)), trace Callback_end s')
         | With_request_header cb \<Rightarrow> (Inr (Some (cb header request)), trace Callback_end s'))"

text \<open>\<open>send_response\<close>: the error of \<open>rcl_send_response\<close>, if any, else what goes to the middleware.\<close>

definition send_response ::
    "rclcpp_exn option \<Rightarrow> request_header \<Rightarrow> 'r \<Rightarrow> rclcpp_exn + request_header \<times> 'r" where
  "send_response failed req_id response =
     (case failed of Some e \<Rightarrow> Inl e | None \<Rightarrow> Inr (req_id, response))"

definition handle_request ::
    "rclcpp_exn option \<Rightarrow> request_header \<Rightarrow> 'q \<Rightarrow> ('q, 'r) service \<Rightarrow>
     (rclcpp_exn + (request_header \<times> 'r) option) \<times> ('q, 'r) service" where
  "handle_request failed header request s =
     (case dispatch_request header request s of
        (Inl e, s') \<Rightarrow> (Inl e, s')
      | (Inr None, s') \<Rightarrow> (Inr None, s')
      | (Inr (Some response), s') \<Rightarrow> (map_sum id Some (send_response failed header response), s'))"

section \<open>Execution\<close>

text \<open>
  The answers of \<open>rcl_take_response\<close> and \<open>rcl_take_request\<close>.  Only \<open>RCLError\<close> is caught by the
  executor; the exceptions for an exhausted memory and an invalid argument are other classes.
\<close>

datatype ('m, 'i) rcl_take_ret =
  Ret_ok 'm 'i | Ret_take_failed | Ret_bad_alloc | Ret_invalid_argument string | Ret_error string

fun take_type_erased :: "('m, 'i) rcl_take_ret \<Rightarrow> ('m, 'i) taken" where
  "take_type_erased (Ret_ok m i) = Taken m i"
| "take_type_erased Ret_take_failed = Nothing_taken"
| "take_type_erased Ret_bad_alloc = Take_threw (RuntimeError ''std::bad_alloc'')"
| "take_type_erased (Ret_invalid_argument e) = Take_threw (InvalidArgument e)"
| "take_type_erased (Ret_error e) = Take_failed e"

definition execute_service ::
    "('q, request_header) rcl_take_ret \<Rightarrow> rclcpp_exn option \<Rightarrow> ('q, 'r) service \<Rightarrow>
     (rclcpp_exn + (request_header \<times> 'r) option) \<times> ('q, 'r) service" where
  "execute_service ret failed s =
     take_and_do_error_handling (take_type_erased ret) s (\<lambda>request header. handle_request failed header request)"

definition execute_client ::
    "('r, request_header) rcl_take_ret \<Rightarrow> ('q, 'r) client \<Rightarrow> (rclcpp_exn + unit option) \<times> ('q, 'r) client" where
  "execute_client ret c =
     take_and_do_error_handling (take_type_erased ret) c
       (\<lambda>response header c. (Inr (Some ()), handle_response (snd header) response c))"

section \<open>Waiting for a service\<close>

datatype available_ret =
  Available bool | Node_invalid bool string | Available_error string

text \<open>\<open>Node_invalid\<close> says whether the context is still valid; after shutdown the answer is no.\<close>

fun service_is_ready :: "available_ret \<Rightarrow> rclcpp_exn + bool" where
  "service_is_ready (Available b) = Inr b"
| "service_is_ready (Node_invalid still_valid e) = (if still_valid then Inl (RCLError e) else Inr False)"
| "service_is_ready (Available_error e) = Inl (RCLError e)"

text \<open>
  One turn of the loop sees whether the context is valid, the answer about the service after the
  wait, and the time elapsed since the start.  The result is the list of the waits, and the answer,
  or \<open>None\<close> when the turns given are used up and the loop goes on.
\<close>

type_synonym wait_turn = "bool \<times> available_ret \<times> int"

fun wait_loop :: "int \<Rightarrow> int \<Rightarrow> wait_turn list \<Rightarrow> int list \<times> (rclcpp_exn + bool) option" where
  "wait_loop timeout time_to_wait [] = ([], None)"
| "wait_loop timeout time_to_wait ((context_ok, ready, elapsed) # turns) =
     (if \<not> context_ok then ([], Some (Inr False))
      else case (case service_is_ready ready of
                   Inl e \<Rightarrow> ([], Some (Inl e))
                 | Inr True \<Rightarrow> ([], Some (Inr True))
                 | Inr False \<Rightarrow>
                     (let time_to_wait' = (if timeout > 0 then timeout - elapsed else time_to_wait)
                      in if time_to_wait' > 0 then wait_loop timeout time_to_wait' turns
                         else ([], Some (Inr False)))) of
             (waits, r) \<Rightarrow> (min time_to_wait 100000000 # waits, r))"

definition wait_for_service_nanoseconds ::
    "bool \<Rightarrow> available_ret \<Rightarrow> int \<Rightarrow> int \<Rightarrow> wait_turn list \<Rightarrow> int list \<times> (rclcpp_exn + bool) option" where
  "wait_for_service_nanoseconds node_alive ready timeout elapsed turns =
     (if \<not> node_alive then ([], Some (Inl (RuntimeError ''node is invalid'')))
      else case service_is_ready ready of
             Inl e \<Rightarrow> ([], Some (Inl e))
           | Inr True \<Rightarrow> ([], Some (Inr True))
           | Inr False \<Rightarrow>
               if timeout = 0 then ([], Some (Inr False))
               else let time_to_wait = (if timeout > 0 then timeout - elapsed else 2 ^ 63 - 1)
                    in wait_loop timeout (max 0 time_to_wait) turns)"

lemma wait_loop_waits:
  "0 \<le> t \<Longrightarrow> w \<in> set (fst (wait_loop timeout t turns)) \<Longrightarrow> 0 \<le> w \<and> w \<le> 100000000"
  by (induction timeout t turns rule: wait_loop.induct)
    (auto simp: Let_def split: sum.splits bool.splits if_splits prod.splits)

lemma wait_loop_returns:
  assumes "0 < timeout" and "(ok, ready, elapsed) \<in> set turns" and "timeout \<le> elapsed"
  shows "snd (wait_loop timeout t turns) \<noteq> None"
  using assms
  by (induction timeout t turns rule: wait_loop.induct)
    (auto simp: Let_def split: sum.splits bool.splits if_splits prod.splits)

lemma wait_loop_true:
  assumes "snd (wait_loop timeout t turns) = Some (Inr True)"
  shows "\<exists>ok elapsed. (ok, Available True, elapsed) \<in> set turns"
  using assms
proof (induction timeout t turns rule: wait_loop.induct)
  case (2 timeout t ok ready elapsed turns)
  then show ?case
    by (cases ready) (auto simp: Let_def split: if_splits prod.splits bool.splits)
qed simp

text \<open>
  A wait with a timeout ends by the first turn after the timeout, no single wait is longer than a
  tenth of a second, and the answer is yes only when the service was seen.
\<close>

theorem wait_for_service_ends:
  assumes "0 < timeout" and "(ok, ready', elapsed') \<in> set turns" and "timeout \<le> elapsed'"
  shows "\<exists>waits r. wait_for_service_nanoseconds alive ready timeout elapsed turns = (waits, Some r) \<and>
    (\<forall>w \<in> set waits. 0 \<le> w \<and> w \<le> 100000000) \<and>
    (r = Inr True \<longrightarrow> ready = Available True \<or> (\<exists>ok elapsed. (ok, Available True, elapsed) \<in> set turns))"
proof -
  let ?t = "max 0 (timeout - elapsed)"
  obtain waits r where w: "wait_loop timeout ?t turns = (waits, Some r)"
    using wait_loop_returns [OF assms] by (metis option.collapse prod.collapse)
  then show ?thesis
    using assms(1) wait_loop_waits [of ?t _ timeout turns] wait_loop_true [of timeout ?t turns]
    by (cases ready) (auto simp: wait_for_service_nanoseconds_def split: bool.split)
qed

theorem wait_for_service_ends_witness:
  "\<exists>waits r. wait_for_service_nanoseconds True (Available False) 300000000 0
       [(True, Available False, 100000000), (True, Available True, 200000000), (True, Available False, 300000000)] =
         (waits, Some r) \<and> (\<forall>w \<in> set waits. 0 \<le> w \<and> w \<le> 100000000)"
  using wait_for_service_ends [of 300000000 True "Available False" 300000000
      "[(True, Available False, 100000000), (True, Available True, 200000000), (True, Available False, 300000000)]"
      True "Available False" 0] by force

section \<open>Pending requests\<close>

text \<open>
  The invariant of a client: a future waits exactly when its request is pending, no two requests
  share a number or a future, and each callback has run at most once, on a future with a value.
\<close>

abbreviation request_future :: "'q pending_request \<Rightarrow> nat" where
  "request_future p \<equiv> shared_state (snd (snd p))"

definition has_value :: "('q, 'r) future_state \<Rightarrow> bool" where
  "has_value v \<longleftrightarrow> v \<noteq> Not_ready \<and> v \<noteq> Broken_promise"

definition client_ok :: "('q, 'r) client \<Rightarrow> bool" where
  "client_ok c \<longleftrightarrow>
     distinct (map fst (pending_requests c)) \<and> distinct (map request_future (pending_requests c)) \<and>
     {i. i < length (futures c) \<and> futures c ! i = Not_ready} = request_future ` set (pending_requests c) \<and>
     distinct (map snd (called c)) \<and>
     (\<forall>i \<in> snd ` set (called c). i < length (futures c) \<and> has_value (futures c ! i))"

lemma client_okD:
  assumes "client_ok c" and "p \<in> set (pending_requests c)"
  shows "request_future p < length (futures c)" and "futures c ! request_future p = Not_ready"
    and "request_future p \<notin> snd ` set (called c)"
proof -
  have "request_future p \<in> {i. i < length (futures c) \<and> futures c ! i = Not_ready}"
    using assms by (simp add: client_ok_def)
  then show "request_future p < length (futures c)" "futures c ! request_future p = Not_ready" by simp_all
  then show "request_future p \<notin> snd ` set (called c)"
    using assms(1) by (auto simp: client_ok_def has_value_def)
qed

lemma client_ok_waiting:
  assumes "client_ok c" and "i < length (futures c)"
  shows "futures c ! i = Not_ready \<longleftrightarrow> i \<in> request_future ` set (pending_requests c)"
proof -
  have "{i. i < length (futures c) \<and> futures c ! i = Not_ready} = request_future ` set (pending_requests c)"
    using assms(1) by (simp add: client_ok_def)
  from eqset_imp_iff [OF this, of i] assms(2) show ?thesis by simp
qed

lemma client_ok_unique:
  assumes "client_ok c" "p \<in> set (pending_requests c)" "p' \<in> set (pending_requests c)"
  shows "fst p = fst p' \<longleftrightarrow> p = p'" and "request_future p = request_future p' \<longleftrightarrow> p = p'"
  using assms by (auto simp: client_ok_def distinct_map dest: inj_onD)

lemma futures_erase:
  "futures (fold (\<lambda>(_, _, value). destroy_promise value) ps c) =
     map (\<lambda>i. if i \<in> request_future ` set ps then Broken_promise else futures c ! i) [0..<length (futures c)]"
proof (induction ps arbitrary: c)
  case Nil
  then show ?case by (simp add: map_nth)
next
  case (Cons p ps)
  then show ?case
    by (auto simp: destroy_promise_def set_value_at_def nth_list_update split: prod.split)
qed

lemma erase_others [simp]:
  "pending_requests (fold (\<lambda>(_, _, value). destroy_promise value) ps c) = pending_requests c"
  "called (fold (\<lambda>(_, _, value). destroy_promise value) ps c) = called c"
  by (induction ps arbitrary: c) (auto simp: destroy_promise_def set_value_at_def)

lemma erase_requests_simps [simp]:
  "pending_requests (erase_requests gone c) = filter (Not \<circ> gone) (pending_requests c)"
  "called (erase_requests gone c) = called c"
  "length (futures (erase_requests gone c)) = length (futures c)"
  by (simp_all add: erase_requests_def futures_erase)

lemma futures_erase_requests:
  "i < length (futures c) \<Longrightarrow> futures (erase_requests gone c) ! i =
     (if \<exists>p \<in> set (pending_requests c). gone p \<and> request_future p = i then Broken_promise else futures c ! i)"
  by (auto simp: erase_requests_def futures_erase)

lemma client_ok_erase: "client_ok c \<Longrightarrow> client_ok (erase_requests gone c)"
proof -
  assume ok: "client_ok c"
  have "{i. i < length (futures c) \<and> futures (erase_requests gone c) ! i = Not_ready} =
      {i. i < length (futures c) \<and> futures c ! i = Not_ready} -
      request_future ` {p \<in> set (pending_requests c). gone p}"
    by (auto simp: futures_erase_requests image_iff split: if_splits) (force+)
  also have "\<dots> = request_future ` {p \<in> set (pending_requests c). \<not> gone p}"
    using ok client_ok_unique(2) [OF ok] by (auto simp: client_ok_def)
  finally have "{i. i < length (futures c) \<and> futures (erase_requests gone c) ! i = Not_ready} =
      request_future ` set (filter (Not \<circ> gone) (pending_requests c))" by simp
  moreover have "has_value (futures (erase_requests gone c) ! i)" "i < length (futures c)"
    if "i \<in> snd ` set (called c)" for i
  proof -
    show "i < length (futures c)" using ok that by (auto simp: client_ok_def)
    then show "has_value (futures (erase_requests gone c) ! i)"
      using that client_okD(3) [OF ok] ok by (auto simp: futures_erase_requests client_ok_def)
  qed
  ultimately show ?thesis
    using ok by (auto simp: client_ok_def distinct_map inj_on_def)
qed

lemma client_ok_new [simp]: "client_ok Client_new"
  by (simp add: client_ok_def Client_new_def)

lemma shared_state_of [simp]: "shared_state (callback_info_of kind q i) = i"
  by (cases kind) simp_all

lemma new_future_states:
  "{i. i < Suc (length F) \<and> (F @ [v]) ! i = Not_ready} =
     {i. i < length F \<and> F ! i = Not_ready} \<union> (if v = Not_ready then {length F} else {})"
  by (auto simp: nth_append less_Suc_eq)

lemma client_ok_send:
  assumes "client_ok c"
  shows "client_ok (snd (async_send_request kind sent now q c))"
proof -
  have fresh: "length (futures c) \<notin> request_future ` set (pending_requests c)"
    using client_okD(1) [OF assms] by fastforce
  have called: "\<forall>i \<in> snd ` set (called c). i < Suc (length (futures c)) \<and> has_value ((futures c @ [v]) ! i)" for v
    using assms by (auto simp: client_ok_def nth_append)
  show ?thesis
    using assms fresh called
    by (auto simp: async_send_request_def async_send_request_impl_def destroy_promise_def set_value_at_def
        client_ok_def new_future_states Let_def split: sum.split)
qed

text \<open>An answer to a pending request is stored in its future; any other is ignored.\<close>

definition settled :: "'q callback_info \<Rightarrow> 'r \<Rightarrow> ('q, 'r) future_state" where
  "settled v r = (case v of With_request_callback f q i \<Rightarrow> Value_with_request q r | _ \<Rightarrow> Value r)"

lemma settled_value: "has_value (settled v r)"
  by (simp add: has_value_def settled_def split: callback_info.split)

definition calls :: "'q callback_info \<Rightarrow> (nat \<times> nat) list" where
  "calls v = (case v of Promise i \<Rightarrow> [] | With_callback f i \<Rightarrow> [(f, i)] | With_request_callback f q i \<Rightarrow> [(f, i)])"

lemma handle_response_pending:
  assumes "client_ok c" and "(n, t, v) \<in> set (pending_requests c)"
  shows "handle_response n r c =
    c\<lparr>pending_requests := filter (\<lambda>p. fst p \<noteq> n) (pending_requests c),
      futures := (futures c)[shared_state v := settled v r], called := called c @ calls v\<rparr>"
proof -
  have "map_of (pending_requests c) n = Some (t, v)"
    using assms by (simp add: client_ok_def)
  then show ?thesis
    by (cases v) (simp_all add: handle_response_def get_and_erase_pending_request_def set_value_at_def
        run_callback_def settled_def calls_def)
qed

lemma handle_response_ignored:
  "n \<notin> fst ` set (pending_requests c) \<Longrightarrow> handle_response n r c = c"
  by (simp add: handle_response_def get_and_erase_pending_request_def map_of_eq_None_iff [symmetric])

lemma client_ok_response:
  assumes "client_ok c"
  shows "client_ok (handle_response n r c)"
proof (cases "n \<in> fst ` set (pending_requests c)")
  case True
  then obtain t v where p: "(n, t, v) \<in> set (pending_requests c)" by force
  let ?P = "filter (\<lambda>p. fst p \<noteq> n) (pending_requests c)" and ?i = "shared_state v"
  have i: "?i < length (futures c)" "?i \<notin> snd ` set (called c)" using client_okD [OF assms p] by simp_all
  have "set ?P = set (pending_requests c) - {(n, t, v)}"
    using client_ok_unique(1) [OF assms p] p by auto
  then have "request_future ` set ?P = request_future ` set (pending_requests c) - {?i}"
    using assms p inj_on_image_set_diff [of request_future "set (pending_requests c)" "set (pending_requests c)" "{(n, t, v)}"]
    by (simp add: client_ok_def distinct_map)
  moreover have "{j. j < length (futures c) \<and> (futures c)[?i := settled v r] ! j = Not_ready} =
      {j. j < length (futures c) \<and> futures c ! j = Not_ready} - {?i}"
    using i(1) settled_value [of v r] by (auto simp: nth_list_update has_value_def split: if_splits)
  moreover note settled_value [of v r]
  ultimately show ?thesis
    using assms i unfolding handle_response_pending [OF assms p] client_ok_def
    by (cases v) (auto simp: calls_def nth_list_update distinct_map inj_on_def)
next
  case False
  then show ?thesis using assms by (simp add: handle_response_ignored)
qed

lemma prune_loop_erases:
  assumes "distinct (map fst ps)" and "\<forall>p \<in> set ps. p \<in> set (pending_requests c)"
    and "distinct (map fst (pending_requests c))"
  shows "prune_loop t ps c =
    (map fst (filter (\<lambda>p. fst (snd p) < t) ps),
     fold (\<lambda>(_, _, value). destroy_promise value) (filter (\<lambda>p. fst (snd p) < t) ps)
       (c\<lparr>pending_requests := filter (\<lambda>p. p \<notin> set (filter (\<lambda>p. fst (snd p) < t) ps)) (pending_requests c)\<rparr>))"
  using assms
proof (induction t ps c rule: prune_loop.induct)
  case (2 t n s v ps c)
  let ?old = "\<lambda>p. fst (snd p) < t"
  let ?c = "destroy_promise v (c\<lparr>pending_requests := filter (\<lambda>p. fst p \<noteq> n) (pending_requests c)\<rparr>)"
  have key: "fst p = n \<longleftrightarrow> p = (n, s, v)" if "p \<in> set (pending_requests c)" for p
    using "2.prems"(2,3) that by (metis distinct_map inj_onD fst_conv list.set_intros(1))
  show ?case
  proof (cases "s < t")
    case True
    have pend: "pending_requests ?c = filter (\<lambda>p. p \<noteq> (n, s, v)) (pending_requests c)"
      using key by (simp add: destroy_promise_def set_value_at_def cong: filter_cong)
    have "prune_loop t ps ?c =
      (map fst (filter ?old ps), fold (\<lambda>(_, _, value). destroy_promise value) (filter ?old ps)
         (?c\<lparr>pending_requests := filter (\<lambda>p. p \<notin> set (filter ?old ps)) (pending_requests ?c)\<rparr>))"
      using True "2.prems" pend by (intro "2.IH"(1)) (auto simp: distinct_map_filter image_iff)
    moreover have "?c\<lparr>pending_requests := filter (\<lambda>p. p \<notin> set (filter ?old ps)) (pending_requests ?c)\<rparr> =
      destroy_promise v (c\<lparr>pending_requests :=
        filter (\<lambda>p. p \<notin> set (filter ?old ((n, s, v) # ps))) (pending_requests c)\<rparr>)"
      unfolding pend using True
      by (auto simp: destroy_promise_def set_value_at_def intro!: arg_cong [of _ _ "\<lambda>x. _ x"] filter_cong)
    ultimately show ?thesis using True by simp
  next
    case False
    then show ?thesis using "2.IH"(2) "2.prems" by simp
  qed
qed simp

lemma prune_older_erases:
  assumes "client_ok c"
  shows "prune_requests_older_than t c =
    ((length (filter (\<lambda>p. fst (snd p) < t) (pending_requests c)),
      map fst (filter (\<lambda>p. fst (snd p) < t) (pending_requests c))),
     erase_requests (\<lambda>p. fst (snd p) < t) c)"
proof -
  let ?P = "pending_requests c" and ?old = "\<lambda>p. fst (snd p) < t"
  have "filter (\<lambda>p. p \<notin> set (filter ?old ?P)) ?P = filter (Not \<circ> ?old) ?P"
    by (rule filter_cong) auto
  then have "prune_loop t ?P c = (map fst (filter ?old ?P), erase_requests ?old c)"
    using assms prune_loop_erases [of ?P c t] by (simp add: client_ok_def erase_requests_def)
  moreover have "length ?P - length (filter (Not \<circ> ?old) ?P) = length (filter ?old ?P)"
    using sum_length_filter_compl [of ?old ?P] by (simp add: comp_def)
  ultimately show ?thesis by (simp add: prune_requests_older_than_def)
qed

section \<open>Clients and a service together\<close>

text \<open>
  \<open>sent_requests\<close> maps the header of every request ever sent to the request and its future,
  \<open>responses\<close> lists every response ever sent.  The middleware hands either to the other side any
  number of times, at any time; it gives the requests of one client different numbers, and delivers
  a response to the client that sent the request.
\<close>

record ('q, 'r) exchange =
  clients :: "nat \<Rightarrow> ('q, 'r) client"
  server :: "('q, 'r) service"
  sent_requests :: "request_header \<rightharpoonup> 'q \<times> nat"
  responses :: "(request_header \<times> 'r) list"

abbreviation with_client :: "nat \<Rightarrow> ('q, 'r) client \<Rightarrow> ('q, 'r) exchange \<Rightarrow> ('q, 'r) exchange" where
  "with_client g c x \<equiv> x\<lparr>clients := (clients x)(g := c)\<rparr>"

text \<open>\<open>deferred\<close> says what the user code answers to the requests it keeps.\<close>

inductive svc_step ::
    "(request_header \<Rightarrow> 'q \<Rightarrow> 'r \<Rightarrow> bool) \<Rightarrow> ('q, 'r) exchange \<Rightarrow> ('q, 'r) exchange \<Rightarrow> bool"
  for deferred where
  send: "sent_requests x (g, n) = None \<Longrightarrow>
    async_send_request kind (Inr n) now q (clients x g) = (Inr (i, n), c) \<Longrightarrow>
    svc_step deferred x ((with_client g c x)\<lparr>sent_requests := (sent_requests x)((g, n) \<mapsto> (q, i))\<rparr>)"
| send_fails: "async_send_request kind (Inl e) now q (clients x g) = (Inl e, c) \<Longrightarrow>
    svc_step deferred x (with_client g c x)"
| serve: "sent_requests x h = Some (q, i) \<Longrightarrow>
    execute_service (Ret_ok q h) failed (server x) = (r, s) \<Longrightarrow>
    svc_step deferred x (x\<lparr>server := s,
      responses := responses x @ (case r of Inr (Some m) \<Rightarrow> [m] | _ \<Rightarrow> [])\<rparr>)"
| respond: "(h, q) \<in> set (kept (server x)) \<Longrightarrow> deferred h q a \<Longrightarrow> send_response None h a = Inr m \<Longrightarrow>
    svc_step deferred x (x\<lparr>responses := responses x @ [m]\<rparr>)"
| receive: "((g, n), a) \<in> set (responses x) \<Longrightarrow>
    execute_client (Ret_ok a (g, n)) (clients x g) = (r, c) \<Longrightarrow>
    svc_step deferred x (with_client g c x)"
| remove: "remove_pending_request n (clients x g) = (b, c) \<Longrightarrow> svc_step deferred x (with_client g c x)"
| prune: "prune_pending_requests (clients x g) = (k, c) \<Longrightarrow> svc_step deferred x (with_client g c x)"
| prune_older: "prune_requests_older_than t (clients x g) = (k, c) \<Longrightarrow> svc_step deferred x (with_client g c x)"

definition Exchange_new :: "('q, 'r) service_callback \<Rightarrow> ('q, 'r) exchange" where
  "Exchange_new cb = \<lparr>clients = (\<lambda>_. Client_new),
     server = \<lparr>service_callback = cb, kept = [], traced = []\<rparr>, sent_requests = Map.empty, responses = []\<rparr>"

inductive svc_reachable ::
    "(request_header \<Rightarrow> 'q \<Rightarrow> 'r \<Rightarrow> bool) \<Rightarrow> ('q, 'r) service_callback \<Rightarrow> ('q, 'r) exchange \<Rightarrow> bool"
  for deferred cb where
  initially: "svc_reachable deferred cb (Exchange_new cb)"
| later: "svc_reachable deferred cb x \<Longrightarrow> svc_step deferred x y \<Longrightarrow> svc_reachable deferred cb y"

text \<open>What the service may answer to a request.\<close>

definition answers ::
    "(request_header \<Rightarrow> 'q \<Rightarrow> 'r \<Rightarrow> bool) \<Rightarrow> ('q, 'r) service_callback \<Rightarrow> request_header \<Rightarrow> 'q \<Rightarrow> 'r \<Rightarrow> bool" where
  "answers deferred cb h q r \<longleftrightarrow>
     (case cb of
        No_callback \<Rightarrow> False
      | Shared_ptr_callback f \<Rightarrow> r = f q
      | With_request_header f \<Rightarrow> r = f h q
      | Defer_response \<Rightarrow> deferred h q r
      | Defer_response_with_handle \<Rightarrow> deferred h q r)"

fun future_answers ::
    "(request_header \<Rightarrow> 'q \<Rightarrow> 'r \<Rightarrow> bool) \<Rightarrow> ('q, 'r) service_callback \<Rightarrow> request_header \<Rightarrow> 'q \<Rightarrow>
     ('q, 'r) future_state \<Rightarrow> bool" where
  "future_answers deferred cb h q (Value r) = answers deferred cb h q r"
| "future_answers deferred cb h q (Value_with_request q' r) = (q' = q \<and> answers deferred cb h q r)"
| "future_answers deferred cb h q _ = True"

text \<open>The invariant that links one client with the requests that were sent, and that of the whole.\<close>

definition linked where
  "linked deferred cb g S c \<longleftrightarrow> client_ok c \<and>
     (\<forall>p \<in> set (pending_requests c). \<exists>q. S (g, fst p) = Some (q, request_future p) \<and>
        (\<forall>f q' i. snd (snd p) = With_request_callback f q' i \<longrightarrow> q' = q)) \<and>
     (\<forall>n q i. S (g, n) = Some (q, i) \<longrightarrow>
        i < length (futures c) \<and> future_answers deferred cb (g, n) q (futures c ! i) \<and>
        (\<forall>n' q'. S (g, n') = Some (q', i) \<longrightarrow> n' = n))"

definition served where
  "served deferred cb S s rs \<longleftrightarrow> service_callback s = cb \<and>
     (\<forall>h q. (h, q) \<in> set (kept s) \<longrightarrow>
        (\<exists>i. S h = Some (q, i)) \<and> cb \<in> {Defer_response, Defer_response_with_handle}) \<and>
     (\<forall>h r. (h, r) \<in> set rs \<longrightarrow> (\<exists>q i. S h = Some (q, i) \<and> answers deferred cb h q r))"

definition exchange_ok where
  "exchange_ok deferred cb x \<longleftrightarrow>
     (\<forall>g. linked deferred cb g (sent_requests x) (clients x g)) \<and>
     served deferred cb (sent_requests x) (server x) (responses x)"

lemma served_send: "served deferred cb S s rs \<Longrightarrow> S h = None \<Longrightarrow> served deferred cb (S(h \<mapsto> v)) s rs"
  unfolding served_def by (metis (no_types, lifting) fun_upd_other option.distinct(1))

lemma linked_sent:
  assumes "linked deferred cb g S c" and "S (g, n) = Some (q, i)"
  shows "i < length (futures c)" and "future_answers deferred cb (g, n) q (futures c ! i)"
    and "S (g, n') = Some (q', i) \<Longrightarrow> n' = n"
  using assms unfolding linked_def by blast+

lemma linked_pending:
  assumes "linked deferred cb g S c" and "p \<in> set (pending_requests c)"
  shows "\<exists>q. S (g, fst p) = Some (q, request_future p) \<and>
    (\<forall>f q' i. snd (snd p) = With_request_callback f q' i \<longrightarrow> q' = q)"
  using assms unfolding linked_def by blast

lemma linked_erase:
  assumes "linked deferred cb g S c"
  shows "linked deferred cb g S (erase_requests gone c)"
  using assms client_ok_erase [of c gone]
  unfolding linked_def by (auto simp: futures_erase_requests)

lemma linked_other_client:
  "linked deferred cb g S c \<Longrightarrow> g' \<noteq> g \<Longrightarrow> linked deferred cb g (S((g', n) \<mapsto> v)) c"
  by (simp add: linked_def)

lemma linked_send:
  assumes "linked deferred cb g S c" and "S (g, n) = None"
    and "async_send_request kind (Inr n) now q c = (Inr (i, n), c')"
  shows "linked deferred cb g (S((g, n) \<mapsto> (q, i))) c'"
proof -
  have "n \<notin> fst ` set (pending_requests c)" using assms(1,2) by (fastforce simp: linked_def)
  then have c': "i = length (futures c)"
    "c' = c\<lparr>futures := futures c @ [Not_ready], pending_requests := (n, now, callback_info_of kind q i) # pending_requests c\<rparr>"
    using assms(3) by (auto simp: async_send_request_def async_send_request_impl_def Let_def)
  have "client_ok c'" using client_ok_send [of c kind "Inr n" now q] assms(1,3) by (simp add: linked_def)
  moreover have "q' = q" if "callback_info_of kind q i = With_request_callback f q' j" for f q' j
    using that by (cases kind) simp_all
  moreover have "\<exists>q'. (S((g, n) \<mapsto> (q, i))) (g, fst p) = Some (q', request_future p) \<and>
      (\<forall>f q'' j. snd (snd p) = With_request_callback f q'' j \<longrightarrow> q'' = q')"
    if "p \<in> set (pending_requests c)" for p
    using linked_pending [OF assms(1) that] assms(2) by (cases "fst p = n") auto
  moreover have "j < length (futures c)" if "S (g, m) = Some (q', j)" for m q' j
    using linked_sent(1) [OF assms(1) that] .
  moreover from this have "S (g, m) \<noteq> Some (q', length (futures c))" for m q' by blast
  ultimately show ?thesis
    using linked_sent(2,3) [OF assms(1)] assms(2) unfolding linked_def
    by (auto simp: c' nth_append less_Suc_eq)
qed

lemma linked_send_fails:
  assumes "linked deferred cb g S c" and "async_send_request kind (Inl e) now q c = (Inl e, c')"
  shows "linked deferred cb g S c'"
proof -
  have c': "c' = c\<lparr>futures := futures c @ [Broken_promise]\<rparr>"
    using assms(2) by (auto simp: async_send_request_def async_send_request_impl_def destroy_promise_def
        set_value_at_def Let_def)
  have "client_ok c'" using client_ok_send [of c kind "Inl e" now q] assms by (simp add: linked_def)
  then show ?thesis using assms(1) unfolding linked_def by (auto simp: c' nth_append intro: less_SucI)
qed

lemma linked_response:
  assumes "linked deferred cb g S c" and "S (g, n) = Some (q, i)" and "answers deferred cb (g, n) q r"
  shows "linked deferred cb g S (handle_response n r c)"
proof (cases "n \<in> fst ` set (pending_requests c)")
  case True
  then obtain t v where p: "(n, t, v) \<in> set (pending_requests c)" by force
  have ok: "client_ok c" using assms(1) by (simp add: linked_def)
  from assms(1,2) p have v: "shared_state v = i" "\<And>f q' j. v = With_request_callback f q' j \<Longrightarrow> q' = q"
    by (fastforce simp: linked_def)+
  then have "future_answers deferred cb (g, n) q (settled v r)"
    using assms(3) by (cases v) (simp_all add: settled_def)
  moreover have "m = n \<and> q' = q" if "S (g, m) = Some (q', i)" for m q'
    using linked_sent(3) [OF assms(1,2) that] that assms(2) by simp
  ultimately have "future_answers deferred cb (g, m) q' ((futures c)[i := settled v r] ! j)"
    if "S (g, m) = Some (q', j)" for m q' j
    using linked_sent(1,2) [OF assms(1) that] that by (cases "j = i") auto
  moreover have "pending_requests (handle_response n r c) = filter (\<lambda>p. fst p \<noteq> n) (pending_requests c)"
    "futures (handle_response n r c) = (futures c)[i := settled v r]"
    by (simp_all add: handle_response_pending [OF ok p] v(1))
  ultimately show ?thesis
    using linked_sent(1,3) [OF assms(1)] linked_pending [OF assms(1)] client_ok_response [OF ok, of n r]
    unfolding linked_def by (auto simp del: split_paired_All)
next
  case False
  then show ?thesis using assms by (simp add: handle_response_ignored)
qed

lemmas service_defs = execute_service_def take_and_do_error_handling_def handle_request_def
  dispatch_request_def send_response_def trace_def keep_request_def Let_def

lemma served_serve:
  assumes "served deferred cb S s rs" and "S h = Some (q, i)"
    and "execute_service (Ret_ok q h) failed s = (r, s')"
  shows "served deferred cb S s' (rs @ (case r of Inr (Some m) \<Rightarrow> [m] | _ \<Rightarrow> []))"
  using assms by (cases cb) (auto simp: served_def service_defs answers_def split: option.splits)

lemma served_respond:
  assumes "served deferred cb S s rs" and "(h, q) \<in> set (kept s)" and "deferred h q a"
  shows "served deferred cb S s (rs @ [(h, a)])"
  using assms by (fastforce simp: served_def answers_def)

lemma exchange_ok_step:
  assumes "svc_step deferred x y" and "exchange_ok deferred cb x"
  shows "exchange_ok deferred cb y"
  using assms
proof (induction rule: svc_step.induct)
  case (send x g n kind now q i c)
  then show ?case
    using linked_send [of deferred cb g "sent_requests x" "clients x g" n kind now q i c]
    by (auto simp: exchange_ok_def served_send linked_other_client)
next
  case (send_fails kind e now q x g c)
  then show ?case using linked_send_fails [of deferred cb g _ "clients x g"] by (auto simp: exchange_ok_def)
next
  case (serve x h q i failed r s)
  then show ?case by (auto simp: exchange_ok_def intro: served_serve)
next
  case (respond h q x a m)
  then show ?case by (auto simp: exchange_ok_def send_response_def intro: served_respond)
next
  case (receive g n a x r c)
  then obtain q i where "sent_requests x (g, n) = Some (q, i)" "answers deferred cb (g, n) q a"
    unfolding exchange_ok_def served_def by blast
  moreover from receive have "c = handle_response n a (clients x g)"
    by (simp add: execute_client_def take_and_do_error_handling_def)
  ultimately show ?case using receive(3) by (auto simp: exchange_ok_def intro: linked_response)
next
  case (prune_older t x g k c)
  then have "c = erase_requests (\<lambda>p. fst (snd p) < t) (clients x g)"
    using prune_older_erases [of "clients x g" t] by (auto simp: exchange_ok_def linked_def)
  with prune_older show ?case by (auto simp: exchange_ok_def linked_erase)
qed (auto simp: exchange_ok_def remove_pending_request_def prune_pending_requests_def linked_erase)

lemma reachable_ok: "svc_reachable deferred cb x \<Longrightarrow> exchange_ok deferred cb x"
proof (induction rule: svc_reachable.induct)
  case initially
  then show ?case by (simp add: exchange_ok_def Exchange_new_def linked_def served_def Client_new_def client_ok_def)
qed (rule exchange_ok_step)

text \<open>
  Claim C15.  Whatever the middleware delays, loses, repeats or reorders: a future that has a value has an
  answer of the service to the very request it was made for, with that request beside it where it
  was asked for; it waits exactly as long as its request is pending; and no callback runs twice.
\<close>

theorem futures_hold_their_answers:
  assumes "svc_reachable deferred cb x" and "sent_requests x (g, n) = Some (q, i)"
  shows "i < length (futures (clients x g)) \<and>
    future_answers deferred cb (g, n) q (futures (clients x g) ! i) \<and>
    (futures (clients x g) ! i = Not_ready \<longleftrightarrow> n \<in> fst ` set (pending_requests (clients x g))) \<and>
    distinct (map snd (called (clients x g)))"
proof -
  let ?c = "clients x g"
  have l: "linked deferred cb g (sent_requests x) ?c"
    using reachable_ok [OF assms(1)] by (simp add: exchange_ok_def)
  then have ok: "client_ok ?c" by (simp add: linked_def)
  have "futures ?c ! i = Not_ready \<longleftrightarrow> (\<exists>p \<in> set (pending_requests ?c). request_future p = i)"
    using client_ok_waiting [OF ok linked_sent(1) [OF l assms(2)]] by (auto simp: image_iff)
  also have "\<dots> \<longleftrightarrow> (\<exists>p \<in> set (pending_requests ?c). fst p = n)"
  proof (rule bex_cong [OF refl])
    fix p
    assume "p \<in> set (pending_requests ?c)"
    from linked_pending [OF l this] obtain q' where "sent_requests x (g, fst p) = Some (q', request_future p)" by blast
    with linked_sent(3) [OF l assms(2), of "fst p" q'] assms(2)
    show "request_future p = i \<longleftrightarrow> fst p = n" by (cases "fst p = n") auto
  qed
  finally have "futures ?c ! i = Not_ready \<longleftrightarrow> n \<in> fst ` set (pending_requests ?c)" by (auto simp: image_iff)
  then show ?thesis using linked_sent(1,2) [OF l assms(2)] ok by (simp add: client_ok_def)
qed

definition example_exchange :: "(string, string) exchange" where
  "example_exchange = (let x = Exchange_new (Shared_ptr_callback rev)
     in (with_client 0 (snd (async_send_request (Call_back_with_request 7) (Inr 1) 0 ''ab'' Client_new)) x)
          \<lparr>sent_requests := (sent_requests x)((0, 1) \<mapsto> (''ab'', 0))\<rparr>)"

lemma example_exchange_reachable:
  "svc_reachable deferred (Shared_ptr_callback rev) example_exchange"
  "sent_requests example_exchange (0, 1) = Some (''ab'', 0)"
  "futures (clients example_exchange 0) ! 0 = Not_ready"
proof -
  have "svc_step deferred (Exchange_new (Shared_ptr_callback rev)) example_exchange"
    unfolding example_exchange_def Let_def
    by (rule svc_step.send [of _ _ _ "Call_back_with_request 7" 0])
      (simp_all add: Exchange_new_def async_send_request_def async_send_request_impl_def Client_new_def)
  then show "svc_reachable deferred (Shared_ptr_callback rev) example_exchange"
    by (rule svc_reachable.later [OF svc_reachable.initially])
qed (simp_all add: example_exchange_def Exchange_new_def async_send_request_def async_send_request_impl_def
    Client_new_def Let_def)

theorem futures_hold_their_answers_witness:
  "future_answers (\<lambda>_ _ _. False) (Shared_ptr_callback rev) (0, 1) ''ab'' (futures (clients example_exchange 0) ! 0) \<and>
   1 \<in> fst ` set (pending_requests (clients example_exchange 0))"
  using futures_hold_their_answers [OF example_exchange_reachable(1,2)] example_exchange_reachable(3) by simp



text \<open>
  Pruning removes exactly the requests sent before the given time and reports their numbers; their
  futures are broken, and no other future changes.
\<close>

theorem prune_older_exact:
  assumes "client_ok c" and "prune_requests_older_than t c = ((k, pruned), c')"
  shows "client_ok c' \<and> k = length pruned \<and> distinct pruned \<and>
    set pruned = {n. \<exists>sent_at v. (n, sent_at, v) \<in> set (pending_requests c) \<and> sent_at < t} \<and>
    set (pending_requests c') = {p \<in> set (pending_requests c). t \<le> fst (snd p)} \<and>
    (\<forall>i < length (futures c). futures c' ! i =
      (if \<exists>p \<in> set (pending_requests c). fst (snd p) < t \<and> request_future p = i
       then Broken_promise else futures c ! i))"
proof -
  let ?old = "\<lambda>p. fst (snd p) < t"
  have eq: "k = length (filter ?old (pending_requests c))" "pruned = map fst (filter ?old (pending_requests c))"
    "c' = erase_requests ?old c"
    using assms(2) unfolding prune_older_erases [OF assms(1)] by auto
  have "set pruned = {n. \<exists>sent_at v. (n, sent_at, v) \<in> set (pending_requests c) \<and> sent_at < t}"
    unfolding eq by force
  moreover have "distinct pruned" using assms(1) unfolding eq by (simp add: client_ok_def distinct_map_filter)
  ultimately show ?thesis using client_ok_erase [OF assms(1)] by (auto simp: eq futures_erase_requests)
qed

theorem prune_older_exact_witness:
  "set (snd (fst (prune_requests_older_than 5 (clients example_exchange 0)))) = {1} \<and>
   futures (snd (prune_requests_older_than 5 (clients example_exchange 0))) ! 0 = Broken_promise"
proof -
  let ?c = "clients example_exchange 0"
  have p: "pending_requests ?c = [(1, 0, With_request_callback 7 ''ab'' 0)]" "length (futures ?c) = 1"
    by (simp_all add: example_exchange_def Exchange_new_def async_send_request_def async_send_request_impl_def
        Client_new_def Let_def)
  have "client_ok ?c"
    using reachable_ok [OF example_exchange_reachable(1)] by (simp add: exchange_ok_def linked_def)
  from prune_older_exact [OF this, of 5 "fst (fst (prune_requests_older_than 5 ?c))"
      "snd (fst (prune_requests_older_than 5 ?c))" "snd (prune_requests_older_than 5 ?c)"]
  show ?thesis by (auto simp: p)
qed

text \<open>
  A callback that defers its response is traced as started and never as ended.
\<close>

lemma deferred_never_ends:
  assumes "service_callback s = Defer_response \<or> service_callback s = Defer_response_with_handle"
  shows "traced (snd (execute_service (Ret_ok q h) failed s)) = traced s @ [Callback_start]"
  using assms by (auto simp: service_defs)

lemma plain_callback_traced:
  "service_callback s = Shared_ptr_callback f \<Longrightarrow>
     traced (snd (execute_service (Ret_ok q h) failed s)) = traced s @ [Callback_start, Callback_end]"
  by (simp add: service_defs)

end
