(* ===== verification/Contexts.thy ===== *)
theory Contexts
  imports Callback_Groups "HOL-Library.Multiset"
begin

text \<open>
  Contexts and signals: the life of a \<open>Context\<close> with its registration, its callbacks and its share
  in the logging system (\<open>context.cpp\<close>), the signal handler that shuts contexts down
  (\<open>signal_handler.cpp\<close>), and the functions of \<open>utilities.cpp\<close> over both.  The mutexes make each
  operation atomic; the results of the rcl functions are arguments.
\<close>

section \<open>State\<close>

text \<open>
  \<open>rcl_context\<close> is absent before initialization, and otherwise says whether rcl considers the
  context valid.  \<open>logging_mutex\<close> is set by the first initialization that sets up logging.  Shutdown
  callbacks are unordered sets of numbers, traversed in an order given as an argument.
\<close>

record context_state =
  rcl_context :: "bool option"
  shutdown_reason :: string
  logging_mutex :: bool
  shutdown_on_signal :: bool
  pre_shutdown_callbacks :: "nat list"
  on_shutdown_callbacks :: "nat list"

text \<open>
  The state of the process: \<open>unfinished\<close> counts rcl contexts that were deleted while valid, which are
  not finalized, and \<open>ran\<close> lists the callbacks that ran, each with its context and whether the
  context was valid then.
\<close>

record contexts_process =
  contexts :: "nat \<Rightarrow> context_state"
  destroyed :: "nat list"
  weak_contexts :: "nat list"
  logging_reference_count :: "64 word"
  logging_configured :: bool
  unfinished :: nat
  next_callback :: nat
  ran :: "(nat \<times> nat \<times> bool) list"

definition Context_new :: context_state where
  "Context_new = \<lparr>rcl_context = None, shutdown_reason = [], logging_mutex = False, shutdown_on_signal = True,
     pre_shutdown_callbacks = [], on_shutdown_callbacks = []\<rparr>"

definition process_start :: contexts_process where
  "process_start = \<lparr>contexts = (\<lambda>_. Context_new), destroyed = [], weak_contexts = [],
     logging_reference_count = 0, logging_configured = False, unfinished = 0, next_callback = 0, ran = []\<rparr>"

definition update_context :: "nat \<Rightarrow> (context_state \<Rightarrow> context_state) \<Rightarrow> contexts_process \<Rightarrow> contexts_process" where
  "update_context k f p = p\<lparr>contexts := (contexts p)(k := f (contexts p k))\<rparr>"

definition is_valid :: "nat \<Rightarrow> contexts_process \<Rightarrow> bool" where
  "is_valid k p \<longleftrightarrow> rcl_context (contexts p k) = Some True"

section \<open>Initialization\<close>

definition reset_rcl_context :: "nat \<Rightarrow> contexts_process \<Rightarrow> contexts_process" where
  "reset_rcl_context k p =
     update_context k (rcl_context_update (\<lambda>_. None))
       (if is_valid k p then p\<lparr>unfinished := unfinished p + 1\<rparr> else p)"

definition clean_up :: "nat \<Rightarrow> contexts_process \<Rightarrow> contexts_process" where
  "clean_up k p = reset_rcl_context k (update_context k (shutdown_reason_update (\<lambda>_. [])) p)"

text \<open>The answers of rcl to an initialization: errors, and the arguments it could not parse.\<close>

record init_answers =
  rcl_init :: "rclcpp_exn option"
  logging_configure :: "rclcpp_exn option"
  unparsed_ros_arguments :: "rclcpp_exn + string list"
  init_rcl_shutdown :: "rclcpp_exn option"

definition add_context :: "nat \<Rightarrow> contexts_process \<Rightarrow> contexts_process" where
  "add_context k p = p\<lparr>weak_contexts := weak_contexts p @ [k]\<rparr>"

definition initialize_logging ::
    "nat \<Rightarrow> init_answers \<Rightarrow> contexts_process \<Rightarrow> (rclcpp_exn + unit) \<times> contexts_process" where
  "initialize_logging k a p =
     (let p' = update_context k (logging_mutex_update (\<lambda>_. True)) p
      in if logging_reference_count p = 0
         then (case logging_configure a of
                 Some e \<Rightarrow> (Inl e, reset_rcl_context k p')
               | None \<Rightarrow> (Inr (), p'\<lparr>logging_configured := True,
                                     logging_reference_count := logging_reference_count p + 1\<rparr>))
         else (Inr (), p'\<lparr>logging_reference_count := logging_reference_count p + 1\<rparr>))"

definition finish_init ::
    "nat \<Rightarrow> bool \<Rightarrow> init_answers \<Rightarrow> contexts_process \<Rightarrow> (rclcpp_exn + unit) \<times> contexts_process" where
  "finish_init k on_signal a p =
     (case (case unparsed_ros_arguments a of
              Inl e \<Rightarrow> Some e
            | Inr [] \<Rightarrow> None
            | Inr _ \<Rightarrow> Some (RuntimeError ''found unknown ROS arguments'')) of
        None \<Rightarrow> (Inr (), add_context k (update_context k (shutdown_on_signal_update (\<lambda>_. on_signal)) p))
      | Some e \<Rightarrow>
          (case init_rcl_shutdown a of
             None \<Rightarrow> (Inl e, reset_rcl_context k (update_context k (rcl_context_update (\<lambda>_. Some False)) p))
           | Some e' \<Rightarrow> (Inl e', reset_rcl_context k p)))"

definition init ::
    "nat \<Rightarrow> bool \<Rightarrow> bool \<Rightarrow> init_answers \<Rightarrow> contexts_process \<Rightarrow> (rclcpp_exn + unit) \<times> contexts_process" where
  "init k auto_initialize_logging on_signal a p =
     (if is_valid k p then (Inl (RuntimeError ''context is already initialized''), p)
      else let p1 = clean_up k p
           in case rcl_init a of
                Some e \<Rightarrow> (Inl e, p1)
              | None \<Rightarrow>
                  (let p2 = update_context k (rcl_context_update (\<lambda>_. Some True)) p1
                   in case (if auto_initialize_logging then initialize_logging k a p2 else (Inr (), p2)) of
                        (Inl e, p3) \<Rightarrow> (Inl e, p3)
                      | (Inr _, p3) \<Rightarrow> finish_init k on_signal a p3))"

section \<open>Shutdown\<close>

definition run_callbacks :: "nat \<Rightarrow> nat list \<Rightarrow> contexts_process \<Rightarrow> contexts_process" where
  "run_callbacks k cbs p = p\<lparr>ran := ran p @ map (\<lambda>cb. (k, cb, is_valid k p)) cbs\<rparr>"

definition remove_context :: "nat \<Rightarrow> contexts_process \<Rightarrow> contexts_process" where
  "remove_context k p = p\<lparr>weak_contexts := filter (\<lambda>j. j \<notin> set (destroyed p) \<and> j \<noteq> k) (weak_contexts p)\<rparr>"

definition shutdown_logging :: "nat \<Rightarrow> contexts_process \<Rightarrow> contexts_process" where
  "shutdown_logging k p =
     (if logging_mutex (contexts p k)
      then let count = logging_reference_count p - 1
           in p\<lparr>logging_reference_count := count, logging_configured := (if count = 0 then False else logging_configured p)\<rparr>
      else p)"

definition shutdown ::
    "(nat list \<Rightarrow> nat list) \<Rightarrow> nat \<Rightarrow> string \<Rightarrow> rclcpp_exn option \<Rightarrow> contexts_process \<Rightarrow>
     (rclcpp_exn + bool) \<times> contexts_process" where
  "shutdown order k reason rcl_shutdown p =
     (if \<not> is_valid k p then (Inr False, p)
      else let p1 = run_callbacks k (order (pre_shutdown_callbacks (contexts p k))) p
           in case rcl_shutdown of
                Some e \<Rightarrow> (Inl e, p1)
              | None \<Rightarrow>
                  (let p2 = update_context k (\<lambda>c. c\<lparr>rcl_context := Some False, shutdown_reason := reason\<rparr>) p1;
                       p3 = run_callbacks k (order (on_shutdown_callbacks (contexts p2 k))) p2
                   in (Inr True, shutdown_logging k (remove_context k p3))))"

text \<open>The destructor logs exceptions of \<open>shutdown\<close>; \<open>clean_up\<close> is skipped then.\<close>

definition destroy ::
    "(nat list \<Rightarrow> nat list) \<Rightarrow> nat \<Rightarrow> rclcpp_exn option \<Rightarrow> contexts_process \<Rightarrow> contexts_process" where
  "destroy order k rcl_shutdown p =
     (let p' = (case shutdown order k ''context destructor was called while still not shutdown'' rcl_shutdown p of
                  (Inl e, p') \<Rightarrow> p' | (Inr _, p') \<Rightarrow> clean_up k p')
      in p'\<lparr>destroyed := k # destroyed p'\<rparr>)"

datatype shutdown_type = Pre_shutdown | On_shutdown

definition add_shutdown_callback :: "shutdown_type \<Rightarrow> nat \<Rightarrow> contexts_process \<Rightarrow> nat \<times> contexts_process" where
  "add_shutdown_callback t k p =
     (let n = next_callback p; p' = p\<lparr>next_callback := n + 1\<rparr>
      in (n, case t of
               Pre_shutdown \<Rightarrow> update_context k (pre_shutdown_callbacks_update ((#) n)) p'
             | On_shutdown \<Rightarrow> update_context k (on_shutdown_callbacks_update ((#) n)) p'))"

definition remove_shutdown_callback :: "shutdown_type \<Rightarrow> nat \<Rightarrow> nat \<Rightarrow> contexts_process \<Rightarrow> bool \<times> contexts_process" where
  "remove_shutdown_callback t k n p =
     (case t of
        Pre_shutdown \<Rightarrow>
          (n \<in> set (pre_shutdown_callbacks (contexts p k)),
           update_context k (pre_shutdown_callbacks_update (filter (\<lambda>m. m \<noteq> n))) p)
      | On_shutdown \<Rightarrow>
          (n \<in> set (on_shutdown_callbacks (contexts p k)),
           update_context k (on_shutdown_callbacks_update (filter (\<lambda>m. m \<noteq> n))) p))"

definition get_contexts :: "contexts_process \<Rightarrow> nat list \<times> contexts_process" where
  "get_contexts p =
     (let alive = filter (\<lambda>k. k \<notin> set (destroyed p)) (weak_contexts p)
      in (alive, p\<lparr>weak_contexts := alive\<rparr>))"

section \<open>Sleeping\<close>

text \<open>
  A turn of the loop: how long the condition variable waited, and whether the context is valid then.
  The result has the requested waits and the answer, or \<open>None\<close> when the loop goes on.
\<close>

fun sleep_loop :: "int \<Rightarrow> int \<Rightarrow> (int \<times> bool) list \<Rightarrow> int list \<times> bool option" where
  "sleep_loop nanoseconds time_left [] = ([], None)"
| "sleep_loop nanoseconds time_left ((waited, valid) # turns) =
     (if time_left - waited > 0 \<and> valid
      then case sleep_loop nanoseconds (time_left - waited) turns of (ws, r) \<Rightarrow> (nanoseconds # ws, r)
      else ([nanoseconds], Some valid))"

definition sleep_for :: "int \<Rightarrow> (int \<times> bool) list \<Rightarrow> int list \<times> bool option" where
  "sleep_for nanoseconds turns = sleep_loop nanoseconds nanoseconds turns"

section \<open>Consistency\<close>

lemma update_context_simps [simp]:
  "contexts (update_context k f p) = (contexts p)(k := f (contexts p k))"
  "destroyed (update_context k f p) = destroyed p"
  "weak_contexts (update_context k f p) = weak_contexts p"
  "logging_reference_count (update_context k f p) = logging_reference_count p"
  "logging_configured (update_context k f p) = logging_configured p"
  "next_callback (update_context k f p) = next_callback p"
  "ran (update_context k f p) = ran p"
  by (simp_all add: update_context_def)

lemma reset_rcl_context_simps [simp]:
  "contexts (reset_rcl_context k p) = (contexts p)(k := (contexts p k)\<lparr>rcl_context := None\<rparr>)"
  "destroyed (reset_rcl_context k p) = destroyed p"
  "weak_contexts (reset_rcl_context k p) = weak_contexts p"
  "logging_reference_count (reset_rcl_context k p) = logging_reference_count p"
  "logging_configured (reset_rcl_context k p) = logging_configured p"
  "ran (reset_rcl_context k p) = ran p"
  by (simp_all add: reset_rcl_context_def)

lemmas shutdown_defs = shutdown_def run_callbacks_def remove_context_def shutdown_logging_def Let_def

text \<open>
  A context that is initialized again asks for logging as it did before (\<open>logs\<close>), an initialization
  that sets up logging does not fail afterwards, and a context can be shut down by its destructor.
\<close>

inductive ctx_step :: "(nat \<Rightarrow> bool) \<Rightarrow> contexts_process \<Rightarrow> contexts_process \<Rightarrow> bool" for logs where
  ctx_init: "k \<notin> set (destroyed p) \<Longrightarrow> (logs k \<Longrightarrow> unparsed_ros_arguments a = Inr []) \<Longrightarrow>
    Suc (length (weak_contexts p)) < 2 ^ 64 \<Longrightarrow> init k (logs k) on_signal a p = (r, p') \<Longrightarrow> ctx_step logs p p'"
| ctx_shutdown: "shutdown order k reason failed p = (r, p') \<Longrightarrow> ctx_step logs p p'"
| ctx_destroy: "k \<notin> set (destroyed p) \<Longrightarrow> ctx_step logs p (destroy order k None p)"
| ctx_add: "add_shutdown_callback t k p = (n, p') \<Longrightarrow> ctx_step logs p p'"
| ctx_remove: "remove_shutdown_callback t k n p = (b, p') \<Longrightarrow> ctx_step logs p p'"
| ctx_get: "get_contexts p = (ks, p') \<Longrightarrow> ctx_step logs p p'"

inductive ctx_reachable :: "(nat \<Rightarrow> bool) \<Rightarrow> contexts_process \<Rightarrow> bool" for logs where
  at_start: "ctx_reachable logs process_start"
| after_step: "ctx_reachable logs p \<Longrightarrow> ctx_step logs p p' \<Longrightarrow> ctx_reachable logs p'"

definition contexts_ok :: "(nat \<Rightarrow> bool) \<Rightarrow> contexts_process \<Rightarrow> bool" where
  "contexts_ok logs p \<longleftrightarrow>
     distinct (weak_contexts p) \<and> length (weak_contexts p) < 2 ^ 64 \<and>
     set (weak_contexts p) \<inter> set (destroyed p) = {} \<and>
     (\<forall>k. is_valid k p \<longleftrightarrow> k \<in> set (weak_contexts p)) \<and>
     (\<forall>k. logging_mutex (contexts p k) \<longrightarrow> logs k) \<and>
     (\<forall>k \<in> set (weak_contexts p). logs k \<longrightarrow> logging_mutex (contexts p k)) \<and>
     logging_reference_count p = of_nat (length (filter logs (weak_contexts p))) \<and>
     (logging_configured p \<longleftrightarrow> filter logs (weak_contexts p) \<noteq> [])"

lemma of_nat_eq_0: "n < 2 ^ 64 \<Longrightarrow> (of_nat n :: 64 word) = 0 \<longleftrightarrow> n = 0"
  by (auto simp: word_of_nat_eq_0_iff dest: dvd_imp_le)

lemma contexts_ok_same:
  assumes "\<And>k. rcl_context (contexts p' k) = rcl_context (contexts p k)"
    and "\<And>k. logging_mutex (contexts p' k) = logging_mutex (contexts p k)"
    and "destroyed p' = destroyed p" "weak_contexts p' = weak_contexts p"
      "logging_reference_count p' = logging_reference_count p" "logging_configured p' = logging_configured p"
  shows "contexts_ok logs p' = contexts_ok logs p"
  unfolding contexts_ok_def is_valid_def assms ..

lemma contexts_ok_destroyed:
  assumes "contexts_ok logs p" and "\<not> is_valid k p"
  shows "contexts_ok logs (p\<lparr>destroyed := k # destroyed p\<rparr>)"
proof -
  have "k \<notin> set (weak_contexts p)" using assms by (simp add: contexts_ok_def)
  moreover have "is_valid j (p\<lparr>destroyed := k # destroyed p\<rparr>) = is_valid j p" for j by (simp add: is_valid_def)
  ultimately show ?thesis using assms(1) by (simp add: contexts_ok_def)
qed

lemma contexts_ok_count:
  assumes "contexts_ok logs p"
  shows "logging_reference_count p = 0 \<longleftrightarrow> filter logs (weak_contexts p) = []"
proof -
  have "length (filter logs (weak_contexts p)) < 2 ^ 64"
    using assms by (auto simp: contexts_ok_def intro: le_less_trans [OF length_filter_le])
  then show ?thesis using assms of_nat_eq_0 by (auto simp: contexts_ok_def)
qed

text \<open>A change of one invalid context that keeps it invalid, a context that becomes valid, and one that ends.\<close>

lemma contexts_ok_kept:
  assumes "contexts_ok logs p" and "\<not> is_valid k p"
    and "contexts p' = (contexts p)(k := c)" "rcl_context c \<noteq> Some True" "logging_mutex c \<longrightarrow> logs k"
    and "destroyed p' = destroyed p" "weak_contexts p' = weak_contexts p"
      "logging_reference_count p' = logging_reference_count p" "logging_configured p' = logging_configured p"
  shows "contexts_ok logs p'"
  using assms by (auto simp: contexts_ok_def is_valid_def)

lemma contexts_ok_added:
  assumes "contexts_ok logs p" and "\<not> is_valid k p" and "k \<notin> set (destroyed p)"
    and "Suc (length (weak_contexts p)) < 2 ^ 64"
    and "contexts p' = (contexts p)(k := c)" "rcl_context c = Some True" "logging_mutex c \<longleftrightarrow> logs k"
    and "destroyed p' = destroyed p" "weak_contexts p' = weak_contexts p @ [k]"
      "logging_reference_count p' = logging_reference_count p + (if logs k then 1 else 0)"
      "logging_configured p' \<longleftrightarrow> logging_configured p \<or> logs k"
  shows "contexts_ok logs p'"
  using assms by (auto simp: contexts_ok_def is_valid_def add.commute)

lemma filter_remove_one:
  assumes "distinct xs" and "k \<in> set xs"
  shows "length (filter P (filter (\<lambda>j. j \<noteq> k) xs)) = length (filter P xs) - (if P k then 1 else 0)"
    and "P k \<Longrightarrow> 0 < length (filter P xs)"
  using assms by (induction xs) (auto simp: Suc_diff_le intro!: arg_cong [of _ _ length] filter_cong)

lemma contexts_ok_ended:
  assumes "contexts_ok logs p" and "is_valid k p"
    and "contexts p' = (contexts p)(k := c)" "rcl_context c \<noteq> Some True" "logging_mutex c = logging_mutex (contexts p k)"
    and "destroyed p' = destroyed p" "weak_contexts p' = filter (\<lambda>j. j \<notin> set (destroyed p) \<and> j \<noteq> k) (weak_contexts p)"
      "logging_reference_count p' = logging_reference_count p - (if logging_mutex c then 1 else 0)"
      "logging_configured p' \<longleftrightarrow> logging_configured p \<and> \<not> (logging_mutex c \<and> logging_reference_count p' = 0)"
  shows "contexts_ok logs p'"
proof -
  let ?w = "weak_contexts p" and ?w' = "weak_contexts p'"
  have w: "distinct ?w" "k \<in> set ?w" and log: "logging_mutex c \<longleftrightarrow> logs k"
    using assms(1,2,5) by (auto simp: contexts_ok_def)
  have valid: "is_valid j p \<longleftrightarrow> j \<in> set ?w" for j using assms(1) by (simp add: contexts_ok_def)
  have configured: "logging_configured p \<longleftrightarrow> filter logs ?w \<noteq> []"
    using assms(1) by (simp add: contexts_ok_def)
  have w': "?w' = filter (\<lambda>j. j \<noteq> k) ?w"
    using assms(1,7) by (auto simp: contexts_ok_def intro!: filter_cong)
  have len: "length (filter logs ?w') = length (filter logs ?w) - (if logs k then 1 else 0)"
    unfolding w' by (rule filter_remove_one(1) [OF w])
  have count: "logging_reference_count p' = of_nat (length (filter logs ?w'))"
  proof (cases "logs k")
    case True
    then have "1 \<le> length (filter logs ?w)" using filter_remove_one(2) [OF w] by (simp add: Suc_le_eq)
    then show ?thesis using assms(1,8) log True unfolding len contexts_ok_def by (simp add: of_nat_diff)
  next
    case False
    then show ?thesis using assms(1,8) log unfolding len contexts_ok_def by simp
  qed
  have small: "length ?w' < 2 ^ 64" using assms(1) unfolding w'
    by (auto simp: contexts_ok_def intro: le_less_trans [OF length_filter_le])
  then have "logging_reference_count p' = 0 \<longleftrightarrow> filter logs ?w' = []"
    unfolding count by (subst of_nat_eq_0) (auto intro: le_less_trans [OF length_filter_le])
  moreover have "filter logs ?w' = filter logs ?w" if "\<not> logs k"
    unfolding w' filter_filter using that by (intro filter_cong) auto
  moreover have "filter logs ?w \<noteq> []" if "logs k" using that w by (auto simp: filter_empty_conv)
  ultimately have "logging_configured p' \<longleftrightarrow> filter logs ?w' \<noteq> []"
    using configured assms(9) log by (cases "logs k") simp_all
  moreover have "is_valid j p' \<longleftrightarrow> j \<in> set ?w'" for j
    using valid [of j] assms(3,4) unfolding w' is_valid_def by (cases "j = k") simp_all
  ultimately show ?thesis
    using assms(1,3,5,6) w' small count by (auto simp: contexts_ok_def)
qed

lemma contexts_ok_clean_up:
  assumes "contexts_ok logs p" and "\<not> is_valid k p"
  shows "contexts_ok logs (clean_up k p)" and "\<not> is_valid k (clean_up k p)"
proof -
  have "logging_mutex (contexts p k) \<longrightarrow> logs k" using assms(1) by (simp add: contexts_ok_def)
  then show "contexts_ok logs (clean_up k p)"
    by (intro contexts_ok_kept [OF assms, of _ "(contexts p k)\<lparr>shutdown_reason := [], rcl_context := None\<rparr>"])
      (simp_all add: clean_up_def)
  show "\<not> is_valid k (clean_up k p)" by (simp add: clean_up_def is_valid_def)
qed

lemma contexts_ok_init:
  assumes ok: "contexts_ok logs p" and "k \<notin> set (destroyed p)"
    and "logs k \<Longrightarrow> unparsed_ros_arguments a = Inr []" and "Suc (length (weak_contexts p)) < 2 ^ 64"
    and r: "init k (logs k) on_signal a p = (r, p')"
  shows "contexts_ok logs p'"
proof (cases "is_valid k p")
  case True
  then show ?thesis using ok r by (simp add: init_def)
next
  case False
  let ?q = "clean_up k p"
  have q: "contexts_ok logs ?q" "\<not> is_valid k ?q" using contexts_ok_clean_up [OF ok False] by simp_all
  have q': "destroyed ?q = destroyed p" "weak_contexts ?q = weak_contexts p" by (simp_all add: clean_up_def)
  have log: "logging_mutex (contexts ?q k) \<longrightarrow> logs k" "logging_configured ?q \<longleftrightarrow> logging_reference_count ?q \<noteq> 0"
    using q(1) contexts_ok_count [OF q(1)] by (simp_all add: contexts_ok_def)
  show ?thesis
  proof (cases "is_valid k p'")
    case True
    show ?thesis
      by (rule contexts_ok_added [OF q, of p' "contexts p' k"])
        (use r False True assms(2-4) q' log q(2) in
          \<open>auto simp: init_def initialize_logging_def finish_init_def add_context_def is_valid_def Let_def
            split: if_splits option.splits sum.splits list.splits\<close>)
  next
    case False
    show ?thesis
      by (rule contexts_ok_kept [OF q, of p' "contexts p' k"])
        (use r \<open>\<not> is_valid k p\<close> False assms(2-4) q' log q(2) in
          \<open>auto simp: init_def initialize_logging_def finish_init_def add_context_def is_valid_def Let_def
            split: if_splits option.splits sum.splits list.splits\<close>)
  qed
qed

lemma shutdown_succeeds:
  assumes "is_valid k p" and "shutdown order k reason None p = (r, p')"
  shows "r = Inr True"
    and "contexts p' = (contexts p)(k := (contexts p k)\<lparr>rcl_context := Some False, shutdown_reason := reason\<rparr>)"
    and "destroyed p' = destroyed p"
    and "weak_contexts p' = filter (\<lambda>j. j \<notin> set (destroyed p) \<and> j \<noteq> k) (weak_contexts p)"
    and "logging_reference_count p' = logging_reference_count p - (if logging_mutex (contexts p k) then 1 else 0)"
    and "logging_configured p' \<longleftrightarrow>
      logging_configured p \<and> \<not> (logging_mutex (contexts p k) \<and> logging_reference_count p' = 0)"
    and "ran p' = ran p @ map (\<lambda>cb. (k, cb, True)) (order (pre_shutdown_callbacks (contexts p k))) @
      map (\<lambda>cb. (k, cb, False)) (order (on_shutdown_callbacks (contexts p k)))"
  using assms by (auto simp: shutdown_defs is_valid_def split: if_splits)

lemma contexts_ok_shutdown:
  assumes "contexts_ok logs p" and "shutdown order k reason failed p = (r, p')"
  shows "contexts_ok logs p'"
proof (cases "is_valid k p \<and> failed = None")
  case True
  then show ?thesis
    using contexts_ok_ended [OF assms(1), of k p' "contexts p' k"] assms(2) shutdown_succeeds [of k p order reason r p']
    by simp
next
  case False
  then have "contexts p' = contexts p \<and> destroyed p' = destroyed p \<and> weak_contexts p' = weak_contexts p \<and>
      logging_reference_count p' = logging_reference_count p \<and> logging_configured p' = logging_configured p"
    using assms(2) by (auto simp: shutdown_def run_callbacks_def Let_def split: if_splits option.splits)
  then show ?thesis using assms(1) contexts_ok_same [of p' p logs] by simp
qed

lemma contexts_ok_destroy:
  assumes "contexts_ok logs p"
  shows "contexts_ok logs (destroy order k None p)"
proof -
  let ?s = "''context destructor was called while still not shutdown''"
  obtain r p1 where s: "shutdown order k ?s None p = (r, p1)" by fastforce
  have ok: "contexts_ok logs p1" by (rule contexts_ok_shutdown [OF assms s])
  have r: "\<not> is_valid k p1" "\<exists>b. r = Inr b"
    using s shutdown_succeeds [of k p order ?s r p1] by (auto simp: is_valid_def shutdown_def split: if_splits)
  then have "contexts_ok logs (clean_up k p1)" "\<not> is_valid k (clean_up k p1)"
    using contexts_ok_clean_up [OF ok] by simp_all
  then show ?thesis using r(2) contexts_ok_destroyed by (auto simp: destroy_def s Let_def)
qed

lemma contexts_ok_step:
  assumes "ctx_step logs p p'" and "contexts_ok logs p"
  shows "contexts_ok logs p'"
  using assms
proof (induction rule: ctx_step.induct)
  case (ctx_init k p a on_signal r p')
  then show ?case by (intro contexts_ok_init [of logs p k a on_signal r p'])
next
  case (ctx_add t k p n p')
  then show ?case using contexts_ok_same [of p' p logs]
    by (cases t) (auto simp: add_shutdown_callback_def Let_def)
next
  case (ctx_remove t k n p b p')
  then show ?case using contexts_ok_same [of p' p logs]
    by (cases t) (auto simp: remove_shutdown_callback_def)
next
  case (ctx_get p ks p')
  then have "filter (\<lambda>k. k \<notin> set (destroyed p)) (weak_contexts p) = weak_contexts p"
    by (auto simp: contexts_ok_def filter_id_conv)
  with ctx_get show ?case by (auto simp: get_contexts_def Let_def)
qed (simp_all add: contexts_ok_shutdown contexts_ok_destroy)

lemma ctx_reachable_ok: "ctx_reachable logs p \<Longrightarrow> contexts_ok logs p"
proof (induction rule: ctx_reachable.induct)
  case at_start
  then show ?case by (simp add: contexts_ok_def process_start_def Context_new_def is_valid_def)
qed (rule contexts_ok_step)

text \<open>
  Claim C18.  The register of contexts and the share in the logging system stay right while every context asks
  for logging in the same way each time and no initialization fails after it set up logging: the
  registered contexts are exactly the valid ones, logging is counted once for each valid context
  that asked for it, and it is configured exactly while there is one.
\<close>

theorem contexts_registered:
  assumes "ctx_reachable logs p"
  shows "(\<forall>k. k \<in> set (fst (get_contexts p)) \<longleftrightarrow> is_valid k p) \<and>
    unat (logging_reference_count p) = card {k. is_valid k p \<and> logs k} \<and>
    (logging_configured p \<longleftrightarrow> (\<exists>k. is_valid k p \<and> logs k))"
proof -
  have ok: "contexts_ok logs p" by (rule ctx_reachable_ok [OF assms])
  then have valid: "is_valid k p \<longleftrightarrow> k \<in> set (weak_contexts p)" for k by (simp add: contexts_ok_def)
  have count: "logging_reference_count p = of_nat (length (filter logs (weak_contexts p)))"
    and configured: "logging_configured p \<longleftrightarrow> filter logs (weak_contexts p) \<noteq> []"
    and alive: "set (weak_contexts p) \<inter> set (destroyed p) = {}" and dist: "distinct (weak_contexts p)"
    using ok by (simp_all add: contexts_ok_def)
  have "length (filter logs (weak_contexts p)) < 2 ^ 64"
    using ok by (auto simp: contexts_ok_def intro: le_less_trans [OF length_filter_le])
  then have "unat (logging_reference_count p) = length (filter logs (weak_contexts p))"
    using count by (simp add: unat_of_nat take_bit_nat_eq_self)
  also have "\<dots> = card {k. is_valid k p \<and> logs k}"
    using distinct_card [of "filter logs (weak_contexts p)"] dist by (simp add: valid)
  finally have "unat (logging_reference_count p) = card {k. is_valid k p \<and> logs k}" .
  moreover have "logging_configured p \<longleftrightarrow> (\<exists>k. is_valid k p \<and> logs k)"
    using configured by (auto simp: valid filter_empty_conv)
  moreover have "k \<in> set (fst (get_contexts p)) \<longleftrightarrow> is_valid k p" for k
    using alive by (auto simp: valid get_contexts_def Let_def)
  ultimately show ?thesis by blast
qed

definition good_answers :: init_answers where
  "good_answers = \<lparr>rcl_init = None, logging_configure = None, unparsed_ros_arguments = Inr [], init_rcl_shutdown = None\<rparr>"

definition example_process :: contexts_process where
  "example_process = snd (init 0 True True good_answers process_start)"

lemmas init_defs = init_def initialize_logging_def finish_init_def clean_up_def add_context_def good_answers_def
  process_start_def Context_new_def is_valid_def Let_def

lemma example_process_reachable: "ctx_reachable (\<lambda>_. True) example_process"
  and example_process_valid: "is_valid 0 example_process"
proof -
  have "ctx_step (\<lambda>_. True) process_start example_process"
    by (rule ctx_step.ctx_init [of 0 _ _ good_answers True "Inr ()"])
      (simp_all add: example_process_def init_defs)
  then show "ctx_reachable (\<lambda>_. True) example_process" by (rule ctx_reachable.after_step [OF ctx_reachable.at_start])
  show "is_valid 0 example_process" by (simp add: example_process_def init_defs)
qed

theorem contexts_registered_witness:
  "0 \<in> set (fst (get_contexts example_process)) \<and> logging_configured example_process"
  using contexts_registered [OF example_process_reachable] example_process_valid by blast

text \<open>
  A shutdown that succeeds runs every pre-shutdown callback while the context is valid and every
  shutdown callback after it is not, each exactly once, and leaves the context invalid with the
  reason recorded; shutting down again does nothing.
\<close>

theorem shutdown_runs_callbacks:
  assumes "is_valid k p" and "\<And>xs. mset (order xs) = mset xs"
  shows "\<exists>p' new. shutdown order k reason None p = (Inr True, p') \<and> \<not> is_valid k p' \<and>
    shutdown_reason (contexts p' k) = reason \<and> ran p' = ran p @ new \<and>
    mset new = image_mset (\<lambda>cb. (k, cb, True)) (mset (pre_shutdown_callbacks (contexts p k))) +
      image_mset (\<lambda>cb. (k, cb, False)) (mset (on_shutdown_callbacks (contexts p k))) \<and>
    k \<notin> set (fst (get_contexts p')) \<and> shutdown order k reason' failed p' = (Inr False, p')"
proof -
  obtain r p' where s: "shutdown order k reason None p = (r, p')" by fastforce
  note f = shutdown_succeeds [OF assms(1) s]
  have "\<not> is_valid k p'" by (simp add: is_valid_def f(2))
  then show ?thesis
    using assms(2) s f(1,4,7)
    by (intro exI [of _ p'] exI [of _ "map (\<lambda>cb. (k, cb, True)) (order (pre_shutdown_callbacks (contexts p k))) @
        map (\<lambda>cb. (k, cb, False)) (order (on_shutdown_callbacks (contexts p k)))"])
      (simp add: f(2) get_contexts_def shutdown_def Let_def)
qed

theorem shutdown_runs_callbacks_witness:
  "\<exists>p'. shutdown rev 0 ''done'' None example_process = (Inr True, p') \<and> \<not> is_valid 0 p' \<and>
     shutdown_reason (contexts p' 0) = ''done''"
  using shutdown_runs_callbacks [OF example_process_valid, of rev "''done''" "[]" None] by auto

text \<open>
  Outside that discipline the count goes wrong.  An initialization that fails on an unknown argument
  keeps its share in the logging system, which is then never released.  A context that is
  initialized again without logging still releases a share: the count wraps around below zero, and
  the next context that asks for logging does not configure it.
\<close>

lemma failed_init_keeps_logging:
  assumes "unparsed_ros_arguments a = Inr [x]" "rcl_init a = None" "logging_configure a = None" "init_rcl_shutdown a = None"
  shows "\<exists>p'. init 0 True True a process_start = (Inl (RuntimeError ''found unknown ROS arguments''), p') \<and>
    \<not> is_valid 0 p' \<and> logging_reference_count p' = 1 \<and> logging_configured p'"
  using assms by (simp add: init_defs)

lemma reinit_without_logging_wraps:
  "let p1 = snd (shutdown id 0 [] None example_process);
       p2 = snd (init 0 False True good_answers p1);
       p3 = snd (shutdown id 0 [] None p2);
       p4 = snd (init 1 True True good_answers p3)
   in logging_reference_count p3 = - 1 \<and> is_valid 1 p4 \<and> \<not> logging_configured p4"
  by (simp add: example_process_def init_defs shutdown_defs update_context_def reset_rcl_context_def)

text \<open>
  A sleep that is woken without cause waits for the whole duration again, not for what is left, so
  it can last almost twice as long as asked for; it answers yes when it slept to the end.
\<close>

lemma sleep_too_long: "sleep_for 10 [(9, True), (10, True)] = ([10, 10], Some True)"
  by (simp add: sleep_for_def)

end
