(* ===== verification/Signals.thy ===== *)
theory Signals
  imports Contexts
begin

text \<open>
  The signal handler of \<open>signal_handler.cpp\<close> and the functions of \<open>utilities.cpp\<close> that start and
  stop a process: installing and uninstalling, what a signal does, the thread that shuts contexts
  down, and \<open>init\<close> and \<open>shutdown\<close> over the default context.
\<close>

section \<open>State\<close>

datatype signal_options = All | SigInt | SigTerm | None_installed

text \<open>What the process does with a signal: the default, a handler of the user, or this handler.\<close>

datatype disposition = Default_action | User_handler | This_handler

record signal_handler =
  installed :: bool
  signal_handlers_options :: signal_options
  wait_for_signal_is_setup :: bool
  signal_received :: bool
  thread_joinable :: bool
  notifications :: nat
  sigint_action :: disposition
  sigterm_action :: disposition
  old_sigint_handler :: disposition
  old_sigterm_handler :: disposition

definition signal_handler_new :: "disposition \<Rightarrow> disposition \<Rightarrow> signal_handler" where
  "signal_handler_new on_int on_term = \<lparr>installed = False, signal_handlers_options = None_installed,
     wait_for_signal_is_setup = False, signal_received = False, thread_joinable = False, notifications = 0,
     sigint_action = on_int, sigterm_action = on_term,
     old_sigint_handler = Default_action, old_sigterm_handler = Default_action\<rparr>"

section \<open>Installing and uninstalling\<close>

definition wants_sigint :: "signal_options \<Rightarrow> bool" where
  "wants_sigint opts \<longleftrightarrow> opts = SigInt \<or> opts = All"

definition wants_sigterm :: "signal_options \<Rightarrow> bool" where
  "wants_sigterm opts \<longleftrightarrow> opts = SigTerm \<or> opts = All"

definition sigaction_failed :: rclcpp_exn where
  "sigaction_failed = RuntimeError ''Failed to set signal handler''"

text \<open>
  The answers of the system: whether the semaphore was created, and whether each handler was set.
  An exception leaves what was done before it in place.
\<close>

definition install ::
    "bool \<Rightarrow> bool \<Rightarrow> bool \<Rightarrow> signal_options \<Rightarrow> signal_handler \<Rightarrow> (rclcpp_exn + bool) \<times> signal_handler" where
  "install sem_ok int_ok term_ok opts s =
     (if installed s then (Inr False, s)
      else if opts = None_installed then (Inr True, s\<lparr>installed := True\<rparr>)
      else let s1 = s\<lparr>signal_handlers_options := opts\<rparr>
           in if \<not> sem_ok then (Inl (RuntimeError ''sem_init() failed''), s1)
              else let s2 = s1\<lparr>wait_for_signal_is_setup := True, notifications := 0, signal_received := False\<rparr>
                   in if wants_sigint opts \<and> \<not> int_ok then (Inl sigaction_failed, s2)
                      else let s3 = (if wants_sigint opts
                                     then s2\<lparr>old_sigint_handler := sigint_action s2, sigint_action := This_handler\<rparr>
                                     else s2)
                           in if wants_sigterm opts \<and> \<not> term_ok then (Inl sigaction_failed, s3)
                              else let s4 = (if wants_sigterm opts
                                             then s3\<lparr>old_sigterm_handler := sigterm_action s3, sigterm_action := This_handler\<rparr>
                                             else s3)
                                   in (Inr True, s4\<lparr>installed := True, thread_joinable := True\<rparr>))"

definition notify_signal_handler :: "signal_handler \<Rightarrow> signal_handler" where
  "notify_signal_handler s = (if wait_for_signal_is_setup s then s\<lparr>notifications := notifications s + 1\<rparr> else s)"

section \<open>Signals\<close>

definition signal_handler_common :: "signal_handler \<Rightarrow> signal_handler" where
  "signal_handler_common s = notify_signal_handler (s\<lparr>signal_received := True\<rparr>)"

definition get_old_signal_handler :: "bool \<Rightarrow> signal_handler \<Rightarrow> disposition" where
  "get_old_signal_handler is_sigint s = (if is_sigint then old_sigint_handler s else old_sigterm_handler s)"

text \<open>
  What a signal does: the handlers that run, and the state.  The old handler is called first; when it
  is this handler again, the call does not return, and the result is \<open>None\<close>.
\<close>

definition signal_arrives :: "bool \<Rightarrow> signal_handler \<Rightarrow> (disposition list \<times> signal_handler) option" where
  "signal_arrives is_sigint s =
     (case (if is_sigint then sigint_action s else sigterm_action s) of
        Default_action \<Rightarrow> Some ([Default_action], s)
      | User_handler \<Rightarrow> Some ([User_handler], s)
      | This_handler \<Rightarrow>
          (case get_old_signal_handler is_sigint s of
             Default_action \<Rightarrow> Some ([This_handler], signal_handler_common s)
           | User_handler \<Rightarrow> Some ([This_handler, User_handler], signal_handler_common s)
           | This_handler \<Rightarrow> None))"

text \<open>
  The thread shuts down every context that asked for it; an exception leaves the thread and ends the
  process.
\<close>

fun shutdown_contexts ::
    "(nat list \<Rightarrow> nat list) \<Rightarrow> (nat \<Rightarrow> rclcpp_exn option) \<Rightarrow> nat list \<Rightarrow> contexts_process \<Rightarrow>
     rclcpp_exn + contexts_process" where
  "shutdown_contexts order rcl_shutdown [] p = Inr p"
| "shutdown_contexts order rcl_shutdown (k # ks) p =
     (if shutdown_on_signal (contexts p k)
      then case shutdown order k ''signal handler'' (rcl_shutdown k) p of
             (Inl e, _) \<Rightarrow> Inl e
           | (Inr _, p') \<Rightarrow> shutdown_contexts order rcl_shutdown ks p'
      else shutdown_contexts order rcl_shutdown ks p)"

definition deferred_turn ::
    "(nat list \<Rightarrow> nat list) \<Rightarrow> (nat \<Rightarrow> rclcpp_exn option) \<Rightarrow> signal_handler \<times> contexts_process \<Rightarrow>
     rclcpp_exn + signal_handler \<times> contexts_process" where
  "deferred_turn order rcl_shutdown = (\<lambda>(s, p).
     if signal_received s
     then case get_contexts p of
            (ks, p') \<Rightarrow> map_sum id (Pair (s\<lparr>signal_received := False\<rparr>)) (shutdown_contexts order rcl_shutdown ks p')
     else Inr (s, p))"

text \<open>
  One round of the loop after the first: the thread takes a notification, works off a signal, and
  stops when the handler is no longer installed.  \<open>None\<close> is a thread that waits.
\<close>

definition deferred_signal_handler ::
    "(nat list \<Rightarrow> nat list) \<Rightarrow> (nat \<Rightarrow> rclcpp_exn option) \<Rightarrow> signal_handler \<times> contexts_process \<Rightarrow>
     (rclcpp_exn + bool \<times> signal_handler \<times> contexts_process) option" where
  "deferred_signal_handler order rcl_shutdown = (\<lambda>(s, p).
     if notifications s = 0 then None
     else Some (map_sum id (\<lambda>(s', p'). (installed s', s', p'))
                  (deferred_turn order rcl_shutdown (s\<lparr>notifications := notifications s - 1\<rparr>, p))))"

text \<open>
  \<open>uninstall\<close> wakes the thread and joins it; the thread works off a signal that it has not seen
  yet.  Joining a thread that was never started throws.
\<close>

definition uninstall ::
    "(nat list \<Rightarrow> nat list) \<Rightarrow> (nat \<Rightarrow> rclcpp_exn option) \<Rightarrow> bool \<Rightarrow> bool \<Rightarrow> signal_handler \<times> contexts_process \<Rightarrow>
     (rclcpp_exn + bool) \<times> signal_handler \<times> contexts_process" where
  "uninstall order rcl_shutdown int_ok term_ok = (\<lambda>(s, p).
     if \<not> installed s then (Inr False, s, p)
     else let opts = signal_handlers_options s
          in if wants_sigint opts \<and> \<not> int_ok then (Inl sigaction_failed, s, p)
             else let s1 = (if wants_sigint opts then s\<lparr>sigint_action := old_sigint_handler s\<rparr> else s)
                  in if wants_sigterm opts \<and> \<not> term_ok then (Inl sigaction_failed, s1, p)
                     else let s2 = (if wants_sigterm opts then s1\<lparr>sigterm_action := old_sigterm_handler s1\<rparr> else s1);
                              s3 = notify_signal_handler (s2\<lparr>signal_handlers_options := None_installed\<rparr>)
                          in if \<not> thread_joinable s3 then (Inl (RuntimeError ''Invalid argument''), s3, p)
                             else case deferred_turn order rcl_shutdown (s3\<lparr>installed := False\<rparr>, p) of
                                    Inl e \<Rightarrow> (Inl e, s3, p)
                                  | Inr (s4, p') \<Rightarrow>
                                      (Inr True, s4\<lparr>thread_joinable := False, wait_for_signal_is_setup := False\<rparr>, p'))"

section \<open>Starting and stopping\<close>

text \<open>\<open>init\<close> and \<open>shutdown\<close> of \<open>utilities.cpp\<close>; context 0 is the default context.\<close>

definition rclcpp_init ::
    "bool \<Rightarrow> bool \<Rightarrow> init_answers \<Rightarrow> signal_options \<Rightarrow> signal_handler \<times> contexts_process \<Rightarrow>
     (rclcpp_exn + unit) \<times> signal_handler \<times> contexts_process" where
  "rclcpp_init logging on_signal a opts = (\<lambda>(s, p).
     case init 0 logging on_signal a p of
       (Inl e, p') \<Rightarrow> (Inl e, s, p')
     | (Inr _, p') \<Rightarrow> (case install True True True opts s of (r, s') \<Rightarrow> (map_sum id (\<lambda>_. ()) r, s', p')))"

definition rclcpp_shutdown ::
    "(nat list \<Rightarrow> nat list) \<Rightarrow> (nat \<Rightarrow> rclcpp_exn option) \<Rightarrow> nat \<Rightarrow> string \<Rightarrow> signal_handler \<times> contexts_process \<Rightarrow>
     (rclcpp_exn + bool) \<times> signal_handler \<times> contexts_process" where
  "rclcpp_shutdown order rcl_shutdown k reason = (\<lambda>(s, p).
     case shutdown order k reason (rcl_shutdown k) p of
       (Inl e, p') \<Rightarrow> (Inl e, s, p')
     | (Inr b, p') \<Rightarrow>
         if k = 0
         then case uninstall order rcl_shutdown True True (s, p') of
                (Inl e, s', p'') \<Rightarrow> (Inl e, s', p'')
              | (Inr _, s', p'') \<Rightarrow> (Inr b, s', p'')
         else (Inr b, s, p'))"

section \<open>A signal shuts down the contexts that asked for it\<close>

lemma shutdown_contexts_effect:
  assumes "distinct ks"
  shows "\<exists>p'. shutdown_contexts order (\<lambda>_. None) ks p = Inr p' \<and>
    (\<forall>k. contexts p' k =
      (if k \<in> set ks \<and> shutdown_on_signal (contexts p k) \<and> is_valid k p
       then (contexts p k)\<lparr>rcl_context := Some False, shutdown_reason := ''signal handler''\<rparr> else contexts p k))"
  using assms
proof (induction ks arbitrary: p)
  case (Cons j ks)
  obtain r q where s: "shutdown order j ''signal handler'' None p = (r, q)" by fastforce
  show ?case
  proof (cases "shutdown_on_signal (contexts p j) \<and> is_valid j p")
    case True
    note q = shutdown_succeeds [OF _ s]
    from Cons.IH [of q] Cons.prems obtain p' where p': "shutdown_contexts order (\<lambda>_. None) ks q = Inr p'"
      "\<And>k. contexts p' k = (if k \<in> set ks \<and> shutdown_on_signal (contexts q k) \<and> is_valid k q
        then (contexts q k)\<lparr>rcl_context := Some False, shutdown_reason := ''signal handler''\<rparr> else contexts q k)" by auto
    have "shutdown_contexts order (\<lambda>_. None) (j # ks) p = Inr p'"
      using True s q(1) p'(1) by simp
    moreover have "contexts p' k =
      (if k \<in> set (j # ks) \<and> shutdown_on_signal (contexts p k) \<and> is_valid k p
       then (contexts p k)\<lparr>rcl_context := Some False, shutdown_reason := ''signal handler''\<rparr> else contexts p k)" for k
      using True q(2) p'(2) [of k] Cons.prems by (cases "k = j") (simp_all add: is_valid_def)
    ultimately show ?thesis by blast
  next
    case False
    from Cons.IH [of p] Cons.prems obtain p' where p': "shutdown_contexts order (\<lambda>_. None) ks p = Inr p'"
      "\<And>k. contexts p' k = (if k \<in> set ks \<and> shutdown_on_signal (contexts p k) \<and> is_valid k p
        then (contexts p k)\<lparr>rcl_context := Some False, shutdown_reason := ''signal handler''\<rparr> else contexts p k)" by auto
    have "shutdown_contexts order (\<lambda>_. None) (j # ks) p = Inr p'"
      using False p'(1) by (auto simp: shutdown_def)
    moreover have "contexts p' k =
      (if k \<in> set (j # ks) \<and> shutdown_on_signal (contexts p k) \<and> is_valid k p
       then (contexts p k)\<lparr>rcl_context := Some False, shutdown_reason := ''signal handler''\<rparr> else contexts p k)" for k
      using False p'(2) [of k] by (cases "k = j") auto
    ultimately show ?thesis by blast
  qed
qed simp


definition running_handler :: signal_handler where
  "running_handler = snd (install True True True All (signal_handler_new User_handler Default_action))"


section \<open>The handlers of the process\<close>

text \<open>
  The life of the handler while the system does what it is asked to do: installing, uninstalling,
  signals and the rounds of the thread.
\<close>

inductive sig_step :: "signal_handler \<Rightarrow> signal_handler \<Rightarrow> bool" where
  sig_install: "install True True True opts s = (r, s') \<Longrightarrow> sig_step s s'"
| sig_uninstall: "uninstall order rcl_shutdown True True (s, p) = (r, s', p') \<Longrightarrow> sig_step s s'"
| sig_signal: "signal_arrives is_sigint s = Some (hs, s') \<Longrightarrow> sig_step s s'"
| sig_round: "deferred_signal_handler order rcl_shutdown (s, p) = Some (Inr (b, s', p')) \<Longrightarrow> sig_step s s'"

inductive sig_reachable :: "disposition \<Rightarrow> disposition \<Rightarrow> signal_handler \<Rightarrow> bool" for on_int on_term where
  sig_start: "sig_reachable on_int on_term (signal_handler_new on_int on_term)"
| sig_later: "sig_reachable on_int on_term s \<Longrightarrow> sig_step s s' \<Longrightarrow> sig_reachable on_int on_term s'"

definition slot_ok :: "disposition \<Rightarrow> disposition \<Rightarrow> disposition \<Rightarrow> bool \<Rightarrow> bool" where
  "slot_ok original action old taken \<longleftrightarrow>
     (action = original \<or> action = This_handler \<and> old = original \<and> taken) \<and> (taken \<longrightarrow> old = original)"

definition handler_ok :: "disposition \<Rightarrow> disposition \<Rightarrow> signal_handler \<Rightarrow> bool" where
  "handler_ok on_int on_term s \<longleftrightarrow>
     slot_ok on_int (sigint_action s) (old_sigint_handler s) (installed s \<and> wants_sigint (signal_handlers_options s)) \<and>
     slot_ok on_term (sigterm_action s) (old_sigterm_handler s) (installed s \<and> wants_sigterm (signal_handlers_options s)) \<and>
     (\<not> installed s \<longrightarrow> signal_handlers_options s = None_installed)"

lemmas handler_defs = wants_sigint_def wants_sigterm_def notify_signal_handler_def Let_def

lemma deferred_turn_keeps:
  assumes "deferred_turn order rcl_shutdown (s, p) = Inr (s', p')"
  shows "\<exists>b. s' = s\<lparr>signal_received := b\<rparr>"
proof (cases "signal_received s")
  case True
  then show ?thesis
    using assms by (cases "shutdown_contexts order rcl_shutdown (fst (get_contexts p)) (snd (get_contexts p))")
      (auto simp: deferred_turn_def split: prod.splits)
next
  case False
  then have "s' = s\<lparr>signal_received := False\<rparr>" using assms by (simp add: deferred_turn_def)
  then show ?thesis ..
qed

lemma handler_ok_install:
  assumes "handler_ok on_int on_term s" and "install True True True opts s = (r, s')"
  shows "handler_ok on_int on_term s'"
proof (cases "installed s \<or> opts = None_installed")
  case True
  then consider "s' = s" | "\<not> installed s" "s' = s\<lparr>installed := True\<rparr>"
    using assms(2) by (auto simp: install_def split: if_splits)
  then show ?thesis
  proof cases
    case 2
    then have "signal_handlers_options s = None_installed" using assms(1) by (simp add: handler_ok_def)
    with 2 assms(1) show ?thesis by (simp add: handler_ok_def wants_sigint_def wants_sigterm_def)
  qed (use assms(1) in simp)
next
  case False
  then have "sigint_action s = on_int" "sigterm_action s = on_term"
    using assms(1) by (auto simp: handler_ok_def slot_ok_def)
  with False assms(2) show ?thesis
    by (cases opts) (auto simp: install_def handler_ok_def slot_ok_def handler_defs)
qed

lemma uninstall_effect:
  assumes "installed s" and "uninstall order rcl_shutdown True True (s, p) = (r, s', p')"
  shows "sigint_action s' = (if wants_sigint (signal_handlers_options s) then old_sigint_handler s else sigint_action s)"
    and "sigterm_action s' = (if wants_sigterm (signal_handlers_options s) then old_sigterm_handler s else sigterm_action s)"
    and "signal_handlers_options s' = None_installed"
  using assms
  by (auto simp: uninstall_def notify_signal_handler_def Let_def split: if_splits sum.splits dest!: deferred_turn_keeps)

lemma handler_ok_uninstall:
  assumes "handler_ok on_int on_term s" and "uninstall order rcl_shutdown True True (s, p) = (r, s', p')"
  shows "handler_ok on_int on_term s'"
proof (cases "installed s")
  case True
  then show ?thesis
    using assms(1) uninstall_effect [OF True assms(2)] by (auto simp: handler_ok_def slot_ok_def handler_defs)
next
  case False
  then show ?thesis using assms by (simp add: uninstall_def)
qed

lemma handler_ok_step:
  assumes "sig_step s s'" and "handler_ok on_int on_term s"
  shows "handler_ok on_int on_term s'"
  using assms
proof (induction rule: sig_step.induct)
  case (sig_signal is_sigint s hs s')
  then show ?case
    by (auto simp: signal_arrives_def signal_handler_common_def handler_ok_def notify_signal_handler_def
        split: disposition.splits if_splits)
next
  case (sig_round order rcl_shutdown s p b s' p')
  then have "deferred_turn order rcl_shutdown (s\<lparr>notifications := notifications s - 1\<rparr>, p) = Inr (s', p')"
    by (cases "deferred_turn order rcl_shutdown (s\<lparr>notifications := notifications s - 1\<rparr>, p)")
      (auto simp: deferred_signal_handler_def split: if_splits)
  from deferred_turn_keeps [OF this] sig_round show ?case by (auto simp: handler_ok_def)
qed (auto intro: handler_ok_install handler_ok_uninstall)

lemma sig_reachable_ok: "sig_reachable on_int on_term s \<Longrightarrow> handler_ok on_int on_term s"
proof (induction rule: sig_reachable.induct)
  case sig_start
  then show ?case by (simp add: handler_ok_def slot_ok_def signal_handler_new_def wants_sigint_def wants_sigterm_def)
qed (rule handler_ok_step)

text \<open>
  The process gets its own handlers back: whenever the handler is not installed, both signals do what
  they did at the start, a signal always runs the handler of the user if there was one, and it never
  runs this handler from itself.
\<close>

theorem handlers_restored:
  assumes "sig_reachable on_int on_term s" and "on_int \<noteq> This_handler" and "on_term \<noteq> This_handler"
  shows "(\<not> installed s \<longrightarrow> sigint_action s = on_int \<and> sigterm_action s = on_term) \<and>
    (\<forall>is_sigint. \<exists>hs s'. signal_arrives is_sigint s = Some (hs, s') \<and>
      ((if is_sigint then on_int else on_term) = User_handler \<longrightarrow> User_handler \<in> set hs))"
proof -
  have ok: "handler_ok on_int on_term s" by (rule sig_reachable_ok [OF assms(1)])
  have "\<exists>hs s'. signal_arrives is_sigint s = Some (hs, s') \<and>
      ((if is_sigint then on_int else on_term) = User_handler \<longrightarrow> User_handler \<in> set hs)" for is_sigint
    using ok assms(2,3) by (cases is_sigint; cases on_int; cases on_term)
      (auto simp: handler_ok_def slot_ok_def signal_arrives_def get_old_signal_handler_def)
  moreover have "\<not> installed s \<longrightarrow> sigint_action s = on_int \<and> sigterm_action s = on_term"
    using ok by (auto simp: handler_ok_def slot_ok_def)
  ultimately show ?thesis by blast
qed

theorem handlers_restored_witness:
  "\<exists>hs s'. signal_arrives True running_handler = Some (hs, s') \<and> User_handler \<in> set hs"
proof -
  have "sig_step (signal_handler_new User_handler Default_action) running_handler"
    by (rule sig_step.sig_install [of All _ "Inr True"])
      (simp add: running_handler_def install_def signal_handler_new_def wants_sigint_def wants_sigterm_def Let_def)
  then have "sig_reachable User_handler Default_action running_handler"
    by (rule sig_reachable.sig_later [OF sig_reachable.sig_start])
  from handlers_restored [OF this] show ?thesis by force
qed

text \<open>
  A process that asked for no signal handler cannot be shut down in the ordinary way: the context is
  shut down, but uninstalling joins a thread that was never started, which throws.
\<close>

lemma shutdown_without_handler_throws:
  "\<exists>s p s' p'. rclcpp_init True True good_answers None_installed (signal_handler_new User_handler Default_action, process_start) =
     (Inr (), s, p) \<and>
   rclcpp_shutdown rev (\<lambda>_. None) 0 ''done'' (s, p) = (Inl (RuntimeError ''Invalid argument''), s', p') \<and> \<not> is_valid 0 p'"
  by (simp add: rclcpp_init_def rclcpp_shutdown_def install_def uninstall_def init_defs shutdown_defs handler_defs
      signal_handler_new_def update_context_def reset_rcl_context_def)

text \<open>
  An installation that fails half-way leaves its handler in place; the next installation takes it for
  the old handler, and a signal never returns.
\<close>

lemma failed_install_recurses:
  "signal_arrives True (snd (install True True True All (snd (install True True False All
     (signal_handler_new User_handler Default_action))))) = None"
  by (simp add: install_def handler_defs signal_handler_new_def signal_arrives_def get_old_signal_handler_def)

end
