(* ===== verification/Read_Write_Lock.thy ===== *)
theory Read_Write_Lock
  imports Prelude
begin

text \<open>
  The lock that separates waiting on a wait set from changing it
  (\<open>wait_set_policies/detail/write_preferring_read_write_lock.cpp\<close>): one reader or one writer at a
  time, and no reader while a writer waits.  The mutex makes what happens between two waits of a
  call one atomic step; a thread that waits on the condition variable sleeps until it is notified or
  wakes up without cause.
\<close>

section \<open>The lock\<close>

text \<open>\<open>interruptions\<close> counts the calls of the function that interrupts a reader.\<close>

record rw_lock =
  reader_active :: bool
  number_of_writers_waiting :: nat
  writer_active :: bool
  interruptions :: nat

definition WritePreferringReadWriteLock :: rw_lock where
  "WritePreferringReadWriteLock =
     \<lparr>reader_active = False, number_of_writers_waiting = 0, writer_active = False, interruptions = 0\<rparr>"

definition read_blocked :: "rw_lock \<Rightarrow> bool" where
  "read_blocked l \<longleftrightarrow> number_of_writers_waiting l > 0 \<or> writer_active l \<or> reader_active l"

definition write_blocked :: "rw_lock \<Rightarrow> bool" where
  "write_blocked l \<longleftrightarrow> reader_active l \<or> writer_active l"

definition ReadMutex_acquire :: "rw_lock \<Rightarrow> rw_lock" where
  "ReadMutex_acquire l = l\<lparr>reader_active := True\<rparr>"

definition ReadMutex_unlock :: "rw_lock \<Rightarrow> rw_lock" where
  "ReadMutex_unlock l = l\<lparr>reader_active := False\<rparr>"

definition WriteMutex_enter :: "rw_lock \<Rightarrow> rw_lock" where
  "WriteMutex_enter l = l\<lparr>number_of_writers_waiting := number_of_writers_waiting l + 1, interruptions := interruptions l + 1\<rparr>"

definition WriteMutex_acquire :: "rw_lock \<Rightarrow> rw_lock" where
  "WriteMutex_acquire l = l\<lparr>number_of_writers_waiting := number_of_writers_waiting l - 1, writer_active := True\<rparr>"

definition WriteMutex_unlock :: "rw_lock \<Rightarrow> rw_lock" where
  "WriteMutex_unlock l = l\<lparr>writer_active := False\<rparr>"

section \<open>Threads\<close>

datatype lock_state = Outside | Wants_read | Reading | Wants_write | Writing

record rw_threads =
  lock :: rw_lock
  at :: "nat \<Rightarrow> lock_state"
  asleep :: "nat set"

text \<open>The test of the loop, and what follows it: the lock is taken, or the thread sleeps.\<close>

definition read_turn :: "nat \<Rightarrow> rw_threads \<Rightarrow> rw_threads" where
  "read_turn t s =
     (if read_blocked (lock s) then s\<lparr>at := (at s)(t := Wants_read), asleep := insert t (asleep s)\<rparr>
      else s\<lparr>lock := ReadMutex_acquire (lock s), at := (at s)(t := Reading)\<rparr>)"

definition write_turn :: "nat \<Rightarrow> rw_threads \<Rightarrow> rw_threads" where
  "write_turn t s =
     (if write_blocked (lock s) then s\<lparr>at := (at s)(t := Wants_write), asleep := insert t (asleep s)\<rparr>
      else s\<lparr>lock := WriteMutex_acquire (lock s), at := (at s)(t := Writing)\<rparr>)"

inductive rw_step :: "rw_threads \<Rightarrow> rw_threads \<Rightarrow> bool" where
  read_lock: "at s t = Outside \<Longrightarrow> rw_step s (read_turn t s)"
| read_again: "at s t = Wants_read \<Longrightarrow> t \<notin> asleep s \<Longrightarrow> rw_step s (read_turn t s)"
| read_unlock: "at s t = Reading \<Longrightarrow>
    rw_step s (s\<lparr>lock := ReadMutex_unlock (lock s), at := (at s)(t := Outside), asleep := {}\<rparr>)"
| write_lock: "at s t = Outside \<Longrightarrow> rw_step s (write_turn t (s\<lparr>lock := WriteMutex_enter (lock s)\<rparr>))"
| write_again: "at s t = Wants_write \<Longrightarrow> t \<notin> asleep s \<Longrightarrow> rw_step s (write_turn t s)"
| write_unlock: "at s t = Writing \<Longrightarrow>
    rw_step s (s\<lparr>lock := WriteMutex_unlock (lock s), at := (at s)(t := Outside), asleep := {}\<rparr>)"
| spurious: "rw_step s (s\<lparr>asleep := asleep s - {t}\<rparr>)"

inductive rw_reachable :: "rw_threads \<Rightarrow> bool" where
  rw_start: "rw_reachable \<lparr>lock = WritePreferringReadWriteLock, at = (\<lambda>_. Outside), asleep = {}\<rparr>"
| rw_later: "rw_reachable s \<Longrightarrow> rw_step s s' \<Longrightarrow> rw_reachable s'"

section \<open>What the lock guarantees\<close>

abbreviation inside :: "rw_threads \<Rightarrow> nat \<Rightarrow> bool" where
  "inside s t \<equiv> at s t = Reading \<or> at s t = Writing"

definition rw_ok :: "rw_threads \<Rightarrow> bool" where
  "rw_ok s \<longleftrightarrow>
     finite {t. at s t \<noteq> Outside} \<and>
     (reader_active (lock s) \<longleftrightarrow> (\<exists>t. at s t = Reading)) \<and>
     (writer_active (lock s) \<longleftrightarrow> (\<exists>t. at s t = Writing)) \<and>
     (\<forall>t u. inside s t \<longrightarrow> inside s u \<longrightarrow> t = u) \<and>
     number_of_writers_waiting (lock s) = card {t. at s t = Wants_write} \<and>
     (\<forall>t \<in> asleep s. at s t = Wants_read \<and> read_blocked (lock s) \<or> at s t = Wants_write \<and> write_blocked (lock s))"

lemmas rw_defs = read_turn_def write_turn_def read_blocked_def write_blocked_def ReadMutex_acquire_def
  ReadMutex_unlock_def WriteMutex_enter_def WriteMutex_acquire_def WriteMutex_unlock_def

lemma move_sets:
  "{u. (f(t := v)) u = w} = (if v = w then insert t {u. f u = w} else {u. f u = w} - {t})"
  by auto

lemma move_finite: "finite {u. f u \<noteq> Outside} \<Longrightarrow> finite {u. (f(t := v)) u \<noteq> Outside}"
  by (rule finite_subset [of _ "insert t {u. f u \<noteq> Outside}"]) auto

lemma finite_at: "finite {u. f u \<noteq> Outside} \<Longrightarrow> w \<noteq> Outside \<Longrightarrow> finite {u. f u = w}"
  by (rule finite_subset [of _ "{u. f u \<noteq> Outside}"]) auto

lemma rw_ok_active:
  assumes "rw_ok s"
  shows "reader_active (lock s) \<longleftrightarrow> (\<exists>u. at s u = Reading)" "writer_active (lock s) \<longleftrightarrow> (\<exists>u. at s u = Writing)"
  using assms unfolding rw_ok_def by blast+

lemma rw_ok_unique: "rw_ok s \<Longrightarrow> inside s u \<Longrightarrow> inside s t \<Longrightarrow> u = t"
  unfolding rw_ok_def by blast

lemma rw_ok_sleeps:
  assumes "finite {u. at s u \<noteq> Outside}" and "\<not> inside s t" and "v = Wants_read \<or> v = Wants_write"
    and "reader_active (lock s') \<longleftrightarrow> (\<exists>u. at s u = Reading)" "writer_active (lock s') \<longleftrightarrow> (\<exists>u. at s u = Writing)"
    and "\<And>u u'. inside s u \<Longrightarrow> inside s u' \<Longrightarrow> u = u'" and "at s' = (at s)(t := v)"
    and "number_of_writers_waiting (lock s') = card {u. at s' u = Wants_write}"
    and "\<And>u. u \<in> asleep s' \<Longrightarrow>
      at s' u = Wants_read \<and> read_blocked (lock s') \<or> at s' u = Wants_write \<and> write_blocked (lock s')"
  shows "rw_ok s'"
proof -
  have same: "at s' u = Reading \<longleftrightarrow> at s u = Reading" "at s' u = Writing \<longleftrightarrow> at s u = Writing" for u
    using assms(2,3,7) by auto
  have "finite {u. at s' u \<noteq> Outside}" unfolding assms(7) by (rule move_finite [OF assms(1)])
  then show ?thesis using assms(4-6,8,9) unfolding rw_ok_def same by blast
qed

lemma rw_ok_enters:
  assumes "finite {u. at s u \<noteq> Outside}" and "\<And>u. \<not> inside s u" and "at s' = (at s)(t := v)"
    and "v = Reading \<and> reader_active (lock s') \<and> \<not> writer_active (lock s') \<or>
      v = Writing \<and> writer_active (lock s') \<and> \<not> reader_active (lock s')"
    and "number_of_writers_waiting (lock s') = card {u. at s' u = Wants_write}"
    and "\<And>u. u \<in> asleep s' \<Longrightarrow>
      at s' u = Wants_read \<and> read_blocked (lock s') \<or> at s' u = Wants_write \<and> write_blocked (lock s')"
  shows "rw_ok s'"
proof -
  have who: "at s' u = Reading \<longleftrightarrow> u = t \<and> v = Reading" "at s' u = Writing \<longleftrightarrow> u = t \<and> v = Writing" for u
    using assms(2-4) by auto
  have "finite {u. at s' u \<noteq> Outside}" unfolding assms(3) by (rule move_finite [OF assms(1)])
  then show ?thesis using assms(4-6) unfolding rw_ok_def who by blast
qed

lemma rw_ok_unlocked:
  assumes "rw_ok s" and "inside s t" and "at s' = (at s)(t := Outside)" and "asleep s' = {}"
    and "\<And>u. inside s u \<Longrightarrow> u = t" and "\<not> reader_active (lock s')" "\<not> writer_active (lock s')"
    and "number_of_writers_waiting (lock s') = number_of_writers_waiting (lock s)"
  shows "rw_ok s'"
proof -
  have "\<not> inside s' u" for u using assms(3,5) by auto
  moreover have "{u. at s' u = Wants_write} = {u. at s u = Wants_write}" using assms(2,3) by auto
  moreover have "finite {u. at s' u \<noteq> Outside}"
    unfolding assms(3) by (rule move_finite) (use assms(1) in \<open>simp add: rw_ok_def\<close>)
  ultimately show ?thesis using assms(1,4,6-8) by (simp add: rw_ok_def)
qed

lemma rw_ok_read_turn:
  assumes "rw_ok s" and "at s t = Outside \<or> at s t = Wants_read \<and> t \<notin> asleep s"
  shows "rw_ok (read_turn t s)"
proof (cases "read_blocked (lock s)")
  case True
  have "{u. ((at s)(t := Wants_read)) u = Wants_write} = {u. at s u = Wants_write}" using assms(2) by auto
  with True assms show ?thesis
    by (intro rw_ok_sleeps [of s t Wants_read]) (auto simp: rw_ok_def read_turn_def)
next
  case False
  have w: "{u. ((at s)(t := Reading)) u = Wants_write} = {u. at s u = Wants_write}" using assms(2) by auto
  have "asleep s = {}" "\<not> inside s u" for u
    using assms(1) False by (auto simp: rw_ok_def read_blocked_def write_blocked_def)
  with False assms w show ?thesis
    by (intro rw_ok_enters [of s _ t Reading]) (auto simp: rw_ok_def rw_defs)
qed

lemma rw_ok_write_turn:
  assumes "finite {t. at s t \<noteq> Outside}"
    and "reader_active (lock s) \<longleftrightarrow> (\<exists>t. at s t = Reading)" "writer_active (lock s) \<longleftrightarrow> (\<exists>t. at s t = Writing)"
    and "\<And>t u. inside s t \<Longrightarrow> inside s u \<Longrightarrow> t = u"
    and "number_of_writers_waiting (lock s) = card (insert t {u. at s u = Wants_write})"
    and "\<And>t. t \<in> asleep s \<Longrightarrow>
      at s t = Wants_read \<and> read_blocked (lock s) \<or> at s t = Wants_write \<and> write_blocked (lock s)"
    and "at s t = Outside \<or> at s t = Wants_write \<and> t \<notin> asleep s"
  shows "rw_ok (write_turn t s)"
proof (cases "write_blocked (lock s)")
  case True
  have "{u. ((at s)(t := Wants_write)) u = Wants_write} = insert t {u. at s u = Wants_write}" by auto
  with True assms(2-7) show ?thesis
    by (intro rw_ok_sleeps [OF assms(1), of t Wants_write]) (auto simp: write_turn_def)
next
  case False
  have set: "{u. ((at s)(t := Writing)) u = Wants_write} = insert t {u. at s u = Wants_write} - {t}" by auto
  have "card {u. ((at s)(t := Writing)) u = Wants_write} = number_of_writers_waiting (lock s) - 1"
    unfolding set assms(5) by (rule card_Diff_singleton) simp
  moreover have "at s u = Wants_read" "u \<noteq> t" if "u \<in> asleep s" for u
    using assms(6) [OF that] assms(7) False that by auto
  ultimately show ?thesis
    using False assms(2,3)
    by (intro rw_ok_enters [OF assms(1), of _ t Writing]) (auto simp: rw_defs)
qed

lemma rw_ok_step:
  assumes "rw_step s s'" and "rw_ok s"
  shows "rw_ok s'"
  using assms
proof (induction rule: rw_step.induct)
  case (read_unlock s t)
  have one: "u = t" if "inside s u" for u using rw_ok_unique [OF read_unlock(2) that] read_unlock(1) by simp
  have other: "\<not> writer_active (lock s)"
    using rw_ok_active(2) [OF read_unlock(2)] one read_unlock(1) by (metis lock_state.simps)
  show ?case
    by (rule rw_ok_unlocked [OF read_unlock(2) _ _ _ one]) (use read_unlock(1) other in \<open>simp_all add: ReadMutex_unlock_def\<close>)
next
  case (write_lock s t)
  have "finite {u. at s u = Wants_write}" using write_lock(2) finite_at by (auto simp: rw_ok_def)
  moreover have "at s t' = Wants_read \<and> read_blocked (WriteMutex_enter (lock s)) \<or>
      at s t' = Wants_write \<and> write_blocked (WriteMutex_enter (lock s))" if "t' \<in> asleep s" for t'
    using write_lock(2) that by (auto simp: rw_ok_def WriteMutex_enter_def read_blocked_def write_blocked_def)
  ultimately show ?case
    using write_lock by (intro rw_ok_write_turn) (auto simp: rw_ok_def WriteMutex_enter_def)
next
  case (write_again s t)
  then have "insert t {u. at s u = Wants_write} = {u. at s u = Wants_write}" by auto
  with write_again show ?case by (intro rw_ok_write_turn) (auto simp: rw_ok_def)
next
  case (write_unlock s t)
  have one: "u = t" if "inside s u" for u using rw_ok_unique [OF write_unlock(2) that] write_unlock(1) by simp
  have other: "\<not> reader_active (lock s)"
    using rw_ok_active(1) [OF write_unlock(2)] one write_unlock(1) by (metis lock_state.simps)
  show ?case
    by (rule rw_ok_unlocked [OF write_unlock(2) _ _ _ one]) (use write_unlock(1) other in \<open>simp_all add: WriteMutex_unlock_def\<close>)
next
  case (spurious s t)
  then show ?case by (auto simp: rw_ok_def)
qed (auto intro: rw_ok_read_turn)

lemma rw_reachable_ok: "rw_reachable s \<Longrightarrow> rw_ok s"
proof (induction rule: rw_reachable.induct)
  case rw_start
  then show ?case by (simp add: rw_ok_def WritePreferringReadWriteLock_def)
qed (rule rw_ok_step)

text \<open>
  Claim C20.  One thread at a time is inside, reader or writer; a reader enters only while no writer waits; and
  no wake-up is lost: when the lock is free and threads wait for it, one of them is awake and its
  next step takes the lock, a writer if there is one.
\<close>

theorem rw_lock_guarantees:
  assumes "rw_reachable s"
  shows "(\<forall>t u. inside s t \<longrightarrow> inside s u \<longrightarrow> t = u) \<and>
    (\<forall>s' t. rw_step s s' \<longrightarrow> at s t \<noteq> Reading \<longrightarrow> at s' t = Reading \<longrightarrow> (\<forall>u. at s u \<noteq> Wants_write)) \<and>
    ((\<forall>t. \<not> inside s t) \<longrightarrow> (\<exists>t. at s t \<noteq> Outside) \<longrightarrow>
      (\<exists>t s'. t \<notin> asleep s \<and> at s t \<noteq> Outside \<and> rw_step s s' \<and> inside s' t \<and>
        ((\<exists>u. at s u = Wants_write) \<longrightarrow> at s' t = Writing)))"
proof (intro conjI)
  have ok: "rw_ok s" by (rule rw_reachable_ok [OF assms])
  then show "\<forall>t u. inside s t \<longrightarrow> inside s u \<longrightarrow> t = u" using rw_ok_unique by blast
  have fin: "finite {u. at s u = Wants_write}" using ok finite_at by (auto simp: rw_ok_def)
  then have none: "number_of_writers_waiting (lock s) = 0 \<longleftrightarrow> (\<forall>u. at s u \<noteq> Wants_write)"
    using ok by (auto simp: rw_ok_def)
  show "\<forall>s' t. rw_step s s' \<longrightarrow> at s t \<noteq> Reading \<longrightarrow> at s' t = Reading \<longrightarrow> (\<forall>u. at s u \<noteq> Wants_write)"
    unfolding none [symmetric]
    by (auto elim!: rw_step.cases simp: read_turn_def write_turn_def read_blocked_def split: if_splits)
  show "(\<forall>t. \<not> inside s t) \<longrightarrow> (\<exists>t. at s t \<noteq> Outside) \<longrightarrow>
      (\<exists>t s'. t \<notin> asleep s \<and> at s t \<noteq> Outside \<and> rw_step s s' \<and> inside s' t \<and>
        ((\<exists>u. at s u = Wants_write) \<longrightarrow> at s' t = Writing))"
  proof (intro impI)
    assume free: "\<forall>t. \<not> inside s t" and "\<exists>t. at s t \<noteq> Outside"
    then obtain t where t: "at s t = Wants_write \<or> (\<forall>u. at s u \<noteq> Wants_write) \<and> at s t = Wants_read"
      by (metis lock_state.exhaust)
    have idle: "\<not> reader_active (lock s)" "\<not> writer_active (lock s)" using free rw_ok_active [OF ok] by auto
    then have "t \<notin> asleep s"
      using ok t none by (auto simp: rw_ok_def read_blocked_def write_blocked_def)
    with t idle none show "\<exists>t s'. t \<notin> asleep s \<and> at s t \<noteq> Outside \<and> rw_step s s' \<and> inside s' t \<and>
        ((\<exists>u. at s u = Wants_write) \<longrightarrow> at s' t = Writing)"
      using rw_step.read_again [of s t] rw_step.write_again [of s t]
      by (auto simp: read_turn_def write_turn_def read_blocked_def write_blocked_def intro!: exI [of _ t])
  qed
qed

definition example_threads :: rw_threads where
  "example_threads = write_turn 1 (read_turn 0 \<lparr>lock = WritePreferringReadWriteLock, at = (\<lambda>_. Outside), asleep = {}\<rparr>
     \<lparr>lock := WriteMutex_enter (ReadMutex_acquire WritePreferringReadWriteLock)\<rparr>)"

theorem rw_lock_guarantees_witness:
  "at example_threads 0 = Reading \<and> at example_threads 1 = Wants_write \<and> \<not> inside example_threads 2"
proof -
  let ?s = "\<lparr>lock = WritePreferringReadWriteLock, at = (\<lambda>_. Outside), asleep = {}\<rparr>"
  have turn: "read_turn 0 ?s = ?s\<lparr>lock := ReadMutex_acquire WritePreferringReadWriteLock, at := (\<lambda>_. Outside)(0 := Reading)\<rparr>"
    by (simp add: rw_defs WritePreferringReadWriteLock_def)
  have "rw_reachable (read_turn 0 ?s)" by (rule rw_later [OF rw_start]) (rule rw_step.read_lock, simp)
  moreover have "rw_step (read_turn 0 ?s) example_threads"
    unfolding example_threads_def turn using rw_step.write_lock [of "read_turn 0 ?s" 1] by (simp add: turn)
  ultimately have "rw_reachable example_threads" by (rule rw_later)
  from rw_lock_guarantees [OF this] have "\<forall>t u. inside example_threads t \<longrightarrow> inside example_threads u \<longrightarrow> t = u" by blast
  moreover have "at example_threads 0 = Reading" "at example_threads 1 = Wants_write"
    by (simp_all add: example_threads_def turn rw_defs WritePreferringReadWriteLock_def)
  ultimately show ?thesis by (metis zero_neq_numeral)
qed

end
