(* ===== verification/Wait_Sets.thy ===== *)
theory Wait_Sets
  imports Callback_Groups Read_Write_Lock
begin

text \<open>
  Wait sets (\<open>wait_set_template.hpp\<close> and the policies of \<open>wait_set_policies\<close>): the storage of weak
  pointers, the rcl wait set that is rebuilt from it before each wait, the flags that keep an entity
  in one wait set, ownership during a wait, and the loop of \<open>wait\<close> with and without thread safety.
\<close>

section \<open>Storage\<close>

datatype ws_kind = WS_subscription | WS_guard_condition | WS_timer | WS_client | WS_service | WS_waitable

text \<open>
  What the rcl wait set holds: the handle of an entity, or something a waitable added for itself.
\<close>

datatype rcl_entry = Of_entity nat | Of_waitable nat

text \<open>
  Entities are numbered, and the lists hold weak pointers.  \<open>shared\<close> is the list of shared pointers
  held during a wait, where a pointer that could not be locked is absent.  In \<open>rcl_capacity\<close> and
  \<open>rcl_entries\<close> the kind of the waitables stands for the events they add.
\<close>

record ws_storage =
  entities :: "ws_kind \<Rightarrow> nat list"
  shared :: "ws_kind \<Rightarrow> nat option list"
  ownership_reference_counter :: "64 word"
  needs_pruning :: bool
  needs_resize :: bool
  rcl_capacity :: "ws_kind \<Rightarrow> nat"
  rcl_entries :: "ws_kind \<Rightarrow> rcl_entry list"
  wait_result_holding :: bool

fun kind_name :: "ws_kind \<Rightarrow> string" where
  "kind_name WS_subscription = ''subscription''"
| "kind_name WS_guard_condition = ''guard_condition''"
| "kind_name WS_timer = ''timer''"
| "kind_name WS_client = ''client''"
| "kind_name WS_service = ''service''"
| "kind_name WS_waitable = ''waitable''"

definition storage_has_entity :: "nat \<Rightarrow> nat list \<Rightarrow> bool" where
  "storage_has_entity e es \<longleftrightarrow> e \<in> set es"

definition storage_flag_for_resize :: "ws_storage \<Rightarrow> ws_storage" where
  "storage_flag_for_resize ws = ws\<lparr>needs_resize := True\<rparr>"

text \<open>\<open>storage_add_subscription\<close> and the five functions like it, and their counterparts.\<close>

definition storage_add :: "ws_kind \<Rightarrow> nat \<Rightarrow> ws_storage \<Rightarrow> rclcpp_exn option \<times> ws_storage" where
  "storage_add k e ws =
     (if storage_has_entity e (entities ws k) then (Some (RuntimeError (kind_name k @ '' already in wait set'')), ws)
      else (None, storage_flag_for_resize (ws\<lparr>entities := (entities ws)(k := entities ws k @ [e])\<rparr>)))"

definition storage_remove :: "ws_kind \<Rightarrow> nat \<Rightarrow> ws_storage \<Rightarrow> rclcpp_exn option \<times> ws_storage" where
  "storage_remove k e ws =
     (if storage_has_entity e (entities ws k)
      then (None, storage_flag_for_resize (ws\<lparr>entities := (entities ws)(k := remove1 e (entities ws k))\<rparr>))
      else (Some (RuntimeError (kind_name k @ '' not in wait set'')), ws))"

text \<open>Subscriptions are not pruned, and the wait set is not marked for resizing.\<close>

definition storage_prune_deleted_entities :: "(ws_kind \<Rightarrow> nat \<Rightarrow> bool) \<Rightarrow> ws_storage \<Rightarrow> ws_storage" where
  "storage_prune_deleted_entities alive ws =
     ws\<lparr>entities := (\<lambda>k. if k = WS_subscription then entities ws k else filter (alive k) (entities ws k))\<rparr>"

section \<open>Ownership\<close>

definition lock_all :: "(nat \<Rightarrow> bool) \<Rightarrow> nat list \<Rightarrow> nat option list" where
  "lock_all alive es = map (\<lambda>e. if alive e then Some e else None) es"

definition storage_acquire_ownerships :: "(ws_kind \<Rightarrow> nat \<Rightarrow> bool) \<Rightarrow> ws_storage \<Rightarrow> ws_storage" where
  "storage_acquire_ownerships alive ws =
     (let ws' = ws\<lparr>ownership_reference_counter := ownership_reference_counter ws + 1\<rparr>
      in if ownership_reference_counter ws' > 1 then ws'
         else ws'\<lparr>shared := (\<lambda>k. if k = WS_subscription then shared ws k else lock_all (alive k) (entities ws k))\<rparr>)"

definition storage_release_ownerships :: "ws_storage \<Rightarrow> ws_storage" where
  "storage_release_ownerships ws =
     (let ws' = ws\<lparr>ownership_reference_counter := ownership_reference_counter ws - 1\<rparr>
      in if ownership_reference_counter ws' > 0 then ws'
         else ws'\<lparr>shared := (\<lambda>k. if k = WS_subscription then shared ws k else map (\<lambda>_. None) (shared ws k))\<rparr>)"

section \<open>Rebuilding the rcl wait set\<close>

text \<open>
  An exception stops the rest.  \<open>contrib\<close> says how many entries of each kind a waitable needs;
  \<open>strong\<close> is the static storage, which owns its entities and treats an expired one as an error.
  The functions of rcl are given by their answers: to adding an entry, from the number of entries
  of its kind and the capacity, to resizing, and to clearing.
\<close>

record rcl_functions =
  ws_add_ok :: "nat \<Rightarrow> nat \<Rightarrow> bool"
  ws_resize_ok :: "(ws_kind \<Rightarrow> nat) \<Rightarrow> bool"
  ws_clear_ok :: bool

definition andthen :: "rclcpp_exn option \<times> 's \<Rightarrow> ('s \<Rightarrow> rclcpp_exn option \<times> 's) \<Rightarrow> rclcpp_exn option \<times> 's" where
  "andthen r f = (case r of (Some e, s) \<Rightarrow> (Some e, s) | (None, s) \<Rightarrow> f s)"

definition expired_entity :: "bool \<Rightarrow> ws_storage \<Rightarrow> rclcpp_exn option \<times> ws_storage" where
  "expired_entity strong ws =
     (if strong then (Some (RuntimeError ''unexpected condition, fixed storage policy needs pruning''), ws)
      else (None, ws\<lparr>needs_pruning := True\<rparr>))"

fun count_waitables ::
    "bool \<Rightarrow> (nat \<Rightarrow> bool) \<Rightarrow> (nat \<Rightarrow> ws_kind \<Rightarrow> nat) \<Rightarrow> nat list \<Rightarrow> (ws_kind \<Rightarrow> nat) \<times> ws_storage \<Rightarrow>
     rclcpp_exn option \<times> (ws_kind \<Rightarrow> nat) \<times> ws_storage" where
  "count_waitables strong alive contrib [] (n, ws) = (None, n, ws)"
| "count_waitables strong alive contrib (e # es) (n, ws) =
     (if alive e then count_waitables strong alive contrib es (\<lambda>k. n k + contrib e k, ws)
      else case expired_entity strong ws of
             (Some x, ws') \<Rightarrow> (Some x, n, ws')
           | (None, ws') \<Rightarrow> count_waitables strong alive contrib es (n, ws'))"

definition resize_rcl_wait_set ::
    "rcl_functions \<Rightarrow> bool \<Rightarrow> (ws_kind \<Rightarrow> nat \<Rightarrow> bool) \<Rightarrow> (nat \<Rightarrow> ws_kind \<Rightarrow> nat) \<Rightarrow> nat list \<Rightarrow> ws_storage \<Rightarrow> rclcpp_exn option \<times> ws_storage" where
  "resize_rcl_wait_set rcl strong alive contrib extra ws =
     (case count_waitables strong (alive WS_waitable) contrib (entities ws WS_waitable) (\<lambda>_. 0, ws) of
        (Some x, _, ws') \<Rightarrow> (Some x, ws')
      | (None, n, ws') \<Rightarrow>
          (let sizes = (\<lambda>k. (if k = WS_waitable then 0 else length (entities ws k)) +
                            (if k = WS_guard_condition then length extra else 0) + n k)
           in if ws_resize_ok rcl sizes
              then (None, ws'\<lparr>rcl_capacity := sizes, rcl_entries := (\<lambda>_. []), needs_resize := False\<rparr>)
              else (Some (RCLError ''rcl_wait_set_resize''), ws')))"

definition add_entry :: "rcl_functions \<Rightarrow> ws_kind \<Rightarrow> rcl_entry \<Rightarrow> ws_storage \<Rightarrow> rclcpp_exn option \<times> ws_storage" where
  "add_entry rcl k x ws =
     (if ws_add_ok rcl (length (rcl_entries ws k)) (rcl_capacity ws k)
      then (None, ws\<lparr>rcl_entries := (rcl_entries ws)(k := rcl_entries ws k @ [x])\<rparr>)
      else (Some (RCLError ''rcl_wait_set_add''), ws))"

fun add_entities :: "rcl_functions \<Rightarrow> bool \<Rightarrow> (nat \<Rightarrow> bool) \<Rightarrow> ws_kind \<Rightarrow> nat list \<Rightarrow> ws_storage \<Rightarrow> rclcpp_exn option \<times> ws_storage" where
  "add_entities rcl strong alive k [] ws = (None, ws)"
| "add_entities rcl strong alive k (e # es) ws =
     andthen (if alive e then add_entry rcl k (Of_entity e) ws else expired_entity strong ws)
       (add_entities rcl strong alive k es)"

text \<open>\<open>waitable_to_wait_set\<close> of a waitable: its entries of each kind.\<close>

definition all_ws_kinds :: "ws_kind list" where
  "all_ws_kinds = [WS_subscription, WS_guard_condition, WS_timer, WS_client, WS_service, WS_waitable]"

fun add_entries :: "rcl_functions \<Rightarrow> (ws_kind \<times> rcl_entry) list \<Rightarrow> ws_storage \<Rightarrow> rclcpp_exn option \<times> ws_storage" where
  "add_entries rcl [] ws = (None, ws)"
| "add_entries rcl ((k, x) # xs) ws = andthen (add_entry rcl k x ws) (add_entries rcl xs)"

definition waitable_to_wait_set :: "rcl_functions \<Rightarrow> (nat \<Rightarrow> ws_kind \<Rightarrow> nat) \<Rightarrow> nat \<Rightarrow> ws_storage \<Rightarrow> rclcpp_exn option \<times> ws_storage" where
  "waitable_to_wait_set rcl contrib e = add_entries rcl (concat (map (\<lambda>k. replicate (contrib e k) (k, Of_waitable e)) all_ws_kinds))"

fun add_waitables ::
    "rcl_functions \<Rightarrow> bool \<Rightarrow> (nat \<Rightarrow> bool) \<Rightarrow> (nat \<Rightarrow> ws_kind \<Rightarrow> nat) \<Rightarrow> nat list \<Rightarrow> ws_storage \<Rightarrow> rclcpp_exn option \<times> ws_storage" where
  "add_waitables rcl strong alive contrib [] ws = (None, ws)"
| "add_waitables rcl strong alive contrib (e # es) ws =
     andthen (if alive e then waitable_to_wait_set rcl contrib e ws else expired_entity strong ws)
       (add_waitables rcl strong alive contrib es)"

definition storage_rebuild_rcl_wait_set ::
    "rcl_functions \<Rightarrow> bool \<Rightarrow> (ws_kind \<Rightarrow> nat \<Rightarrow> bool) \<Rightarrow> (nat \<Rightarrow> ws_kind \<Rightarrow> nat) \<Rightarrow> nat list \<Rightarrow> ws_storage \<Rightarrow> rclcpp_exn option \<times> ws_storage" where
  "storage_rebuild_rcl_wait_set rcl strong alive contrib extra ws =
     (let add = (\<lambda>k ws. add_entities rcl strong (alive k) k (entities ws k) ws)
      in andthen (if needs_resize ws then resize_rcl_wait_set rcl strong alive contrib extra ws
                  else if ws_clear_ok rcl then (None, ws\<lparr>rcl_entries := (\<lambda>_. [])\<rparr>)
                  else (Some (RCLError ''rcl_wait_set_clear''), ws)) (\<lambda>ws.
         andthen (add WS_subscription ws) (\<lambda>ws.
         andthen (add WS_guard_condition ws) (\<lambda>ws.
         andthen (add_entities rcl strong (\<lambda>_. True) WS_guard_condition extra ws) (\<lambda>ws.
         andthen (add WS_timer ws) (\<lambda>ws.
         andthen (add WS_client ws) (\<lambda>ws.
         andthen (add WS_service ws) (\<lambda>ws.
         add_waitables rcl strong (alive WS_waitable) contrib (entities ws WS_waitable) ws))))))))"

text \<open>Construction: the rcl wait set gets the size that is needed, and is built for the first time.\<close>

definition Storage_new :: "(ws_kind \<Rightarrow> nat list) \<Rightarrow> ws_storage" where
  "Storage_new es = \<lparr>entities = es, shared = (\<lambda>k. map (\<lambda>_. None) (es k)), ownership_reference_counter = 0,
     needs_pruning = False, needs_resize = False, rcl_capacity = (\<lambda>_. 0), rcl_entries = (\<lambda>_. []),
     wait_result_holding = False\<rparr>"

definition StoragePolicyCommon ::
    "rcl_functions \<Rightarrow> bool \<Rightarrow> bool \<Rightarrow> (ws_kind \<Rightarrow> nat \<Rightarrow> bool) \<Rightarrow> (nat \<Rightarrow> ws_kind \<Rightarrow> nat) \<Rightarrow> nat list \<Rightarrow> (ws_kind \<Rightarrow> nat list) \<Rightarrow>
     rclcpp_exn option \<times> ws_storage" where
  "StoragePolicyCommon rcl has_context strong alive contrib extra es =
     (if \<not> has_context then (Some (InvalidArgument ''context is nullptr''), Storage_new es)
      else andthen (resize_rcl_wait_set rcl strong alive contrib extra (Storage_new es))
             (storage_rebuild_rcl_wait_set rcl strong alive contrib extra))"

section \<open>The rebuilt wait set\<close>

text \<open>What should be in the rcl wait set: the entities that are alive, and what their waitables need.\<close>

definition waitable_entries :: "(nat \<Rightarrow> ws_kind \<Rightarrow> nat) \<Rightarrow> ws_kind \<Rightarrow> nat list \<Rightarrow> rcl_entry list" where
  "waitable_entries contrib k es = concat (map (\<lambda>e. replicate (contrib e k) (Of_waitable e)) es)"

definition wanted_entries ::
    "(ws_kind \<Rightarrow> nat \<Rightarrow> bool) \<Rightarrow> (nat \<Rightarrow> ws_kind \<Rightarrow> nat) \<Rightarrow> nat list \<Rightarrow> ws_storage \<Rightarrow> ws_kind \<Rightarrow> rcl_entry list" where
  "wanted_entries alive contrib extra ws k =
     (if k = WS_waitable then [] else map Of_entity (filter (alive k) (entities ws k))) @
     (if k = WS_guard_condition then map Of_entity extra else []) @
     waitable_entries contrib k (filter (alive WS_waitable) (entities ws WS_waitable))"

definition any_expired :: "(ws_kind \<Rightarrow> nat \<Rightarrow> bool) \<Rightarrow> ws_storage \<Rightarrow> bool" where
  "any_expired alive ws \<longleftrightarrow> (\<exists>k. \<exists>e \<in> set (entities ws k). \<not> alive k e)"

definition fits :: "(ws_kind \<Rightarrow> nat \<Rightarrow> bool) \<Rightarrow> (nat \<Rightarrow> ws_kind \<Rightarrow> nat) \<Rightarrow> nat list \<Rightarrow> ws_storage \<Rightarrow> bool" where
  "fits alive contrib extra ws \<longleftrightarrow>
     needs_resize ws \<or> (\<forall>k. length (wanted_entries alive contrib extra ws k) \<le> rcl_capacity ws k)"

text \<open>What rcl promises: an entry can be added while there is room, and resizing and clearing succeed.\<close>

definition rcl_keeps_promises :: "rcl_functions \<Rightarrow> bool" where
  "rcl_keeps_promises rcl \<longleftrightarrow> (\<forall>n c. n < c \<longrightarrow> ws_add_ok rcl n c) \<and> (\<forall>sizes. ws_resize_ok rcl sizes) \<and> ws_clear_ok rcl"

lemma promises:
  assumes "rcl_keeps_promises rcl"
  shows "n < c \<Longrightarrow> ws_add_ok rcl n c" "ws_resize_ok rcl sizes" "ws_clear_ok rcl"
  using assms by (simp_all add: rcl_keeps_promises_def)

definition bounded_rcl :: rcl_functions where
  "bounded_rcl = \<lparr>ws_add_ok = (\<lambda>n c. n < c), ws_resize_ok = (\<lambda>_. True), ws_clear_ok = True\<rparr>"

lemma bounded_rcl_promises: "rcl_keeps_promises bounded_rcl"
  by (simp add: rcl_keeps_promises_def bounded_rcl_def)

lemma andthen_simps [simp]: "andthen (None, s) f = f s" "andthen (Some e, s) f = (Some e, s)"
  by (simp_all add: andthen_def)

lemma add_entities_fits:
  assumes "length (rcl_entries ws k) + length (filter alive es) \<le> rcl_capacity ws k" and rcl: "rcl_keeps_promises rcl"
  shows "add_entities rcl False alive k es ws =
    (None, ws\<lparr>rcl_entries := (rcl_entries ws)(k := rcl_entries ws k @ map Of_entity (filter alive es)),
              needs_pruning := needs_pruning ws \<or> (\<exists>e \<in> set es. \<not> alive e)\<rparr>)"
  using assms(1)
  by (induction es arbitrary: ws) (auto simp: add_entry_def expired_entity_def fun_upd_idem promises [OF rcl])

lemma add_entries_fits:
  assumes "\<forall>k. length (rcl_entries ws k) + length (filter (\<lambda>p. fst p = k) xs) \<le> rcl_capacity ws k" and rcl: "rcl_keeps_promises rcl"
  shows "add_entries rcl xs ws =
    (None, ws\<lparr>rcl_entries := (\<lambda>k. rcl_entries ws k @ map snd (filter (\<lambda>p. fst p = k) xs))\<rparr>)"
  using assms(1)
proof (induction xs arbitrary: ws)
  case (Cons p xs)
  obtain k x where p: "p = (k, x)" by force
  let ?ws = "ws\<lparr>rcl_entries := (rcl_entries ws)(k := rcl_entries ws k @ [x])\<rparr>"
  have "length (rcl_entries ws k) + length (filter (\<lambda>p. fst p = k) (p # xs)) \<le> rcl_capacity ws k"
    using Cons.prems by blast
  then have "add_entry rcl k x ws = (None, ?ws)" by (simp add: add_entry_def p promises [OF rcl])
  moreover have "length (rcl_entries ?ws j) + length (filter (\<lambda>p. fst p = j) xs) \<le> rcl_capacity ?ws j" for j
    using spec [OF Cons.prems, of j] by (auto simp: p)
  then have "add_entries rcl xs ?ws = (None, ?ws\<lparr>rcl_entries := (\<lambda>j. rcl_entries ?ws j @ map snd (filter (\<lambda>p. fst p = j) xs))\<rparr>)"
    using Cons.IH by blast
  ultimately show ?case by (auto simp: p fun_eq_iff)
qed simp

lemma entries_of_waitable:
  "map snd (filter (\<lambda>p. fst p = k) (concat (map (\<lambda>k. replicate (contrib e k) (k, Of_waitable e)) all_ws_kinds))) =
     replicate (contrib e k) (Of_waitable e)"
  by (cases k) (simp_all add: all_ws_kinds_def filter_replicate map_replicate_const)

lemma number_of_waitable:
  "length (filter (\<lambda>p. fst p = k) (concat (map (\<lambda>k. replicate (contrib e k) (k, Of_waitable e)) all_ws_kinds))) =
     contrib e k"
  using arg_cong [OF entries_of_waitable [of k contrib e], of length] by simp

lemma add_waitables_fits:
  assumes "\<And>k. length (rcl_entries ws k) + length (waitable_entries contrib k (filter alive es)) \<le> rcl_capacity ws k"
    and rcl: "rcl_keeps_promises rcl"
  shows "add_waitables rcl False alive contrib es ws =
    (None, ws\<lparr>rcl_entries := (\<lambda>k. rcl_entries ws k @ waitable_entries contrib k (filter alive es)),
              needs_pruning := needs_pruning ws \<or> (\<exists>e \<in> set es. \<not> alive e)\<rparr>)"
  using assms(1)
proof (induction es arbitrary: ws)
  case (Cons e es)
  show ?case
  proof (cases "alive e")
    case True
    let ?ws = "ws\<lparr>rcl_entries := (\<lambda>k. rcl_entries ws k @ replicate (contrib e k) (Of_waitable e))\<rparr>"
    have "length (rcl_entries ws k) + length (replicate (contrib e k) (Of_waitable e)) \<le> rcl_capacity ws k" for k
      using Cons.prems [of k] True by (simp add: waitable_entries_def)
    then have "waitable_to_wait_set rcl contrib e ws = (None, ?ws)"
      unfolding waitable_to_wait_set_def
      by (subst add_entries_fits) (simp_all add: entries_of_waitable number_of_waitable rcl)
    then show ?thesis
      using True Cons.IH [of ?ws] Cons.prems by (simp add: waitable_entries_def add.assoc)
  next
    case False
    then show ?thesis
      using Cons.IH [of "ws\<lparr>needs_pruning := True\<rparr>"] Cons.prems by (simp add: expired_entity_def)
  qed
qed (simp add: waitable_entries_def)

lemma count_waitables_counts:
  "count_waitables False alive contrib es (n, ws) =
     (None, \<lambda>k. n k + length (waitable_entries contrib k (filter alive es)),
      ws\<lparr>needs_pruning := needs_pruning ws \<or> (\<exists>e \<in> set es. \<not> alive e)\<rparr>)"
  by (induction es arbitrary: n ws)
    (auto simp: waitable_entries_def expired_entity_def fun_eq_iff add.assoc)

lemma ex_ws_kind:
  "(\<exists>k. P k) \<longleftrightarrow>
     P WS_subscription \<or> P WS_guard_condition \<or> P WS_timer \<or> P WS_client \<or> P WS_service \<or> P WS_waitable"
proof
  assume "\<exists>k. P k"
  then obtain k where "P k" ..
  then show "P WS_subscription \<or> P WS_guard_condition \<or> P WS_timer \<or> P WS_client \<or> P WS_service \<or> P WS_waitable"
    by (cases k) simp_all
qed blast

lemma rebuild_resized:
  assumes "\<not> needs_resize ws" and "\<And>k. length (wanted_entries alive contrib extra ws k) \<le> rcl_capacity ws k"
    and rcl: "rcl_keeps_promises rcl"
  shows "storage_rebuild_rcl_wait_set rcl False alive contrib extra ws =
    (None, ws\<lparr>rcl_entries := wanted_entries alive contrib extra ws,
              needs_pruning := needs_pruning ws \<or> any_expired alive ws\<rparr>)"
proof -
  let ?w = "\<lambda>k. length (waitable_entries contrib k (filter (alive WS_waitable) (entities ws WS_waitable)))"
  have room: "length (filter (alive k) (entities ws k)) + (if k = WS_guard_condition then length extra else 0) + ?w k
      \<le> rcl_capacity ws k" if "k \<noteq> WS_waitable" for k
    using assms(2) [of k] that by (simp add: wanted_entries_def split: if_splits)
  have events: "?w WS_waitable \<le> rcl_capacity ws WS_waitable" using assms(2) [of WS_waitable] by (simp add: wanted_entries_def)
  have expired: "any_expired alive ws \<longleftrightarrow>
      (\<exists>e \<in> set (entities ws WS_subscription). \<not> alive WS_subscription e) \<or>
      (\<exists>e \<in> set (entities ws WS_guard_condition). \<not> alive WS_guard_condition e) \<or>
      (\<exists>e \<in> set (entities ws WS_timer). \<not> alive WS_timer e) \<or>
      (\<exists>e \<in> set (entities ws WS_client). \<not> alive WS_client e) \<or>
      (\<exists>e \<in> set (entities ws WS_service). \<not> alive WS_service e) \<or>
      (\<exists>e \<in> set (entities ws WS_waitable). \<not> alive WS_waitable e)"
    unfolding any_expired_def by (rule ex_ws_kind)
  have wanted: "wanted_entries alive contrib extra ws k = (if k = WS_waitable then [] else map Of_entity (filter (alive k) (entities ws k))) @
     (if k = WS_guard_condition then map Of_entity extra else []) @
     waitable_entries contrib k (filter (alive WS_waitable) (entities ws WS_waitable))" for k
    by (simp add: wanted_entries_def)
  have "storage_rebuild_rcl_wait_set rcl False alive contrib extra ws =
    (None, ws\<lparr>rcl_entries := (\<lambda>k. (if k = WS_waitable then [] else map Of_entity (filter (alive k) (entities ws k))) @
       (if k = WS_guard_condition then map Of_entity extra else []) @
       waitable_entries contrib k (filter (alive WS_waitable) (entities ws WS_waitable))),
       needs_pruning := needs_pruning ws \<or> any_expired alive ws\<rparr>)"
    using assms(1) room [of WS_subscription] room [of WS_guard_condition] room [of WS_timer] room [of WS_client]
      room [of WS_service] events
    apply (simp add: storage_rebuild_rcl_wait_set_def add_entities_fits [OF _ rcl] promises [OF rcl] Let_def)
    apply (subst add_waitables_fits [OF _ rcl])
    subgoal for k by (cases k) simp_all
    subgoal
      apply (simp only: expired prod.inject)
      apply (intro conjI refl, rule ws_storage.equality)
      apply simp_all
      apply (rule ext)
      subgoal for k by (cases k) simp_all
      done
    done
  then show ?thesis by (simp add: wanted [abs_def])
qed

lemma resize_fits:
  assumes rcl: "rcl_keeps_promises rcl"
  shows "resize_rcl_wait_set rcl False alive contrib extra ws =
     (None, ws\<lparr>rcl_capacity := (\<lambda>k. (if k = WS_waitable then 0 else length (entities ws k)) +
          (if k = WS_guard_condition then length extra else 0) +
          length (waitable_entries contrib k (filter (alive WS_waitable) (entities ws WS_waitable)))),
        rcl_entries := (\<lambda>_. []), needs_resize := False,
        needs_pruning := needs_pruning ws \<or> (\<exists>e \<in> set (entities ws WS_waitable). \<not> alive WS_waitable e)\<rparr>)"
  by (simp add: resize_rcl_wait_set_def count_waitables_counts promises [OF rcl])

lemma wanted_entries_cong: "entities ws' = entities ws \<Longrightarrow> wanted_entries alive contrib extra ws' = wanted_entries alive contrib extra ws"
  by (simp add: fun_eq_iff wanted_entries_def)

lemma rebuild_exact:
  assumes "fits alive contrib extra ws" and rcl: "rcl_keeps_promises rcl"
  shows "\<exists>ws'. storage_rebuild_rcl_wait_set rcl False alive contrib extra ws = (None, ws') \<and>
    rcl_entries ws' = wanted_entries alive contrib extra ws \<and> entities ws' = entities ws \<and>
    (needs_pruning ws' \<longleftrightarrow> needs_pruning ws \<or> any_expired alive ws) \<and> \<not> needs_resize ws' \<and>
    shared ws' = shared ws \<and> ownership_reference_counter ws' = ownership_reference_counter ws \<and>
    wait_result_holding ws' = wait_result_holding ws \<and>
    (\<forall>k. length (wanted_entries alive contrib extra ws k) \<le> rcl_capacity ws' k)"
proof (cases "needs_resize ws")
  case False
  then show ?thesis using assms(1) rebuild_resized [OF False _ rcl] by (simp add: fits_def)
next
  case True
  let ?ws = "snd (resize_rcl_wait_set rcl False alive contrib extra ws)"
  have kept: "entities ?ws = entities ws" by (simp add: resize_fits [OF rcl])
  have same: "wanted_entries alive contrib extra ?ws = wanted_entries alive contrib extra ws"
    "any_expired alive ?ws = any_expired alive ws" "entities ?ws = entities ws" "\<not> needs_resize ?ws"
    "shared ?ws = shared ws" "ownership_reference_counter ?ws = ownership_reference_counter ws"
    "wait_result_holding ?ws = wait_result_holding ws"
    using wanted_entries_cong [OF kept] by (simp_all add: resize_fits [OF rcl] any_expired_def)
  have room: "length (wanted_entries alive contrib extra ws k) \<le> rcl_capacity ?ws k" for k
    using length_filter_le [of "alive k" "entities ws k"] by (auto simp: resize_fits [OF rcl] wanted_entries_def)
  have "storage_rebuild_rcl_wait_set rcl False alive contrib extra ws = storage_rebuild_rcl_wait_set rcl False alive contrib extra ?ws"
  proof -
    have "resize_rcl_wait_set rcl False alive contrib extra ws = (None, ?ws)" "?ws\<lparr>rcl_entries := (\<lambda>_. [])\<rparr> = ?ws"
      by (simp_all add: resize_fits [OF rcl])
    with True same(4) promises(3) [OF rcl] show ?thesis unfolding storage_rebuild_rcl_wait_set_def by (simp only: if_True if_False)
  qed
  moreover have "needs_pruning ?ws \<or> any_expired alive ws \<longleftrightarrow> needs_pruning ws \<or> any_expired alive ws"
    by (auto simp: resize_fits [OF rcl] any_expired_def)
  ultimately show ?thesis
    using rebuild_resized [OF same(4) _ rcl, of alive contrib extra] room by (simp add: same)
qed

text \<open>After pruning, an expired entry can only be that of a subscription, and such an entry is still there.\<close>

lemma prune_leaves_subscriptions:
  "any_expired alive (storage_prune_deleted_entities alive ws) \<longleftrightarrow>
     (\<exists>e \<in> set (entities ws WS_subscription). \<not> alive WS_subscription e)"
  by (simp add: any_expired_def ex_ws_kind storage_prune_deleted_entities_def)

text \<open>
  The life of a wait set: entities are added and removed, deleted ones are pruned, entities die
  outside, and waits rebuild the rcl wait set and hold the entities meanwhile.
\<close>

inductive ws_life ::
    "rcl_functions \<Rightarrow> (nat \<Rightarrow> ws_kind \<Rightarrow> nat) \<Rightarrow> nat list \<Rightarrow> (ws_kind \<Rightarrow> nat \<Rightarrow> bool) \<Rightarrow> ws_storage \<Rightarrow> bool" for rcl contrib extra where
  ws_new: "StoragePolicyCommon rcl True False alive contrib extra es = (None, ws) \<Longrightarrow> ws_life rcl contrib extra alive ws"
| ws_add: "ws_life rcl contrib extra alive ws \<Longrightarrow> storage_add k e ws = (r, ws') \<Longrightarrow> ws_life rcl contrib extra alive ws'"
| ws_remove: "ws_life rcl contrib extra alive ws \<Longrightarrow> storage_remove k e ws = (r, ws') \<Longrightarrow> ws_life rcl contrib extra alive ws'"
| ws_prune: "ws_life rcl contrib extra alive ws \<Longrightarrow> ws_life rcl contrib extra alive (storage_prune_deleted_entities alive ws)"
| ws_die: "ws_life rcl contrib extra alive ws \<Longrightarrow> (\<And>k e. alive' k e \<Longrightarrow> alive k e) \<Longrightarrow> ws_life rcl contrib extra alive' ws"
| ws_rebuild: "ws_life rcl contrib extra alive ws \<Longrightarrow>
    storage_rebuild_rcl_wait_set rcl False alive contrib extra ws = (r, ws') \<Longrightarrow> ws_life rcl contrib extra alive ws'"
| ws_acquire: "ws_life rcl contrib extra alive ws \<Longrightarrow> ws_life rcl contrib extra alive (storage_acquire_ownerships alive ws)"
| ws_release: "ws_life rcl contrib extra alive ws \<Longrightarrow> ws_life rcl contrib extra alive (storage_release_ownerships ws)"

lemma fits_rebuilt:
  assumes "fits alive contrib extra ws" and "storage_rebuild_rcl_wait_set rcl False alive contrib extra ws = (r, ws')"
    and rcl: "rcl_keeps_promises rcl"
  shows "fits alive contrib extra ws'"
proof -
  from rebuild_exact [OF assms(1) rcl] assms(2) have "entities ws' = entities ws"
    "\<And>k. length (wanted_entries alive contrib extra ws k) \<le> rcl_capacity ws' k" by auto
  then show ?thesis using wanted_entries_cong [of ws' ws] by (simp add: fits_def)
qed

lemma fits_same:
  assumes "fits alive contrib extra ws" and "entities ws' = entities ws" "needs_resize ws' = needs_resize ws"
    and "rcl_capacity ws' = rcl_capacity ws"
  shows "fits alive contrib extra ws'"
  using assms wanted_entries_cong [of ws' ws] by (simp add: fits_def)

lemma waitable_entries_mono:
  assumes "\<And>e. alive' e \<Longrightarrow> alive e"
  shows "length (waitable_entries contrib k (filter alive' es)) \<le> length (waitable_entries contrib k (filter alive es))"
  using assms by (induction es) (auto simp: waitable_entries_def)

lemma filter_mono: "(\<And>e. P e \<Longrightarrow> Q e) \<Longrightarrow> length (filter P xs) \<le> length (filter Q xs)"
  by (induction xs) (auto intro: le_SucI)

lemma fits_die:
  assumes "fits alive contrib extra ws" and "\<And>k e. alive' k e \<Longrightarrow> alive k e"
  shows "fits alive' contrib extra ws"
proof -
  have "length (wanted_entries alive' contrib extra ws k) \<le> length (wanted_entries alive contrib extra ws k)" for k
  proof -
    have "length (filter (alive' k) (entities ws k)) \<le> length (filter (alive k) (entities ws k))"
      by (rule filter_mono) (rule assms(2))
    moreover have "length (waitable_entries contrib k (filter (alive' WS_waitable) (entities ws WS_waitable))) \<le>
        length (waitable_entries contrib k (filter (alive WS_waitable) (entities ws WS_waitable)))"
      by (rule waitable_entries_mono) (rule assms(2))
    ultimately show ?thesis by (auto simp: wanted_entries_def)
  qed
  then show ?thesis using assms(1) by (auto simp: fits_def intro: le_trans)
qed

lemma wanted_entries_pruned:
  "wanted_entries alive contrib extra (storage_prune_deleted_entities alive ws) = wanted_entries alive contrib extra ws"
  by (simp add: fun_eq_iff wanted_entries_def storage_prune_deleted_entities_def)

lemma resized_fits:
  assumes rcl: "rcl_keeps_promises rcl"
  shows "fits alive contrib extra (snd (resize_rcl_wait_set rcl False alive contrib extra ws))"
proof -
  let ?ws = "snd (resize_rcl_wait_set rcl False alive contrib extra ws)"
  have "length (wanted_entries alive contrib extra ws k) \<le> rcl_capacity ?ws k" for k
    using length_filter_le [of "alive k" "entities ws k"] by (auto simp: resize_fits [OF rcl] wanted_entries_def)
  moreover have "wanted_entries alive contrib extra ?ws = wanted_entries alive contrib extra ws"
    by (rule wanted_entries_cong) (simp add: resize_fits [OF rcl])
  ultimately show ?thesis by (simp add: fits_def)
qed

lemma StoragePolicyCommon_rebuilds:
  assumes "StoragePolicyCommon rcl True False alive contrib extra es = (r, ws)" and rcl: "rcl_keeps_promises rcl"
  shows "storage_rebuild_rcl_wait_set rcl False alive contrib extra (snd (resize_rcl_wait_set rcl False alive contrib extra (Storage_new es))) = (r, ws)"
  using assms(1) by (simp add: StoragePolicyCommon_def resize_fits [OF rcl])

lemma StoragePolicyCommon_entities:
  assumes "StoragePolicyCommon rcl True False alive contrib extra es = (r, ws)" and rcl: "rcl_keeps_promises rcl"
  shows "r = None" "entities ws = es"
  using rebuild_exact [OF resized_fits [OF rcl] rcl, of alive contrib extra "Storage_new es"] StoragePolicyCommon_rebuilds [OF assms]
  by (auto simp: resize_fits [OF rcl] Storage_new_def)

lemma ws_life_fits:
  assumes "ws_life rcl contrib extra alive ws" and rcl: "rcl_keeps_promises rcl"
  shows "fits alive contrib extra ws"
  using assms(1)
proof (induction rule: ws_life.induct)
  case (ws_new alive es ws)
  then show ?case using fits_rebuilt [OF resized_fits [OF rcl] StoragePolicyCommon_rebuilds [OF _ rcl] rcl] by blast
next
  case (ws_add alive ws k e r ws')
  then show ?case by (auto simp: storage_add_def storage_flag_for_resize_def fits_def split: if_splits)
next
  case (ws_remove alive ws k e r ws')
  then show ?case by (auto simp: storage_remove_def storage_flag_for_resize_def fits_def split: if_splits)
next
  case (ws_prune alive ws)
  then show ?case
    using wanted_entries_pruned [of alive contrib extra ws] by (simp add: fits_def storage_prune_deleted_entities_def)
next
  case (ws_die alive ws alive')
  then show ?case using fits_die by blast
next
  case (ws_rebuild alive ws r ws')
  then show ?case using fits_rebuilt rcl by blast
qed (auto simp: storage_acquire_ownerships_def storage_release_ownerships_def Let_def intro: fits_same)

text \<open>
  Claim C21.  Whatever was added, removed, pruned or deleted before: with an rcl that accepts entries while there
  is room, preparing a wait never fails, and the rcl wait set then has exactly the entities that are alive, the guard conditions of
  the wait set itself, and what the waitables need; the wait set learns whether an entity was
  deleted.
\<close>

theorem rebuild_never_overflows:
  assumes "ws_life rcl contrib extra alive ws" and "rcl_keeps_promises rcl"
  shows "\<exists>ws'. storage_rebuild_rcl_wait_set rcl False alive contrib extra ws = (None, ws') \<and>
    rcl_entries ws' = wanted_entries alive contrib extra ws \<and> entities ws' = entities ws \<and>
    (needs_pruning ws' \<longleftrightarrow> needs_pruning ws \<or> any_expired alive ws)"
  using rebuild_exact [OF ws_life_fits [OF assms] assms(2)] by blast

definition example_wait_set :: ws_storage where
  "example_wait_set = snd (StoragePolicyCommon bounded_rcl True False (\<lambda>_ _. True) (\<lambda>_ _. 1) [9] ((\<lambda>_. [])(WS_timer := [1, 2], WS_waitable := [3])))"

theorem rebuild_never_overflows_witness:
  "\<exists>ws'. storage_rebuild_rcl_wait_set bounded_rcl False (\<lambda>k e. e \<noteq> 2) (\<lambda>_ _. 1) [9] example_wait_set = (None, ws') \<and>
     rcl_entries ws' WS_timer = [Of_entity 1, Of_waitable 3] \<and> needs_pruning ws'"
proof -
  let ?es = "(\<lambda>_. [])(WS_timer := [1, 2], WS_waitable := [3])"
  obtain r where made: "StoragePolicyCommon bounded_rcl True False (\<lambda>_ _. True) (\<lambda>_ _. 1) [9] ?es = (r, example_wait_set)"
    unfolding example_wait_set_def by (metis prod.collapse)
  have made_none: "r = None" by (rule StoragePolicyCommon_entities(1) [OF made bounded_rcl_promises])
  have "ws_life bounded_rcl (\<lambda>_ _. 1) [9] (\<lambda>_ _. True) example_wait_set" by (rule ws_new) (use made made_none in simp)
  then have "ws_life bounded_rcl (\<lambda>_ _. 1) [9] (\<lambda>k e. e \<noteq> 2) example_wait_set" by (rule ws_die) simp
  from rebuild_never_overflows [OF this bounded_rcl_promises] obtain ws' where
    "storage_rebuild_rcl_wait_set bounded_rcl False (\<lambda>k e. e \<noteq> 2) (\<lambda>_ _. 1) [9] example_wait_set = (None, ws')"
    "rcl_entries ws' = wanted_entries (\<lambda>k e. e \<noteq> 2) (\<lambda>_ _. 1) [9] example_wait_set"
    "needs_pruning ws' \<longleftrightarrow> needs_pruning example_wait_set \<or> any_expired (\<lambda>k e. e \<noteq> 2) example_wait_set"
    by blast
  moreover have "any_expired (\<lambda>k e. e \<noteq> 2) example_wait_set"
    by (simp add: any_expired_def ex_ws_kind StoragePolicyCommon_entities(2) [OF made bounded_rcl_promises])
  ultimately show ?thesis
    by (simp add: wanted_entries_def waitable_entries_def StoragePolicyCommon_entities(2) [OF made bounded_rcl_promises])
qed

end
