(* ===== verification/Wait_Loop.thy ===== *)
theory Wait_Loop
  imports Wait_Sets Time_Arithmetic
begin

text \<open>
  Waiting on a wait set (\<open>wait\<close> of \<open>wait_set_template.hpp\<close>, the two \<open>sync_wait\<close> functions, and
  \<open>wait_result.hpp\<close>): the entities are held, the rcl wait set is rebuilt, and with thread safety a
  wait that was interrupted by a change is resumed with the changed wait set.
\<close>

section \<open>Results\<close>

datatype wait_result_kind = Ready | Timeout | Empty

text \<open>The read lock that a result takes is the one of \<open>Read_Write_Lock\<close>.\<close>

definition wait_result_acquire :: "(ws_kind \<Rightarrow> nat \<Rightarrow> bool) \<Rightarrow> ws_storage \<Rightarrow> rclcpp_exn option \<times> ws_storage" where
  "wait_result_acquire alive ws =
     (if wait_result_holding ws then (Some (RuntimeError ''wait_result_acquire() called while already holding''), ws)
      else (None, storage_acquire_ownerships alive (ws\<lparr>wait_result_holding := True\<rparr>)))"

definition wait_result_release :: "ws_storage \<Rightarrow> rclcpp_exn option \<times> ws_storage" where
  "wait_result_release ws =
     (if wait_result_holding ws then (None, storage_release_ownerships (ws\<lparr>wait_result_holding := False\<rparr>))
      else (Some (RuntimeError ''wait_result_release() called while not holding''), ws))"

definition create_wait_result ::
    "(ws_kind \<Rightarrow> nat \<Rightarrow> bool) \<Rightarrow> wait_result_kind \<Rightarrow> ws_storage \<Rightarrow> (rclcpp_exn + wait_result_kind) \<times> ws_storage" where
  "create_wait_result alive kind ws =
     (case kind of
        Ready \<Rightarrow> (case wait_result_acquire alive ws of (Some x, ws') \<Rightarrow> (Inl x, ws') | (None, ws') \<Rightarrow> (Inr Ready, ws'))
      | Timeout \<Rightarrow> (Inr Timeout, ws)
      | Empty \<Rightarrow> (Inr Empty, ws))"

section \<open>Time\<close>

definition create_loop_predicate :: "int \<Rightarrow> int \<Rightarrow> int \<Rightarrow> bool" where
  "create_loop_predicate time_to_wait start now \<longleftrightarrow>
     (if time_to_wait \<ge> 0 then now < to_int64 (start + time_to_wait) else True)"

definition calculate_time_left_to_wait :: "int \<Rightarrow> int \<Rightarrow> int \<Rightarrow> int" where
  "calculate_time_left_to_wait original_time_to_wait start now =
     (if original_time_to_wait < 0 then original_time_to_wait
      else let time_left_to_wait = to_int64 (original_time_to_wait - to_int64 (now - start))
           in if time_left_to_wait < 0 then 0 else time_left_to_wait)"

section \<open>Waiting without thread safety\<close>

text \<open>
  The answer of \<open>rcl_wait\<close>, with the guard conditions it left in the rcl wait set.  Every answer ends
  the loop.
\<close>

datatype rcl_wait_answer = Rcl_ok "rcl_entry list" | Rcl_timeout | Rcl_wait_set_empty | Rcl_error

definition sequential_sync_wait ::
    "rcl_functions \<Rightarrow> (ws_storage \<Rightarrow> int \<Rightarrow> rcl_wait_answer) \<Rightarrow> bool \<Rightarrow> (ws_kind \<Rightarrow> nat \<Rightarrow> bool) \<Rightarrow> (nat \<Rightarrow> ws_kind \<Rightarrow> nat) \<Rightarrow>
     int \<Rightarrow> int \<Rightarrow> int \<Rightarrow> ws_storage \<Rightarrow> (rclcpp_exn + wait_result_kind) \<times> ws_storage" where
  "sequential_sync_wait rcl rcl_wait strong alive contrib time_to_wait start now ws =
     (case storage_rebuild_rcl_wait_set rcl strong alive contrib [] ws of
        (Some x, ws') \<Rightarrow> (Inl x, ws')
      | (None, ws') \<Rightarrow>
          (case rcl_wait ws' (calculate_time_left_to_wait time_to_wait start now) of
             Rcl_ok _ \<Rightarrow> create_wait_result alive Ready ws'
           | Rcl_timeout \<Rightarrow> create_wait_result alive Timeout ws'
           | Rcl_wait_set_empty \<Rightarrow> create_wait_result alive Empty ws'
           | Rcl_error \<Rightarrow> (Inl (RCLError ''rcl_wait''), ws')))"

definition sequential_wait ::
    "rcl_functions \<Rightarrow> (ws_storage \<Rightarrow> int \<Rightarrow> rcl_wait_answer) \<Rightarrow> (ws_kind \<Rightarrow> nat \<Rightarrow> bool) \<Rightarrow> (nat \<Rightarrow> ws_kind \<Rightarrow> nat) \<Rightarrow>
     int \<Rightarrow> int \<Rightarrow> int \<Rightarrow> ws_storage \<Rightarrow> (rclcpp_exn + wait_result_kind) \<times> ws_storage" where
  "sequential_wait rcl rcl_wait alive contrib time_to_wait start now ws =
     apsnd storage_release_ownerships
       (sequential_sync_wait rcl rcl_wait False alive contrib time_to_wait start now (storage_acquire_ownerships alive ws))"

section \<open>Waiting with thread safety\<close>

text \<open>
  What other threads do while a thread waits.  An entity that the wait set holds outlives the last
  reference to it elsewhere.
\<close>

datatype ws_change =
    Add_entity ws_kind nat | Remove_entity ws_kind nat | Prune_entities | Delete_entity ws_kind nat

fun make_change ::
    "ws_change \<Rightarrow> (ws_kind \<Rightarrow> nat \<Rightarrow> bool) \<times> ws_storage \<Rightarrow> (ws_kind \<Rightarrow> nat \<Rightarrow> bool) \<times> ws_storage" where
  "make_change (Add_entity k e) (alive, ws) = (alive, snd (storage_add k e ws))"
| "make_change (Remove_entity k e) (alive, ws) = (alive, snd (storage_remove k e ws))"
| "make_change Prune_entities (alive, ws) = (alive, storage_prune_deleted_entities alive ws)"
| "make_change (Delete_entity k e) (alive, ws) =
     ((if Some e \<in> set (shared ws k) then alive else alive(k := (alive k)(e := False))), ws)"

text \<open>One turn of the loop: the clock, what happens during \<open>rcl_wait\<close>, its answer to the time that is
  left, and the clock again.\<close>

record ws_turn =
  before_wait :: int
  meanwhile :: "ws_change list"
  answer :: "int \<Rightarrow> rcl_wait_answer"
  after_wait :: int

definition interrupted_only :: "nat \<Rightarrow> rcl_entry list \<Rightarrow> bool" where
  "interrupted_only interrupt ready \<longleftrightarrow>
     (let was_interrupted_by_this_class = (\<exists>x \<in> set ready. x = Of_entity interrupt);
          any_user_guard_conditions_triggered = (\<exists>x \<in> set ready. x \<noteq> Of_entity interrupt)
      in \<not> (\<not> was_interrupted_by_this_class \<or> any_user_guard_conditions_triggered))"

text \<open>No result means that the wait is still going on after the given turns.\<close>

fun thread_safe_sync_wait ::
    "rcl_functions \<Rightarrow> (nat \<Rightarrow> ws_kind \<Rightarrow> nat) \<Rightarrow> nat \<Rightarrow> int \<Rightarrow> int \<Rightarrow> ws_turn list \<Rightarrow> (ws_kind \<Rightarrow> nat \<Rightarrow> bool) \<times> ws_storage \<Rightarrow>
     (rclcpp_exn + wait_result_kind) option \<times> (ws_kind \<Rightarrow> nat \<Rightarrow> bool) \<times> ws_storage" where
  "thread_safe_sync_wait rcl contrib interrupt time_to_wait start [] s = (None, s)"
| "thread_safe_sync_wait rcl contrib interrupt time_to_wait start (w # turns) (alive, ws) =
     (case storage_rebuild_rcl_wait_set rcl False alive contrib [interrupt] ws of
        (Some x, ws') \<Rightarrow> (Some (Inl x), alive, ws')
      | (None, ws') \<Rightarrow>
          (let (alive', ws'') = fold make_change (meanwhile w) (alive, ws');
               return = (\<lambda>kind. case create_wait_result alive' kind ws'' of (r, ws) \<Rightarrow> (Some r, alive', ws))
           in case answer w (calculate_time_left_to_wait time_to_wait start (before_wait w)) of
                Rcl_ok ready \<Rightarrow>
                  (if \<not> interrupted_only interrupt ready then return Ready
                   else if create_loop_predicate time_to_wait start (after_wait w)
                        then thread_safe_sync_wait rcl contrib interrupt time_to_wait start turns (alive', ws'')
                        else return Timeout)
              | Rcl_timeout \<Rightarrow> return Timeout
              | Rcl_wait_set_empty \<Rightarrow> return Empty
              | Rcl_error \<Rightarrow> (Some (Inl (RCLError ''rcl_wait'')), alive', ws'')))"

definition thread_safe_wait ::
    "rcl_functions \<Rightarrow> (nat \<Rightarrow> ws_kind \<Rightarrow> nat) \<Rightarrow> nat \<Rightarrow> int \<Rightarrow> int \<Rightarrow> ws_turn list \<Rightarrow> (ws_kind \<Rightarrow> nat \<Rightarrow> bool) \<times> ws_storage \<Rightarrow>
     (rclcpp_exn + wait_result_kind) option \<times> (ws_kind \<Rightarrow> nat \<Rightarrow> bool) \<times> ws_storage" where
  "thread_safe_wait rcl contrib interrupt time_to_wait start turns s =
     (case thread_safe_sync_wait rcl contrib interrupt time_to_wait start turns (fst s, storage_acquire_ownerships (fst s) (snd s)) of
        (None, s') \<Rightarrow> (None, s')
      | (Some r, alive, ws) \<Rightarrow> (Some r, alive, storage_release_ownerships ws))"

section \<open>A wait that is resumed\<close>

text \<open>What a turn of the loop hears from \<open>rcl_wait\<close>, and what the whole wait makes of the last answer.\<close>

abbreviation heard :: "int \<Rightarrow> int \<Rightarrow> ws_turn \<Rightarrow> rcl_wait_answer" where
  "heard time_to_wait start w \<equiv> answer w (calculate_time_left_to_wait time_to_wait start (before_wait w))"

fun outcome :: "rcl_wait_answer \<Rightarrow> rclcpp_exn + wait_result_kind" where
  "outcome (Rcl_ok _) = Inr Ready"
| "outcome Rcl_timeout = Inr Timeout"
| "outcome Rcl_wait_set_empty = Inr Empty"
| "outcome Rcl_error = Inl (RCLError ''rcl_wait'')"

definition resumes :: "nat \<Rightarrow> int \<Rightarrow> int \<Rightarrow> ws_turn \<Rightarrow> bool" where
  "resumes interrupt time_to_wait start w \<longleftrightarrow>
     (case heard time_to_wait start w of Rcl_ok ready \<Rightarrow> interrupted_only interrupt ready | _ \<Rightarrow> False) \<and>
     create_loop_predicate time_to_wait start (after_wait w)"

definition last_turn :: "nat \<Rightarrow> int \<Rightarrow> int \<Rightarrow> ws_turn \<Rightarrow> bool" where
  "last_turn interrupt time_to_wait start w \<longleftrightarrow>
     (case heard time_to_wait start w of Rcl_ok ready \<Rightarrow> \<not> interrupted_only interrupt ready | _ \<Rightarrow> True)"

text \<open>Two states of a wait that differ only in the rcl wait set and in what is due for it.\<close>

definition same_members ::
    "(ws_kind \<Rightarrow> nat \<Rightarrow> bool) \<times> ws_storage \<Rightarrow> (ws_kind \<Rightarrow> nat \<Rightarrow> bool) \<times> ws_storage \<Rightarrow> bool" where
  "same_members s t \<longleftrightarrow> fst s = fst t \<and> entities (snd s) = entities (snd t) \<and> shared (snd s) = shared (snd t) \<and>
     ownership_reference_counter (snd s) = ownership_reference_counter (snd t) \<and>
     wait_result_holding (snd s) = wait_result_holding (snd t)"

lemmas change_defs = storage_add_def storage_remove_def storage_flag_for_resize_def storage_prune_deleted_entities_def

lemma same_members_change: "same_members s t \<Longrightarrow> same_members (make_change c s) (make_change c t)"
  by (cases s; cases t; cases c) (auto simp: same_members_def change_defs)

lemma same_members_changes: "same_members s t \<Longrightarrow> same_members (fold make_change cs s) (fold make_change cs t)"
  by (induction cs arbitrary: s t) (auto simp: same_members_change)

lemma change_kept:
  "make_change c (alive, ws) = (alive', ws') \<Longrightarrow> rcl_entries ws' = rcl_entries ws \<and> shared ws' = shared ws \<and>
     ownership_reference_counter ws' = ownership_reference_counter ws \<and> wait_result_holding ws' = wait_result_holding ws"
  by (cases c) (auto simp: change_defs split: if_splits)

lemma changes_kept:
  "fold make_change cs (alive, ws) = (alive', ws') \<Longrightarrow> rcl_entries ws' = rcl_entries ws \<and> shared ws' = shared ws \<and>
     ownership_reference_counter ws' = ownership_reference_counter ws \<and> wait_result_holding ws' = wait_result_holding ws"
proof (induction cs arbitrary: alive ws)
  case (Cons c cs)
  obtain a w where c: "make_change c (alive, ws) = (a, w)" by force
  then show ?case using Cons.IH [of a w] Cons.prems change_kept [OF c] by simp
qed simp

lemma changes_life:
  "ws_life rcl contrib extra alive ws \<Longrightarrow> fold make_change cs (alive, ws) = (alive', ws') \<Longrightarrow> ws_life rcl contrib extra alive' ws'"
proof (induction cs arbitrary: alive ws)
  case (Cons c cs)
  obtain a w where c: "make_change c (alive, ws) = (a, w)" by force
  have "ws_life rcl contrib extra a w"
  proof (cases c)
    case (Add_entity k e)
    then show ?thesis using c ws_add [OF Cons.prems(1), of k e "fst (storage_add k e ws)"] by auto
  next
    case (Remove_entity k e)
    then show ?thesis using c ws_remove [OF Cons.prems(1), of k e "fst (storage_remove k e ws)"] by auto
  next
    case Prune_entities
    then show ?thesis using c ws_prune [OF Cons.prems(1)] by auto
  next
    case (Delete_entity k e)
    have "ws_life rcl contrib extra a ws" by (rule ws_die [OF Cons.prems(1)]) (use c Delete_entity in \<open>auto split: if_splits\<close>)
    then show ?thesis using c Delete_entity by simp
  qed
  then show ?case using Cons.IH Cons.prems(2) c by auto
qed simp

text \<open>What the wait set holds is not deleted.\<close>

lemma changes_held:
  "fold make_change cs (alive, ws) = (alive', ws') \<Longrightarrow> Some e \<in> set (shared ws k) \<Longrightarrow> alive k e \<Longrightarrow> alive' k e"
proof (induction cs arbitrary: alive ws)
  case (Cons c cs)
  obtain a w where c: "make_change c (alive, ws) = (a, w)" by force
  have "a k e" using c Cons.prems(2,3) by (cases c) (auto split: if_splits)
  then show ?case using Cons.IH [of a w] Cons.prems change_kept [OF c] c by simp
qed simp

lemma rebuild_same_members:
  assumes "ws_life rcl contrib extra alive ws" and rcl: "rcl_keeps_promises rcl"
  obtains ws' where "storage_rebuild_rcl_wait_set rcl False alive contrib extra ws = (None, ws')"
    and "rcl_entries ws' = wanted_entries alive contrib extra ws" and "same_members (alive, ws') (alive, ws)"
    and "ws_life rcl contrib extra alive ws'"
proof -
  from rebuild_exact [OF ws_life_fits [OF assms] rcl] obtain ws' where
    built: "storage_rebuild_rcl_wait_set rcl False alive contrib extra ws = (None, ws')" and
    "rcl_entries ws' = wanted_entries alive contrib extra ws" and "same_members (alive, ws') (alive, ws)"
    by (auto simp: same_members_def)
  then show thesis using that ws_rebuild [OF assms(1) built] by blast
qed

lemma interrupted_turns:
  assumes "ws_life rcl contrib [g] alive ws" and "\<forall>w \<in> set turns. resumes g t start w" and rcl: "rcl_keeps_promises rcl"
  obtains alive' ws' where
    "thread_safe_sync_wait rcl contrib g t start (turns @ rest) (alive, ws) =
       thread_safe_sync_wait rcl contrib g t start rest (alive', ws')"
    and "ws_life rcl contrib [g] alive' ws'"
    and "same_members (alive', ws') (fold make_change (concat (map meanwhile turns)) (alive, ws))"
  using assms(1,2)
proof (induction turns arbitrary: alive ws thesis)
  case Nil
  then show ?case by (simp add: same_members_def)
next
  case (Cons w turns)
  obtain b where b: "storage_rebuild_rcl_wait_set rcl False alive contrib [g] ws = (None, b)"
    "same_members (alive, b) (alive, ws)" "ws_life rcl contrib [g] alive b"
    using rebuild_same_members [OF Cons.prems(2) rcl] by metis
  obtain a c where ac: "fold make_change (meanwhile w) (alive, b) = (a, c)" by force
  have life: "ws_life rcl contrib [g] a c" by (rule changes_life [OF b(3) ac])
  have same: "same_members (a, c) (fold make_change (meanwhile w) (alive, ws))"
    using same_members_changes [OF b(2), of "meanwhile w"] by (simp add: ac)
  from Cons.IH [OF _ life] Cons.prems(3) obtain alive' ws' where later:
    "thread_safe_sync_wait rcl contrib g t start (turns @ rest) (a, c) = thread_safe_sync_wait rcl contrib g t start rest (alive', ws')"
    "ws_life rcl contrib [g] alive' ws'" "same_members (alive', ws') (fold make_change (concat (map meanwhile turns)) (a, c))"
    by auto
  have "thread_safe_sync_wait rcl contrib g t start ((w # turns) @ rest) (alive, ws) =
      thread_safe_sync_wait rcl contrib g t start rest (alive', ws')"
    using Cons.prems(3) later(1) by (auto simp: b(1) ac resumes_def split: rcl_wait_answer.splits)
  moreover have "same_members (alive', ws') (fold make_change (concat (map meanwhile (w # turns))) (alive, ws))"
    using later(3) same_members_changes [OF same, of "concat (map meanwhile turns)"] by (auto simp: same_members_def)
  ultimately show ?case using Cons.prems(1) later(2) by blast
qed

lemma last_turn_ends:
  assumes "ws_life rcl contrib [g] alive ws" and "last_turn g t start w"
    and "\<not> wait_result_holding ws" and "ownership_reference_counter ws = 1" and rcl: "rcl_keeps_promises rcl"
  obtains alive' ws' where
    "thread_safe_sync_wait rcl contrib g t start [w] (alive, ws) = (Some (outcome (heard t start w)), alive', ws')"
    and "rcl_entries ws' = wanted_entries alive contrib [g] ws" and "shared ws' = shared ws"
    and "alive' = fst (fold make_change (meanwhile w) (alive, ws))"
    and "wait_result_holding ws' \<longleftrightarrow> outcome (heard t start w) = Inr Ready"
    and "ownership_reference_counter ws' = (if outcome (heard t start w) = Inr Ready then 2 else 1)"
proof -
  obtain b where b: "storage_rebuild_rcl_wait_set rcl False alive contrib [g] ws = (None, b)"
    "rcl_entries b = wanted_entries alive contrib [g] ws" "same_members (alive, b) (alive, ws)"
    using rebuild_same_members [OF assms(1) rcl] by metis
  obtain a c where ac: "fold make_change (meanwhile w) (alive, b) = (a, c)" by force
  have a: "a = fst (fold make_change (meanwhile w) (alive, ws))"
    using same_members_changes [OF b(3), of "meanwhile w"] ac by (simp add: same_members_def)
  have c: "rcl_entries c = wanted_entries alive contrib [g] ws" "shared c = shared ws"
    "\<not> wait_result_holding c" "ownership_reference_counter c = 1"
    using changes_kept [OF ac] b(2,3) assms(3,4) by (simp_all add: same_members_def)
  show thesis
    by (cases "heard t start w")
      (use assms(2) c a in \<open>simp_all add: last_turn_def b(1) ac create_wait_result_def wait_result_acquire_def
        storage_acquire_ownerships_def that\<close>)
qed

lemma acquired:
  assumes "ownership_reference_counter ws = 0"
  shows "ownership_reference_counter (storage_acquire_ownerships alive ws) = 1"
    "wait_result_holding (storage_acquire_ownerships alive ws) = wait_result_holding ws"
    "k \<noteq> WS_subscription \<Longrightarrow> e \<in> set (entities ws k) \<Longrightarrow> alive k e \<Longrightarrow>
       Some e \<in> set (shared (storage_acquire_ownerships alive ws) k)"
  using assms by (auto simp: storage_acquire_ownerships_def lock_all_def image_iff)


definition example_turns :: "ws_turn list" where
  "example_turns =
     [\<lparr>before_wait = 0, meanwhile = [Add_entity WS_timer 5, Delete_entity WS_timer 1], answer = (\<lambda>_. Rcl_ok [Of_entity 9]), after_wait = 10\<rparr>]"

definition example_last_turn :: ws_turn where
  "example_last_turn = \<lparr>before_wait = 10, meanwhile = [], answer = (\<lambda>left. if left = 90 then Rcl_ok [] else Rcl_timeout), after_wait = 20\<rparr>"



text \<open>Without thread safety one call of \<open>rcl_wait\<close> decides, and the holds are balanced in the same way.\<close>

lemma sequential_wait_result:
  assumes "ws_life rcl contrib [] alive ws" and "\<not> wait_result_holding ws" and "ownership_reference_counter ws = 0"
    and rcl: "rcl_keeps_promises rcl"
  obtains ws1 ws' where "rcl_entries ws1 = wanted_entries alive contrib [] ws"
    and "sequential_wait rcl rcl_wait alive contrib t start now ws =
      (outcome (rcl_wait ws1 (calculate_time_left_to_wait t start now)), ws')"
    and "ownership_reference_counter ws' = (if wait_result_holding ws' then 1 else 0)"
    and "wait_result_holding ws' \<longleftrightarrow> outcome (rcl_wait ws1 (calculate_time_left_to_wait t start now)) = Inr Ready"
proof -
  let ?ws = "storage_acquire_ownerships alive ws"
  obtain b where b: "storage_rebuild_rcl_wait_set rcl False alive contrib [] ?ws = (None, b)"
    "rcl_entries b = wanted_entries alive contrib [] ?ws" "same_members (alive, b) (alive, ?ws)"
    using rebuild_same_members [OF ws_acquire [OF assms(1)] rcl] by metis
  have "entities ?ws = entities ws" by (simp add: storage_acquire_ownerships_def Let_def)
  then have entries: "rcl_entries b = wanted_entries alive contrib [] ws" using b(2) wanted_entries_cong by metis
  have c: "\<not> wait_result_holding b" "ownership_reference_counter b = 1"
    using b(3) acquired(1,2) [OF assms(3)] assms(2) by (simp_all add: same_members_def)
  let ?r = "sequential_wait rcl rcl_wait alive contrib t start now ws"
  have "?r = (outcome (rcl_wait b (calculate_time_left_to_wait t start now)), snd ?r) \<and>
      ownership_reference_counter (snd ?r) = (if wait_result_holding (snd ?r) then 1 else 0) \<and>
      (wait_result_holding (snd ?r) \<longleftrightarrow> outcome (rcl_wait b (calculate_time_left_to_wait t start now)) = Inr Ready)"
    unfolding sequential_wait_def sequential_sync_wait_def b(1)
    using c by (cases "rcl_wait b (calculate_time_left_to_wait t start now)")
      (simp_all add: create_wait_result_def wait_result_acquire_def storage_acquire_ownerships_def
        storage_release_ownerships_def)
  then show thesis using that [OF entries] by blast
qed

text \<open>
  While the deadline is within the range of the clock, an interrupted wait goes on exactly as long
  as time is left.
\<close>

lemma loop_predicate_exact:
  assumes "in_int64 (start + t)" and "in_int64 (now - start)" and "start \<le> now" and "0 \<le> t" "in_int64 t"
  shows "create_loop_predicate t start now \<longleftrightarrow> 0 < calculate_time_left_to_wait t start now"
  using assms
  by (auto simp: create_loop_predicate_def calculate_time_left_to_wait_def to_int64_def in_int64_def int64_max_def Let_def)

text \<open>
  Beyond it the deadline wraps around: a wait for the longest duration ends as timed out at the
  first change of the wait set.
\<close>

lemma longest_wait_ends_at_once:
  assumes "0 < start" and "start \<le> now" and "in_int64 now"
  shows "\<not> create_loop_predicate int64_max start now" and "in_int64 int64_max"
proof -
  have "(start + int64_max + 2 ^ 63) mod 2 ^ 64 = ((start - 1) + 2 ^ 64) mod 2 ^ 64" by (simp add: int64_max_def)
  also have "\<dots> = (start - 1) mod 2 ^ 64" by (rule mod_add_self2)
  also have "\<dots> = start - 1"
    by (rule mod_pos_pos_trivial) (use assms in \<open>auto simp: in_int64_def int64_max_def\<close>)
  finally have "(start + int64_max + 2 ^ 63) mod 2 ^ 64 = start - 1" .
  then show "\<not> create_loop_predicate int64_max start now"
    using assms by (simp add: create_loop_predicate_def to_int64_def in_int64_def int64_max_def)
  show "in_int64 int64_max" by (simp add: in_int64_def int64_max_def)
qed

text \<open>
  Subscriptions are not held during a wait: one that is deleted meanwhile is still in the rcl wait
  set that is waited on.  And an entity that is added during a wait is not held either, although the
  rcl wait set is rebuilt with it.
\<close>

lemma subscription_not_held:
  assumes "shared ws WS_subscription = []"
  shows "\<not> fst (make_change (Delete_entity WS_subscription e) (alive, storage_acquire_ownerships alive ws)) WS_subscription e"
  using assms by (simp add: storage_acquire_ownerships_def Let_def)

lemma added_entity_not_held:
  assumes "ownership_reference_counter ws = 0" and "e \<notin> set (entities ws k)" and "k \<noteq> WS_subscription"
  shows "fold make_change [Add_entity k e, Delete_entity k e] (alive, storage_acquire_ownerships alive ws) =
    (alive(k := (alive k)(e := False)), snd (storage_add k e (storage_acquire_ownerships alive ws)))"
  using assms
  by (auto simp: storage_acquire_ownerships_def change_defs lock_all_def storage_has_entity_def)


end
