(* ===== verification/Wait_Set_Use.thy ===== *)
theory Wait_Set_Use
  imports Wait_Sets
begin

text \<open>
  Which wait set has an entity (the operations of \<open>wait_set_template.hpp\<close> that add and remove
  entities, and \<open>exchange_in_use_by_wait_set_state\<close>).  An entity keeps a flag that says it is in a
  wait set; a subscription keeps the flags of its events and of its intra-process waitable.
\<close>

section \<open>Flags\<close>

datatype use_flag = Own_flag ws_kind nat | Part_flag nat

record ws_subscription =
  sub_number :: nat
  event_handlers :: "nat list"
  intra_process_waitable :: "nat option"

record SubscriptionWaitSetMask =
  include_subscription :: bool
  include_events :: bool
  include_intra_process_waitable :: bool

record ws_world =
  wait_sets :: "nat \<Rightarrow> ws_storage"
  in_use :: "use_flag set"

definition exchange_in_use_by_wait_set_state :: "use_flag \<Rightarrow> bool \<Rightarrow> ws_world \<Rightarrow> bool \<times> ws_world" where
  "exchange_in_use_by_wait_set_state f in_use_state w =
     (f \<in> in_use w, w\<lparr>in_use := (if in_use_state then insert f (in_use w) else in_use w - {f})\<rparr>)"

datatype part_pointer = No_part | Subscription_part nat | Waitable_part nat

definition SubscriptionBase_exchange ::
    "ws_subscription \<Rightarrow> part_pointer \<Rightarrow> bool \<Rightarrow> ws_world \<Rightarrow> (rclcpp_exn + bool) \<times> ws_world" where
  "SubscriptionBase_exchange sub pointer in_use_state w =
     (let exchange = (\<lambda>f. apfst Inr (exchange_in_use_by_wait_set_state f in_use_state w));
          no_part = (Inl (RuntimeError ''given pointer_to_subscription_part does not match any part''), w)
      in case pointer of
           No_part \<Rightarrow> (Inl (InvalidArgument ''pointer_to_subscription_part is unexpectedly nullptr''), w)
         | Subscription_part s \<Rightarrow> if s = sub_number sub then exchange (Own_flag WS_subscription s) else no_part
         | Waitable_part e \<Rightarrow>
             if intra_process_waitable sub = Some e then exchange (Part_flag e)
             else if e \<in> set (event_handlers sub) then exchange (Part_flag e) else no_part)"

section \<open>Adding and removing\<close>

definition on_storage ::
    "nat \<Rightarrow> (ws_storage \<Rightarrow> rclcpp_exn option \<times> ws_storage) \<Rightarrow> ws_world \<Rightarrow> rclcpp_exn option \<times> ws_world" where
  "on_storage i operation w =
     (case operation (wait_sets w i) of (r, ws) \<Rightarrow> (r, w\<lparr>wait_sets := (wait_sets w)(i := ws)\<rparr>))"

definition in_use_message :: "ws_kind \<Rightarrow> string" where
  "in_use_message k = (if k = WS_guard_condition then ''guard condition'' else kind_name k) @ '' already in use by another wait set''"

text \<open>\<open>add_guard_condition\<close>, \<open>add_timer\<close>, \<open>add_client\<close>, \<open>add_service\<close> and \<open>add_waitable\<close>, and their counterparts.\<close>

definition add_entity :: "ws_kind \<Rightarrow> nat option \<Rightarrow> nat \<Rightarrow> ws_world \<Rightarrow> rclcpp_exn option \<times> ws_world" where
  "add_entity k entity i w =
     (case entity of
        None \<Rightarrow> (Some (InvalidArgument (kind_name k @ '' is nullptr'')), w)
      | Some e \<Rightarrow>
          (case exchange_in_use_by_wait_set_state (Own_flag k e) True w of
             (already_in_use, w') \<Rightarrow>
               if already_in_use then (Some (RuntimeError (in_use_message k)), w')
               else on_storage i (storage_add k e) w'))"

definition remove_entity :: "ws_kind \<Rightarrow> nat option \<Rightarrow> nat \<Rightarrow> ws_world \<Rightarrow> rclcpp_exn option \<times> ws_world" where
  "remove_entity k entity i w =
     (case entity of
        None \<Rightarrow> (Some (InvalidArgument (kind_name k @ '' is nullptr'')), w)
      | Some e \<Rightarrow> on_storage i (storage_remove k e) (snd (exchange_in_use_by_wait_set_state (Own_flag k e) False w)))"

definition add_part ::
    "ws_subscription \<Rightarrow> part_pointer \<Rightarrow> string \<Rightarrow> ws_kind \<Rightarrow> nat \<Rightarrow> nat \<Rightarrow> ws_world \<Rightarrow> rclcpp_exn option \<times> ws_world" where
  "add_part sub pointer name k e i w =
     (case SubscriptionBase_exchange sub pointer True w of
        (Inl x, w') \<Rightarrow> (Some x, w')
      | (Inr already_in_use, w') \<Rightarrow>
          if already_in_use then (Some (RuntimeError (name @ '' already associated with a wait set'')), w')
          else on_storage i (storage_add k e) w')"

definition remove_part ::
    "ws_subscription \<Rightarrow> part_pointer \<Rightarrow> ws_kind \<Rightarrow> nat \<Rightarrow> nat \<Rightarrow> ws_world \<Rightarrow> rclcpp_exn option \<times> ws_world" where
  "remove_part sub pointer k e i w =
     (case SubscriptionBase_exchange sub pointer False w of
        (Inl x, w') \<Rightarrow> (Some x, w')
      | (Inr _, w') \<Rightarrow> on_storage i (storage_remove k e) w')"

fun for_each :: "('a \<Rightarrow> 's \<Rightarrow> rclcpp_exn option \<times> 's) \<Rightarrow> 'a list \<Rightarrow> 's \<Rightarrow> rclcpp_exn option \<times> 's" where
  "for_each f [] s = (None, s)"
| "for_each f (x # xs) s = andthen (f x s) (for_each f xs)"

definition ws_add_subscription ::
    "ws_subscription option \<Rightarrow> SubscriptionWaitSetMask \<Rightarrow> nat \<Rightarrow> ws_world \<Rightarrow> rclcpp_exn option \<times> ws_world" where
  "ws_add_subscription subscription sub_mask i w =
     (case subscription of
        None \<Rightarrow> (Some (InvalidArgument ''subscription is nullptr''), w)
      | Some sub \<Rightarrow>
          andthen (if include_subscription sub_mask
                   then add_part sub (Subscription_part (sub_number sub)) ''subscription'' WS_subscription (sub_number sub) i w
                   else (None, w)) (\<lambda>w.
          andthen (if include_events sub_mask
                   then for_each (\<lambda>e. add_part sub (Waitable_part e) ''subscription event'' WS_waitable e i) (event_handlers sub) w
                   else (None, w)) (\<lambda>w.
          if include_intra_process_waitable sub_mask
          then (case intra_process_waitable sub of
                  None \<Rightarrow> (None, w)
                | Some e \<Rightarrow> add_part sub (Waitable_part e) ''subscription intra-process waitable'' WS_waitable e i w)
          else (None, w))))"

definition ws_remove_subscription ::
    "ws_subscription option \<Rightarrow> SubscriptionWaitSetMask \<Rightarrow> nat \<Rightarrow> ws_world \<Rightarrow> rclcpp_exn option \<times> ws_world" where
  "ws_remove_subscription subscription sub_mask i w =
     (case subscription of
        None \<Rightarrow> (Some (InvalidArgument ''subscription is nullptr''), w)
      | Some sub \<Rightarrow>
          andthen (if include_subscription sub_mask
                   then remove_part sub (Subscription_part (sub_number sub)) WS_subscription (sub_number sub) i w
                   else (None, w)) (\<lambda>w.
          andthen (if include_events sub_mask
                   then for_each (\<lambda>e. remove_part sub (Waitable_part e) WS_waitable e i) (event_handlers sub) w
                   else (None, w)) (\<lambda>w.
          if include_intra_process_waitable sub_mask
          then (case intra_process_waitable sub of
                  None \<Rightarrow> (None, w)
                | Some e \<Rightarrow> remove_part sub (Waitable_part e) WS_waitable e i w)
          else (None, w))))"

section \<open>An entity is in one wait set\<close>

text \<open>\<open>parts\<close> says which waitables belong to subscriptions.\<close>

definition flag_of :: "(nat \<Rightarrow> bool) \<Rightarrow> ws_kind \<Rightarrow> nat \<Rightarrow> use_flag" where
  "flag_of parts k e = (if k = WS_waitable \<and> parts e then Part_flag e else Own_flag k e)"

abbreviation has :: "ws_world \<Rightarrow> nat \<Rightarrow> ws_kind \<Rightarrow> nat \<Rightarrow> bool" where
  "has w i k e \<equiv> e \<in> set (entities (wait_sets w i) k)"

definition use_ok :: "(nat \<Rightarrow> bool) \<Rightarrow> ws_world \<Rightarrow> bool" where
  "use_ok parts w \<longleftrightarrow>
     (\<forall>i k. distinct (entities (wait_sets w i) k)) \<and>
     (\<forall>i k e. has w i k e \<longrightarrow> flag_of parts k e \<in> in_use w) \<and>
     (\<forall>i j k e. has w i k e \<longrightarrow> has w j k e \<longrightarrow> i = j)"

text \<open>The flag is set and the entity is added, or the flag is cleared and the entity is removed.\<close>

definition mark_and_add :: "use_flag \<Rightarrow> ws_kind \<Rightarrow> nat \<Rightarrow> nat \<Rightarrow> ws_world \<Rightarrow> rclcpp_exn option \<times> ws_world" where
  "mark_and_add f k e i w = on_storage i (storage_add k e) (w\<lparr>in_use := insert f (in_use w)\<rparr>)"

definition unmark_and_remove :: "use_flag \<Rightarrow> ws_kind \<Rightarrow> nat \<Rightarrow> nat \<Rightarrow> ws_world \<Rightarrow> rclcpp_exn option \<times> ws_world" where
  "unmark_and_remove f k e i w = on_storage i (storage_remove k e) (w\<lparr>in_use := in_use w - {f}\<rparr>)"

lemma flag_of_inject: "flag_of parts k e = flag_of parts k' e' \<longleftrightarrow> k = k' \<and> e = e'"
  by (auto simp: flag_of_def)

lemma use_okI:
  assumes "\<And>i k. distinct (entities (wait_sets w i) k)" and "\<And>i k e. has w i k e \<Longrightarrow> flag_of parts k e \<in> in_use w"
    and "\<And>i j k e. has w i k e \<Longrightarrow> has w j k e \<Longrightarrow> i = j"
  shows "use_ok parts w"
  using assms by (simp add: use_ok_def)

lemma use_okD:
  assumes "use_ok parts w"
  shows "distinct (entities (wait_sets w i) k)" "has w i k e \<Longrightarrow> flag_of parts k e \<in> in_use w"
    "has w i k e \<Longrightarrow> has w j k e \<Longrightarrow> i = j"
  using assms by (simp_all add: use_ok_def)

lemma use_ok_free: "use_ok parts w \<Longrightarrow> flag_of parts k e \<notin> in_use w \<Longrightarrow> \<not> has w i k e"
  using use_okD(2) by blast

lemma mark_and_add_free:
  assumes "use_ok parts w" and "flag_of parts k e \<notin> in_use w"
  shows "mark_and_add (flag_of parts k e) k e i w =
    (None, w\<lparr>in_use := insert (flag_of parts k e) (in_use w),
             wait_sets := (wait_sets w)(i := (wait_sets w i)\<lparr>entities := (entities (wait_sets w i))(k := entities (wait_sets w i) k @ [e]),
               needs_resize := True\<rparr>)\<rparr>)"
  using use_ok_free [OF assms, of i]
  by (simp add: mark_and_add_def on_storage_def storage_add_def storage_has_entity_def storage_flag_for_resize_def)

lemma mark_and_add_ok:
  assumes "use_ok parts w" and "flag_of parts k e \<notin> in_use w"
  shows "use_ok parts (snd (mark_and_add (flag_of parts k e) k e i w))"
proof -
  let ?w = "snd (mark_and_add (flag_of parts k e) k e i w)"
  have free: "\<not> has w j k e" for j by (rule use_ok_free [OF assms])
  have has: "has ?w j l x \<longleftrightarrow> has w j l x \<or> j = i \<and> l = k \<and> x = e" for j l x
    by (auto simp: mark_and_add_free [OF assms])
  have marked: "in_use ?w = insert (flag_of parts k e) (in_use w)" by (simp add: mark_and_add_free [OF assms])
  show ?thesis
  proof (rule use_okI)
    show "distinct (entities (wait_sets ?w j) l)" for j l
      using use_okD(1) [OF assms(1)] free [of i] by (simp add: mark_and_add_free [OF assms])
    show "flag_of parts l x \<in> in_use ?w" if "has ?w j l x" for j l x
      using that use_okD(2) [OF assms(1)] unfolding has marked by blast
    show "j = j'" if "has ?w j l x" "has ?w j' l x" for j j' l x
      using that use_okD(3) [OF assms(1)] free unfolding has by blast
  qed
qed

lemma unmark_and_remove_entities:
  "entities (wait_sets (snd (unmark_and_remove f k e i w)) j) l =
     (if j = i \<and> l = k then remove1 e (entities (wait_sets w i) k) else entities (wait_sets w j) l)"
  by (simp add: unmark_and_remove_def on_storage_def storage_remove_def storage_has_entity_def
      storage_flag_for_resize_def remove1_idem)

lemma unmark_and_remove_ok:
  assumes "use_ok parts w" and "\<And>j. has w j k e \<Longrightarrow> j = i"
  shows "use_ok parts (snd (unmark_and_remove (flag_of parts k e) k e i w))"
proof -
  let ?w = "snd (unmark_and_remove (flag_of parts k e) k e i w)"
  have d: "distinct (entities (wait_sets w j) l)" for j l using assms(1) by (simp add: use_ok_def)
  have has: "has ?w j l x \<longleftrightarrow> has w j l x \<and> \<not> (l = k \<and> x = e)" for j l x
    using assms(2) [of j] by (auto simp: unmark_and_remove_entities set_remove1_eq [OF d])
  have marked: "in_use ?w = in_use w - {flag_of parts k e}"
    by (simp add: unmark_and_remove_def on_storage_def split: prod.split)
  show ?thesis
  proof (rule use_okI)
    show "distinct (entities (wait_sets ?w j) l)" for j l
      using d by (simp add: unmark_and_remove_entities)
    show "flag_of parts l x \<in> in_use ?w" if "has ?w j l x" for j l x
    proof -
      have "flag_of parts l x \<in> in_use w" using that use_okD(2) [OF assms(1)] unfolding has by blast
      then show ?thesis using that unfolding has marked by (auto simp: flag_of_inject)
    qed
    show "j = j'" if "has ?w j l x" "has ?w j' l x" for j j' l x
      using that use_okD(3) [OF assms(1)] unfolding has by blast
  qed
qed

lemma add_entity_marks:
  "add_entity k (Some e) i w =
     (if Own_flag k e \<in> in_use w then (Some (RuntimeError (in_use_message k)), w) else mark_and_add (Own_flag k e) k e i w)"
  by (simp add: add_entity_def exchange_in_use_by_wait_set_state_def mark_and_add_def insert_absorb)

lemma remove_entity_unmarks: "remove_entity k (Some e) i w = unmark_and_remove (Own_flag k e) k e i w"
  by (simp add: remove_entity_def exchange_in_use_by_wait_set_state_def unmark_and_remove_def)

definition sub_parts :: "ws_subscription \<Rightarrow> nat set" where
  "sub_parts sub = set (event_handlers sub) \<union> set_option (intra_process_waitable sub)"

lemma add_part_marks:
  "e \<in> sub_parts sub \<Longrightarrow> add_part sub (Waitable_part e) name k x i w =
     (if Part_flag e \<in> in_use w then (Some (RuntimeError (name @ '' already associated with a wait set'')), w)
      else mark_and_add (Part_flag e) k x i w)"
  "add_part sub (Subscription_part (sub_number sub)) name k x i w =
     (if Own_flag WS_subscription (sub_number sub) \<in> in_use w
      then (Some (RuntimeError (name @ '' already associated with a wait set'')), w)
      else mark_and_add (Own_flag WS_subscription (sub_number sub)) k x i w)"
  by (auto simp: add_part_def SubscriptionBase_exchange_def exchange_in_use_by_wait_set_state_def
      mark_and_add_def insert_absorb sub_parts_def)

lemma remove_part_unmarks:
  "e \<in> sub_parts sub \<Longrightarrow> remove_part sub (Waitable_part e) k x i w = unmark_and_remove (Part_flag e) k x i w"
  "remove_part sub (Subscription_part (sub_number sub)) k x i w =
     unmark_and_remove (Own_flag WS_subscription (sub_number sub)) k x i w"
  by (auto simp: remove_part_def SubscriptionBase_exchange_def exchange_in_use_by_wait_set_state_def
      unmark_and_remove_def sub_parts_def)

text \<open>
  How wait sets are used: they start empty; waitables of subscriptions are added with their
  subscription; and nothing is removed from a wait set that another one has.
\<close>

inductive orderly :: "(nat \<Rightarrow> bool) \<Rightarrow> ws_world \<Rightarrow> bool" for parts where
  use_start: "(\<And>i k. entities (wait_sets w i) k = []) \<Longrightarrow> orderly parts w"
| use_add: "orderly parts w \<Longrightarrow> k \<noteq> WS_subscription \<Longrightarrow> \<not> (k = WS_waitable \<and> parts e) \<Longrightarrow>
    orderly parts (snd (add_entity k (Some e) i w))"
| use_remove: "orderly parts w \<Longrightarrow> k \<noteq> WS_subscription \<Longrightarrow> \<not> (k = WS_waitable \<and> parts e) \<Longrightarrow>
    (\<And>j. has w j k e \<Longrightarrow> j = i) \<Longrightarrow> orderly parts (snd (remove_entity k (Some e) i w))"
| use_add_subscription: "orderly parts w \<Longrightarrow> (\<And>e. e \<in> sub_parts sub \<Longrightarrow> parts e) \<Longrightarrow>
    orderly parts (snd (ws_add_subscription (Some sub) sub_mask i w))"
| use_remove_subscription: "orderly parts w \<Longrightarrow> (\<And>e. e \<in> sub_parts sub \<Longrightarrow> parts e) \<Longrightarrow>
    (\<And>j. has w j WS_subscription (sub_number sub) \<Longrightarrow> j = i) \<Longrightarrow>
    (\<And>j e. e \<in> sub_parts sub \<Longrightarrow> has w j WS_waitable e \<Longrightarrow> j = i) \<Longrightarrow>
    orderly parts (snd (ws_remove_subscription (Some sub) sub_mask i w))"
| use_prune: "orderly parts w \<Longrightarrow>
    orderly parts (w\<lparr>wait_sets := (wait_sets w)(i := storage_prune_deleted_entities alive (wait_sets w i))\<rparr>)"
| use_wait: "orderly parts w \<Longrightarrow> entities ws = entities (wait_sets w i) \<Longrightarrow>
    orderly parts (w\<lparr>wait_sets := (wait_sets w)(i := ws)\<rparr>)"

lemma andthen_keeps:
  assumes "P (snd r)" and "\<And>s. P s \<Longrightarrow> P (snd (f s))"
  shows "P (snd (andthen r f))"
  using assms by (cases r; cases "fst r") auto

lemma for_each_keeps:
  assumes "P s" and "\<And>x s. x \<in> set xs \<Longrightarrow> P s \<Longrightarrow> P (snd (f x s))"
  shows "P (snd (for_each f xs s))"
  using assms
proof (induction xs arbitrary: s)
  case (Cons x xs)
  have "P (snd (f x s))" using Cons.prems by simp
  moreover have "P (snd (for_each f xs t))" if "P t" for t using that Cons.IH Cons.prems(2) by simp
  ultimately have "P (snd (andthen (f x s) (for_each f xs)))" by (rule andthen_keeps)
  then show ?case by simp
qed simp

lemma add_marked_ok:
  assumes "use_ok parts w" and "f = flag_of parts k e"
  shows "use_ok parts (snd (if f \<in> in_use w then (x, w) else mark_and_add f k e i w))"
  using assms mark_and_add_ok by auto

lemma add_part_ok:
  assumes "use_ok parts w" and "e \<in> sub_parts sub" and "parts e"
  shows "use_ok parts (snd (add_part sub (Waitable_part e) name WS_waitable e i w))"
  unfolding add_part_marks(1) [OF assms(2)] by (rule add_marked_ok [OF assms(1)]) (simp add: flag_of_def assms(3))

lemma add_subscription_part_ok:
  assumes "use_ok parts w"
  shows "use_ok parts (snd (add_part sub (Subscription_part (sub_number sub)) name WS_subscription (sub_number sub) i w))"
  unfolding add_part_marks(2) by (rule add_marked_ok [OF assms]) (simp add: flag_of_def)

lemma add_subscription_ok:
  assumes "use_ok parts w" and "\<And>e. e \<in> sub_parts sub \<Longrightarrow> parts e"
  shows "use_ok parts (snd (ws_add_subscription (Some sub) sub_mask i w))"
  unfolding ws_add_subscription_def option.case
proof (intro andthen_keeps [where P = "use_ok parts"])
  show "use_ok parts (snd (if include_subscription sub_mask
      then add_part sub (Subscription_part (sub_number sub)) ''subscription'' WS_subscription (sub_number sub) i w else (None, w)))"
    using assms(1) add_subscription_part_ok by simp
next
  fix w assume "use_ok parts w"
  then show "use_ok parts (snd (if include_events sub_mask
      then for_each (\<lambda>e. add_part sub (Waitable_part e) ''subscription event'' WS_waitable e i) (event_handlers sub) w else (None, w)))"
    using for_each_keeps [where P = "use_ok parts", of w "event_handlers sub"] add_part_ok [where parts = parts] assms(2)
    by (simp add: sub_parts_def)
next
  fix w assume "use_ok parts w"
  then show "use_ok parts (snd (if include_intra_process_waitable sub_mask
      then (case intra_process_waitable sub of None \<Rightarrow> (None, w)
            | Some e \<Rightarrow> add_part sub (Waitable_part e) ''subscription intra-process waitable'' WS_waitable e i w)
      else (None, w)))"
    using assms(2) by (auto simp: sub_parts_def split: option.split intro!: add_part_ok)
qed

text \<open>Only wait set \<open>i\<close> has parts of the subscription.\<close>

definition only_in :: "ws_subscription \<Rightarrow> nat \<Rightarrow> ws_world \<Rightarrow> bool" where
  "only_in sub i w \<longleftrightarrow> (\<forall>j. has w j WS_subscription (sub_number sub) \<longrightarrow> j = i) \<and>
     (\<forall>e \<in> sub_parts sub. \<forall>j. has w j WS_waitable e \<longrightarrow> j = i)"

lemma unmark_and_remove_shrinks: "has (snd (unmark_and_remove f k e i w)) j l x \<Longrightarrow> has w j l x"
  by (auto simp: unmark_and_remove_entities split: if_splits dest: notin_set_remove1 set_mp [OF set_remove1_subset])

lemma only_in_shrinks: "only_in sub n w \<Longrightarrow> only_in sub n (snd (unmark_and_remove f k e i w))"
  using unmark_and_remove_shrinks unfolding only_in_def by blast

lemma remove_part_ok:
  assumes "use_ok parts w \<and> only_in sub i w" and "e \<in> sub_parts sub" and "parts e"
  shows "use_ok parts (snd (remove_part sub (Waitable_part e) WS_waitable e i w)) \<and>
    only_in sub i (snd (remove_part sub (Waitable_part e) WS_waitable e i w))"
proof -
  have "flag_of parts WS_waitable e = Part_flag e" by (simp add: flag_of_def assms(3))
  moreover have "use_ok parts (snd (unmark_and_remove (flag_of parts WS_waitable e) WS_waitable e i w))"
    by (rule unmark_and_remove_ok) (use assms(1,2) in \<open>simp_all add: only_in_def\<close>)
  ultimately show ?thesis
    unfolding remove_part_unmarks(1) [OF assms(2)] using only_in_shrinks assms(1) by simp
qed

lemma remove_subscription_part_ok:
  assumes "use_ok parts w \<and> only_in sub i w"
  shows "use_ok parts (snd (remove_part sub (Subscription_part (sub_number sub)) WS_subscription (sub_number sub) i w)) \<and>
    only_in sub i (snd (remove_part sub (Subscription_part (sub_number sub)) WS_subscription (sub_number sub) i w))"
proof -
  have "flag_of parts WS_subscription (sub_number sub) = Own_flag WS_subscription (sub_number sub)" by (simp add: flag_of_def)
  moreover have "use_ok parts (snd (unmark_and_remove (flag_of parts WS_subscription (sub_number sub)) WS_subscription (sub_number sub) i w))"
    by (rule unmark_and_remove_ok) (use assms in \<open>simp_all add: only_in_def\<close>)
  ultimately show ?thesis unfolding remove_part_unmarks(2) using only_in_shrinks assms by simp
qed

lemma remove_subscription_ok:
  assumes "use_ok parts w" and "only_in sub i w" and "\<And>e. e \<in> sub_parts sub \<Longrightarrow> parts e"
  shows "use_ok parts (snd (ws_remove_subscription (Some sub) sub_mask i w))"
proof -
  let ?P = "\<lambda>w. use_ok parts w \<and> only_in sub i w"
  have "?P (snd (ws_remove_subscription (Some sub) sub_mask i w))"
    unfolding ws_remove_subscription_def option.case
  proof (intro andthen_keeps [where P = ?P])
    show "?P (snd (if include_subscription sub_mask
        then remove_part sub (Subscription_part (sub_number sub)) WS_subscription (sub_number sub) i w else (None, w)))"
      using assms(1,2) remove_subscription_part_ok by simp
  next
    fix w assume "?P w"
    then show "?P (snd (if include_events sub_mask
        then for_each (\<lambda>e. remove_part sub (Waitable_part e) WS_waitable e i) (event_handlers sub) w else (None, w)))"
      using for_each_keeps [where P = ?P, of w "event_handlers sub"] remove_part_ok [where parts = parts] assms(3)
      by (simp add: sub_parts_def)
  next
    fix w assume "?P w"
    then show "?P (snd (if include_intra_process_waitable sub_mask
        then (case intra_process_waitable sub of None \<Rightarrow> (None, w)
              | Some e \<Rightarrow> remove_part sub (Waitable_part e) WS_waitable e i w)
        else (None, w)))"
      using remove_part_ok [where parts = parts] assms(3) by (simp add: sub_parts_def split: option.split)
  qed
  then show ?thesis by simp
qed

lemma use_ok_shrinks:
  assumes "use_ok parts w" and "in_use w' = in_use w" and "\<And>i k. distinct (entities (wait_sets w' i) k)"
    and "\<And>i k. set (entities (wait_sets w' i) k) \<subseteq> set (entities (wait_sets w i) k)"
  shows "use_ok parts w'"
proof (rule use_okI)
  show "flag_of parts k e \<in> in_use w'" if "has w' i k e" for i k e
    using use_okD(2) [OF assms(1)] assms(4) that unfolding assms(2) by blast
  show "i = j" if "has w' i k e" "has w' j k e" for i j k e
    using use_okD(3) [OF assms(1)] assms(4) that by blast
qed (rule assms(3))

lemma orderly_ok: "orderly parts w \<Longrightarrow> use_ok parts w"
proof (induction rule: orderly.induct)
  case (use_start w)
  then show ?case by (simp add: use_ok_def)
next
  case (use_add w k e i)
  then show ?case unfolding add_entity_marks by (intro add_marked_ok) (auto simp: flag_of_def)
next
  case (use_remove w k e i)
  then have "flag_of parts k e = Own_flag k e" by (auto simp: flag_of_def)
  then show ?case using unmark_and_remove_ok [of parts w e k i] use_remove by (simp add: remove_entity_unmarks)
next
  case (use_add_subscription w sub sub_mask i)
  then show ?case using add_subscription_ok by blast
next
  case (use_remove_subscription w sub i sub_mask)
  then show ?case by (intro remove_subscription_ok) (auto simp: only_in_def)
next
  case (use_prune w i alive)
  show ?case
    by (rule use_ok_shrinks [OF use_prune.IH]) (simp_all add: storage_prune_deleted_entities_def use_okD(1) [OF use_prune.IH])
next
  case (use_wait w ws i)
  show ?case by (rule use_ok_shrinks [OF use_wait.IH]) (simp_all add: use_wait.hyps use_okD(1) [OF use_wait.IH] split: if_splits)
qed

lemma unmark_and_remove_there:
  assumes "has w i k e"
  shows "fst (unmark_and_remove f k e i w) = None" "in_use (snd (unmark_and_remove f k e i w)) = in_use w - {f}"
  using assms by (simp_all add: unmark_and_remove_def on_storage_def storage_remove_def storage_has_entity_def
      storage_flag_for_resize_def)

lemma entity_moves:
  assumes "use_ok parts w" and "has w i k e" and "flag_of parts k e = Own_flag k e"
  shows "\<exists>w1 w2. remove_entity k (Some e) i w = (None, w1) \<and> add_entity k (Some e) j w1 = (None, w2) \<and> has w2 j k e"
proof -
  let ?w = "snd (unmark_and_remove (Own_flag k e) k e i w)"
  have removed: "remove_entity k (Some e) i w = (None, ?w)"
    unfolding remove_entity_unmarks using unmark_and_remove_there(1) [OF assms(2)] by (metis prod.collapse)
  have "use_ok parts (snd (unmark_and_remove (flag_of parts k e) k e i w))"
    by (rule unmark_and_remove_ok [OF assms(1)]) (rule use_okD(3) [OF assms(1) _ assms(2)])
  then have ok: "use_ok parts ?w" by (simp only: assms(3))
  have free: "flag_of parts k e \<notin> in_use ?w" using unmark_and_remove_there(2) [OF assms(2)] by (simp add: assms(3))
  have "has (snd (mark_and_add (flag_of parts k e) k e j ?w)) j k e" by (simp add: mark_and_add_free [OF ok free])
  moreover have "add_entity k (Some e) j ?w = (None, snd (mark_and_add (flag_of parts k e) k e j ?w))"
    using free mark_and_add_free [OF ok free, of j] by (simp add: add_entity_marks assms(3))
  ultimately show ?thesis using removed by blast
qed


definition example_sub :: ws_subscription where
  "example_sub = \<lparr>sub_number = 4, event_handlers = [7], intra_process_waitable = Some 8\<rparr>"

definition empty_world :: ws_world where
  "empty_world = \<lparr>wait_sets = (\<lambda>_. Storage_new (\<lambda>_. [])), in_use = {}\<rparr>"

definition example_use :: ws_world where
  "example_use = snd (add_entity WS_timer (Some 3) 0
     (snd (ws_add_subscription (Some example_sub) \<lparr>include_subscription = True, include_events = True, include_intra_process_waitable = True\<rparr>
        1 empty_world)))"


text \<open>
  Removal clears the flag before it finds out that the entity is not there, so asking the wrong wait
  set for removal lets an entity into two wait sets.
\<close>

lemma wrong_removal:
  assumes "has w 1 k e" and "\<not> has w 2 k e"
  shows "\<exists>w1 w2. remove_entity k (Some e) 2 w = (Some (RuntimeError (kind_name k @ '' not in wait set'')), w1) \<and>
    add_entity k (Some e) 2 w1 = (None, w2) \<and> has w2 1 k e \<and> has w2 2 k e"
  using assms
  by (simp add: remove_entity_unmarks unmark_and_remove_def add_entity_marks mark_and_add_def on_storage_def
      storage_remove_def storage_add_def storage_has_entity_def storage_flag_for_resize_def)

text \<open>A waitable of a subscription has two flags: it can be added once as a part and once by itself.\<close>

lemma part_added_twice:
  assumes "e \<in> sub_parts sub" and "in_use w = {}" and "\<not> has w 1 WS_waitable e" and "\<not> has w 2 WS_waitable e"
  shows "\<exists>w1 w2. add_part sub (Waitable_part e) name WS_waitable e 1 w = (None, w1) \<and>
    add_entity WS_waitable (Some e) 2 w1 = (None, w2) \<and> has w2 1 WS_waitable e \<and> has w2 2 WS_waitable e"
  using assms
  by (simp add: add_part_marks(1) [OF assms(1)] add_entity_marks mark_and_add_def on_storage_def storage_add_def
      storage_has_entity_def storage_flag_for_resize_def)

section \<open>Guard conditions\<close>

text \<open>
  \<open>guard_condition.cpp\<close>.  A callback stands for the list of the numbers it was called with; without
  one, triggers are counted until there is one.
\<close>

record guard_condition =
  on_trigger_callback :: bool
  callback_calls :: "64 word list"
  unread_count :: "64 word"
  rcl_triggers :: nat
  gc_in_use :: bool
  gc_wait_set :: "nat option"

definition GuardCondition :: "bool \<Rightarrow> bool \<Rightarrow> rclcpp_exn + guard_condition" where
  "GuardCondition has_context init_ok =
     (if \<not> has_context then Inl (InvalidArgument ''context argument unexpectedly nullptr'')
      else if \<not> init_ok then Inl (RCLError ''failed to create guard condition'')
      else Inr \<lparr>on_trigger_callback = False, callback_calls = [], unread_count = 0, rcl_triggers = 0,
             gc_in_use = False, gc_wait_set = None\<rparr>)"

definition gc_trigger :: "bool \<Rightarrow> guard_condition \<Rightarrow> rclcpp_exn option \<times> guard_condition" where
  "gc_trigger trigger_ok g =
     (if on_trigger_callback g then (None, g\<lparr>callback_calls := callback_calls g @ [1]\<rparr>)
      else if \<not> trigger_ok then (Some (RCLError ''rcl_trigger_guard_condition''), g)
      else (None, g\<lparr>rcl_triggers := rcl_triggers g + 1, unread_count := unread_count g + 1\<rparr>))"

definition gc_add_to_wait_set :: "nat \<Rightarrow> bool \<Rightarrow> guard_condition \<Rightarrow> rclcpp_exn option \<times> guard_condition" where
  "gc_add_to_wait_set ws add_ok g =
     (let g' = g\<lparr>gc_in_use := True\<rparr>;
          g'' = (if gc_in_use g then g' else g'\<lparr>gc_wait_set := Some ws\<rparr>)
      in if gc_in_use g \<and> gc_wait_set g \<noteq> Some ws
         then (Some (RuntimeError ''guard condition has already been added to a wait set.''), g')
         else if \<not> add_ok then (Some (RCLError ''failed to add guard condition to wait set''), g'') else (None, g''))"

definition set_on_trigger_callback :: "bool \<Rightarrow> guard_condition \<Rightarrow> guard_condition" where
  "set_on_trigger_callback callback g =
     (if callback
      then let g' = g\<lparr>on_trigger_callback := True\<rparr>
           in if unread_count g' \<noteq> 0
              then g'\<lparr>callback_calls := callback_calls g' @ [unread_count g'], unread_count := 0\<rparr> else g'
      else g\<lparr>on_trigger_callback := False\<rparr>)"

text \<open>No trigger is lost between the callback and the count, up to the width of the count.\<close>

datatype gc_event = Gc_trigger bool | Gc_set_callback bool | Gc_add nat bool

fun gc_do :: "gc_event \<Rightarrow> guard_condition \<Rightarrow> guard_condition" where
  "gc_do (Gc_trigger ok) g = snd (gc_trigger ok g)"
| "gc_do (Gc_set_callback b) g = set_on_trigger_callback b g"
| "gc_do (Gc_add ws ok) g = snd (gc_add_to_wait_set ws ok g)"

definition triggers_that_worked :: "gc_event list \<Rightarrow> nat" where
  "triggers_that_worked es = length (filter (\<lambda>e. e = Gc_trigger True) es)"

lemma triggers_counted:
  assumes "\<And>e. e \<in> set es \<Longrightarrow> e \<noteq> Gc_trigger False"
  shows "sum_list (callback_calls (fold gc_do es g)) + unread_count (fold gc_do es g) =
    sum_list (callback_calls g) + unread_count g + of_nat (triggers_that_worked es)"
  using assms
proof (induction es arbitrary: g)
  case Nil
  then show ?case by (simp add: triggers_that_worked_def)
next
  case (Cons e es)
  have "e \<noteq> Gc_trigger False" using Cons.prems by simp
  then have "sum_list (callback_calls (gc_do e g)) + unread_count (gc_do e g) =
      sum_list (callback_calls g) + unread_count g + (if e = Gc_trigger True then 1 else 0)"
    by (cases e) (auto simp: gc_trigger_def set_on_trigger_callback_def gc_add_to_wait_set_def Let_def add_ac)
  then show ?case using Cons.IH [of "gc_do e g"] Cons.prems by (simp add: triggers_that_worked_def add_ac)
qed


end
