(* ===== verification/Graph.thy ===== *)
theory Graph
  imports Callback_Groups
begin

text \<open>
  Waiting for changes of the ROS graph (\<open>event.cpp\<close>, \<open>graph_listener.cpp\<close> and the event functions of
  \<open>node_interfaces/node_graph.cpp\<close>): nodes hand out events, and one thread per context waits for the
  graph guard conditions of the nodes and sets the events.  The mutexes make each function, and the
  two halves of a turn of the thread before and after its wait, one atomic step.
\<close>

section \<open>State\<close>

datatype graph_exn =
    GraphListenerShutdownError | NodeAlreadyAddedError | NodeNotFoundError
  | InvalidEventError | EventNotRegisteredError | Other_exn rclcpp_exn

text \<open>\<open>graph_cv\<close> and \<open>notify_gc\<close> count the notifications of the condition variable and of the guard condition.\<close>

record node_graph =
  should_add_to_graph_listener :: bool
  graph_users_count :: nat
  graph_events :: "nat list"
  graph_cv :: nat
  notify_gc :: nat

definition NodeGraph :: node_graph where
  "NodeGraph = \<lparr>should_add_to_graph_listener = True, graph_users_count = 0, graph_events = [], graph_cv = 0, notify_gc = 0\<rparr>"

text \<open>
  \<open>waiting_on\<close> is the wait of the thread: the nodes whose guard conditions are in its wait set.
  \<open>interrupt\<close> is the guard condition that interrupts it.
\<close>

record graph_listener =
  gl_started :: bool
  gl_shutdown :: bool
  node_graph_interfaces :: "nat list"
  interrupt :: bool
  waiting_on :: "nat list option"
  size_of_guard_conditions :: nat

definition GraphListener :: graph_listener where
  "GraphListener = \<lparr>gl_started = False, gl_shutdown = False, node_graph_interfaces = [], interrupt = False,
     waiting_on = None, size_of_guard_conditions = 0\<rparr>"

text \<open>Events and nodes are numbered; \<open>changed\<close> has the nodes whose graph guard condition is triggered.\<close>

record graph_world =
  graph_nodes :: "nat \<Rightarrow> node_graph"
  listener :: graph_listener
  event_state :: "nat \<Rightarrow> bool"
  event_gone :: "nat set"
  node_gone :: "nat set"
  changed :: "nat set"

definition new_graph_world :: graph_world where
  "new_graph_world = \<lparr>graph_nodes = (\<lambda>_. NodeGraph), listener = GraphListener, event_state = (\<lambda>_. False),
     event_gone = {}, node_gone = {}, changed = {}\<rparr>"

abbreviation at_node :: "nat \<Rightarrow> (node_graph \<Rightarrow> node_graph) \<Rightarrow> graph_world \<Rightarrow> graph_world" where
  "at_node n f w \<equiv> w\<lparr>graph_nodes := (graph_nodes w)(n := f (graph_nodes w n))\<rparr>"

abbreviation on_listener :: "(graph_listener \<Rightarrow> graph_listener) \<Rightarrow> graph_world \<Rightarrow> graph_world" where
  "on_listener f w \<equiv> w\<lparr>listener := f (listener w)\<rparr>"

section \<open>Events\<close>

definition Event_set :: "nat \<Rightarrow> graph_world \<Rightarrow> bool \<times> graph_world" where
  "Event_set e w = (event_state w e, w\<lparr>event_state := (event_state w)(e := True)\<rparr>)"

definition Event_check :: "nat \<Rightarrow> graph_world \<Rightarrow> bool" where
  "Event_check e w = event_state w e"

definition Event_check_and_clear :: "nat \<Rightarrow> graph_world \<Rightarrow> bool \<times> graph_world" where
  "Event_check_and_clear e w = (event_state w e, w\<lparr>event_state := (event_state w)(e := False)\<rparr>)"

section \<open>Notifications of a node\<close>

definition notify_graph_change :: "bool \<Rightarrow> nat \<Rightarrow> graph_world \<Rightarrow> graph_exn option \<times> graph_world" where
  "notify_graph_change trigger_ok n w =
     (let live = filter (\<lambda>e. e \<notin> event_gone w) (graph_events (graph_nodes w n));
          bad_ptr_encountered = (\<exists>e \<in> set (graph_events (graph_nodes w n)). e \<in> event_gone w);
          w1 = fold (\<lambda>e w. snd (Event_set e w)) live w;
          w2 = (if bad_ptr_encountered
                then at_node n (\<lambda>g. g\<lparr>graph_events := live, graph_users_count := length live\<rparr>) w1 else w1);
          w3 = at_node n (\<lambda>g. g\<lparr>graph_cv := graph_cv g + 1\<rparr>) w2
      in if trigger_ok then (None, at_node n (\<lambda>g. g\<lparr>notify_gc := notify_gc g + 1\<rparr>) w3)
         else (Some (Other_exn (RuntimeError ''failed to notify wait set on graph change: '')), w3))"

definition notify_shutdown :: "nat \<Rightarrow> graph_world \<Rightarrow> graph_world" where
  "notify_shutdown n w = at_node n (\<lambda>g. g\<lparr>graph_cv := graph_cv g + 1\<rparr>) w"

section \<open>The thread of the listener\<close>

text \<open>What rcl answers in a turn.\<close>

record rcl_turn =
  resize_ok :: bool
  clear_ok :: bool
  has_graph_gc :: "nat \<Rightarrow> bool"
  gc_add_ok :: bool
  notify_ok :: bool

definition all_fine :: rcl_turn where
  "all_fine = \<lparr>resize_ok = True, clear_ok = True, has_graph_gc = (\<lambda>_. True), gc_add_ok = True, notify_ok = True\<rparr>"

text \<open>The first half of \<open>run_loop\<close>, up to the wait.\<close>

definition watched :: "graph_world \<Rightarrow> nat list" where
  "watched w = filter (\<lambda>n. graph_users_count (graph_nodes w n) \<noteq> 0) (node_graph_interfaces (listener w))"

definition prepare_wait :: "rcl_turn \<Rightarrow> graph_world \<Rightarrow> graph_exn option \<times> graph_world" where
  "prepare_wait rcl w =
     (let size = length (node_graph_interfaces (listener w)) + 2;
          too_small = size_of_guard_conditions (listener w) < size;
          w1 = (if too_small then on_listener (\<lambda>l. l\<lparr>size_of_guard_conditions := size\<rparr>) w else w)
      in if too_small \<and> \<not> resize_ok rcl then (Some (Other_exn (RCLError ''failed to resize wait set'')), w)
         else if \<not> clear_ok rcl then (Some (Other_exn (RCLError ''failed to clear wait set'')), w1)
         else if \<exists>n \<in> set (watched w). \<not> has_graph_gc rcl n
              then (Some (Other_exn (RCLError ''failed to get graph guard condition'')), w1)
         else if watched w \<noteq> [] \<and> \<not> gc_add_ok rcl
              then (Some (Other_exn (RCLError ''failed to add graph guard condition to wait set'')), w1)
         else (None, on_listener (\<lambda>l. l\<lparr>waiting_on := Some (watched w)\<rparr>) w1))"

text \<open>The second half, after the wait: \<open>ready\<close> has the nodes whose guard condition is left in the wait set.\<close>

fun notify_nodes ::
    "rcl_turn \<Rightarrow> nat set \<Rightarrow> bool \<Rightarrow> nat list \<Rightarrow> graph_world \<Rightarrow> graph_exn option \<times> graph_world" where
  "notify_nodes rcl ready shut [] w = (None, w)"
| "notify_nodes rcl ready shut (n # ns) w =
     (if \<not> has_graph_gc rcl n then (Some (Other_exn (RCLError ''failed to get graph guard condition'')), w)
      else case (if n \<in> ready then notify_graph_change (notify_ok rcl) n w else (None, w)) of
             (Some x, w1) \<Rightarrow> (Some x, w1)
           | (None, w1) \<Rightarrow> notify_nodes rcl ready shut ns (if shut then notify_shutdown n w1 else w1))"

definition wake_up :: "rcl_turn \<Rightarrow> graph_world \<Rightarrow> graph_exn option \<times> graph_world" where
  "wake_up rcl w =
     (let ready = set (case waiting_on (listener w) of Some ns \<Rightarrow> ns | None \<Rightarrow> []) \<inter> changed w
      in notify_nodes rcl ready (gl_shutdown (listener w)) (node_graph_interfaces (listener w))
           (on_listener (\<lambda>l. l\<lparr>waiting_on := None, interrupt := False\<rparr>) (w\<lparr>changed := changed w - ready\<rparr>)))"

section \<open>Operations of the listener\<close>

text \<open>
  The lock is had when the thread has been interrupted and has finished its turn.  An exception in
  the thread ends the process.
\<close>

definition acquire_nodes_lock :: "rcl_turn \<Rightarrow> graph_world \<Rightarrow> graph_exn option \<times> graph_world" where
  "acquire_nodes_lock rcl w =
     (let w1 = on_listener (\<lambda>l. l\<lparr>interrupt := True\<rparr>) w
      in if waiting_on (listener w) = None then (None, w1) else wake_up rcl w1)"

definition gl_has_node :: "rcl_turn \<Rightarrow> nat option \<Rightarrow> graph_world \<Rightarrow> (graph_exn + bool) \<times> graph_world" where
  "gl_has_node rcl node w =
     (case node of
        None \<Rightarrow> (Inr False, w)
      | Some n \<Rightarrow>
          (case acquire_nodes_lock rcl w of
             (Some x, w1) \<Rightarrow> (Inl x, w1)
           | (None, w1) \<Rightarrow> (Inr (n \<in> set (node_graph_interfaces (listener w1))), w1)))"

definition gl_add_node :: "rcl_turn \<Rightarrow> nat option \<Rightarrow> graph_world \<Rightarrow> graph_exn option \<times> graph_world" where
  "gl_add_node rcl node w =
     (case node of
        None \<Rightarrow> (Some (Other_exn (InvalidArgument ''node is nullptr'')), w)
      | Some n \<Rightarrow>
          if gl_shutdown (listener w) then (Some GraphListenerShutdownError, w)
          else (case acquire_nodes_lock rcl w of
                  (Some x, w1) \<Rightarrow> (Some x, w1)
                | (None, w1) \<Rightarrow>
                    if n \<in> set (node_graph_interfaces (listener w1)) then (Some NodeAlreadyAddedError, w1)
                    else (None, on_listener (\<lambda>l. l\<lparr>node_graph_interfaces := node_graph_interfaces l @ [n]\<rparr>) w1)))"

definition gl_remove_node_impl :: "nat \<Rightarrow> graph_world \<Rightarrow> graph_exn option \<times> graph_world" where
  "gl_remove_node_impl n w =
     (if n \<in> set (node_graph_interfaces (listener w))
      then (None, on_listener (\<lambda>l. l\<lparr>node_graph_interfaces := remove1 n (node_graph_interfaces l)\<rparr>) w)
      else (Some NodeNotFoundError, w))"

definition gl_remove_node :: "rcl_turn \<Rightarrow> nat option \<Rightarrow> graph_world \<Rightarrow> graph_exn option \<times> graph_world" where
  "gl_remove_node rcl node w =
     (case node of
        None \<Rightarrow> (Some (Other_exn (InvalidArgument ''node is nullptr'')), w)
      | Some n \<Rightarrow>
          if gl_shutdown (listener w) then gl_remove_node_impl n w
          else (case acquire_nodes_lock rcl w of
                  (Some x, w1) \<Rightarrow> (Some x, w1)
                | (None, w1) \<Rightarrow> gl_remove_node_impl n w1))"

definition start_if_not_started :: "bool \<Rightarrow> bool \<Rightarrow> graph_world \<Rightarrow> graph_exn option \<times> graph_world" where
  "start_if_not_started has_context init_ok w =
     (if gl_shutdown (listener w) then (Some GraphListenerShutdownError, w)
      else if \<not> gl_started (listener w) \<and> has_context
           then (if init_ok then (None, on_listener (\<lambda>l. l\<lparr>gl_started := True, size_of_guard_conditions := 2\<rparr>) w)
                 else (Some (Other_exn (RCLError ''failed to initialize wait set'')), w))
           else (None, w))"

text \<open>Shutdown interrupts the thread and waits for its end.\<close>

definition gl_shut_down :: "rcl_turn \<Rightarrow> bool \<Rightarrow> graph_world \<Rightarrow> graph_exn option \<times> graph_world" where
  "gl_shut_down rcl fini_ok w =
     (if gl_shutdown (listener w) then (None, w)
      else let w1 = on_listener (\<lambda>l. l\<lparr>gl_shutdown := True\<rparr>) w
           in if \<not> gl_started (listener w) then (None, w1)
              else (case acquire_nodes_lock rcl w1 of
                      (Some x, w2) \<Rightarrow> (Some x, w2)
                    | (None, w2) \<Rightarrow>
                        (if fini_ok then None else Some (Other_exn (RCLError ''failed to finalize wait set'')), w2)))"

section \<open>Graph events of a node\<close>

definition get_graph_event :: "rcl_turn \<Rightarrow> bool \<Rightarrow> bool \<Rightarrow> nat \<Rightarrow> nat \<Rightarrow> graph_world \<Rightarrow> graph_exn option \<times> graph_world" where
  "get_graph_event rcl has_context init_ok e n w =
     (let w1 = at_node n (\<lambda>g. g\<lparr>graph_events := graph_events g @ [e], graph_users_count := graph_users_count g + 1\<rparr>) w
      in if should_add_to_graph_listener (graph_nodes w1 n)
         then let w2 = at_node n (\<lambda>g. g\<lparr>should_add_to_graph_listener := False\<rparr>) w1
              in case gl_add_node rcl (Some n) w2 of
                   (Some x, w3) \<Rightarrow> (Some x, w3)
                 | (None, w3) \<Rightarrow> start_if_not_started has_context init_ok w3
         else (None, w1))"

text \<open>What \<open>wait_for_graph_change\<close> checks, and whether it has to wait for the condition variable.\<close>

definition wait_for_graph_change :: "nat option \<Rightarrow> bool \<Rightarrow> nat \<Rightarrow> graph_world \<Rightarrow> graph_exn + bool" where
  "wait_for_graph_change event context_ok n w =
     (case event of
        None \<Rightarrow> Inl InvalidEventError
      | Some e \<Rightarrow>
          if e \<in> set (graph_events (graph_nodes w n)) \<and> e \<notin> event_gone w
          then Inr (\<not> (Event_check e w \<or> \<not> context_ok)) else Inl EventNotRegisteredError)"

definition NodeGraph_destroy :: "rcl_turn \<Rightarrow> nat \<Rightarrow> graph_world \<Rightarrow> graph_exn option \<times> graph_world" where
  "NodeGraph_destroy rcl n w =
     (let w1 = at_node n (\<lambda>g. g\<lparr>should_add_to_graph_listener := False\<rparr>) w;
          (r, w2) = (if \<not> should_add_to_graph_listener (graph_nodes w n) then gl_remove_node rcl (Some n) w1 else (None, w1))
      in (r, w2\<lparr>node_gone := insert n (node_gone w2)\<rparr>))"

section \<open>What a wake-up does\<close>

lemma all_fine_simps [simp]:
  "resize_ok all_fine" "clear_ok all_fine" "has_graph_gc all_fine n" "gc_add_ok all_fine" "notify_ok all_fine"
  by (simp_all add: all_fine_def)

lemma fold_Event_set:
  "fold (\<lambda>e w. snd (Event_set e w)) es w = w\<lparr>event_state := (\<lambda>x. event_state w x \<or> x \<in> set es)\<rparr>"
  by (induction es arbitrary: w) (auto simp: Event_set_def fun_eq_iff)

text \<open>The events that are left after the expired ones have been dropped.\<close>

definition live_events :: "nat \<Rightarrow> graph_world \<Rightarrow> nat list" where
  "live_events n w = filter (\<lambda>e. e \<notin> event_gone w) (graph_events (graph_nodes w n))"

definition counted :: "graph_world \<Rightarrow> bool" where
  "counted w \<longleftrightarrow> (\<forall>n. graph_users_count (graph_nodes w n) = length (graph_events (graph_nodes w n)))"

text \<open>What the second half of a turn changes when the nodes \<open>ns\<close> are notified.\<close>

definition notified :: "nat set \<Rightarrow> graph_world \<Rightarrow> graph_world \<Rightarrow> bool" where
  "notified ns w w' \<longleftrightarrow>
     listener w' = listener w \<and> event_gone w' = event_gone w \<and> node_gone w' = node_gone w \<and> changed w' = changed w \<and>
     (\<forall>n. should_add_to_graph_listener (graph_nodes w' n) = should_add_to_graph_listener (graph_nodes w n)) \<and>
     (\<forall>n. graph_events (graph_nodes w' n) = (if n \<in> ns then live_events n w else graph_events (graph_nodes w n))) \<and>
     (counted w \<longrightarrow> counted w') \<and>
     (\<forall>e. event_state w' e \<longleftrightarrow> event_state w e \<or> (\<exists>n \<in> ns. e \<in> set (live_events n w)))"

lemma notify_graph_change_notified:
  "\<exists>w'. notify_graph_change True n w = (None, w') \<and> notified {n} w w'"
proof -
  have "live_events n w = graph_events (graph_nodes w n)" if "\<forall>e \<in> set (graph_events (graph_nodes w n)). e \<notin> event_gone w"
    using that by (simp add: live_events_def)
  then show ?thesis
    by (auto simp: notify_graph_change_def notified_def counted_def fold_Event_set live_events_def [symmetric] Let_def)
qed

lemma notify_shutdown_notified: "notified {} w (notify_shutdown n w)"
  by (simp add: notify_shutdown_def notified_def counted_def)

lemma live_events_again: "notified ns w w' \<Longrightarrow> live_events n w' = live_events n w"
  by (simp add: notified_def live_events_def)

lemma notified_trans:
  assumes "notified ns w w'" and "notified ms w' w''"
  shows "notified (ns \<union> ms) w w''"
  using assms live_events_again [OF assms(1)] unfolding notified_def by auto

lemma notify_nodes_notified:
  "\<exists>w'. notify_nodes all_fine ready shut ns w = (None, w') \<and> notified (set ns \<inter> ready) w w'"
proof (induction ns arbitrary: w)
  case Nil
  then show ?case by (simp add: notified_def)
next
  case (Cons n ns)
  obtain w1 where w1: "(if n \<in> ready then notify_graph_change (notify_ok all_fine) n w else (None, w)) = (None, w1)"
    "notified ({n} \<inter> ready) w w1"
    using notify_graph_change_notified [of n w] by (cases "n \<in> ready") (auto simp: notified_def)
  let ?w2 = "if shut then notify_shutdown n w1 else w1"
  have "notified {} w1 ?w2" using notify_shutdown_notified by (simp add: notified_def)
  from notified_trans [OF w1(2) this] have w2: "notified ({n} \<inter> ready) w ?w2" by simp
  obtain w' where w': "notify_nodes all_fine ready shut ns ?w2 = (None, w')" "notified (set ns \<inter> ready) ?w2 w'"
    using Cons.IH by blast
  have "notify_nodes all_fine ready shut (n # ns) w = (None, w')"
    unfolding notify_nodes.simps w1(1) using w'(1) by simp
  moreover have "{n} \<inter> ready \<union> set ns \<inter> ready = set (n # ns) \<inter> ready" by auto
  ultimately show ?case using notified_trans [OF w2 w'(2)] by (metis (no_types))
qed

section \<open>The books of the listener\<close>

abbreviation interfaces :: "graph_world \<Rightarrow> nat list" where
  "interfaces w \<equiv> node_graph_interfaces (listener w)"

abbreviation unadded :: "graph_world \<Rightarrow> nat \<Rightarrow> bool" where
  "unadded w n \<equiv> should_add_to_graph_listener (graph_nodes w n)"

text \<open>The nodes \<open>X\<close> are about to be added.\<close>

definition graph_ok :: "nat set \<Rightarrow> graph_world \<Rightarrow> bool" where
  "graph_ok X w \<longleftrightarrow>
     distinct (interfaces w) \<and> counted w \<and>
     (\<forall>n \<in> set (interfaces w). \<not> unadded w n \<and> n \<notin> node_gone w) \<and>
     (\<not> gl_shutdown (listener w) \<longrightarrow> (\<forall>n. \<not> unadded w n \<longrightarrow> n \<notin> node_gone w \<longrightarrow> n \<notin> X \<longrightarrow> n \<in> set (interfaces w))) \<and>
     (\<forall>n. unadded w n \<longrightarrow> graph_events (graph_nodes w n) = []) \<and>
     (\<forall>ns. waiting_on (listener w) = Some ns \<longrightarrow>
        gl_started (listener w) \<and> \<not> gl_shutdown (listener w) \<and> set ns \<subseteq> set (interfaces w))"

text \<open>A step that leaves the books alone and ends the wait of the thread.\<close>

definition quiet :: "graph_world \<Rightarrow> graph_world \<Rightarrow> bool" where
  "quiet w w' \<longleftrightarrow>
     listener w' = (listener w)\<lparr>interrupt := interrupt (listener w'), waiting_on := None\<rparr> \<and>
     node_gone w' = node_gone w \<and> (\<forall>n. unadded w' n = unadded w n) \<and> (counted w \<longrightarrow> counted w') \<and>
     (\<forall>n. graph_events (graph_nodes w n) = [] \<longrightarrow> graph_events (graph_nodes w' n) = [])"

lemma quiet_listener:
  assumes "quiet w w'"
  shows "interfaces w' = interfaces w" "gl_started (listener w') = gl_started (listener w)"
    "gl_shutdown (listener w') = gl_shutdown (listener w)" "waiting_on (listener w') = None"
proof -
  have "listener w' = (listener w)\<lparr>interrupt := interrupt (listener w'), waiting_on := None\<rparr>"
    using assms by (simp add: quiet_def)
  then show "interfaces w' = interfaces w" "gl_started (listener w') = gl_started (listener w)"
    "gl_shutdown (listener w') = gl_shutdown (listener w)" "waiting_on (listener w') = None"
    by (metis graph_listener.select_convs graph_listener.simps graph_listener.surjective)+
qed

lemma quiet_ok: "graph_ok X w \<Longrightarrow> quiet w w' \<Longrightarrow> graph_ok X w'"
  using quiet_listener [of w w'] unfolding graph_ok_def by (auto simp: quiet_def)

lemma wake_up_quiet:
  obtains w' where "wake_up all_fine w = (None, w')" and "quiet w w'"
proof -
  let ?ready = "set (case waiting_on (listener w) of Some ns \<Rightarrow> ns | None \<Rightarrow> []) \<inter> changed w"
  let ?w = "on_listener (\<lambda>l. l\<lparr>waiting_on := None, interrupt := False\<rparr>) (w\<lparr>changed := changed w - ?ready\<rparr>)"
  obtain w' where w': "notify_nodes all_fine ?ready (gl_shutdown (listener w)) (interfaces w) ?w = (None, w')"
    "notified (set (interfaces w) \<inter> ?ready) ?w w'"
    using notify_nodes_notified by blast
  have "quiet w w'" using w'(2) by (auto simp: quiet_def notified_def counted_def live_events_def)
  then show thesis using that w'(1) by (simp add: wake_up_def Let_def)
qed

lemma acquire_quiet:
  obtains w' where "acquire_nodes_lock all_fine w = (None, w')" and "quiet w w'"
proof (cases "waiting_on (listener w) = None")
  case True
  then show thesis using that by (simp add: acquire_nodes_lock_def quiet_def counted_def)
next
  case False
  let ?w = "on_listener (\<lambda>l. l\<lparr>interrupt := True\<rparr>) w"
  obtain w' where w': "wake_up all_fine ?w = (None, w')" "quiet ?w w'" by (rule wake_up_quiet)
  then have "quiet w w'" by (simp add: quiet_def counted_def)
  then show thesis using that w'(1) False by (simp add: acquire_nodes_lock_def)
qed


lemma graph_okD:
  assumes "graph_ok X w"
  shows "distinct (interfaces w)" "counted w" "n \<in> set (interfaces w) \<Longrightarrow> \<not> unadded w n"
    "n \<in> set (interfaces w) \<Longrightarrow> n \<notin> node_gone w"
    "\<not> gl_shutdown (listener w) \<Longrightarrow> \<not> unadded w n \<Longrightarrow> n \<notin> node_gone w \<Longrightarrow> n \<notin> X \<Longrightarrow> n \<in> set (interfaces w)"
    "unadded w n \<Longrightarrow> graph_events (graph_nodes w n) = []"
  using assms by (auto simp: graph_ok_def)

lemma graph_okI:
  assumes "distinct (interfaces w)" and "counted w" and "\<And>n. n \<in> set (interfaces w) \<Longrightarrow> \<not> unadded w n"
    and "\<And>n. n \<in> set (interfaces w) \<Longrightarrow> n \<notin> node_gone w"
    and "\<And>n. \<not> gl_shutdown (listener w) \<Longrightarrow> \<not> unadded w n \<Longrightarrow> n \<notin> node_gone w \<Longrightarrow> n \<notin> X \<Longrightarrow> n \<in> set (interfaces w)"
    and "\<And>n. unadded w n \<Longrightarrow> graph_events (graph_nodes w n) = []"
    and "\<And>ns. waiting_on (listener w) = Some ns \<Longrightarrow>
      gl_started (listener w) \<and> \<not> gl_shutdown (listener w) \<and> set ns \<subseteq> set (interfaces w)"
  shows "graph_ok X w"
  using assms by (simp add: graph_ok_def)

lemma graph_ok_waiting:
  assumes "graph_ok X w" and "waiting_on (listener w) = Some ns"
  shows "gl_started (listener w) \<and> \<not> gl_shutdown (listener w) \<and> set ns \<subseteq> set (interfaces w)"
  using assms by (simp add: graph_ok_def)

lemma counted_on_node:
  assumes "counted w" and "graph_users_count (f (graph_nodes w n)) = length (graph_events (f (graph_nodes w n)))"
  shows "counted (at_node n f w)"
  using assms by (simp add: counted_def)

lemma countedD: "counted w \<Longrightarrow> graph_users_count (graph_nodes w n) = length (graph_events (graph_nodes w n))"
  by (simp add: counted_def)

text \<open>Some nodes are marked as added, and events may only come to nodes that are.\<close>

lemma graph_ok_mark:
  assumes "graph_ok X w" and "listener w' = listener w" and "node_gone w' = node_gone w" and "counted w'"
    and "\<And>m. unadded w' m \<longleftrightarrow> unadded w m \<and> m \<notin> Y"
    and "\<And>m. unadded w' m \<Longrightarrow> graph_events (graph_nodes w' m) = graph_events (graph_nodes w m)"
  shows "graph_ok (X \<union> Y) w'"
proof (rule graph_okI)
  show "distinct (interfaces w')" unfolding assms(2) by (rule graph_okD(1) [OF assms(1)])
  show "\<not> unadded w' n" if "n \<in> set (interfaces w')" for n
    using graph_okD(3) [OF assms(1)] that unfolding assms(2,5) by blast
  show "n \<notin> node_gone w'" if "n \<in> set (interfaces w')" for n
    using graph_okD(4) [OF assms(1)] that unfolding assms(2,3) by blast
  show "n \<in> set (interfaces w')" if "\<not> gl_shutdown (listener w')" "\<not> unadded w' n" "n \<notin> node_gone w'" "n \<notin> X \<union> Y" for n
    using graph_okD(5) [OF assms(1)] that unfolding assms(2,3,5) by blast
  show "graph_events (graph_nodes w' n) = []" if "unadded w' n" for n
    using graph_okD(6) [OF assms(1)] assms(6) [OF that] that unfolding assms(5) by metis
  show "gl_started (listener w') \<and> \<not> gl_shutdown (listener w') \<and> set ns \<subseteq> set (interfaces w')"
    if "waiting_on (listener w') = Some ns" for ns
    using graph_ok_waiting [OF assms(1)] that unfolding assms(2) by blast
qed (rule assms(4))

lemma new_event_ok:
  assumes "graph_ok {} w" and "\<not> unadded w n"
  shows "graph_ok {} (at_node n (\<lambda>g. g\<lparr>graph_events := graph_events g @ [e], graph_users_count := graph_users_count g + 1\<rparr>) w)"
    (is "graph_ok {} ?w")
proof -
  have "graph_ok ({} \<union> {}) ?w"
  proof (rule graph_ok_mark [OF assms(1)])
    show "counted ?w"
      by (rule counted_on_node [OF graph_okD(2) [OF assms(1)]]) (simp add: countedD [OF graph_okD(2) [OF assms(1)]])
    show "graph_events (graph_nodes ?w m) = graph_events (graph_nodes w m)" if "unadded ?w m" for m
      using that assms(2) by (cases "m = n") simp_all
  qed simp_all
  then show ?thesis by simp
qed

lemma first_event_ok:
  assumes "graph_ok {} w"
  shows "graph_ok {n} (at_node n (\<lambda>g. g\<lparr>graph_events := graph_events g @ [e], graph_users_count := graph_users_count g + 1,
    should_add_to_graph_listener := False\<rparr>) w)" (is "graph_ok {n} ?w")
proof -
  have "graph_ok ({} \<union> {n}) ?w"
  proof (rule graph_ok_mark [OF assms])
    show "counted ?w"
      by (rule counted_on_node [OF graph_okD(2) [OF assms]]) (simp add: countedD [OF graph_okD(2) [OF assms]])
    show "graph_events (graph_nodes ?w m) = graph_events (graph_nodes w m)" if "unadded ?w m" for m
      using that by (cases "m = n") simp_all
  qed simp_all
  then show ?thesis by simp
qed

lemma graph_ok_settled:
  assumes "graph_ok {n} w" and "gl_shutdown (listener w) \<or> n \<in> set (interfaces w)"
  shows "graph_ok {} w"
proof (rule graph_okI)
  show "m \<in> set (interfaces w)" if "\<not> gl_shutdown (listener w)" "\<not> unadded w m" "m \<notin> node_gone w" for m
    using graph_okD(5) [OF assms(1) that] assms(2) that(1) by blast
qed (fact graph_okD [OF assms(1)] graph_ok_waiting [OF assms(1)])+

lemma push_ok:
  assumes "graph_ok {n} w" and "\<not> unadded w n" "n \<notin> node_gone w" "n \<notin> set (interfaces w)" "waiting_on (listener w) = None"
  shows "graph_ok {} (on_listener (\<lambda>l. l\<lparr>node_graph_interfaces := node_graph_interfaces l @ [n]\<rparr>) w)" (is "graph_ok {} ?w")
proof (rule graph_okI)
  show "distinct (interfaces ?w)" using graph_okD(1) [OF assms(1)] assms(4) by simp
  show "counted ?w" using graph_okD(2) [OF assms(1)] by (simp add: counted_def)
  show "\<not> unadded ?w m" if "m \<in> set (interfaces ?w)" for m using that graph_okD(3) [OF assms(1)] assms(2) by auto
  show "m \<notin> node_gone ?w" if "m \<in> set (interfaces ?w)" for m using that graph_okD(4) [OF assms(1)] assms(3) by auto
  show "m \<in> set (interfaces ?w)" if "\<not> gl_shutdown (listener ?w)" "\<not> unadded ?w m" "m \<notin> node_gone ?w" for m
    using that graph_okD(5) [OF assms(1), of m] by auto
  show "graph_events (graph_nodes ?w m) = []" if "unadded ?w m" for m using that graph_okD(6) [OF assms(1)] by simp
qed (simp add: assms(5))

lemma gl_add_node_ok:
  assumes "graph_ok {n} w" and "\<not> unadded w n" and "n \<notin> node_gone w"
  shows "graph_ok {} (snd (gl_add_node all_fine (Some n) w))"
proof (cases "gl_shutdown (listener w)")
  case True
  then show ?thesis using graph_ok_settled [OF assms(1)] by (simp add: gl_add_node_def)
next
  case False
  obtain w1 where w1: "acquire_nodes_lock all_fine w = (None, w1)" "quiet w w1" by (rule acquire_quiet)
  have ok: "graph_ok {n} w1" by (rule quiet_ok [OF assms(1) w1(2)])
  have "\<not> unadded w1 n" "n \<notin> node_gone w1" "waiting_on (listener w1) = None"
    using w1(2) assms(2,3) quiet_listener(4) [OF w1(2)] by (simp_all add: quiet_def)
  then show ?thesis
    using False w1(1) push_ok [OF ok] graph_ok_settled [OF ok] by (simp add: gl_add_node_def)
qed

lemma graph_ok_listener:
  assumes "graph_ok X w" and "node_graph_interfaces l = interfaces w" and "gl_shutdown (listener w) \<Longrightarrow> gl_shutdown l"
    and "\<And>ns. waiting_on l = Some ns \<Longrightarrow> gl_started l \<and> \<not> gl_shutdown l \<and> set ns \<subseteq> set (interfaces w)"
  shows "graph_ok X (w\<lparr>listener := l\<rparr>)" (is "graph_ok X ?w")
proof (rule graph_okI)
  show "distinct (interfaces ?w)" using graph_okD(1) [OF assms(1)] assms(2) by simp
  show "counted ?w" using graph_okD(2) [OF assms(1)] by (simp add: counted_def)
  show "\<not> unadded ?w m" if "m \<in> set (interfaces ?w)" for m using that graph_okD(3) [OF assms(1)] assms(2) by simp
  show "m \<notin> node_gone ?w" if "m \<in> set (interfaces ?w)" for m using that graph_okD(4) [OF assms(1)] assms(2) by simp
  show "m \<in> set (interfaces ?w)" if "\<not> gl_shutdown (listener ?w)" "\<not> unadded ?w m" "m \<notin> node_gone ?w" "m \<notin> X" for m
    using that graph_okD(5) [OF assms(1), of m] assms(2,3) by auto
  show "graph_events (graph_nodes ?w m) = []" if "unadded ?w m" for m using that graph_okD(6) [OF assms(1)] by simp
  show "gl_started (listener ?w) \<and> \<not> gl_shutdown (listener ?w) \<and> set ns \<subseteq> set (interfaces ?w)"
    if "waiting_on (listener ?w) = Some ns" for ns using assms(4) that assms(2) by simp
qed

lemma start_ok:
  assumes "graph_ok {} w"
  shows "graph_ok {} (snd (start_if_not_started c i w))"
proof -
  let ?w = "on_listener (\<lambda>l. l\<lparr>gl_started := True, size_of_guard_conditions := 2\<rparr>) w"
  have "graph_ok {} ?w"
    by (rule graph_ok_listener [OF assms]) (use graph_ok_waiting [OF assms] in \<open>simp_all\<close>)
  then show ?thesis using assms by (simp add: start_if_not_started_def)
qed

lemma get_graph_event_ok:
  assumes "graph_ok {} w" and "n \<notin> node_gone w"
  shows "graph_ok {} (snd (get_graph_event all_fine c i e n w))"
proof (cases "unadded w n")
  case False
  then show ?thesis using new_event_ok [OF assms(1) False] by (simp add: get_graph_event_def)
next
  case True
  let ?w = "at_node n (\<lambda>g. g\<lparr>graph_events := graph_events g @ [e], graph_users_count := graph_users_count g + 1,
    should_add_to_graph_listener := False\<rparr>) w"
  have added: "graph_ok {} (snd (gl_add_node all_fine (Some n) ?w))"
    by (rule gl_add_node_ok [OF first_event_ok [OF assms(1)]]) (use assms(2) in simp_all)
  obtain r w1 where r: "gl_add_node all_fine (Some n) ?w = (r, w1)" by force
  have "get_graph_event all_fine c i e n w =
      (case gl_add_node all_fine (Some n) ?w of (Some x, w3) \<Rightarrow> (Some x, w3) | (None, w3) \<Rightarrow> start_if_not_started c i w3)"
    using True by (simp add: get_graph_event_def)
  then show ?thesis using added start_ok [of w1 c i] unfolding r by (cases r) simp_all
qed

lemma remove_ok:
  assumes "graph_ok {n} w" and "waiting_on (listener w) = None"
  shows "graph_ok {} ((snd (gl_remove_node_impl n w))\<lparr>node_gone := insert n (node_gone w)\<rparr>)" (is "graph_ok {} ?w")
proof -
  have f: "interfaces ?w = remove1 n (interfaces w)" "graph_nodes ?w = graph_nodes w" "waiting_on (listener ?w) = None"
    "gl_shutdown (listener ?w) = gl_shutdown (listener w)" "node_gone ?w = insert n (node_gone w)"
    by (simp_all add: gl_remove_node_impl_def assms(2) remove1_idem)
  have in_ifs: "m \<in> set (interfaces ?w) \<longleftrightarrow> m \<in> set (interfaces w) \<and> m \<noteq> n" for m
    unfolding f(1) using set_remove1_eq [OF graph_okD(1) [OF assms(1)]] by simp
  show ?thesis
  proof (rule graph_okI)
    show "distinct (interfaces ?w)" unfolding f(1) using graph_okD(1) [OF assms(1)] by simp
    show "counted ?w" using graph_okD(2) [OF assms(1)] unfolding counted_def f(2) .
    show "\<not> unadded ?w m" if "m \<in> set (interfaces ?w)" for m using that graph_okD(3) [OF assms(1)] unfolding in_ifs f(2) by blast
    show "m \<notin> node_gone ?w" if "m \<in> set (interfaces ?w)" for m using that graph_okD(4) [OF assms(1)] unfolding in_ifs f(5) by blast
    show "m \<in> set (interfaces ?w)" if "\<not> gl_shutdown (listener ?w)" "\<not> unadded ?w m" "m \<notin> node_gone ?w" for m
      using that graph_okD(5) [OF assms(1), of m] unfolding in_ifs f(2,4,5) by blast
    show "graph_events (graph_nodes ?w m) = []" if "unadded ?w m" for m using that graph_okD(6) [OF assms(1)] unfolding f(2) by blast
    show "gl_started (listener ?w) \<and> \<not> gl_shutdown (listener ?w) \<and> set ns \<subseteq> set (interfaces ?w)"
      if "waiting_on (listener ?w) = Some ns" for ns using that unfolding f(3) by simp
  qed
qed

lemma gone_ok:
  assumes "graph_ok {n} w" and "n \<notin> set (interfaces w)"
  shows "graph_ok {} (w\<lparr>node_gone := insert n (node_gone w)\<rparr>)" (is "graph_ok {} ?w")
proof (rule graph_okI)
  show "distinct (interfaces ?w)" using graph_okD(1) [OF assms(1)] by simp
  show "counted ?w" using graph_okD(2) [OF assms(1)] by (simp add: counted_def)
  show "\<not> unadded ?w m" if "m \<in> set (interfaces ?w)" for m using that graph_okD(3) [OF assms(1)] by simp
  show "m \<notin> node_gone ?w" if "m \<in> set (interfaces ?w)" for m using that graph_okD(4) [OF assms(1)] assms(2) by auto
  show "m \<in> set (interfaces ?w)" if "\<not> gl_shutdown (listener ?w)" "\<not> unadded ?w m" "m \<notin> node_gone ?w" for m
    using that graph_okD(5) [OF assms(1), of m] by simp
  show "graph_events (graph_nodes ?w m) = []" if "unadded ?w m" for m using that graph_okD(6) [OF assms(1)] by simp
  show "gl_started (listener ?w) \<and> \<not> gl_shutdown (listener ?w) \<and> set ns \<subseteq> set (interfaces ?w)"
    if "waiting_on (listener ?w) = Some ns" for ns using graph_ok_waiting [OF assms(1)] that by simp
qed

lemma destroy_mark_ok:
  assumes "graph_ok {} w"
  shows "graph_ok {n} (at_node n (\<lambda>g. g\<lparr>should_add_to_graph_listener := False\<rparr>) w)" (is "graph_ok {n} ?w")
proof -
  have "graph_ok ({} \<union> {n}) ?w"
  proof (rule graph_ok_mark [OF assms])
    show "counted ?w"
      by (rule counted_on_node [OF graph_okD(2) [OF assms]]) (simp add: countedD [OF graph_okD(2) [OF assms]])
  qed simp_all
  then show ?thesis by simp
qed

lemma NodeGraph_destroy_ok:
  assumes "graph_ok {} w"
  shows "graph_ok {} (snd (NodeGraph_destroy all_fine n w))"
proof -
  let ?w = "at_node n (\<lambda>g. g\<lparr>should_add_to_graph_listener := False\<rparr>) w"
  have ok: "graph_ok {n} ?w" by (rule destroy_mark_ok [OF assms])
  obtain w1 where w1: "acquire_nodes_lock all_fine ?w = (None, w1)" "quiet ?w w1" by (rule acquire_quiet)
  have node_gone: "node_gone (snd (gl_remove_node_impl n v)) = node_gone v" for v by (simp add: gl_remove_node_impl_def)
  consider (unadded) "unadded w n" | (shut) "\<not> unadded w n" "gl_shutdown (listener w)" | (running) "\<not> unadded w n" "\<not> gl_shutdown (listener w)"
    by blast
  then show ?thesis
  proof cases
    case unadded
    then have "n \<notin> set (interfaces w)" using graph_okD(3) [OF assms] by blast
    then have "graph_ok {} (?w\<lparr>node_gone := insert n (node_gone ?w)\<rparr>)" by (intro gone_ok [OF ok]) simp
    then show ?thesis using unadded by (simp add: NodeGraph_destroy_def)
  next
    case shut
    then have "waiting_on (listener ?w) = None" using graph_ok_waiting [OF assms] by (cases "waiting_on (listener w)") auto
    from remove_ok [OF ok this] show ?thesis
      using shut by (simp add: NodeGraph_destroy_def gl_remove_node_def node_gone split_def Let_def)
  next
    case running
    from remove_ok [OF quiet_ok [OF ok w1(2)] quiet_listener(4) [OF w1(2)]] show ?thesis
      using running w1(1) by (simp add: NodeGraph_destroy_def gl_remove_node_def node_gone split_def Let_def)
  qed
qed

lemma gl_shut_down_ok:
  assumes "graph_ok {} w"
  shows "graph_ok {} (snd (gl_shut_down all_fine fini_ok w))"
proof -
  let ?w = "on_listener (\<lambda>l. l\<lparr>gl_shutdown := True\<rparr>) w"
  obtain w1 where w1: "acquire_nodes_lock all_fine ?w = (None, w1)" "quiet ?w w1" by (rule acquire_quiet)
  have l: "listener w1 = (listener w)\<lparr>gl_shutdown := True, interrupt := interrupt (listener w1), waiting_on := None\<rparr>"
    using w1(2) by (simp add: quiet_def)
  have "graph_ok {} (w1\<lparr>listener := (listener w)\<lparr>interrupt := interrupt (listener w1), waiting_on := None\<rparr>\<rparr>)"
    by (rule quiet_ok [OF assms]) (use w1(2) in \<open>simp add: quiet_def counted_def\<close>)
  from graph_ok_listener [OF this, of "listener w1"] have "graph_ok {} (w1\<lparr>listener := listener w1\<rparr>)"
    by (simp add: quiet_listener [OF w1(2)])
  then have "graph_ok {} w1" by simp
  moreover have "graph_ok {} ?w" if "\<not> gl_started (listener w)"
    by (rule graph_ok_listener [OF assms]) (use that graph_ok_waiting [OF assms] in auto)
  ultimately show ?thesis using w1(1) assms by (simp add: gl_shut_down_def Let_def)
qed

lemma prepare_wait_fine:
  "prepare_wait all_fine w = (None, on_listener (\<lambda>l. l\<lparr>waiting_on := Some (watched w),
     size_of_guard_conditions := max (size_of_guard_conditions l) (length (interfaces w) + 2)\<rparr>) w)"
  by (simp add: prepare_wait_def Let_def max_def)

lemma prepare_wait_ok:
  assumes "graph_ok {} w" and "gl_started (listener w)" and "\<not> gl_shutdown (listener w)"
  shows "graph_ok {} (snd (prepare_wait all_fine w))"
  unfolding prepare_wait_fine snd_conv
  by (rule graph_ok_listener [OF assms(1)]) (use assms(2,3) in \<open>auto simp: watched_def\<close>)

text \<open>The life of the nodes, the listener and its thread, with an rcl whose functions succeed.\<close>

inductive graph_reachable :: "graph_world \<Rightarrow> bool" where
  graph_new: "graph_reachable new_graph_world"
| graph_prepare: "graph_reachable w \<Longrightarrow> gl_started (listener w) \<Longrightarrow> \<not> gl_shutdown (listener w) \<Longrightarrow>
    waiting_on (listener w) = None \<Longrightarrow> graph_reachable (snd (prepare_wait all_fine w))"
| graph_wake: "graph_reachable w \<Longrightarrow> waiting_on (listener w) = Some ns \<Longrightarrow> interrupt (listener w) \<or> set ns \<inter> changed w \<noteq> {} \<Longrightarrow>
    graph_reachable (snd (wake_up all_fine w))"
| graph_change: "graph_reachable w \<Longrightarrow> graph_reachable (w\<lparr>changed := insert n (changed w)\<rparr>)"
| graph_event: "graph_reachable w \<Longrightarrow> n \<notin> node_gone w \<Longrightarrow> graph_reachable (snd (get_graph_event all_fine c i e n w))"
| graph_drop: "graph_reachable w \<Longrightarrow> graph_reachable (w\<lparr>event_gone := insert e (event_gone w)\<rparr>)"
| graph_clear: "graph_reachable w \<Longrightarrow> graph_reachable (snd (Event_check_and_clear e w))"
| graph_destroy: "graph_reachable w \<Longrightarrow> n \<notin> node_gone w \<Longrightarrow> graph_reachable (snd (NodeGraph_destroy all_fine n w))"
| graph_shutdown: "graph_reachable w \<Longrightarrow> graph_reachable (snd (gl_shut_down all_fine fini_ok w))"

lemma graph_ok_ghosts:
  assumes "graph_ok X w" and "listener w' = listener w" "graph_nodes w' = graph_nodes w" "node_gone w' = node_gone w"
  shows "graph_ok X w'"
  using assms(1) unfolding graph_ok_def counted_def assms(2-4) .

lemma graph_reachable_ok: "graph_reachable w \<Longrightarrow> graph_ok {} w"
proof (induction rule: graph_reachable.induct)
  case graph_new
  show ?case by (rule graph_okI) (simp_all add: new_graph_world_def NodeGraph_def GraphListener_def counted_def)
next
  case (graph_wake w ns)
  obtain w' where "wake_up all_fine w = (None, w')" "quiet w w'" by (rule wake_up_quiet)
  then show ?case using quiet_ok graph_wake.IH by simp
next
  case (graph_change w n)
  then show ?case using graph_ok_ghosts by auto
next
  case (graph_drop w e)
  then show ?case using graph_ok_ghosts by auto
next
  case (graph_clear w e)
  show ?case by (rule graph_ok_ghosts [OF graph_clear.IH]) (simp_all add: Event_check_and_clear_def)
qed (simp_all add: prepare_wait_ok get_graph_event_ok NodeGraph_destroy_ok gl_shut_down_ok)

section \<open>Changes reach the events\<close>

lemma live_event_watched:
  assumes "graph_ok {} w" and "\<not> gl_shutdown (listener w)" and "m \<notin> node_gone w" and "e \<in> set (live_events m w)"
  shows "m \<in> set (watched w)" "m \<in> set (interfaces w)"
proof -
  have "graph_events (graph_nodes w m) \<noteq> []" using assms(4) by (auto simp: live_events_def)
  moreover from this have "\<not> unadded w m" using graph_okD(6) [OF assms(1)] by blast
  ultimately show "m \<in> set (watched w)" "m \<in> set (interfaces w)"
    using graph_okD(5) [OF assms(1,2) _ assms(3)] countedD [OF graph_okD(2) [OF assms(1)], of m] by (auto simp: watched_def)
qed

lemma wake_up_sets:
  assumes "waiting_on (listener w) = Some ns" and "set ns \<subseteq> set (interfaces w)"
  obtains w' where "wake_up all_fine w = (None, w')" and "event_gone w' = event_gone w" and "counted w \<longrightarrow> counted w'"
    and "\<And>e. event_state w' e \<longleftrightarrow> event_state w e \<or> (\<exists>m \<in> set ns \<inter> changed w. e \<in> set (live_events m w))"
    and "\<And>m. m \<in> set ns \<inter> changed w \<Longrightarrow> graph_events (graph_nodes w' m) = live_events m w"
proof -
  let ?ready = "set ns \<inter> changed w"
  let ?w = "on_listener (\<lambda>l. l\<lparr>waiting_on := None, interrupt := False\<rparr>) (w\<lparr>changed := changed w - ?ready\<rparr>)"
  obtain w' where w': "notify_nodes all_fine ?ready (gl_shutdown (listener w)) (interfaces w) ?w = (None, w')"
    "notified (set (interfaces w) \<inter> ?ready) ?w w'"
    using notify_nodes_notified by blast
  have ready: "set (interfaces w) \<inter> ?ready = ?ready" using assms(2) by blast
  have live: "live_events m ?w = live_events m w" for m by (simp add: live_events_def)
  have n: "notified ?ready ?w w'" using w'(2) unfolding ready .
  show thesis
  proof (rule that)
    show "wake_up all_fine w = (None, w')" using w'(1) by (simp add: wake_up_def assms(1) Let_def)
    show "event_gone w' = event_gone w" using n by (simp add: notified_def)
    have "counted ?w \<longrightarrow> counted w'" using n unfolding notified_def by blast
    then show "counted w \<longrightarrow> counted w'" by (simp add: counted_def)
    have "\<forall>e. event_state w' e \<longleftrightarrow> event_state ?w e \<or> (\<exists>m \<in> ?ready. e \<in> set (live_events m ?w))"
      using n unfolding notified_def by blast
    then show "event_state w' e \<longleftrightarrow> event_state w e \<or> (\<exists>m \<in> ?ready. e \<in> set (live_events m w))" for e
      unfolding live by simp
    have "\<forall>m. graph_events (graph_nodes w' m) = (if m \<in> ?ready then live_events m ?w else graph_events (graph_nodes ?w m))"
      using n unfolding notified_def by blast
    then show "graph_events (graph_nodes w' m) = live_events m w" if "m \<in> ?ready" for m
      unfolding live using that by (simp only: if_True)
  qed
qed

text \<open>
  Claim C24.  When the thread goes to wait, it waits for every node that has an event in use; a change at such a
  node then wakes it, and it sets exactly the events of the nodes with changes.  The node drops its
  expired events and counts the others, and a wait for the event returns at once.
\<close>

theorem graph_change_reaches_events:
  assumes "graph_reachable w" and "gl_started (listener w)" and "\<not> gl_shutdown (listener w)"
    and "n \<notin> node_gone w" and "e \<in> set (live_events n w)"
  shows "\<exists>w1 w2. prepare_wait all_fine w = (None, w1) \<and>
    wake_up all_fine (w1\<lparr>changed := insert n (changed w1)\<rparr>) = (None, w2) \<and>
    (\<forall>x. event_state w2 x \<longleftrightarrow>
       event_state w x \<or> (\<exists>m. m \<in> set (watched w) \<and> (m = n \<or> m \<in> changed w) \<and> x \<in> set (live_events m w))) \<and>
    event_state w2 e \<and> graph_events (graph_nodes w2 n) = live_events n w \<and>
    graph_users_count (graph_nodes w2 n) = length (live_events n w) \<and>
    wait_for_graph_change (Some e) True n w2 = Inr False"
proof -
  have ok: "graph_ok {} w" by (rule graph_reachable_ok [OF assms(1)])
  define w1 where "w1 = snd (prepare_wait all_fine w)"
  define v where "v = w1\<lparr>changed := insert n (changed w1)\<rparr>"
  have f: "prepare_wait all_fine w = (None, w1)" "waiting_on (listener v) = Some (watched w)" "interfaces v = interfaces w"
    "changed v = insert n (changed w)" "event_state v = event_state w" "event_gone v = event_gone w" "counted v = counted w"
    "\<And>m. live_events m v = live_events m w"
    by (simp_all add: v_def w1_def prepare_wait_fine counted_def live_events_def)
  have sub: "set (watched w) \<subseteq> set (interfaces v)" unfolding f(3) by (auto simp: watched_def)
  obtain w2 where woken: "wake_up all_fine v = (None, w2)" and rest: "event_gone w2 = event_gone v" "counted v \<longrightarrow> counted w2"
    "\<And>x. event_state w2 x \<longleftrightarrow> event_state v x \<or> (\<exists>m \<in> set (watched w) \<inter> changed v. x \<in> set (live_events m v))"
    "\<And>m. m \<in> set (watched w) \<inter> changed v \<Longrightarrow> graph_events (graph_nodes w2 m) = live_events m v"
    by (rule wake_up_sets [OF f(2) sub]) blast
  note w2 = rest [unfolded f(4-8)]
  have n: "n \<in> set (watched w)" by (rule live_event_watched(1) [OF ok assms(3-5)])
  have events: "graph_events (graph_nodes w2 n) = live_events n w" using w2(4) n by simp
  have set: "event_state w2 e" unfolding w2(3) using n assms(5) by blast
  have "e \<notin> event_gone w" using assms(5) by (simp add: live_events_def)
  then have "wait_for_graph_change (Some e) True n w2 = Inr False"
    using set assms(5) by (simp add: wait_for_graph_change_def Event_check_def events w2(1))
  moreover have "graph_users_count (graph_nodes w2 n) = length (live_events n w)" using countedD w2(2) graph_okD(2) [OF ok] events by simp
  moreover have "event_state w2 x \<longleftrightarrow>
      event_state w x \<or> (\<exists>m. m \<in> set (watched w) \<and> (m = n \<or> m \<in> changed w) \<and> x \<in> set (live_events m w))" for x
    unfolding w2(3) by blast
  ultimately show ?thesis using f(1) woken [unfolded v_def] events set by blast
qed

definition example_graph :: graph_world where
  "example_graph = snd (get_graph_event all_fine True True 5 0 new_graph_world)"

lemmas graph_run = get_graph_event_def new_graph_world_def NodeGraph_def GraphListener_def gl_add_node_def
  acquire_nodes_lock_def start_if_not_started_def

theorem graph_change_reaches_events_witness:
  "\<exists>w1 w2. prepare_wait all_fine example_graph = (None, w1) \<and>
     wake_up all_fine (w1\<lparr>changed := insert 0 (changed w1)\<rparr>) = (None, w2) \<and> event_state w2 5 \<and>
     graph_users_count (graph_nodes w2 0) = 1 \<and> wait_for_graph_change (Some 5) True 0 w2 = Inr False"
proof -
  have "graph_reachable example_graph"
    unfolding example_graph_def by (rule graph_event [OF graph_new]) (simp add: new_graph_world_def)
  moreover have "live_events 0 example_graph = [5]" "gl_started (listener example_graph)"
    "\<not> gl_shutdown (listener example_graph)" "0 \<notin> node_gone example_graph"
    by (simp_all add: example_graph_def graph_run live_events_def)
  ultimately show ?thesis using graph_change_reaches_events [of example_graph 0 5] by auto
qed

text \<open>
  A node whose events have all expired is not waited for, and a new event of it does not interrupt
  the thread: a change at the node then goes unheard until something else wakes the thread.
\<close>

lemma renewed_interest_unheard:
  "\<exists>w. graph_reachable w \<and> 6 \<in> set (live_events 0 w) \<and> 0 \<in> changed w \<and> \<not> event_state w 6 \<and>
     waiting_on (listener w) = Some [] \<and> \<not> interrupt (listener w)"
proof -
  define l where "l = \<lparr>gl_started = True, gl_shutdown = False, node_graph_interfaces = [0], interrupt = True,
    waiting_on = None, size_of_guard_conditions = 2\<rparr>"
  define w0 where "w0 = example_graph\<lparr>event_gone := {5}\<rparr>"
  define w1 where "w1 = snd (prepare_wait all_fine (w0\<lparr>changed := {0}\<rparr>))"
  define w2 where "w2 = snd (wake_up all_fine w1)"
  define w3 where "w3 = snd (prepare_wait all_fine w2)"
  define w4 where "w4 = snd (get_graph_event all_fine True True 6 0 w3)"
  have w0: "listener w0 = l" "changed w0 = {}" "event_state w0 = (\<lambda>_. False)" "event_gone w0 = {5}" "node_gone w0 = {}"
    "graph_nodes w0 0 = NodeGraph\<lparr>should_add_to_graph_listener := False, graph_events := [5], graph_users_count := 1\<rparr>"
    by (simp_all add: w0_def example_graph_def graph_run l_def)
  have "graph_reachable example_graph"
    unfolding example_graph_def by (rule graph_event [OF graph_new]) (simp add: new_graph_world_def)
  then have "graph_reachable (example_graph\<lparr>event_gone := insert 5 (event_gone example_graph)\<rparr>)" by (rule graph_drop)
  moreover have "event_gone example_graph = {}" by (simp add: example_graph_def graph_run)
  ultimately have "graph_reachable w0" by (simp add: w0_def)
  from graph_change [OF this, of 0] have "graph_reachable (w0\<lparr>changed := {0}\<rparr>)" by (simp add: w0)
  then have r1: "graph_reachable w1" unfolding w1_def by (rule graph_prepare) (simp_all add: w0 l_def)
  have w1: "listener w1 = l\<lparr>waiting_on := Some [0], size_of_guard_conditions := 3\<rparr>" "changed w1 = {0}"
    "event_state w1 = (\<lambda>_. False)" "event_gone w1 = {5}" "node_gone w1 = {}" "graph_nodes w1 0 = graph_nodes w0 0"
    by (simp_all add: w1_def prepare_wait_fine w0 watched_def) (simp_all add: l_def w0)
  have r2: "graph_reachable w2" unfolding w2_def by (rule graph_wake [OF r1]) (simp_all add: w1 l_def)
  have w2: "listener w2 = l\<lparr>interrupt := False, size_of_guard_conditions := 3\<rparr>" "changed w2 = {}" "event_state w2 = (\<lambda>_. False)"
    "node_gone w2 = {}" "event_gone w2 = {5}" "graph_events (graph_nodes w2 0) = []" "graph_users_count (graph_nodes w2 0) = 0"
    "\<not> unadded w2 0"
    by (simp_all add: w2_def wake_up_def w1 w0 l_def notify_graph_change_def Event_set_def NodeGraph_def)
  have r3: "graph_reachable w3" unfolding w3_def by (rule graph_prepare [OF r2]) (simp_all add: w2 l_def)
  have w3: "waiting_on (listener w3) = Some []" "\<not> interrupt (listener w3)" "graph_nodes w3 0 = graph_nodes w2 0"
    "event_state w3 = (\<lambda>_. False)" "node_gone w3 = {}" "event_gone w3 = {5}"
    by (simp_all add: w3_def prepare_wait_fine w2 watched_def) (simp_all add: l_def w2)
  have r4: "graph_reachable w4" unfolding w4_def by (rule graph_event [OF r3]) (simp add: w3)
  have "6 \<in> set (live_events 0 w4)" "\<not> event_state w4 6" "waiting_on (listener w4) = Some []" "\<not> interrupt (listener w4)"
    by (simp_all add: w4_def get_graph_event_def w3 w2 live_events_def)
  then show ?thesis
    using graph_change [OF r4, of 0] by (intro exI [of _ "w4\<lparr>changed := insert 0 (changed w4)\<rparr>"]) (simp add: live_events_def)
qed

text \<open>
  An event that is asked for after the shutdown of the listener is refused, but the node is marked as
  added all the same, and its destructor then fails to remove it.
\<close>

lemma late_event_breaks_destructor:
  assumes "graph_reachable w" and "gl_shutdown (listener w)" and "unadded w n"
  shows "fst (get_graph_event rcl c i e n w) = Some GraphListenerShutdownError"
    and "fst (NodeGraph_destroy rcl n (snd (get_graph_event rcl c i e n w))) = Some NodeNotFoundError"
proof -
  have "n \<notin> set (interfaces w)" using graph_okD(3) [OF graph_reachable_ok [OF assms(1)]] assms(3) by blast
  then show "fst (get_graph_event rcl c i e n w) = Some GraphListenerShutdownError"
    and "fst (NodeGraph_destroy rcl n (snd (get_graph_event rcl c i e n w))) = Some NodeNotFoundError"
    using assms(2,3) by (simp_all add: get_graph_event_def gl_add_node_def NodeGraph_destroy_def gl_remove_node_def gl_remove_node_impl_def)
qed

text \<open>Nodes hear of the shutdown only if the thread waits in that moment.\<close>

lemma shutdown_unannounced:
  assumes "waiting_on (listener w) = None"
  shows "graph_nodes (snd (gl_shut_down rcl fini_ok w)) = graph_nodes w"
  using assms by (simp add: gl_shut_down_def acquire_nodes_lock_def Let_def)


end
