(* ===== verification/Graph_Queries.thy ===== *)
theory Graph_Queries
  imports Callback_Groups
begin

text \<open>
  What a node can ask about the ROS graph (the queries of \<open>node_interfaces/node_graph.cpp\<close>): names and
  types of topics and services, names of nodes, and the endpoints of a topic.  The answers of rcl are
  arguments: an error text, or the data; \<open>fini\<close> is the error text of a failed clean-up, if it failed.
\<close>

section \<open>Names and types\<close>

definition add_type :: "string \<Rightarrow> string \<Rightarrow> (string \<rightharpoonup> string list) \<Rightarrow> (string \<rightharpoonup> string list)" where
  "add_type name type_name m = m(name \<mapsto> (case m name of None \<Rightarrow> [] | Some ts \<Rightarrow> ts) @ [type_name])"

definition collect_names_and_types :: "(string \<times> string list) list \<Rightarrow> (string \<rightharpoonup> string list)" where
  "collect_names_and_types answer = fold (\<lambda>(name, types). fold (add_type name) types) answer Map.empty"

definition or_leaking :: "string \<Rightarrow> string option \<Rightarrow> string" where
  "or_leaking what fini =
     (case fini of None \<Rightarrow> [] | Some err \<Rightarrow> '', failed also to cleanup '' @ what @ '', leaking memory: '' @ err)"

definition get_topic_names_and_types ::
    "string + (string \<times> string list) list \<Rightarrow> string option \<Rightarrow> rclcpp_exn + (string \<rightharpoonup> string list)" where
  "get_topic_names_and_types answer fini =
     (case answer of
        Inl err \<Rightarrow> Inl (RuntimeError (''failed to get topic names and types: '' @ err @ or_leaking ''topic names and types'' fini))
      | Inr xs \<Rightarrow>
          (case fini of
             None \<Rightarrow> Inr (collect_names_and_types xs)
           | Some err \<Rightarrow> Inl (RuntimeError (''could not destroy topic names and types: '' @ err))))"

definition get_service_names_and_types ::
    "string + (string \<times> string list) list \<Rightarrow> string option \<Rightarrow> rclcpp_exn + (string \<rightharpoonup> string list)" where
  "get_service_names_and_types answer fini =
     (case answer of
        Inl err \<Rightarrow> Inl (RuntimeError (''failed to get service names and types: '' @ err @ or_leaking ''service names and types'' fini))
      | Inr xs \<Rightarrow>
          (case fini of
             None \<Rightarrow> Inr (collect_names_and_types xs)
           | Some err \<Rightarrow> Inl (RuntimeError (''could not destroy service names and types: '' @ err))))"

definition get_service_names_and_types_by_node ::
    "string + (string \<times> string list) list \<Rightarrow> string option \<Rightarrow> rclcpp_exn + (string \<rightharpoonup> string list)" where
  "get_service_names_and_types_by_node answer fini =
     (case answer of
        Inl err \<Rightarrow> Inl (RuntimeError (''failed to get service names and types by node: '' @ err @ or_leaking ''service names and types'' fini))
      | Inr xs \<Rightarrow>
          (case fini of
             None \<Rightarrow> Inr (collect_names_and_types xs)
           | Some err \<Rightarrow> Inl (RCLError ''could not destroy service names and types'')))"

text \<open>These three only log that the clean-up failed.\<close>

definition get_client_names_and_types_by_node ::
    "string + (string \<times> string list) list \<Rightarrow> rclcpp_exn + (string \<rightharpoonup> string list)" where
  "get_client_names_and_types_by_node answer =
     (case answer of
        Inl err \<Rightarrow> Inl (RCLError ''failed to get service names and types by node'')
      | Inr xs \<Rightarrow> Inr (collect_names_and_types xs))"

definition get_publisher_names_and_types_by_node ::
    "string + (string \<times> string list) list \<Rightarrow> rclcpp_exn + (string \<rightharpoonup> string list)" where
  "get_publisher_names_and_types_by_node answer =
     (case answer of
        Inl err \<Rightarrow> Inl (RCLError ''failed to get topic names and types by node'')
      | Inr xs \<Rightarrow> Inr (collect_names_and_types xs))"

definition get_subscriber_names_and_types_by_node ::
    "string + (string \<times> string list) list \<Rightarrow> rclcpp_exn + (string \<rightharpoonup> string list)" where
  "get_subscriber_names_and_types_by_node answer =
     (case answer of
        Inl err \<Rightarrow> Inl (RCLError ''failed to get topic names and types by node'')
      | Inr xs \<Rightarrow> Inr (collect_names_and_types xs))"

section \<open>Names of nodes\<close>

text \<open>The arrays of rcl can have null pointers in them.\<close>

definition get_node_names_and_namespaces ::
    "string + (string option \<times> string option) list \<Rightarrow> string option \<Rightarrow> string option \<Rightarrow> rclcpp_exn + (string \<times> string) list" where
  "get_node_names_and_namespaces answer fini_names fini_namespaces =
     (case answer of
        Inl err \<Rightarrow> Inl (RuntimeError (''failed to get node names: '' @ err @ or_leaking ''node names'' fini_names @
                          or_leaking ''node namespaces'' fini_namespaces))
      | Inr xs \<Rightarrow>
          if fini_names \<noteq> None \<or> fini_namespaces \<noteq> None
          then Inl (RuntimeError ((if fini_names \<noteq> None then ''could not destroy node names'' else []) @
                      (if fini_namespaces \<noteq> None then '', could not destroy node namespaces'' else [])))
          else Inr (concat (map (\<lambda>x. case x of (Some name, Some ns) \<Rightarrow> [(name, ns)] | _ \<Rightarrow> []) xs)))"

definition get_node_names_with_enclaves ::
    "string + (string option \<times> string option \<times> string option) list \<Rightarrow> string option \<Rightarrow> string option \<Rightarrow> string option \<Rightarrow>
     rclcpp_exn + (string \<times> string \<times> string) list" where
  "get_node_names_with_enclaves answer fini_names fini_namespaces fini_enclaves =
     (let destroyed = (\<lambda>what fini. case fini of None \<Rightarrow> [] | Some err \<Rightarrow> '', could not destroy '' @ what @ '', leaking memory: '' @ err)
      in case answer of
           Inl err \<Rightarrow> Inl (RuntimeError (''failed to get node names with enclaves: '' @ err @ or_leaking ''node names'' fini_names @
                             or_leaking ''node namespaces'' fini_namespaces @ or_leaking ''node enclaves'' fini_enclaves))
         | Inr xs \<Rightarrow>
             if fini_names \<noteq> None \<or> fini_namespaces \<noteq> None \<or> fini_enclaves \<noteq> None
             then Inl (RuntimeError (''failed to finalize array'' @ destroyed ''node names'' fini_names @
                         destroyed ''node namespaces'' fini_namespaces @ destroyed ''node enclaves'' fini_enclaves))
             else Inr (concat (map (\<lambda>x. case x of (Some name, Some ns, Some enclave) \<Rightarrow> [(name, ns, enclave)] | _ \<Rightarrow> []) xs)))"

text \<open>The last character of an empty namespace is undefined, hence the option.\<close>

definition full_node_name :: "string \<Rightarrow> string \<Rightarrow> string option" where
  "full_node_name name ns =
     (if ns = [] then None
      else let return_string = (if last ns = CHR ''/'' then ns @ name else ns @ ''/'' @ name)
           in Some (if hd return_string \<noteq> CHR ''/'' then ''/'' @ return_string else return_string))"

definition get_node_names ::
    "string + (string option \<times> string option) list \<Rightarrow> string option \<Rightarrow> string option \<Rightarrow> rclcpp_exn + string option list" where
  "get_node_names answer fini_names fini_namespaces =
     map_sum id (map (\<lambda>(name, ns). full_node_name name ns)) (get_node_names_and_namespaces answer fini_names fini_namespaces)"

section \<open>Endpoints of a topic\<close>

definition count_publishers :: "(string \<Rightarrow> rclcpp_exn + string) \<Rightarrow> (string \<Rightarrow> string + nat) \<Rightarrow> string \<Rightarrow> rclcpp_exn + nat" where
  "count_publishers expand rcl_count topic_name =
     (case expand topic_name of
        Inl x \<Rightarrow> Inl x
      | Inr fqdn \<Rightarrow> (case rcl_count fqdn of Inl err \<Rightarrow> Inl (RuntimeError (''could not count publishers: '' @ err)) | Inr n \<Rightarrow> Inr n))"

definition count_subscribers :: "(string \<Rightarrow> rclcpp_exn + string) \<Rightarrow> (string \<Rightarrow> string + nat) \<Rightarrow> string \<Rightarrow> rclcpp_exn + nat" where
  "count_subscribers expand rcl_count topic_name =
     (case expand topic_name of
        Inl x \<Rightarrow> Inl x
      | Inr fqdn \<Rightarrow> (case rcl_count fqdn of Inl err \<Rightarrow> Inl (RuntimeError (''could not count subscribers: '' @ err)) | Inr n \<Rightarrow> Inr n))"

text \<open>
  \<open>remap\<close> is \<open>rcl_remap_topic_name\<close>: an error, no rule for this name, or the new name.  The answer of
  \<open>rcl_get_info_by_topic\<close> is an error, with no text when the middleware does not support it, or the
  endpoints.
\<close>

definition info_error :: "string \<Rightarrow> string option \<Rightarrow> string option \<Rightarrow> string" where
  "info_error endpoint_type err fini =
     ''Failed to get information by topic for '' @ endpoint_type @ '':'' @
     (case err of None \<Rightarrow> ''function not supported by RMW_IMPLEMENTATION'' | Some text \<Rightarrow> text) @ or_leaking ''topic info array'' fini"

definition get_info_by_topic ::
    "string \<Rightarrow> (string \<Rightarrow> rclcpp_exn + string) \<Rightarrow> bool \<Rightarrow> (string \<Rightarrow> unit + string option) \<Rightarrow>
     (string \<Rightarrow> bool \<Rightarrow> string option + 'e list) \<Rightarrow> string option \<Rightarrow> string \<Rightarrow> bool \<Rightarrow> rclcpp_exn + 'e list" where
  "get_info_by_topic endpoint_type expand has_options remap rcl_get_info fini topic_name no_mangle =
     (let ask = (\<lambda>fqdn. case rcl_get_info fqdn no_mangle of
                          Inl err \<Rightarrow> Inl (RCLError (info_error endpoint_type err fini))
                        | Inr info \<Rightarrow> (case fini of None \<Rightarrow> Inr info | Some _ \<Rightarrow> Inl (RCLError ''rcl_topic_info_array_fini failed.'')))
      in if no_mangle then ask topic_name
         else case expand topic_name of
                Inl x \<Rightarrow> Inl x
              | Inr fqdn \<Rightarrow>
                  if \<not> has_options then Inl (RuntimeError ''Need valid node options in get_info_by_topic()'')
                  else case remap fqdn of
                         Inl _ \<Rightarrow> Inl (RCLError (''Failed to remap topic name '' @ fqdn))
                       | Inr None \<Rightarrow> ask fqdn
                       | Inr (Some remapped_topic_name) \<Rightarrow> ask remapped_topic_name)"

section \<open>What the queries return\<close>

text \<open>A name has all the types that are listed with it, in their order; a name without types is left out.\<close>

lemma fold_add_type:
  "fold (add_type name) types m x =
     (if x = name \<and> types \<noteq> [] then Some ((case m name of None \<Rightarrow> [] | Some ts \<Rightarrow> ts) @ types) else m x)"
  by (induction types arbitrary: m) (auto simp: add_type_def)

definition types_of :: "string \<Rightarrow> (string \<times> string list) list \<Rightarrow> string list" where
  "types_of name xs = concat (map snd (filter (\<lambda>x. fst x = name) xs))"

lemma fold_collect:
  "fold (\<lambda>(name, types). fold (add_type name) types) xs m x =
     (if types_of x xs = [] then m x else Some ((case m x of None \<Rightarrow> [] | Some ts \<Rightarrow> ts) @ types_of x xs))"
proof (induction xs arbitrary: m)
  case (Cons p xs)
  obtain name types where p: "p = (name, types)" by force
  have t: "types_of x (p # xs) = (if name = x then types else []) @ types_of x xs" by (simp add: types_of_def p)
  define m' where "m' = fold (add_type name) types m"
  have "m' x = (if x = name \<and> types \<noteq> [] then Some ((case m name of None \<Rightarrow> [] | Some ts \<Rightarrow> ts) @ types) else m x)"
    unfolding m'_def by (rule fold_add_type)
  moreover have "fold (\<lambda>(name, types). fold (add_type name) types) (p # xs) m x =
      fold (\<lambda>(name, types). fold (add_type name) types) xs m' x"
    by (simp add: p m'_def)
  ultimately show ?case by (simp only: Cons.IH t) auto
qed (simp add: types_of_def)

lemma collect_exact:
  "collect_names_and_types xs name = (if types_of name xs = [] then None else Some (types_of name xs))"
  by (simp add: collect_names_and_types_def fold_collect)

text \<open>
  Names of nodes.  With absolute namespaces and node names without slashes, as rcl has them, the
  query gives every node a name that begins with a slash, and different nodes different names.
\<close>

definition valid_node :: "string \<times> string \<Rightarrow> bool" where
  "valid_node x \<longleftrightarrow> CHR ''/'' \<notin> set (fst x) \<and> snd x \<noteq> [] \<and> hd (snd x) = CHR ''/'' \<and>
     (snd x = ''/'' \<or> last (snd x) \<noteq> CHR ''/'')"

definition joined :: "string \<times> string \<Rightarrow> string" where
  "joined x = (if snd x = ''/'' then ''/'' else snd x @ ''/'') @ fst x"

lemma full_node_name_joined: "valid_node (name, ns) \<Longrightarrow> full_node_name name ns = Some (joined (name, ns))"
  by (auto simp: full_node_name_def valid_node_def joined_def hd_append)

lemma split_at_last_slash:
  assumes "a @ CHR ''/'' # b = c @ CHR ''/'' # d" and "CHR ''/'' \<notin> set b" and "CHR ''/'' \<notin> set d"
  shows "a = c \<and> b = d"
  using assms by (auto simp: append_eq_append_conv2 append_eq_Cons_conv Cons_eq_append_conv)

lemma joined_inject:
  assumes "valid_node x" and "valid_node y" and "joined x = joined y"
  shows "x = y"
proof -
  define pre :: "string \<times> string \<Rightarrow> string" where "pre z = (if snd z = ''/'' then [] else snd z)" for z
  have j: "joined z = pre z @ CHR ''/'' # fst z" for z by (simp add: joined_def pre_def)
  have "pre x = pre y \<and> fst x = fst y"
    using split_at_last_slash [of "pre x" "fst x" "pre y" "fst y"] assms by (simp add: j valid_node_def)
  then show ?thesis using assms(1,2) by (cases x; cases y) (auto simp: pre_def valid_node_def split: if_splits)
qed

theorem node_names_identify:
  assumes "\<forall>x \<in> set nodes. valid_node x"
  shows "\<exists>names. get_node_names (Inr (map (\<lambda>(name, ns). (Some name, Some ns)) nodes)) None None = Inr (map Some names) \<and>
    length names = length nodes \<and> (\<forall>s \<in> set names. hd s = CHR ''/'') \<and> (distinct nodes \<longrightarrow> distinct names)"
proof -
  have "concat (map (\<lambda>x. case x of (Some name, Some ns) \<Rightarrow> [(name, ns)] | _ \<Rightarrow> []) (map (\<lambda>(name, ns). (Some name, Some ns)) nodes)) = nodes"
    by (induction nodes) auto
  then have "get_node_names (Inr (map (\<lambda>(name, ns). (Some name, Some ns)) nodes)) None None =
      Inr (map (\<lambda>(name, ns). full_node_name name ns) nodes)"
    by (simp add: get_node_names_def get_node_names_and_namespaces_def comp_def)
  also have "map (\<lambda>(name, ns). full_node_name name ns) nodes = map Some (map joined nodes)"
    using assms full_node_name_joined by (auto simp: valid_node_def)
  finally have "get_node_names (Inr (map (\<lambda>(name, ns). (Some name, Some ns)) nodes)) None None = Inr (map Some (map joined nodes))" .
  moreover have "hd (joined x) = CHR ''/''" if "valid_node x" for x using that by (auto simp: joined_def valid_node_def hd_append)
  moreover have "distinct (map joined nodes)" if "distinct nodes"
    using that assms joined_inject by (auto simp: distinct_map inj_on_def)
  ultimately show ?thesis using assms by (intro exI [of _ "map joined nodes"]) auto
qed

theorem node_names_identify_witness:
  "\<exists>names. get_node_names (Inr [(Some ''a'', Some ''/''), (Some ''a'', Some ''/b'')]) None None = Inr (map Some names) \<and>
     length names = 2 \<and> distinct names"
  using node_names_identify [of "[(''a'', ''/''), (''a'', ''/b'')]"] by (auto simp: valid_node_def)

end
