(* ===== verification/Time_Source.thy ===== *)
theory Time_Source
  imports Time_Arithmetic Parameter_Events
begin

text \<open>
  Clocks and the source of ROS time (\<open>time_source.cpp\<close>, \<open>clock.cpp\<close>): the parameter \<open>use_sim_time\<close> of a
  node turns ROS time on, messages on the clock topic then drive the attached clocks, and threads
  sleep on a clock.
\<close>

section \<open>Clocks\<close>

text \<open>The part of an rcl clock that the override of ROS time uses, and the answers of rcl for a clock.\<close>

record ros_clock =
  ck_type :: clock_type
  ros_time_enabled :: bool
  ros_time_override :: int

record clock_answers =
  enable_ok :: "nat \<Rightarrow> bool"
  disable_ok :: "nat \<Rightarrow> bool"
  set_ok :: "nat \<Rightarrow> bool"

definition clock_answers_ok :: clock_answers where
  "clock_answers_ok = \<lparr>enable_ok = (\<lambda>_. True), disable_ok = (\<lambda>_. True), set_ok = (\<lambda>_. True)\<rparr>"

definition set_clock ::
    "clock_answers \<Rightarrow> time_msg \<Rightarrow> bool \<Rightarrow> nat \<Rightarrow> (nat \<Rightarrow> ros_clock) \<Rightarrow> rclcpp_exn option \<times> (nat \<Rightarrow> ros_clock)" where
  "set_clock rcl msg set_ros_time_enabled c clocks =
     (if \<not> set_ros_time_enabled \<and> ros_time_enabled (clocks c) \<and> \<not> disable_ok rcl c
      then (Some (RCLError ''Failed to disable ros_time_override_status''), clocks)
      else if set_ros_time_enabled \<and> \<not> ros_time_enabled (clocks c) \<and> \<not> enable_ok rcl c
      then (Some (RCLError ''Failed to enable ros_time_override_status''), clocks)
      else let changed = clocks(c := (clocks c)\<lparr>ros_time_enabled := set_ros_time_enabled\<rparr>)
           in case Time_of_msg msg RCL_ROS_TIME of
                Inl x \<Rightarrow> (Some x, changed)
              | Inr t \<Rightarrow>
                  if set_ok rcl c then (None, changed(c := (changed c)\<lparr>ros_time_override := nanoseconds t\<rparr>))
                  else (Some (RCLError ''Failed to set ros_time_override_status''), changed))"

fun set_clocks ::
    "clock_answers \<Rightarrow> time_msg \<Rightarrow> bool \<Rightarrow> nat list \<Rightarrow> (nat \<Rightarrow> ros_clock) \<Rightarrow> rclcpp_exn option \<times> (nat \<Rightarrow> ros_clock)" where
  "set_clocks rcl msg enabled [] clocks = (None, clocks)"
| "set_clocks rcl msg enabled (c # cs) clocks =
     (case set_clock rcl msg enabled c clocks of
        (Some x, clocks') \<Rightarrow> (Some x, clocks')
      | (None, clocks') \<Rightarrow> set_clocks rcl msg enabled cs clocks')"

section \<open>The state of a time source\<close>

datatype use_sim_time_state = UNSET | SET_TRUE | SET_FALSE

text \<open>
  The state of the parameter is uninitialized at first.  \<open>attached_node\<close> is the name of the attached
  node, and the subscriptions and the thread are there or not.
\<close>

record time_source =
  associated_clocks :: "nat list"
  ros_time_active :: bool
  last_msg_set :: "time_msg option"
  parameter_state :: "use_sim_time_state option"
  attached_node :: "string option"
  clock_subscription :: bool
  clock_executor_thread :: bool
  use_clock_thread :: bool
  parameter_subscription :: bool

record ts_world =
  ros_clocks :: "nat \<Rightarrow> ros_clock"
  ts :: time_source

definition NodeState :: "bool \<Rightarrow> time_source" where
  "NodeState clock_thread = \<lparr>associated_clocks = [], ros_time_active = False, last_msg_set = None, parameter_state = None,
     attached_node = None, clock_subscription = False, clock_executor_thread = False, use_clock_thread = clock_thread,
     parameter_subscription = False\<rparr>"

definition zero_time_msg :: time_msg where
  "zero_time_msg = \<lparr>msg_sec = 0, msg_nanosec = 0\<rparr>"

definition last_or_zero :: "time_source \<Rightarrow> time_msg" where
  "last_or_zero s = (case last_msg_set s of None \<Rightarrow> zero_time_msg | Some m \<Rightarrow> m)"

definition set_all_clocks :: "clock_answers \<Rightarrow> time_msg \<Rightarrow> bool \<Rightarrow> ts_world \<Rightarrow> rclcpp_exn option \<times> ts_world" where
  "set_all_clocks rcl msg enabled w =
     (case set_clocks rcl msg enabled (associated_clocks (ts w)) (ros_clocks w) of (r, clocks) \<Rightarrow> (r, w\<lparr>ros_clocks := clocks\<rparr>))"

definition enable_ros_time :: "clock_answers \<Rightarrow> ts_world \<Rightarrow> rclcpp_exn option \<times> ts_world" where
  "enable_ros_time rcl w =
     (if ros_time_active (ts w) then (None, w)
      else set_all_clocks rcl (last_or_zero (ts w)) True (w\<lparr>ts := (ts w)\<lparr>ros_time_active := True\<rparr>\<rparr>))"

definition disable_ros_time :: "clock_answers \<Rightarrow> ts_world \<Rightarrow> rclcpp_exn option \<times> ts_world" where
  "disable_ros_time rcl w =
     (if \<not> ros_time_active (ts w) then (None, w)
      else set_all_clocks rcl zero_time_msg False (w\<lparr>ts := (ts w)\<lparr>ros_time_active := False\<rparr>\<rparr>))"

definition attachClock :: "clock_answers \<Rightarrow> nat \<Rightarrow> ts_world \<Rightarrow> rclcpp_exn option \<times> ts_world" where
  "attachClock rcl c w =
     (if ck_type (ros_clocks w c) \<noteq> RCL_ROS_TIME
      then (Some (InvalidArgument ''Cannot attach clock to a time source that's not a ROS clock''), w)
      else case set_clock rcl (last_or_zero (ts w)) (ros_time_active (ts w)) c (ros_clocks w) of
             (r, clocks) \<Rightarrow> (r, w\<lparr>ros_clocks := clocks, ts := (ts w)\<lparr>associated_clocks := associated_clocks (ts w) @ [c]\<rparr>\<rparr>))"

definition detachClock :: "nat \<Rightarrow> ts_world \<Rightarrow> ts_world" where
  "detachClock c w = w\<lparr>ts := (ts w)\<lparr>associated_clocks := remove1 c (associated_clocks (ts w))\<rparr>\<rparr>"

definition cache_last_msg :: "time_msg \<Rightarrow> ts_world \<Rightarrow> ts_world" where
  "cache_last_msg msg w = w\<lparr>ts := (ts w)\<lparr>last_msg_set := Some msg\<rparr>\<rparr>"

section \<open>Nodes and messages\<close>

definition create_clock_sub :: "bool \<Rightarrow> ts_world \<Rightarrow> rclcpp_exn option \<times> ts_world" where
  "create_clock_sub sub_ok w =
     (if clock_subscription (ts w) then (None, w)
      else let w1 = (if use_clock_thread (ts w) then w\<lparr>ts := (ts w)\<lparr>clock_executor_thread := True\<rparr>\<rparr> else w)
           in if sub_ok then (None, w1\<lparr>ts := (ts w1)\<lparr>clock_subscription := True\<rparr>\<rparr>)
              else (Some (RCLError ''could not create subscription''), w1))"

definition destroy_clock_sub :: "ts_world \<Rightarrow> ts_world" where
  "destroy_clock_sub w = w\<lparr>ts := (ts w)\<lparr>clock_executor_thread := False, clock_subscription := False\<rparr>\<rparr>"

text \<open>The callback of the subscription, with the test that a node is attached.\<close>

definition clock_cb :: "clock_answers \<Rightarrow> time_msg \<Rightarrow> ts_world \<Rightarrow> rclcpp_exn option \<times> ts_world" where
  "clock_cb rcl msg w =
     (if attached_node (ts w) = None then (None, w)
      else case (if \<not> ros_time_active (ts w) \<and> parameter_state (ts w) = Some SET_TRUE then enable_ros_time rcl w else (None, w)) of
             (Some x, w1) \<Rightarrow> (Some x, w1)
           | (None, w1) \<Rightarrow>
               let w2 = cache_last_msg msg w1
               in if parameter_state (ts w2) = Some SET_TRUE then set_all_clocks rcl msg True w2 else (None, w2))"

definition turn_on :: "clock_answers \<Rightarrow> bool \<Rightarrow> ts_world \<Rightarrow> rclcpp_exn option \<times> ts_world" where
  "turn_on rcl sub_ok w =
     (case enable_ros_time rcl (w\<lparr>ts := (ts w)\<lparr>parameter_state := Some SET_TRUE\<rparr>\<rparr>) of
        (Some x, w1) \<Rightarrow> (Some x, w1)
      | (None, w1) \<Rightarrow> create_clock_sub sub_ok w1)"

definition turn_off :: "clock_answers \<Rightarrow> ts_world \<Rightarrow> rclcpp_exn option \<times> ts_world" where
  "turn_off rcl w = disable_ros_time rcl (destroy_clock_sub (w\<lparr>ts := (ts w)\<lparr>parameter_state := Some SET_FALSE\<rparr>\<rparr>))"

text \<open>\<open>use_sim_time\<close> is the value of the parameter of the node, declared if it was not.\<close>

definition attachNode ::
    "clock_answers \<Rightarrow> bool \<Rightarrow> string \<Rightarrow> 'd parameter_value \<Rightarrow> ts_world \<Rightarrow> rclcpp_exn option \<times> ts_world" where
  "attachNode rcl sub_ok node use_sim_time w =
     (let w1 = w\<lparr>ts := (ts w)\<lparr>attached_node := Some node\<rparr>\<rparr>;
          finish = (\<lambda>w. w\<lparr>ts := (ts w)\<lparr>parameter_subscription := True\<rparr>\<rparr>)
      in case use_sim_time of
           BoolValue b \<Rightarrow>
             (if b then (case turn_on rcl sub_ok w1 of (Some x, w2) \<Rightarrow> (Some x, w2) | (None, w2) \<Rightarrow> (None, finish w2))
              else (None, finish w1))
         | _ \<Rightarrow> (Some (InvalidArgument (''Invalid type for parameter '' @ [CHR 0x27] @ ''use_sim_time'' @ [CHR 0x27] @
             '', should be '' @ [CHR 0x27] @ ''bool'' @ [CHR 0x27])), w1))"

definition NodeState_detachNode :: "clock_answers \<Rightarrow> ts_world \<Rightarrow> rclcpp_exn option \<times> ts_world" where
  "NodeState_detachNode rcl w =
     (case disable_ros_time rcl (destroy_clock_sub w) of
        (Some x, w1) \<Rightarrow> (Some x, w1)
      | (None, w1) \<Rightarrow> (None, w1\<lparr>ts := (ts w1)\<lparr>parameter_subscription := False, attached_node := None\<rparr>\<rparr>))"

text \<open>\<open>detachNode\<close> of the time source replaces the whole state.\<close>

definition detachNode :: "clock_answers \<Rightarrow> bool \<Rightarrow> ts_world \<Rightarrow> rclcpp_exn option \<times> ts_world" where
  "detachNode rcl constructed_use_clock_thread w =
     (case (if attached_node (ts w) \<noteq> None then NodeState_detachNode rcl w else (None, w)) of
        (Some x, w1) \<Rightarrow> (Some x, w1)
      | (None, w1) \<Rightarrow> (None, w1\<lparr>ts := NodeState constructed_use_clock_thread\<rparr>))"

fun follow_parameter ::
    "clock_answers \<Rightarrow> bool \<Rightarrow> 'd parameter list \<Rightarrow> ts_world \<Rightarrow> rclcpp_exn option \<times> ts_world" where
  "follow_parameter rcl sub_ok [] w = (None, w)"
| "follow_parameter rcl sub_ok (p # ps) w =
     (case (case param_value p of BoolValue b \<Rightarrow> if b then turn_on rcl sub_ok w else turn_off rcl w | _ \<Rightarrow> (None, w)) of
        (Some x, w1) \<Rightarrow> (Some x, w1)
      | (None, w1) \<Rightarrow> follow_parameter rcl sub_ok ps w1)"

definition on_parameter_event ::
    "clock_answers \<Rightarrow> bool \<Rightarrow> 'd parameter_event \<Rightarrow> ts_world \<Rightarrow> rclcpp_exn option \<times> ts_world" where
  "on_parameter_event rcl sub_ok event w =
     (if attached_node (ts w) \<noteq> Some (event_node event) then (None, w)
      else case follow_parameter rcl sub_ok (map snd (ParameterEventsFilter event [''use_sim_time''] [NEW, CHANGED])) w of
             (Some x, w1) \<Rightarrow> (Some x, w1)
           | (None, w1) \<Rightarrow>
               (None, if ParameterEventsFilter event [''use_sim_time''] [DELETED] \<noteq> []
                      then w1\<lparr>ts := (ts w1)\<lparr>parameter_state := Some UNSET\<rparr>\<rparr> else w1))"

section \<open>Clocks follow their source\<close>

definition msg_ns :: "time_msg \<Rightarrow> int" where
  "msg_ns m = to_int64 (to_int64 (RCL_S_TO_NS (msg_sec m)) + msg_nanosec m)"

lemma set_clocks_ok:
  assumes "0 \<le> msg_sec m"
  shows "set_clocks clock_answers_ok m en cs clocks =
    (None, \<lambda>c. if c \<in> set cs then (clocks c)\<lparr>ros_time_enabled := en, ros_time_override := msg_ns m\<rparr> else clocks c)"
  using assms
  by (induction cs arbitrary: clocks)
    (auto simp: set_clock_def clock_answers_ok_def Time_of_msg_def Time_of_ns_def msg_ns_def fun_eq_iff)

lemma set_clock_one_ok:
  assumes "0 \<le> msg_sec m"
  shows "set_clock clock_answers_ok m en c clocks = (None, clocks(c := (clocks c)\<lparr>ros_time_enabled := en, ros_time_override := msg_ns m\<rparr>))"
  using assms by (simp add: set_clock_def clock_answers_ok_def Time_of_msg_def Time_of_ns_def msg_ns_def)

text \<open>What the clocks and the source have to do with each other.\<close>

definition ts_ok :: "ts_world \<Rightarrow> bool" where
  "ts_ok w \<longleftrightarrow>
     (\<forall>m. last_msg_set (ts w) = Some m \<longrightarrow> 0 \<le> msg_sec m) \<and>
     (\<forall>c \<in> set (associated_clocks (ts w)). ros_time_enabled (ros_clocks w c) = ros_time_active (ts w)) \<and>
     (ros_time_active (ts w) \<longleftrightarrow> parameter_state (ts w) = Some SET_TRUE) \<and>
     (clock_subscription (ts w) \<longleftrightarrow> parameter_state (ts w) = Some SET_TRUE) \<and>
     (ros_time_active (ts w) \<longrightarrow> (\<forall>c \<in> set (associated_clocks (ts w)). ros_time_override (ros_clocks w c) = msg_ns (last_or_zero (ts w)))) \<and>
     parameter_state (ts w) \<noteq> Some UNSET \<and>
     (attached_node (ts w) = None \<longrightarrow> parameter_state (ts w) = None)"

lemma last_or_zero_simps [simp]:
  "last_or_zero (s\<lparr>parameter_state := a\<rparr>) = last_or_zero s" "last_or_zero (s\<lparr>ros_time_active := b\<rparr>) = last_or_zero s"
  "last_or_zero (s\<lparr>clock_subscription := b\<rparr>) = last_or_zero s" "last_or_zero (s\<lparr>clock_executor_thread := b\<rparr>) = last_or_zero s"
  "last_or_zero (s\<lparr>associated_clocks := cs\<rparr>) = last_or_zero s" "last_or_zero (s\<lparr>attached_node := n\<rparr>) = last_or_zero s"
  "last_or_zero (s\<lparr>parameter_subscription := b\<rparr>) = last_or_zero s" "last_or_zero (s\<lparr>last_msg_set := Some m\<rparr>) = m"
  by (simp_all add: last_or_zero_def)

lemma last_or_zero_sec: "ts_ok w \<Longrightarrow> 0 \<le> msg_sec (last_or_zero (ts w))"
  by (auto simp: ts_ok_def last_or_zero_def zero_time_msg_def split: option.split)

lemma set_all_clocks_ok:
  assumes "0 \<le> msg_sec m"
  shows "set_all_clocks clock_answers_ok m en w = (None, w\<lparr>ros_clocks := (\<lambda>c. if c \<in> set (associated_clocks (ts w))
    then (ros_clocks w c)\<lparr>ros_time_enabled := en, ros_time_override := msg_ns m\<rparr> else ros_clocks w c)\<rparr>)"
  by (simp add: set_all_clocks_def set_clocks_ok [OF assms])

lemma turn_on_ok:
  assumes "ts_ok w" and "attached_node (ts w) \<noteq> None"
  shows "fst (turn_on clock_answers_ok True w) = None \<and> ts_ok (snd (turn_on clock_answers_ok True w)) \<and>
    parameter_state (ts (snd (turn_on clock_answers_ok True w))) = Some SET_TRUE \<and>
    attached_node (ts (snd (turn_on clock_answers_ok True w))) = attached_node (ts w)"
proof -
  have sec: "0 \<le> msg_sec (last_or_zero (ts w))" by (rule last_or_zero_sec [OF assms(1)])
  show ?thesis
    using assms
    by (cases "ros_time_active (ts w)")
      (auto simp: turn_on_def enable_ros_time_def set_all_clocks_ok [OF sec] create_clock_sub_def ts_ok_def)
qed

lemma turn_off_ok:
  assumes "ts_ok w" and "attached_node (ts w) \<noteq> None"
  shows "fst (turn_off clock_answers_ok w) = None \<and> ts_ok (snd (turn_off clock_answers_ok w)) \<and>
    attached_node (ts (snd (turn_off clock_answers_ok w))) = attached_node (ts w)"
proof -
  have "0 \<le> msg_sec zero_time_msg" by (simp add: zero_time_msg_def)
  then show ?thesis
    using assms
    by (cases "ros_time_active (ts w)")
      (auto simp: turn_off_def disable_ros_time_def destroy_clock_sub_def set_all_clocks_ok ts_ok_def)
qed

lemma attachClock_ok:
  assumes "ts_ok w"
  shows "ts_ok (snd (attachClock clock_answers_ok c w))"
  using assms
  by (auto simp: attachClock_def set_clock_one_ok [OF last_or_zero_sec [OF assms]] ts_ok_def)

lemma detachClock_ok: "ts_ok w \<Longrightarrow> ts_ok (detachClock c w)"
  by (auto simp: detachClock_def ts_ok_def dest: notin_set_remove1 set_mp [OF set_remove1_subset])

lemma attachNode_ok:
  assumes "ts_ok w"
  shows "ts_ok (snd (attachNode clock_answers_ok True node v w))"
proof -
  let ?w = "w\<lparr>ts := (ts w)\<lparr>attached_node := Some node\<rparr>\<rparr>"
  have ok: "ts_ok ?w" using assms by (simp add: ts_ok_def)
  have finish: "ts_ok (u\<lparr>ts := (ts u)\<lparr>parameter_subscription := True\<rparr>\<rparr>)" if "ts_ok u" for u
    using that by (simp add: ts_ok_def)
  obtain w1 where w1: "turn_on clock_answers_ok True ?w = (None, w1)" "ts_ok w1"
    using turn_on_ok [OF ok] by (cases "turn_on clock_answers_ok True ?w") auto
  show ?thesis
    using ok finish [OF ok] finish [OF w1(2)] by (cases v) (simp_all add: attachNode_def w1(1) Let_def)
qed

lemma detachNode_ok: "ts_ok (snd (detachNode clock_answers_ok b w))" if "ts_ok w"
proof -
  have zero: "0 \<le> msg_sec zero_time_msg" by (simp add: zero_time_msg_def)
  show ?thesis
    by (cases "ros_time_active (ts w)")
      (auto simp: detachNode_def NodeState_detachNode_def disable_ros_time_def destroy_clock_sub_def
        set_all_clocks_ok [OF zero] NodeState_def ts_ok_def split: option.splits)
qed

lemma clock_cb_ok:
  assumes "ts_ok w" and "0 \<le> msg_sec m"
  shows "fst (clock_cb clock_answers_ok m w) = None" "ts_ok (snd (clock_cb clock_answers_ok m w))"
    "clock_subscription (ts w) \<Longrightarrow> last_msg_set (ts (snd (clock_cb clock_answers_ok m w))) = Some m"
proof -
  let ?r = "clock_cb clock_answers_ok m w"
  have on: "parameter_state (ts w) = Some SET_TRUE \<Longrightarrow> ros_time_active (ts w)"
    and sub: "clock_subscription (ts w) \<Longrightarrow> parameter_state (ts w) = Some SET_TRUE"
    and none: "attached_node (ts w) = None \<Longrightarrow> parameter_state (ts w) = None"
    using assms(1) by (simp_all add: ts_ok_def)
  consider (none) "attached_node (ts w) = None" | (off) "attached_node (ts w) \<noteq> None" "parameter_state (ts w) \<noteq> Some SET_TRUE"
    | (on) "attached_node (ts w) \<noteq> None" "parameter_state (ts w) = Some SET_TRUE" by blast
  then have "fst ?r = None \<and> ts_ok (snd ?r) \<and> (clock_subscription (ts w) \<longrightarrow> last_msg_set (ts (snd ?r)) = Some m)"
  proof cases
    case none
    then have "parameter_state (ts w) = None" using assms(1) by (simp add: ts_ok_def)
    then have "\<not> clock_subscription (ts w)" using sub by auto
    then show ?thesis using none assms(1) by (simp add: clock_cb_def)
  next
    case off
    then have r: "?r = (None, cache_last_msg m w)" by (auto simp: clock_cb_def cache_last_msg_def)
    have "ts_ok (cache_last_msg m w)" using assms off(2) by (simp add: ts_ok_def cache_last_msg_def)
    then show ?thesis using r sub off(2) by auto
  next
    case on
    have active: "ros_time_active (ts w)" using assms(1) on(2) by (simp add: ts_ok_def)
    have r: "?r = set_all_clocks clock_answers_ok m True (cache_last_msg m w)"
      using on active by (auto simp: clock_cb_def cache_last_msg_def)
    show ?thesis
      using assms(1) active on unfolding r set_all_clocks_ok [OF assms(2)] cache_last_msg_def
      by (simp add: ts_ok_def assms(2))
  qed
  then show "fst ?r = None" "ts_ok (snd ?r)" "clock_subscription (ts w) \<Longrightarrow> last_msg_set (ts (snd ?r)) = Some m"
    by blast+
qed

lemma follow_parameter_ok:
  assumes "ts_ok w" and "attached_node (ts w) \<noteq> None"
  shows "fst (follow_parameter clock_answers_ok True ps w) = None \<and> ts_ok (snd (follow_parameter clock_answers_ok True ps w))"
  using assms
proof (induction ps arbitrary: w)
  case (Cons p ps)
  let ?r = "case param_value p of BoolValue b \<Rightarrow> if b then turn_on clock_answers_ok True w else turn_off clock_answers_ok w | _ \<Rightarrow> (None, w)"
  have "fst ?r = None \<and> ts_ok (snd ?r) \<and> attached_node (ts (snd ?r)) = attached_node (ts w)"
    using turn_on_ok [OF Cons.prems] turn_off_ok [OF Cons.prems] Cons.prems(1) by (cases "param_value p") simp_all
  moreover obtain w1 where "?r = (fst ?r, w1)" by (metis prod.collapse)
  ultimately have r: "?r = (None, w1)" "ts_ok w1" "attached_node (ts w1) \<noteq> None"
    using Cons.prems(2) by (metis snd_conv)+
  then show ?case using Cons.IH [OF r(2,3)] by (simp only: follow_parameter.simps r(1)) simp
qed simp

lemma on_parameter_event_ok:
  assumes "ts_ok w" and "ParameterEventsFilter event [''use_sim_time''] [DELETED] = []"
  shows "ts_ok (snd (on_parameter_event clock_answers_ok True event w))"
proof (cases "attached_node (ts w) = Some (event_node event)")
  case True
  obtain r w1 where f: "follow_parameter clock_answers_ok True
      (map snd (ParameterEventsFilter event [''use_sim_time''] [NEW, CHANGED])) w = (r, w1)" by force
  from follow_parameter_ok [OF assms(1), of "map snd (ParameterEventsFilter event [''use_sim_time''] [NEW, CHANGED])"]
  have "r = None" "ts_ok w1" using True f by simp_all
  then show ?thesis using True assms(2) by (simp add: on_parameter_event_def f)
qed (simp add: on_parameter_event_def assms(1))

text \<open>
  The life of a time source: with an rcl whose functions succeed, messages with times that are not
  negative, and a parameter that is set and changed but not deleted.
\<close>

inductive ts_reachable :: "ts_world \<Rightarrow> bool" where
  ts_new: "ts w = NodeState b \<Longrightarrow> ts_reachable w"
| ts_attach_clock: "ts_reachable w \<Longrightarrow> ts_reachable (snd (attachClock clock_answers_ok c w))"
| ts_detach_clock: "ts_reachable w \<Longrightarrow> ts_reachable (detachClock c w)"
| ts_attach_node: "ts_reachable w \<Longrightarrow> ts_reachable (snd (attachNode clock_answers_ok True node (v :: unit parameter_value) w))"
| ts_detach_node: "ts_reachable w \<Longrightarrow> ts_reachable (snd (detachNode clock_answers_ok b w))"
| ts_message: "ts_reachable w \<Longrightarrow> clock_subscription (ts w) \<Longrightarrow> 0 \<le> msg_sec m \<Longrightarrow>
    ts_reachable (snd (clock_cb clock_answers_ok m w))"
| ts_event: "ts_reachable w \<Longrightarrow> ParameterEventsFilter (event :: unit parameter_event) [''use_sim_time''] [DELETED] = [] \<Longrightarrow>
    ts_reachable (snd (on_parameter_event clock_answers_ok True event w))"

lemma ts_reachable_ok: "ts_reachable w \<Longrightarrow> ts_ok w"
proof (induction rule: ts_reachable.induct)
  case (ts_new w b)
  then show ?case by (simp add: ts_ok_def NodeState_def)
qed (simp_all add: attachClock_ok detachClock_ok attachNode_ok detachNode_ok clock_cb_ok on_parameter_event_ok)


lemma clock_cb_on:
  assumes "ts_ok w" and "parameter_state (ts w) = Some SET_TRUE"
  shows "clock_cb clock_answers_ok m w = set_all_clocks clock_answers_ok m True (cache_last_msg m w)"
proof -
  have "ros_time_active (ts w)" "attached_node (ts w) \<noteq> None" using assms by (auto simp: ts_ok_def)
  then show ?thesis using assms(2) by (auto simp: clock_cb_def cache_last_msg_def)
qed


definition example_source :: ts_world where
  "example_source = snd (attachNode clock_answers_ok True ''/n'' (BoolValue True :: unit parameter_value)
     (snd (attachClock clock_answers_ok 3 \<lparr>ros_clocks = (\<lambda>_. \<lparr>ck_type = RCL_ROS_TIME, ros_time_enabled = False, ros_time_override = 7\<rparr>),
        ts = NodeState False\<rparr>)))"


text \<open>
  Deleting \<open>use_sim_time\<close> leaves ROS time on but stops the messages from reaching the clocks, which
  stand still from then on.
\<close>

lemma deleted_parameter_freezes:
  assumes "ts_ok w" and "parameter_state (ts w) = Some SET_TRUE" and "attached_node (ts w) = Some (event_node event)"
    and "ParameterEventsFilter event [''use_sim_time''] [NEW, CHANGED] = []"
    and "ParameterEventsFilter event [''use_sim_time''] [DELETED] \<noteq> []"
  shows "\<exists>w1. on_parameter_event rcl sub_ok event w = (None, w1) \<and> ros_time_active (ts w1) \<and> clock_subscription (ts w1) \<and>
    (\<forall>m. ros_clocks (snd (clock_cb rcl m w1)) = ros_clocks w1)"
  using assms by (simp add: on_parameter_event_def ts_ok_def clock_cb_def cache_last_msg_def)

text \<open>Detaching a node forgets the clocks, so a node that is attached afterwards drives none of them.\<close>

lemma reattached_node_drives_no_clock:
  assumes "ts_ok w" and "attached_node (ts w) \<noteq> None"
  shows "\<exists>w1. detachNode clock_answers_ok b w = (None, w1) \<and> associated_clocks (ts w1) = [] \<and>
    ros_clocks (snd (clock_cb clock_answers_ok m (snd (attachNode clock_answers_ok True node (BoolValue True :: unit parameter_value) w1)))) = ros_clocks w1"
proof -
  have zero: "0 \<le> msg_sec zero_time_msg" by (simp add: zero_time_msg_def)
  obtain w0 where d: "NodeState_detachNode clock_answers_ok w = (None, w0)"
    using set_all_clocks_ok [OF zero] by (cases "ros_time_active (ts w)")
      (auto simp: NodeState_detachNode_def disable_ros_time_def destroy_clock_sub_def)
  let ?w1 = "w0\<lparr>ts := NodeState b\<rparr>"
  have "detachNode clock_answers_ok b w = (None, ?w1)" using d assms(2) by (auto simp: detachNode_def)
  moreover have "ros_clocks (snd (clock_cb clock_answers_ok m (snd (attachNode clock_answers_ok True node (BoolValue True :: unit parameter_value) ?w1)))) = ros_clocks ?w1"
    by (simp add: attachNode_def turn_on_def enable_ros_time_def set_all_clocks_def create_clock_sub_def NodeState_def
        clock_cb_def cache_last_msg_def Let_def)
  ultimately show ?thesis by (intro exI [of _ ?w1]) (simp add: NodeState_def)
qed


end
