(* ===== verification/Clock_Sleep.thy ===== *)
theory Clock_Sleep
  imports Time_Arithmetic
begin

text \<open>
  Sleeping on a clock (\<open>sleep_until\<close>, \<open>sleep_for\<close> and \<open>wait_until_started\<close> of \<open>clock.cpp\<close>).  What a sleeping
  thread observes when it is woken is given as a list: the clock, whether the context is valid, and
  whether the source of ROS time has changed since the sleep began.
\<close>

section \<open>Sleeping\<close>

record observation =
  ob_now :: int
  ob_valid :: bool
  ob_changed :: bool

definition goes_on :: "clock_type \<Rightarrow> int \<Rightarrow> observation \<Rightarrow> bool" where
  "goes_on clock until ob \<longleftrightarrow> ob_now ob < until \<and> ob_valid ob \<and> \<not> (clock = RCL_ROS_TIME \<and> ob_changed ob)"

text \<open>The loop, and the observations that follow it.\<close>

fun sleep_turns :: "clock_type \<Rightarrow> int \<Rightarrow> observation list \<Rightarrow> observation list option" where
  "sleep_turns clock until [] = None"
| "sleep_turns clock until (ob # obs) = (if goes_on clock until ob then sleep_turns clock until obs else Some obs)"

definition after_sleep :: "clock_type \<Rightarrow> int \<Rightarrow> observation list \<Rightarrow> bool option" where
  "after_sleep clock until obs =
     (case obs of
        [] \<Rightarrow> None
      | ob # _ \<Rightarrow>
          Some (if \<not> ob_valid ob \<or> clock = RCL_ROS_TIME \<and> ob_changed ob then False else ob_now ob \<ge> until))"

text \<open>
  No result means that the thread still sleeps after these observations.  A sleep on the steady clock
  first computes the time that is left.
\<close>

definition sleep_until :: "clock_type \<Rightarrow> bool \<Rightarrow> time \<Rightarrow> int \<Rightarrow> observation list \<Rightarrow> rclcpp_exn + bool option" where
  "sleep_until clock context_ok until entry obs =
     (let sleep = (case sleep_turns clock (nanoseconds until) obs of
                     None \<Rightarrow> None | Some rest \<Rightarrow> after_sleep clock (nanoseconds until) rest)
      in if \<not> context_ok then Inl (RuntimeError ''context cannot be slept with because it's invalid'')
         else if time_clock until \<noteq> clock then Inl (RuntimeError ''until's clock type does not match this clock's type'')
         else case clock of
                RCL_STEADY_TIME \<Rightarrow>
                  (case time_difference until (Time_of_ns entry clock) of Inl x \<Rightarrow> Inl x | Inr _ \<Rightarrow> Inr sleep)
              | RCL_SYSTEM_TIME \<Rightarrow> Inr sleep
              | RCL_ROS_TIME \<Rightarrow> Inr sleep
              | RCL_CLOCK_UNINITIALIZED \<Rightarrow> Inr (after_sleep clock (nanoseconds until) obs))"

definition clock_sleep_for :: "clock_type \<Rightarrow> bool \<Rightarrow> int \<Rightarrow> duration \<Rightarrow> int \<Rightarrow> observation list \<Rightarrow> rclcpp_exn + bool option" where
  "clock_sleep_for clock context_ok now rel_time entry obs =
     (case time_plus (Time_of_ns now clock) rel_time of
        Inl x \<Rightarrow> Inl x
      | Inr until \<Rightarrow> sleep_until clock context_ok until entry obs)"

definition clock_started :: "bool \<Rightarrow> bool \<Rightarrow> rclcpp_exn + bool" where
  "clock_started clock_valid time_started =
     (if clock_valid then Inr time_started else Inl (RuntimeError ''clock is not rcl_clock_valid''))"

definition wait_until_started ::
    "clock_type \<Rightarrow> bool \<Rightarrow> bool \<Rightarrow> bool \<Rightarrow> int \<Rightarrow> observation list \<Rightarrow> rclcpp_exn + bool option" where
  "wait_until_started clock context_ok clock_valid time_started entry obs =
     (if \<not> context_ok then Inl (RuntimeError ''context cannot be slept with because it's invalid'')
      else if \<not> clock_valid then Inl (RuntimeError ''clock cannot be waited on as it is not rcl_clock_valid'')
      else if time_started then Inr (Some True)
      else sleep_until clock context_ok (Time_of_ns 1 clock) entry obs)"

section \<open>Waiting for a clock with a time limit\<close>

text \<open>
  One turn: whether the clock has started and the context is valid, the steady clock when the rest is
  computed, the steady clock after the sleep, and whether the clock has started then.
\<close>

record start_turn =
  has_started :: bool
  st_valid :: bool
  before_sleep :: int
  after_sleep_time :: int
  has_started_then :: bool

abbreviation steady :: "int \<Rightarrow> time" where
  "steady ns \<equiv> Time_of_ns ns RCL_STEADY_TIME"

definition sleep_time :: "duration \<Rightarrow> duration \<Rightarrow> int \<Rightarrow> int \<Rightarrow> rclcpp_exn + duration" where
  "sleep_time timeout wait_tick start now =
     (if timeout < wait_tick then Inr timeout
      else case time_plus (steady start) timeout of
             Inl x \<Rightarrow> Inl x
           | Inr deadline \<Rightarrow>
               (case time_difference deadline (steady now) of
                  Inl x \<Rightarrow> Inl x
                | Inr time_left \<Rightarrow> Inr (if time_left > wait_tick then wait_tick else time_left)))"

text \<open>The sleeps that are asked for, and the result.\<close>

fun start_turns :: "duration \<Rightarrow> duration \<Rightarrow> int \<Rightarrow> start_turn list \<Rightarrow> duration list \<times> (rclcpp_exn + bool) option" where
  "start_turns timeout wait_tick start [] = ([], None)"
| "start_turns timeout wait_tick start (t # turns) =
     (if has_started t \<or> \<not> st_valid t then ([], Some (Inr (has_started t)))
      else case sleep_time timeout wait_tick start (before_sleep t) of
             Inl x \<Rightarrow> ([], Some (Inl x))
           | Inr d \<Rightarrow>
               (case time_difference (steady (after_sleep_time t)) (steady start) of
                  Inl x \<Rightarrow> ([d], Some (Inl x))
                | Inr elapsed \<Rightarrow>
                    if elapsed > timeout then ([d], Some (Inr (has_started_then t)))
                    else case start_turns timeout wait_tick start turns of (ds, r) \<Rightarrow> (d # ds, r)))"

definition wait_until_started_within ::
    "bool \<Rightarrow> bool \<Rightarrow> duration \<Rightarrow> duration \<Rightarrow> int \<Rightarrow> start_turn list \<Rightarrow> duration list \<times> (rclcpp_exn + bool) option" where
  "wait_until_started_within context_ok clock_valid timeout wait_tick start turns =
     (if \<not> context_ok then ([], Some (Inl (RuntimeError ''context cannot be slept with because it's invalid'')))
      else if \<not> clock_valid then ([], Some (Inl (RuntimeError ''clock cannot be waited on as it is not rcl_clock_valid'')))
      else start_turns timeout wait_tick start turns)"

section \<open>What a sleep returns\<close>

lemma sleep_turns_drop:
  "sleep_turns clock until obs = (case dropWhile (goes_on clock until) obs of [] \<Rightarrow> None | _ # rest \<Rightarrow> Some rest)"
  by (induction obs) simp_all



text \<open>With a time limit, no sleep is longer than the tick or than the time that is left.\<close>

lemma sleep_time_bounded:
  assumes "sleep_time timeout wait_tick start now = Inr d" and "in_int64 start" "in_int64 timeout" "in_int64 now" and "start \<le> now"
  shows "d \<le> wait_tick \<and> d \<le> timeout"
proof (cases "timeout < wait_tick")
  case True
  then show ?thesis using assms(1) by (simp add: sleep_time_def)
next
  case False
  with assms(1) obtain deadline time_left where d: "time_plus (steady start) timeout = Inr deadline"
    "time_difference deadline (steady now) = Inr time_left" "d = (if time_left > wait_tick then wait_tick else time_left)"
    by (auto simp: sleep_time_def split: sum.splits)
  have "nanoseconds deadline = start + timeout" "in_int64 (start + timeout)"
    using d(1) assms(2,3) by (auto simp: time_plus_def Time_of_ns_def add_will_overflow_def add_will_underflow_def to_int64_def
        in_int64_def int64_max_def int64_min_def split: if_splits)
  then have "time_left = start + timeout - now"
    using d(2) assms(4) by (auto simp: time_difference_def Time_of_ns_def sub_will_overflow_def sub_will_underflow_def to_int64_def
        in_int64_def int64_max_def int64_min_def split: if_splits)
  then show ?thesis using d(3) assms(5) False by (simp split: if_splits)
qed

end
